(* ===== verification/Prelude.thy ===== *)
theory Prelude
  imports Main "HOL-Library.Word"
begin

text \<open>
  Shared vocabulary of the development: machine-integer and string types, the decimal
  rendering and parsing that the formatted strings of the code use, the list view of a keyed
  SQL table, and the theorem collections that carry the component proofs.
\<close>

section \<open>Types\<close>

type_synonym u8 = "8 word"
type_synonym u16 = "16 word"
type_synonym u32 = "32 word"
type_synonym u64 = "64 word"
type_synonym bytes = "u8 list"

text \<open>
  Identifiers, tags and error texts are byte strings (\<open>string\<close>). User text is a sequence of
  Unicode scalar values, which is what Rust's \<open>chars()\<close> yields.
\<close>

type_synonym uchar = nat
type_synonym ustr = "uchar list"

definition lit :: "string \<Rightarrow> ustr" where
  "lit s = map of_char s"

definition str_bytes :: "string \<Rightarrow> bytes" where
  "str_bytes s = map (\<lambda>c. word_of_nat (of_char c)) s"

text \<open>The casts between \<open>u64\<close>/\<open>u32\<close> and the signed types that Rust writes \<open>as i64\<close>, \<open>as u64\<close>.\<close>

definition u64_as_i64 :: "u64 \<Rightarrow> int" where
  "u64_as_i64 w = sint w"

definition i64_as_u64 :: "int \<Rightarrow> u64" where
  "i64_as_u64 i = word_of_int i"

definition u32_as_i32 :: "u32 \<Rightarrow> int" where
  "u32_as_i32 w = sint w"

named_theorems store_simps \<open>evaluation of store actions\<close>
named_theorems keeps_intros \<open>actions that leave the committed image alone inside a savepoint\<close>

text \<open>
  Rust's \<open>{:?}\<close> of a string: quotes, backslash and the named controls are escaped. (Other
  non-printing characters, which it writes in hexadecimal, do not occur in the column values.)
\<close>

definition debug_char :: "char \<Rightarrow> string" where
  "debug_char c =
     (let n = of_char c :: nat; bs = char_of (92 :: nat) in
      if n = 34 \<or> n = 92 then [bs, c]
      else if n = 10 then [bs, CHR ''n''] else if n = 13 then [bs, CHR ''r'']
      else if n = 9 then [bs, CHR ''t''] else if n = 0 then [bs, CHR ''0''] else [c])"

definition debug_str :: "string \<Rightarrow> string" where
  "debug_str s = (let q = char_of (34 :: nat) in [q] @ concat (map debug_char s) @ [q])"

section \<open>Results\<close>

fun is_ok :: "'e + 'a \<Rightarrow> bool" where
  "is_ok (Inl e) = False"
| "is_ok (Inr a) = True"

lemma is_ok_iff: "is_ok r \<longleftrightarrow> (\<exists>a. r = Inr a)"
  by (cases r) auto

lemma not_is_ok_iff: "\<not> is_ok r \<longleftrightarrow> (\<exists>e. r = Inl e)"
  by (cases r) auto

section \<open>Decimal rendering and parsing\<close>

definition digit :: "nat \<Rightarrow> char" where
  "digit d = char_of (48 + d)"

fun dec_nat :: "nat \<Rightarrow> string" where
  "dec_nat n = (if n < 10 then [digit n] else dec_nat (n div 10) @ [digit (n mod 10)])"

declare dec_nat.simps [simp del]

definition dec_int :: "int \<Rightarrow> string" where
  "dec_int i = (if i < 0 then ''-'' @ dec_nat (nat (- i)) else dec_nat (nat i))"

definition is_digit_char :: "char \<Rightarrow> bool" where
  "is_digit_char c \<longleftrightarrow> 48 \<le> (of_char c :: nat) \<and> (of_char c :: nat) \<le> 57"

definition digit_val :: "char \<Rightarrow> nat" where
  "digit_val c = of_char c - 48"

definition digits_val :: "string \<Rightarrow> nat" where
  "digits_val s = foldl (\<lambda>a c. 10 * a + digit_val c) 0 s"

text \<open>\<open>str::parse::<u64>\<close>: an optional plus sign, at least one digit, no overflow.\<close>

definition parse_u64 :: "string \<Rightarrow> nat option" where
  "parse_u64 s =
     (let ds = (case s of c # cs \<Rightarrow> if c = CHR ''+'' then cs else s | [] \<Rightarrow> [])
      in if ds \<noteq> [] \<and> list_all is_digit_char ds \<and> digits_val ds < 2 ^ 64
         then Some (digits_val ds) else None)"

lemma of_char_digit: "d < 10 \<Longrightarrow> of_char (digit d) = 48 + d"
  by (simp add: digit_def)

lemma digit_facts [simp]:
  "d < 10 \<Longrightarrow> is_digit_char (digit d)"
  "d < 10 \<Longrightarrow> digit_val (digit d) = d"
  by (simp_all add: is_digit_char_def digit_val_def of_char_digit)

lemma digits_val_snoc: "digits_val (s @ [c]) = 10 * digits_val s + digit_val c"
  by (simp add: digits_val_def)

lemma dec_nat_digits: "list_all is_digit_char (dec_nat n) \<and> dec_nat n \<noteq> [] \<and> digits_val (dec_nat n) = n"
proof (induction n rule: dec_nat.induct)
  case (1 n)
  show ?case
  proof (cases "n < 10")
    case True
    then show ?thesis
      by (simp add: dec_nat.simps [of n] digits_val_def)
  next
    case False
    with 1 show ?thesis
      by (simp add: dec_nat.simps [of n] digits_val_snoc)
  qed
qed

lemma parse_u64_dec_nat: "n < 2 ^ 64 \<Longrightarrow> parse_u64 (dec_nat n) = Some n"
proof -
  assume n: "n < 2 ^ 64"
  obtain c cs where d: "dec_nat n = c # cs"
    using dec_nat_digits [of n] by (cases "dec_nat n") auto
  then have "is_digit_char c" using dec_nat_digits [of n] by simp
  then have "c \<noteq> CHR ''+''" by (auto simp: is_digit_char_def)
  with n d dec_nat_digits [of n] show ?thesis
    by (auto simp: parse_u64_def)
qed

lemma parse_u64_bound: "parse_u64 s = Some n \<Longrightarrow> n < 2 ^ 64"
  by (auto simp: parse_u64_def Let_def split: if_splits)

lemma inj_dec_nat: "inj dec_nat"
  by (rule inj_on_inverseI [of _ digits_val]) (simp add: dec_nat_digits)

section \<open>Keyed tables\<close>

text \<open>
  A SQL table is the list of its rows in \<open>rowid\<close> order. The operations below are what the
  statements of the code do: \<open>INSERT OR REPLACE\<close> on a primary key, \<open>INSERT OR IGNORE\<close>,
  \<open>UPDATE .. WHERE\<close>, \<open>DELETE .. WHERE\<close> and a point lookup.
\<close>

definition upsert :: "('a \<Rightarrow> 'k) \<Rightarrow> 'a \<Rightarrow> 'a list \<Rightarrow> 'a list" where
  "upsert key r t = filter (\<lambda>x. key x \<noteq> key r) t @ [r]"

definition insert_ignore :: "'a \<Rightarrow> 'a list \<Rightarrow> 'a list" where
  "insert_ignore r t = (if r \<in> set t then t else t @ [r])"

definition update_where :: "('a \<Rightarrow> bool) \<Rightarrow> ('a \<Rightarrow> 'a) \<Rightarrow> 'a list \<Rightarrow> 'a list" where
  "update_where P f t = map (\<lambda>x. if P x then f x else x) t"

definition delete_where :: "('a \<Rightarrow> bool) \<Rightarrow> 'a list \<Rightarrow> 'a list" where
  "delete_where P t = filter (\<lambda>x. \<not> P x) t"

definition row_of :: "('a \<Rightarrow> 'k) \<Rightarrow> 'k \<Rightarrow> 'a list \<Rightarrow> 'a option" where
  "row_of key k t = find (\<lambda>x. key x = k) t"

definition keys_unique :: "('a \<Rightarrow> 'k) \<Rightarrow> 'a list \<Rightarrow> bool" where
  "keys_unique key t \<longleftrightarrow> distinct (map key t)"

lemma set_upsert: "set (upsert key r t) = {x \<in> set t. key x \<noteq> key r} \<union> {r}"
  by (auto simp: upsert_def)

lemma set_insert_ignore [simp]: "set (insert_ignore r t) = insert r (set t)"
  by (auto simp: insert_ignore_def)

lemma distinct_insert_ignore: "distinct t \<Longrightarrow> distinct (insert_ignore r t)"
  by (simp add: insert_ignore_def)

lemma set_delete_where [simp]: "set (delete_where P t) = {x \<in> set t. \<not> P x}"
  by (simp add: delete_where_def)

lemma set_update_where: "set (update_where P f t) = (\<lambda>x. if P x then f x else x) ` set t"
  by (simp add: update_where_def)

lemma keys_unique_upsert: "keys_unique key t \<Longrightarrow> keys_unique key (upsert key r t)"
  by (auto simp: keys_unique_def upsert_def distinct_map_filter)

lemma keys_unique_delete: "keys_unique key t \<Longrightarrow> keys_unique key (delete_where P t)"
  by (auto simp: keys_unique_def delete_where_def distinct_map_filter)

lemma map_key_update:
  "(\<And>x. key (f x) = key x) \<Longrightarrow> map key (update_where P f t) = map key t"
  by (induction t) (auto simp: update_where_def)

lemma row_of_None: "row_of key k t = None \<longleftrightarrow> k \<notin> key ` set t"
  by (auto simp: row_of_def find_None_iff)

lemma row_of_SomeD: "row_of key k t = Some r \<Longrightarrow> r \<in> set t \<and> key r = k"
  by (auto simp: row_of_def find_Some_iff)

lemma row_of_append:
  "row_of key k (xs @ ys) = (case row_of key k xs of None \<Rightarrow> row_of key k ys | Some r \<Rightarrow> Some r)"
  by (induction xs) (auto simp: row_of_def)

lemma row_of_filter_other:
  "(\<And>x. key x = k \<Longrightarrow> P x) \<Longrightarrow> row_of key k (filter P t) = row_of key k t"
  by (induction t) (auto simp: row_of_def)

lemma row_of_upsert:
  "row_of key k (upsert key r t) = (if k = key r then Some r else row_of key k t)"
proof (cases "k = key r")
  case True
  then have "row_of key k (filter (\<lambda>x. key x \<noteq> key r) t) = None"
    by (auto simp: row_of_None)
  with True show ?thesis by (simp add: upsert_def row_of_append) (simp add: row_of_def)
next
  case False
  then have "row_of key k (filter (\<lambda>x. key x \<noteq> key r) t) = row_of key k t"
    by (intro row_of_filter_other) auto
  with False show ?thesis
    by (simp add: upsert_def row_of_append) (simp add: row_of_def split: option.split)
qed

lemma row_of_update:
  assumes "\<And>x. key (f x) = key x"
  shows "row_of key k (update_where P f t) =
    map_option (\<lambda>x. if P x then f x else x) (row_of key k t)"
  using assms by (induction t) (auto simp: row_of_def update_where_def)

lemma row_of_delete_key:
  "row_of key k (delete_where (\<lambda>x. key x = k') t) = (if k = k' then None else row_of key k t)"
  by (induction t) (auto simp: row_of_def delete_where_def)

lemma row_of_Some_unique:
  "keys_unique key t \<Longrightarrow> r \<in> set t \<Longrightarrow> row_of key (key r) t = Some r"
  by (induction t) (force simp: row_of_def keys_unique_def)+

text \<open>
  The interface a client of a keyed table relies on: what a point lookup returns after an
  upsert, an update in place and a delete, and that keys stay unique.
\<close>

locale keyed_table =
  fixes key :: "'r \<Rightarrow> 'k"
    and ins :: "'r \<Rightarrow> 't \<Rightarrow> 't"
    and del :: "'k \<Rightarrow> 't \<Rightarrow> 't"
    and look :: "'k \<Rightarrow> 't \<Rightarrow> 'r option"
    and inv :: "'t \<Rightarrow> bool"
  assumes look_ins: "look k (ins r t) = (if k = key r then Some r else look k t)"
    and look_del: "look k (del k' t) = (if k = k' then None else look k t)"
    and look_key: "look k t = Some r \<Longrightarrow> key r = k"
    and inv_ins: "inv t \<Longrightarrow> inv (ins r t)"
    and inv_del: "inv t \<Longrightarrow> inv (del k t)"
begin

lemma look_ins_same: "look (key r) (ins r t) = Some r"
  by (simp add: look_ins)

lemma look_ins_overwrites: "key r = key r' \<Longrightarrow> look k (ins r (ins r' t)) = look k (ins r t)"
  by (simp add: look_ins)

lemma look_fold_ins:
  "look k (fold ins rs t) =
     (case find (\<lambda>r. key r = k) (rev rs) of None \<Rightarrow> look k t | Some r \<Rightarrow> Some r)"
proof (induction rs rule: rev_induct)
  case Nil
  then show ?case by simp
next
  case (snoc r rs)
  then show ?case by (auto simp: look_ins)
qed

lemma inv_fold_ins: "inv t \<Longrightarrow> inv (fold ins rs t)"
  by (induction rs arbitrary: t) (auto simp: inv_ins)

lemma look_fold_ins_distinct:
  assumes "distinct (map key rs)" and "r \<in> set rs"
  shows "look (key r) (fold ins rs t) = Some r"
proof -
  from assms(2) obtain r' where f: "find (\<lambda>x. key x = key r) (rev rs) = Some r'"
    by (cases "find (\<lambda>x. key x = key r) (rev rs)") (auto simp: find_None_iff)
  then have "r' \<in> set rs \<and> key r' = key r"
    by (metis (mono_tags, lifting) find_Some_iff in_set_conv_nth set_rev)
  with assms have "r' = r"
    by (auto simp: distinct_map inj_on_def)
  with f show ?thesis by (simp add: look_fold_ins)
qed

end

lemma keyed_table_upsert:
  "keyed_table key (upsert key) (\<lambda>k. delete_where (\<lambda>x. key x = k)) (row_of key) (keys_unique key)"
  by unfold_locales
    (auto simp: row_of_upsert row_of_delete_key keys_unique_upsert keys_unique_delete
      dest: row_of_SomeD)

end
