(* ===== verification/StateMachines.thy ===== *)
theory StateMachines
  imports Prelude
begin

text \<open>
  The state machines of \<open>local_store/state_machines.rs\<close>: body, media, archive, backup and restore
  states, their canonical column strings (\<open>Display\<close> / \<open>FromStr\<close>) and \<open>try_transition\<close>.
  Two interfaces carry the proofs: \<open>wire_enum\<close> (a closed enum with an exact string form) and
  \<open>linear_lifecycle\<close> (a forward-only machine that visits its states in order).
\<close>

section \<open>Interfaces\<close>

datatype transition_error = Illegal string string | UnknownState string

text \<open>A column codec: what is written to a \<open>TEXT\<close> column reads back as the same value.\<close>

locale column_codec =
  fixes enc :: "'a \<Rightarrow> string"
    and dec :: "string \<Rightarrow> 'a"
  assumes dec_enc: "dec (enc x) = x"
begin

lemma enc_inj: "enc x = enc y \<longleftrightarrow> x = y"
  by (metis dec_enc)

lemma dec_enc_option: "map_option dec (map_option enc v) = v"
  by (cases v) (simp_all add: dec_enc)

end

text \<open>An enum whose \<open>FromStr\<close> accepts exactly the strings its \<open>Display\<close> produces.\<close>

locale wire_enum =
  fixes disp :: "'a \<Rightarrow> string"
    and from_str :: "string \<Rightarrow> transition_error + 'a"
  assumes from_disp: "from_str (disp x) = Inr x"
    and from_exact: "from_str s = Inr x \<Longrightarrow> s = disp x"
    and from_unknown: "from_str s = Inl e \<Longrightarrow> e = UnknownState s"
begin

lemma from_str_iff: "from_str s = Inr x \<longleftrightarrow> s = disp x"
  using from_disp from_exact by blast

lemma from_str_rejects: "from_str s = Inl (UnknownState s) \<longleftrightarrow> s \<notin> range disp"
proof
  assume "from_str s = Inl (UnknownState s)"
  then show "s \<notin> range disp" by (auto simp: from_disp)
next
  assume "s \<notin> range disp"
  then have "\<nexists>x. from_str s = Inr x" by (auto simp: from_str_iff)
  then obtain e where "from_str s = Inl e" by (cases "from_str s") auto
  then show "from_str s = Inl (UnknownState s)" using from_unknown by auto
qed

lemma disp_inj: "disp x = disp y \<Longrightarrow> x = y"
  by (metis from_disp sum.inject(2))

end

text \<open>With the fallback a reader passes to \<open>unwrap_or\<close>, an exact enum is a column codec.\<close>

definition from_str_or :: "(string \<Rightarrow> 'e + 'a) \<Rightarrow> 'a \<Rightarrow> string \<Rightarrow> 'a" where
  "from_str_or p d s = (case p s of Inl _ \<Rightarrow> d | Inr x \<Rightarrow> x)"

locale wire_enum_column = wire_enum disp from_str
  for disp :: "'a \<Rightarrow> string" and from_str :: "string \<Rightarrow> transition_error + 'a" +
  fixes dflt :: 'a

sublocale wire_enum_column \<subseteq> col: column_codec disp "from_str_or from_str dflt"
  by unfold_locales (simp add: from_str_or_def from_disp)

text \<open>A run of a machine: the transitions are tried in turn and stop at the first error.\<close>

primrec run_transitions :: "('a \<Rightarrow> 'a \<Rightarrow> 'e + 'a) \<Rightarrow> 'a \<Rightarrow> 'a list \<Rightarrow> 'e + 'a" where
  "run_transitions tr s [] = Inr s"
| "run_transitions tr s (t # ts) =
     (case tr s t of Inl e \<Rightarrow> Inl e | Inr s' \<Rightarrow> run_transitions tr s' ts)"

locale linear_lifecycle =
  fixes rank :: "'a \<Rightarrow> nat"
    and tr :: "'a \<Rightarrow> 'a \<Rightarrow> 'e + 'a"
  assumes rank_inj: "rank a = rank b \<Longrightarrow> a = b"
    and try_iff: "tr a b = Inr c \<longleftrightarrow> c = b \<and> rank b = Suc (rank a)"
begin

lemma try_step: "tr a b = Inr c \<Longrightarrow> rank c = Suc (rank a)"
  by (simp add: try_iff)

lemma run_ranks:
  "run_transitions tr s ts = Inr t \<Longrightarrow> map rank ts = [Suc (rank s)..<Suc (rank s + length ts)]
     \<and> rank t = rank s + length ts"
proof (induction ts arbitrary: s)
  case Nil
  then show ?case by simp
next
  case (Cons a ts)
  then obtain s' where t: "tr s a = Inr s'" and r: "run_transitions tr s' ts = Inr t"
    by (auto split: sum.splits)
  from t have s': "s' = a" "rank a = Suc (rank s)" by (auto simp: try_iff)
  from Cons.IH [OF r] s' show ?case by (simp add: upt_rec)
qed

text \<open>No state is skipped, repeated or left backwards, so a run is fixed by its two ends.\<close>

lemma run_deterministic:
  assumes "run_transitions tr s ts = Inr t" and "run_transitions tr s us = Inr t"
  shows "ts = us"
proof -
  from run_ranks [OF assms(1)] run_ranks [OF assms(2)]
  have "map rank ts = map rank us" by simp
  then show ?thesis
    by (metis (mono_tags, lifting) injI inj_map_eq_map rank_inj)
qed

lemma run_no_return: "ts \<noteq> [] \<Longrightarrow> run_transitions tr s ts = Inr t \<Longrightarrow> t \<noteq> s"
  using run_ranks [of s ts t] by auto

lemma run_distinct: "run_transitions tr s ts = Inr t \<Longrightarrow> distinct (s # ts)"
proof -
  assume "run_transitions tr s ts = Inr t"
  then have m: "map rank (s # ts) = rank s # [Suc (rank s)..<Suc (rank s + length ts)]"
    using run_ranks by simp
  have "distinct (map rank (s # ts))" unfolding m by auto
  then show ?thesis by (rule distinct_map [THEN iffD1, THEN conjunct1])
qed

end

section \<open>Body state\<close>

datatype body_state =
    LocalPlainAvailable
  | LocalEncryptedAvailable
  | RemoteArchiveOnly
  | DeliveryStoreOnly
  | DeletedForMe
  | DeletedForEveryone
  | Unavailable

fun body_to_string :: "body_state \<Rightarrow> string" where
  "body_to_string LocalPlainAvailable = ''local_plain_available''"
| "body_to_string LocalEncryptedAvailable = ''local_encrypted_available''"
| "body_to_string RemoteArchiveOnly = ''remote_archive_only''"
| "body_to_string DeliveryStoreOnly = ''delivery_store_only''"
| "body_to_string DeletedForMe = ''deleted_for_me''"
| "body_to_string DeletedForEveryone = ''deleted_for_everyone''"
| "body_to_string Unavailable = ''unavailable''"

definition body_from_str :: "string \<Rightarrow> transition_error + body_state" where
  "body_from_str s =
     (if s = ''local_plain_available'' then Inr LocalPlainAvailable
      else if s = ''local_encrypted_available'' then Inr LocalEncryptedAvailable
      else if s = ''remote_archive_only'' then Inr RemoteArchiveOnly
      else if s = ''delivery_store_only'' then Inr DeliveryStoreOnly
      else if s = ''deleted_for_me'' then Inr DeletedForMe
      else if s = ''deleted_for_everyone'' then Inr DeletedForEveryone
      else if s = ''unavailable'' then Inr Unavailable
      else Inl (UnknownState s))"

definition body_try_transition :: "body_state \<Rightarrow> body_state \<Rightarrow> transition_error + body_state" where
  "body_try_transition from to =
     (if (from, to) \<in>
        {(LocalPlainAvailable, LocalEncryptedAvailable),
         (LocalEncryptedAvailable, LocalPlainAvailable),
         (LocalPlainAvailable, RemoteArchiveOnly),
         (RemoteArchiveOnly, LocalPlainAvailable),
         (LocalPlainAvailable, DeletedForMe),
         (LocalPlainAvailable, DeletedForEveryone),
         (DeliveryStoreOnly, LocalPlainAvailable),
         (RemoteArchiveOnly, Unavailable)}
      then Inr to else Inl (Illegal (body_to_string from) (body_to_string to)))"

interpretation body_col: wire_enum_column body_to_string body_from_str Unavailable
proof
  show "body_from_str (body_to_string x) = Inr x" for x
    by (cases x) (simp_all add: body_from_str_def)
  show "s = body_to_string x" if "body_from_str s = Inr x" for s x
    using that by (auto simp: body_from_str_def split: if_splits)
  show "e = UnknownState s" if "body_from_str s = Inl e" for s e
    using that by (auto simp: body_from_str_def split: if_splits)
qed

section \<open>Media state\<close>

datatype media_state =
    ThumbnailOnly
  | OriginalLocal
  | RemoteOriginal
  | DownloadInProgress
  | Evicted
  | Deleted

fun media_to_string :: "media_state \<Rightarrow> string" where
  "media_to_string ThumbnailOnly = ''thumbnail_only''"
| "media_to_string OriginalLocal = ''original_local''"
| "media_to_string RemoteOriginal = ''remote_original''"
| "media_to_string DownloadInProgress = ''download_in_progress''"
| "media_to_string Evicted = ''evicted''"
| "media_to_string Deleted = ''deleted''"

definition media_from_str :: "string \<Rightarrow> transition_error + media_state" where
  "media_from_str s =
     (if s = ''thumbnail_only'' then Inr ThumbnailOnly
      else if s = ''original_local'' then Inr OriginalLocal
      else if s = ''remote_original'' then Inr RemoteOriginal
      else if s = ''download_in_progress'' then Inr DownloadInProgress
      else if s = ''evicted'' then Inr Evicted
      else if s = ''deleted'' then Inr Deleted
      else Inl (UnknownState s))"

definition media_try_transition :: "media_state \<Rightarrow> media_state \<Rightarrow> transition_error + media_state" where
  "media_try_transition from to =
     (if (from, to) \<in>
        {(ThumbnailOnly, OriginalLocal),
         (ThumbnailOnly, RemoteOriginal),
         (OriginalLocal, Evicted),
         (OriginalLocal, Deleted),
         (Evicted, DownloadInProgress),
         (RemoteOriginal, DownloadInProgress),
         (DownloadInProgress, OriginalLocal)}
      then Inr to else Inl (Illegal (media_to_string from) (media_to_string to)))"

interpretation media_col: wire_enum_column media_to_string media_from_str ThumbnailOnly
proof
  show "media_from_str (media_to_string x) = Inr x" for x
    by (cases x) (simp_all add: media_from_str_def)
  show "s = media_to_string x" if "media_from_str s = Inr x" for s x
    using that by (auto simp: media_from_str_def split: if_splits)
  show "e = UnknownState s" if "media_from_str s = Inl e" for s e
    using that by (auto simp: media_from_str_def split: if_splits)
qed

section \<open>Archive state\<close>

datatype archive_state =
    NotArchived
  | ArchivePending
  | ArchiveUploaded
  | ArchiveVerified
  | ArchiveCompacted

fun archive_to_string :: "archive_state \<Rightarrow> string" where
  "archive_to_string NotArchived = ''not_archived''"
| "archive_to_string ArchivePending = ''archive_pending''"
| "archive_to_string ArchiveUploaded = ''archive_uploaded''"
| "archive_to_string ArchiveVerified = ''archive_verified''"
| "archive_to_string ArchiveCompacted = ''archive_compacted''"

definition archive_from_str :: "string \<Rightarrow> transition_error + archive_state" where
  "archive_from_str s =
     (if s = ''not_archived'' then Inr NotArchived
      else if s = ''archive_pending'' then Inr ArchivePending
      else if s = ''archive_uploaded'' then Inr ArchiveUploaded
      else if s = ''archive_verified'' then Inr ArchiveVerified
      else if s = ''archive_compacted'' then Inr ArchiveCompacted
      else Inl (UnknownState s))"

definition archive_try_transition :: "archive_state \<Rightarrow> archive_state \<Rightarrow> transition_error + archive_state" where
  "archive_try_transition from to =
     (if (from, to) \<in>
        {(NotArchived, ArchivePending),
         (ArchivePending, ArchiveUploaded),
         (ArchiveUploaded, ArchiveVerified),
         (ArchiveVerified, ArchiveCompacted)}
      then Inr to else Inl (Illegal (archive_to_string from) (archive_to_string to)))"

interpretation archive_col: wire_enum_column archive_to_string archive_from_str NotArchived
proof
  show "archive_from_str (archive_to_string x) = Inr x" for x
    by (cases x) (simp_all add: archive_from_str_def)
  show "s = archive_to_string x" if "archive_from_str s = Inr x" for s x
    using that by (auto simp: archive_from_str_def split: if_splits)
  show "e = UnknownState s" if "archive_from_str s = Inl e" for s e
    using that by (auto simp: archive_from_str_def split: if_splits)
qed

fun archive_rank :: "archive_state \<Rightarrow> nat" where
  "archive_rank NotArchived = 0"
| "archive_rank ArchivePending = 1"
| "archive_rank ArchiveUploaded = 2"
| "archive_rank ArchiveVerified = 3"
| "archive_rank ArchiveCompacted = 4"

interpretation archive_life: linear_lifecycle archive_rank archive_try_transition
proof
  show "a = b" if "archive_rank a = archive_rank b" for a b
    using that by (cases a; cases b) simp_all
  show "archive_try_transition a b = Inr c \<longleftrightarrow> c = b \<and> archive_rank b = Suc (archive_rank a)" for a b c
    by (cases a; cases b) (auto simp: archive_try_transition_def)
qed

section \<open>Backup state\<close>

datatype backup_state =
    NotBackedUp
  | BackupPending
  | BackupUploaded
  | BackupManifestCommitted
  | BackupExpired

fun backup_to_string :: "backup_state \<Rightarrow> string" where
  "backup_to_string NotBackedUp = ''not_backed_up''"
| "backup_to_string BackupPending = ''backup_pending''"
| "backup_to_string BackupUploaded = ''backup_uploaded''"
| "backup_to_string BackupManifestCommitted = ''backup_manifest_committed''"
| "backup_to_string BackupExpired = ''backup_expired''"

definition backup_from_str :: "string \<Rightarrow> transition_error + backup_state" where
  "backup_from_str s =
     (if s = ''not_backed_up'' then Inr NotBackedUp
      else if s = ''backup_pending'' then Inr BackupPending
      else if s = ''backup_uploaded'' then Inr BackupUploaded
      else if s = ''backup_manifest_committed'' then Inr BackupManifestCommitted
      else if s = ''backup_expired'' then Inr BackupExpired
      else Inl (UnknownState s))"

definition backup_try_transition :: "backup_state \<Rightarrow> backup_state \<Rightarrow> transition_error + backup_state" where
  "backup_try_transition from to =
     (if (from, to) \<in>
        {(NotBackedUp, BackupPending),
         (BackupPending, BackupUploaded),
         (BackupUploaded, BackupManifestCommitted),
         (BackupManifestCommitted, BackupExpired)}
      then Inr to else Inl (Illegal (backup_to_string from) (backup_to_string to)))"

interpretation backup_col: wire_enum_column backup_to_string backup_from_str NotBackedUp
proof
  show "backup_from_str (backup_to_string x) = Inr x" for x
    by (cases x) (simp_all add: backup_from_str_def)
  show "s = backup_to_string x" if "backup_from_str s = Inr x" for s x
    using that by (auto simp: backup_from_str_def split: if_splits)
  show "e = UnknownState s" if "backup_from_str s = Inl e" for s e
    using that by (auto simp: backup_from_str_def split: if_splits)
qed

fun backup_rank :: "backup_state \<Rightarrow> nat" where
  "backup_rank NotBackedUp = 0"
| "backup_rank BackupPending = 1"
| "backup_rank BackupUploaded = 2"
| "backup_rank BackupManifestCommitted = 3"
| "backup_rank BackupExpired = 4"

interpretation backup_life: linear_lifecycle backup_rank backup_try_transition
proof
  show "a = b" if "backup_rank a = backup_rank b" for a b
    using that by (cases a; cases b) simp_all
  show "backup_try_transition a b = Inr c \<longleftrightarrow> c = b \<and> backup_rank b = Suc (backup_rank a)" for a b c
    by (cases a; cases b) (auto simp: backup_try_transition_def)
qed

section \<open>Restore state\<close>

datatype restore_state =
    IdentityRestored
  | RootKeysUnwrapped
  | ManifestVerified
  | SkeletonRestored
  | SearchRestored
  | RecentMessagesRestored
  | MediaLazyRestoreEnabled
  | FullRestoreComplete

fun restore_to_string :: "restore_state \<Rightarrow> string" where
  "restore_to_string IdentityRestored = ''identity_restored''"
| "restore_to_string RootKeysUnwrapped = ''root_keys_unwrapped''"
| "restore_to_string ManifestVerified = ''manifest_verified''"
| "restore_to_string SkeletonRestored = ''skeleton_restored''"
| "restore_to_string SearchRestored = ''search_restored''"
| "restore_to_string RecentMessagesRestored = ''recent_messages_restored''"
| "restore_to_string MediaLazyRestoreEnabled = ''media_lazy_restore_enabled''"
| "restore_to_string FullRestoreComplete = ''full_restore_complete''"

definition restore_from_str :: "string \<Rightarrow> transition_error + restore_state" where
  "restore_from_str s =
     (if s = ''identity_restored'' then Inr IdentityRestored
      else if s = ''root_keys_unwrapped'' then Inr RootKeysUnwrapped
      else if s = ''manifest_verified'' then Inr ManifestVerified
      else if s = ''skeleton_restored'' then Inr SkeletonRestored
      else if s = ''search_restored'' then Inr SearchRestored
      else if s = ''recent_messages_restored'' then Inr RecentMessagesRestored
      else if s = ''media_lazy_restore_enabled'' then Inr MediaLazyRestoreEnabled
      else if s = ''full_restore_complete'' then Inr FullRestoreComplete
      else Inl (UnknownState s))"

definition restore_try_transition :: "restore_state \<Rightarrow> restore_state \<Rightarrow> transition_error + restore_state" where
  "restore_try_transition from to =
     (if (from, to) \<in>
        {(IdentityRestored, RootKeysUnwrapped),
         (RootKeysUnwrapped, ManifestVerified),
         (ManifestVerified, SkeletonRestored),
         (SkeletonRestored, SearchRestored),
         (SearchRestored, RecentMessagesRestored),
         (RecentMessagesRestored, MediaLazyRestoreEnabled),
         (MediaLazyRestoreEnabled, FullRestoreComplete)}
      then Inr to else Inl (Illegal (restore_to_string from) (restore_to_string to)))"

interpretation restore_col: wire_enum_column restore_to_string restore_from_str IdentityRestored
proof
  show "restore_from_str (restore_to_string x) = Inr x" for x
    by (cases x) (simp_all add: restore_from_str_def)
  show "s = restore_to_string x" if "restore_from_str s = Inr x" for s x
    using that by (auto simp: restore_from_str_def split: if_splits)
  show "e = UnknownState s" if "restore_from_str s = Inl e" for s e
    using that by (auto simp: restore_from_str_def split: if_splits)
qed

fun restore_rank :: "restore_state \<Rightarrow> nat" where
  "restore_rank IdentityRestored = 0"
| "restore_rank RootKeysUnwrapped = 1"
| "restore_rank ManifestVerified = 2"
| "restore_rank SkeletonRestored = 3"
| "restore_rank SearchRestored = 4"
| "restore_rank RecentMessagesRestored = 5"
| "restore_rank MediaLazyRestoreEnabled = 6"
| "restore_rank FullRestoreComplete = 7"

interpretation restore_life: linear_lifecycle restore_rank restore_try_transition
proof
  show "a = b" if "restore_rank a = restore_rank b" for a b
    using that by (cases a; cases b) simp_all
  show "restore_try_transition a b = Inr c \<longleftrightarrow> c = b \<and> restore_rank b = Suc (restore_rank a)" for a b c
    by (cases a; cases b) (auto simp: restore_try_transition_def)
qed

section \<open>Runs of the branching machines\<close>

lemma run_append:
  "run_transitions tr s (xs @ ys) =
     (case run_transitions tr s xs of Inl e \<Rightarrow> Inl e | Inr s' \<Rightarrow> run_transitions tr s' ys)"
  by (induction xs arbitrary: s) (auto split: sum.splits)

inductive body_reach :: "body_state \<Rightarrow> body_state \<Rightarrow> bool" where
  here: "body_reach s s"
| step: "body_reach s t \<Longrightarrow> body_try_transition t u = Inr u \<Longrightarrow> body_reach s u"

inductive media_reach :: "media_state list \<Rightarrow> media_state \<Rightarrow> media_state \<Rightarrow> bool" where
  here: "media_reach [s] s s"
| step: "media_reach p s t \<Longrightarrow> media_try_transition t u = Inr u \<Longrightarrow> media_reach (p @ [u]) s u"

lemma body_legal_iff:
  "body_try_transition s t = Inr u \<longleftrightarrow> u = t \<and>
     (s, t) \<in> {(LocalPlainAvailable, LocalEncryptedAvailable), (LocalEncryptedAvailable, LocalPlainAvailable),
       (LocalPlainAvailable, RemoteArchiveOnly), (RemoteArchiveOnly, LocalPlainAvailable),
       (LocalPlainAvailable, DeletedForMe), (LocalPlainAvailable, DeletedForEveryone),
       (DeliveryStoreOnly, LocalPlainAvailable), (RemoteArchiveOnly, Unavailable)}"
  unfolding body_try_transition_def by (simp only: split: if_split) auto

lemma media_legal_iff:
  "media_try_transition s t = Inr u \<longleftrightarrow> u = t \<and>
     (s, t) \<in> {(ThumbnailOnly, OriginalLocal), (ThumbnailOnly, RemoteOriginal), (OriginalLocal, Evicted),
       (OriginalLocal, Deleted), (Evicted, DownloadInProgress), (RemoteOriginal, DownloadInProgress),
       (DownloadInProgress, OriginalLocal)}"
  unfolding media_try_transition_def by (simp only: split: if_split) auto

definition body_terminal :: "body_state \<Rightarrow> bool" where
  "body_terminal s \<longleftrightarrow> s \<in> {DeletedForMe, DeletedForEveryone, Unavailable}"

lemma body_reach_terminal: "body_reach s t \<Longrightarrow> body_terminal s \<Longrightarrow> t = s"
  by (induction rule: body_reach.induct) (auto simp: body_legal_iff body_terminal_def)

lemma body_reach_never_delivery:
  "body_reach s t \<Longrightarrow> t = DeliveryStoreOnly \<Longrightarrow> s = DeliveryStoreOnly"
  by (induction rule: body_reach.induct) (auto simp: body_legal_iff)

lemma media_reach_original:
  "media_reach p s t \<Longrightarrow> s \<in> {Evicted, RemoteOriginal} \<Longrightarrow>
     t \<notin> {ThumbnailOnly} \<and> (t \<in> {OriginalLocal, Deleted} \<longrightarrow> DownloadInProgress \<in> set p)
       \<and> (t = DownloadInProgress \<longrightarrow> DownloadInProgress \<in> set p)
       \<and> (t \<notin> {OriginalLocal, Deleted, DownloadInProgress} \<longrightarrow> t = s \<or> DownloadInProgress \<in> set p)"
  by (induction rule: media_reach.induct) (auto simp: media_legal_iff)

section \<open>Properties\<close>

text \<open>
  the canonical column strings of all five state machines are exact: \<open>FromStr\<close> accepts the
  string \<open>Display\<close> writes, as the same state, and nothing else.
\<close>

theorem state_strings_exact:
  "(body_from_str s = Inr b) = (s = body_to_string b)
   \<and> (media_from_str s = Inr m) = (s = media_to_string m)
   \<and> (archive_from_str s = Inr a) = (s = archive_to_string a)
   \<and> (backup_from_str s = Inr k) = (s = backup_to_string k)
   \<and> (restore_from_str s = Inr r) = (s = restore_to_string r)"
  by (intro conjI body_col.from_str_iff media_col.from_str_iff archive_col.from_str_iff
      backup_col.from_str_iff restore_col.from_str_iff)

text \<open>
  the body states with no outgoing transition are exactly the three documented terminal states,
  and from a terminal state no sequence of transitions leads anywhere else.
\<close>

theorem body_terminal_states:
  "((\<forall>t u. body_try_transition s t \<noteq> Inr u) = body_terminal s)
   \<and> (body_terminal s \<longrightarrow> (\<forall>t. body_reach s t \<longrightarrow> t = s))"
proof (intro conjI impI allI)
  show "(\<forall>t u. body_try_transition s t \<noteq> Inr u) = body_terminal s"
    by (cases s) (auto simp: body_legal_iff body_terminal_def)
  show "t = s" if "body_terminal s" and "body_reach s t" for t
    using that body_reach_terminal by blast
qed

theorem body_terminal_states_witness:
  "body_reach DeletedForMe DeletedForMe \<and> \<not> body_reach DeletedForMe LocalPlainAvailable"
  using body_terminal_states [of DeletedForMe] body_reach.here
  by (auto simp: body_terminal_def)

text \<open>
  an evicted or remote original becomes local again (or is deleted) only through an active
  download: every path of legal media transitions between them visits \<open>DownloadInProgress\<close>.
\<close>

theorem media_original_only_via_download:
  assumes "media_reach p s t" and "s = Evicted \<or> s = RemoteOriginal" and "t = OriginalLocal \<or> t = Deleted"
  shows "DownloadInProgress \<in> set p"
  using media_reach_original [OF assms(1)] assms(2,3) by auto

theorem media_original_only_via_download_witness:
  "media_reach [Evicted, DownloadInProgress, OriginalLocal] Evicted OriginalLocal
   \<and> DownloadInProgress \<in> set [Evicted, DownloadInProgress, OriginalLocal]"
proof -
  have "media_reach ([Evicted] @ [DownloadInProgress]) Evicted DownloadInProgress"
    by (rule media_reach.step [OF media_reach.here]) (simp add: media_legal_iff)
  then have "media_reach (([Evicted] @ [DownloadInProgress]) @ [OriginalLocal]) Evicted OriginalLocal"
    by (rule media_reach.step) (simp add: media_legal_iff)
  then have r: "media_reach [Evicted, DownloadInProgress, OriginalLocal] Evicted OriginalLocal" by simp
  with media_original_only_via_download [OF r] show ?thesis by simp
qed

text \<open>
  C38: the restore pipeline's machine admits exactly one way from its first to its last state: all
  eight states in declaration order, none skipped and none repeated.
\<close>

theorem restore_single_path:
  "run_transitions restore_try_transition IdentityRestored ts = Inr FullRestoreComplete \<longleftrightarrow>
     ts = [RootKeysUnwrapped, ManifestVerified, SkeletonRestored, SearchRestored,
           RecentMessagesRestored, MediaLazyRestoreEnabled, FullRestoreComplete]"
  (is "?l \<longleftrightarrow> ts = ?path")
proof
  have p: "run_transitions restore_try_transition IdentityRestored ?path = Inr FullRestoreComplete"
    by (simp add: restore_try_transition_def)
  show "ts = ?path" if ?l
    using that p by (rule restore_life.run_deterministic)
  show ?l if "ts = ?path"
    using that p by simp
qed

text \<open>
  archive and backup states only ever move forward by one: a successful run of either machine
  ends as many states further as it has steps, so it never returns to a state it has left.
\<close>

theorem archive_backup_forward_only:
  assumes "run_transitions archive_try_transition a as = Inr a'"
    and "run_transitions backup_try_transition b bs = Inr b'"
  shows "(archive_rank a' = archive_rank a + length as \<and> distinct (a # as))
    \<and> (backup_rank b' = backup_rank b + length bs \<and> distinct (b # bs))"
  using archive_life.run_ranks [OF assms(1)] archive_life.run_distinct [OF assms(1)]
    backup_life.run_ranks [OF assms(2)] backup_life.run_distinct [OF assms(2)] by simp

theorem archive_backup_forward_only_witness:
  "archive_rank ArchiveUploaded = archive_rank NotArchived + 2
   \<and> backup_rank BackupPending = backup_rank NotBackedUp + 1"
  using archive_backup_forward_only [of NotArchived "[ArchivePending, ArchiveUploaded]" ArchiveUploaded
      NotBackedUp "[BackupPending]" BackupPending]
  by (simp add: archive_try_transition_def backup_try_transition_def)

end
