(* ===== verification/Schema.thy ===== *)
theory Schema
  imports StateMachines
begin

text \<open>
  The typed rows of \<open>local_store/schema.rs\<close> and the way \<open>local_store/db.rs\<close> stores them: enum
  columns are written with \<open>to_string\<close>/\<open>as_str\<close> and read back through \<open>from_str\<close> with the
  fallbacks the readers pass to \<open>unwrap_or\<close>; booleans are written as \<open>i32\<close>.
\<close>

section \<open>Discriminators\<close>

datatype message_kind = KText | KMedia | KSystem

fun kind_as_str :: "message_kind \<Rightarrow> string" where
  "kind_as_str KText = ''text''"
| "kind_as_str KMedia = ''media''"
| "kind_as_str KSystem = ''system''"

definition kind_parse :: "string \<Rightarrow> message_kind" where
  "kind_parse s = (if s = ''media'' then KMedia else if s = ''system'' then KSystem else KText)"

interpretation kind_col: column_codec kind_as_str kind_parse
proof
  show "kind_parse (kind_as_str x) = x" for x
    by (cases x) (simp_all add: kind_parse_def)
qed

datatype archive_backend = Kdrive | Zkof

datatype storage_backend = KChatBackend | ZkObjectFabric

fun backend_as_str :: "storage_backend \<Rightarrow> string" where
  "backend_as_str KChatBackend = ''kchat_backend''"
| "backend_as_str ZkObjectFabric = ''zk_object_fabric''"

definition backend_from_str :: "string \<Rightarrow> string + storage_backend" where
  "backend_from_str s =
     (if s = ''kchat_backend'' then Inr KChatBackend
      else if s = ''zk_object_fabric'' then Inr ZkObjectFabric
      else Inl (''invalid storage_backend value: '' @ debug_str s))"

fun backend_of_config :: "archive_backend \<Rightarrow> storage_backend" where
  "backend_of_config Kdrive = KChatBackend"
| "backend_of_config Zkof = ZkObjectFabric"

interpretation backend_col: column_codec backend_as_str "from_str_or backend_from_str KChatBackend"
proof
  show "from_str_or backend_from_str KChatBackend (backend_as_str x) = x" for x
    by (cases x) (simp_all add: from_str_or_def backend_from_str_def)
qed

section \<open>Rust row structs\<close>

record conversation =
  c_id :: string
  c_title_cipher :: "bytes option"
  c_pinned :: bool
  c_muted :: bool
  c_last_message_id :: "string option"
  c_last_activity_ms :: int
  c_type :: string
  c_scope :: string
  c_tenant :: string
  c_community :: string
  c_domain :: string

definition default_conversation_type :: string where
  "default_conversation_type = ''dm''"

definition default_scope :: string where
  "default_scope = ''b2c''"

definition conversation_legacy ::
  "string \<Rightarrow> bytes option \<Rightarrow> bool \<Rightarrow> bool \<Rightarrow> string option \<Rightarrow> int \<Rightarrow> conversation" where
  "conversation_legacy cid title pinned muted last_id activity =
     \<lparr>c_id = cid, c_title_cipher = title, c_pinned = pinned, c_muted = muted,
      c_last_message_id = last_id, c_last_activity_ms = activity,
      c_type = default_conversation_type, c_scope = default_scope,
      c_tenant = '''', c_community = '''', c_domain = ''''\<rparr>"

record message_skeleton =
  sk_id :: string
  sk_conv :: string
  sk_sender :: string
  sk_created_ms :: int
  sk_received_ms :: int
  sk_kind :: message_kind
  sk_body :: body_state
  sk_media :: "media_state option"
  sk_archive :: archive_state
  sk_backup :: backup_state
  sk_reply_to :: "string option"
  sk_edited_ms :: "int option"
  sk_deleted_ms :: "int option"

record message_body =
  b_id :: string
  b_text :: "ustr option"
  b_language :: "string option"
  b_rich_meta :: "bytes option"

record media_asset =
  m_asset :: string
  m_message :: string
  m_mime :: string
  m_bytes_total :: int
  m_bytes_local :: int
  m_state :: media_state
  m_wrapped_key :: bytes
  m_chunk_count :: int
  m_merkle_root :: bytes
  m_blob :: string
  m_sink :: string

record timeline_row =
  tl_id :: string
  tl_conv :: string
  tl_sender :: string
  tl_created_ms :: int
  tl_kind :: message_kind
  tl_body :: body_state
  tl_text :: "ustr option"
  tl_reply_to :: "string option"
  tl_edited_ms :: "int option"
  tl_deleted_ms :: "int option"

record backup_event_entry =
  be_type :: string
  be_conv :: "string option"
  be_message :: "string option"
  be_payload :: bytes
  be_created_ms :: int

section \<open>SQL rows\<close>

record conv_row =
  rc_id :: string
  rc_title_cipher :: "bytes option"
  rc_pinned :: int
  rc_muted :: int
  rc_last_message_id :: "string option"
  rc_last_activity_ms :: int
  rc_type :: string
  rc_scope :: string
  rc_tenant :: string
  rc_community :: string
  rc_domain :: string

record skel_row =
  rs_id :: string
  rs_conv :: string
  rs_sender :: string
  rs_created_ms :: int
  rs_received_ms :: int
  rs_kind :: string
  rs_body :: string
  rs_media :: "string option"
  rs_archive :: string
  rs_backup :: string
  rs_reply_to :: "string option"
  rs_edited_ms :: "int option"
  rs_deleted_ms :: "int option"

record media_row =
  rm_asset :: string
  rm_message :: string
  rm_mime :: string
  rm_bytes_total :: int
  rm_bytes_local :: int
  rm_state :: string
  rm_wrapped_key :: bytes
  rm_chunk_count :: int
  rm_merkle_root :: bytes
  rm_blob :: string
  rm_sink :: string

record fts_row =
  f_id :: string
  f_conv :: string
  f_sender :: string
  f_created_ms :: int
  f_text :: ustr

type_synonym fuzzy_row = "ustr \<times> string \<times> string"

record outbox_row =
  o_id :: string
  o_conv :: string
  o_text :: "ustr option"
  o_media :: "string option"
  o_created_ms :: int
  o_sent :: int
  o_sent_ms :: "int option"

section \<open>Writing and reading rows\<close>

definition bool_as_i32 :: "bool \<Rightarrow> int" where
  "bool_as_i32 b = (if b then 1 else 0)"

definition conv_to_row :: "conversation \<Rightarrow> conv_row" where
  "conv_to_row c =
     \<lparr>rc_id = c_id c, rc_title_cipher = c_title_cipher c,
      rc_pinned = bool_as_i32 (c_pinned c), rc_muted = bool_as_i32 (c_muted c),
      rc_last_message_id = c_last_message_id c, rc_last_activity_ms = c_last_activity_ms c,
      rc_type = c_type c, rc_scope = c_scope c, rc_tenant = c_tenant c,
      rc_community = c_community c, rc_domain = c_domain c\<rparr>"

definition conv_of_row :: "conv_row \<Rightarrow> conversation" where
  "conv_of_row r =
     \<lparr>c_id = rc_id r, c_title_cipher = rc_title_cipher r,
      c_pinned = (rc_pinned r \<noteq> 0), c_muted = (rc_muted r \<noteq> 0),
      c_last_message_id = rc_last_message_id r, c_last_activity_ms = rc_last_activity_ms r,
      c_type = rc_type r, c_scope = rc_scope r, c_tenant = rc_tenant r,
      c_community = rc_community r, c_domain = rc_domain r\<rparr>"

definition skel_to_row :: "message_skeleton \<Rightarrow> skel_row" where
  "skel_to_row s =
     \<lparr>rs_id = sk_id s, rs_conv = sk_conv s, rs_sender = sk_sender s,
      rs_created_ms = sk_created_ms s, rs_received_ms = sk_received_ms s,
      rs_kind = kind_as_str (sk_kind s), rs_body = body_to_string (sk_body s),
      rs_media = map_option media_to_string (sk_media s),
      rs_archive = archive_to_string (sk_archive s), rs_backup = backup_to_string (sk_backup s),
      rs_reply_to = sk_reply_to s, rs_edited_ms = sk_edited_ms s, rs_deleted_ms = sk_deleted_ms s\<rparr>"

definition media_of_column :: "string option \<Rightarrow> media_state option" where
  "media_of_column c =
     (case c of None \<Rightarrow> None
      | Some s \<Rightarrow> (case media_from_str s of Inl _ \<Rightarrow> None | Inr m \<Rightarrow> Some m))"

definition skel_of_row :: "skel_row \<Rightarrow> message_skeleton" where
  "skel_of_row r =
     \<lparr>sk_id = rs_id r, sk_conv = rs_conv r, sk_sender = rs_sender r,
      sk_created_ms = rs_created_ms r, sk_received_ms = rs_received_ms r,
      sk_kind = kind_parse (rs_kind r),
      sk_body = from_str_or body_from_str Unavailable (rs_body r),
      sk_media = media_of_column (rs_media r),
      sk_archive = from_str_or archive_from_str NotArchived (rs_archive r),
      sk_backup = from_str_or backup_from_str NotBackedUp (rs_backup r),
      sk_reply_to = rs_reply_to r, sk_edited_ms = rs_edited_ms r, sk_deleted_ms = rs_deleted_ms r\<rparr>"

definition media_to_row :: "media_asset \<Rightarrow> media_row" where
  "media_to_row m =
     \<lparr>rm_asset = m_asset m, rm_message = m_message m, rm_mime = m_mime m,
      rm_bytes_total = m_bytes_total m, rm_bytes_local = m_bytes_local m,
      rm_state = media_to_string (m_state m), rm_wrapped_key = m_wrapped_key m,
      rm_chunk_count = m_chunk_count m, rm_merkle_root = m_merkle_root m,
      rm_blob = m_blob m, rm_sink = m_sink m\<rparr>"

text \<open>\<open>row.get::<_, i64>(7)? as i32\<close> truncates to 32 bits.\<close>

definition i64_as_i32 :: "int \<Rightarrow> int" where
  "i64_as_i32 i = sint (word_of_int i :: u32)"

definition media_of_row :: "media_row \<Rightarrow> media_asset" where
  "media_of_row r =
     \<lparr>m_asset = rm_asset r, m_message = rm_message r, m_mime = rm_mime r,
      m_bytes_total = rm_bytes_total r, m_bytes_local = rm_bytes_local r,
      m_state = from_str_or media_from_str ThumbnailOnly (rm_state r),
      m_wrapped_key = rm_wrapped_key r, m_chunk_count = i64_as_i32 (rm_chunk_count r),
      m_merkle_root = rm_merkle_root r, m_blob = rm_blob r, m_sink = rm_sink r\<rparr>"

definition timeline_of_row :: "skel_row \<Rightarrow> timeline_row" where
  "timeline_of_row r =
     \<lparr>tl_id = rs_id r, tl_conv = rs_conv r, tl_sender = rs_sender r,
      tl_created_ms = rs_created_ms r, tl_kind = kind_parse (rs_kind r),
      tl_body = from_str_or body_from_str Unavailable (rs_body r), tl_text = None,
      tl_reply_to = rs_reply_to r, tl_edited_ms = rs_edited_ms r, tl_deleted_ms = rs_deleted_ms r\<rparr>"

lemma conv_of_to_row [simp]: "conv_of_row (conv_to_row c) = c"
  by (cases c) (simp add: conv_of_row_def conv_to_row_def bool_as_i32_def)

lemma media_of_column_enc [simp]: "media_of_column (map_option media_to_string v) = v"
  by (cases v) (simp_all add: media_of_column_def media_col.from_disp)

lemma skel_of_to_row [simp]: "skel_of_row (skel_to_row s) = s"
  by (cases s)
    (simp add: skel_of_row_def skel_to_row_def kind_col.dec_enc body_col.col.dec_enc
      archive_col.col.dec_enc backup_col.col.dec_enc)

lemma i64_as_i32_id: "- (2 ^ 31) \<le> i \<Longrightarrow> i < 2 ^ 31 \<Longrightarrow> i64_as_i32 i = i"
  by (simp add: i64_as_i32_def sint_sbintrunc' signed_take_bit_int_eq_self)

lemma media_of_to_row:
  "- (2 ^ 31) \<le> m_chunk_count m \<Longrightarrow> m_chunk_count m < 2 ^ 31 \<Longrightarrow> media_of_row (media_to_row m) = m"
  by (cases m) (simp add: media_of_row_def media_to_row_def media_col.col.dec_enc i64_as_i32_id)

lemma skel_row_keys [simp]:
  "rs_id (skel_to_row s) = sk_id s" "rs_conv (skel_to_row s) = sk_conv s"
  "rc_id (conv_to_row c) = c_id c" "rm_asset (media_to_row m) = m_asset m"
  "rm_message (media_to_row m) = m_message m"
  by (simp_all add: skel_to_row_def conv_to_row_def media_to_row_def)

end
