(* ===== verification/Store.thy ===== *)
theory Store
  imports Schema
begin

text \<open>
  The SQLCipher connection as \<open>local_store/db.rs\<close> uses it: the tables of the schema, the write
  connection with its stack of open savepoints, and the committed image that the read-only
  pool sees. Statements are state transformers that may fail: on a foreign key (when the SQLite
  build enforces them), on a nested \<open>BEGIN\<close>, or because the driver fails, which is drawn
  from a schedule of faults so that every failure point of an operation can be examined.
  A failed statement leaves the tables as they were. Queries do not fail and consult no schedule, and SQLite's own rollback of
  the whole transaction on some I/O errors is not represented.
\<close>

section \<open>State\<close>

record tables =
  t_conv :: "conv_row list"
  t_skel :: "skel_row list"
  t_body :: "message_body list"
  t_media :: "media_row list"
  t_fts :: "fts_row list"
  t_fuzzy :: "fuzzy_row list"
  t_journal :: "(int \<times> backup_event_entry) list"
  t_journal_seq :: int
  t_backup_state :: "(int \<times> bytes) option"
  t_outbox :: "outbox_row list"

definition empty_tables :: tables where
  "empty_tables =
     \<lparr>t_conv = [], t_skel = [], t_body = [], t_media = [], t_fts = [], t_fuzzy = [],
      t_journal = [], t_journal_seq = 0, t_backup_state = None, t_outbox = []\<rparr>"

datatype sql_error =
    FkViolation
  | DriverFailure
  | NestedTransaction
  | NoSuchSavepoint
  | InvalidColumnType
  | MatchSyntax

datatype storage_error =
    Sqlite sql_error
  | DatabaseLocked
  | MigrationFailed nat nat string
  | DiskFull
  | CorruptRow string string
  | StorageIo string
  | CborEncode string
  | CborDecode string
  | Zstd string
  | InvalidId string
  | SubsystemNotInstalled string
  | SubsystemAlreadyInstalled string
  | LockPoisoned string
  | StorageOffline
  | Custom string

text \<open>
  \<open>st_pool\<close> is the number of read-only connections: 3 for a file database, 0 for an in-memory one,
  where \<open>read()\<close> falls back to the write connection. \<open>st_saves\<close> is the savepoint stack, innermost
  first, each with the tables at its opening. \<open>st_faults\<close> says for each coming statement on the
  write connection that writes, or opens or closes a savepoint, whether the driver fails it; when it is used up, no statement fails.
\<close>

record store =
  st_live :: tables
  st_committed :: tables
  st_saves :: "(string \<times> tables) list"
  st_faults :: "bool list"
  st_fk :: bool
  st_pool :: nat

definition read_view :: "store \<Rightarrow> tables" where
  "read_view s = (if st_pool s = 0 then st_live s else st_committed s)"

definition settled :: "store \<Rightarrow> bool" where
  "settled s \<longleftrightarrow> st_saves s = [] \<and> st_committed s = st_live s"

definition quiet :: "store \<Rightarrow> bool" where
  "quiet s \<longleftrightarrow> st_faults s = []"

lemma read_view_settled: "settled s \<Longrightarrow> read_view s = st_live s"
  by (simp add: read_view_def settled_def)

section \<open>Actions\<close>

type_synonym ('e, 'a) act = "store \<Rightarrow> ('e + 'a) \<times> store"
type_synonym stmt = "bool \<Rightarrow> tables \<Rightarrow> sql_error + tables"

definition ret :: "'a \<Rightarrow> ('e, 'a) act" where
  "ret a s = (Inr a, s)"

definition fail :: "'e \<Rightarrow> ('e, 'a) act" where
  "fail e s = (Inl e, s)"

definition bindA :: "('e, 'a) act \<Rightarrow> ('a \<Rightarrow> ('e, 'b) act) \<Rightarrow> ('e, 'b) act" where
  "bindA m f s = (case m s of (Inl e, s') \<Rightarrow> (Inl e, s') | (Inr a, s') \<Rightarrow> f a s')"

definition thenA :: "('e, 'a) act \<Rightarrow> ('e, 'b) act \<Rightarrow> ('e, 'b) act" where
  "thenA m n = bindA m (\<lambda>_. n)"

primrec seqA :: "('e, unit) act list \<Rightarrow> ('e, unit) act" where
  "seqA [] = ret ()"
| "seqA (m # ms) = thenA m (seqA ms)"

definition forA :: "('x \<Rightarrow> ('e, unit) act) \<Rightarrow> 'x list \<Rightarrow> ('e, unit) act" where
  "forA f xs = seqA (map f xs)"

text \<open>\<open>let _ = m;\<close> drops the error, \<open>m.map_err(f)\<close> renames it.\<close>

definition ignoreA :: "('e, 'a) act \<Rightarrow> ('e2, unit) act" where
  "ignoreA m s = (Inr (), snd (m s))"

definition mapE :: "('e \<Rightarrow> 'f) \<Rightarrow> ('e, 'a) act \<Rightarrow> ('f, 'a) act" where
  "mapE f m s = (case m s of (Inl e, s') \<Rightarrow> (Inl (f e), s') | (Inr a, s') \<Rightarrow> (Inr a, s'))"

definition query :: "(tables \<Rightarrow> 'a) \<Rightarrow> ('e, 'a) act" where
  "query q s = (Inr (q (read_view s)), s)"

definition query_w :: "(tables \<Rightarrow> 'a) \<Rightarrow> ('e, 'a) act" where
  "query_w q s = (Inr (q (st_live s)), s)"

definition settle :: "store \<Rightarrow> store" where
  "settle s = (if st_saves s = [] then s\<lparr>st_committed := st_live s\<rparr> else s)"

definition next_fault :: "store \<Rightarrow> bool" where
  "next_fault s = (case st_faults s of [] \<Rightarrow> False | b # _ \<Rightarrow> b)"

definition tick :: "store \<Rightarrow> store" where
  "tick s = s\<lparr>st_faults := tl (st_faults s)\<rparr>"

definition exec :: "stmt \<Rightarrow> (sql_error, unit) act" where
  "exec f s =
     (if next_fault s then (Inl DriverFailure, tick s)
      else case f (st_fk s) (st_live s) of
             Inl e \<Rightarrow> (Inl e, tick s)
           | Inr t \<Rightarrow> (Inr (), settle ((tick s)\<lparr>st_live := t\<rparr>)))"

text \<open>\<open>SAVEPOINT\<close>, \<open>RELEASE\<close>, \<open>ROLLBACK TO\<close> and the \<open>BEGIN\<close> of \<open>Connection::transaction\<close>.\<close>

definition savepoint :: "string \<Rightarrow> (sql_error, unit) act" where
  "savepoint n s =
     (if next_fault s then (Inl DriverFailure, tick s)
      else (Inr (), (tick s)\<lparr>st_saves := (n, st_live s) # st_saves s\<rparr>))"

definition pop_saves :: "string \<Rightarrow> (string \<times> tables) list \<Rightarrow> (string \<times> tables) list" where
  "pop_saves n ss = dropWhile (\<lambda>(m, _). m \<noteq> n) ss"

definition release :: "string \<Rightarrow> (sql_error, unit) act" where
  "release n s =
     (if next_fault s then (Inl DriverFailure, tick s)
      else case pop_saves n (st_saves s) of
             [] \<Rightarrow> (Inl NoSuchSavepoint, tick s)
           | _ # rest \<Rightarrow> (Inr (), settle ((tick s)\<lparr>st_saves := rest\<rparr>)))"

definition rollback_to :: "string \<Rightarrow> (sql_error, unit) act" where
  "rollback_to n s =
     (if next_fault s then (Inl DriverFailure, tick s)
      else case pop_saves n (st_saves s) of
             [] \<Rightarrow> (Inl NoSuchSavepoint, tick s)
           | (m, t) # rest \<Rightarrow> (Inr (), (tick s)\<lparr>st_live := t, st_saves := (m, t) # rest\<rparr>))"

definition begin_tx :: "(sql_error, unit) act" where
  "begin_tx s =
     (if next_fault s then (Inl DriverFailure, tick s)
      else if st_saves s \<noteq> [] then (Inl NestedTransaction, tick s)
      else (Inr (), (tick s)\<lparr>st_saves := [(''BEGIN'', st_live s)]\<rparr>))"

text \<open>
  A \<open>Transaction\<close> value: \<open>commit\<close> releases it; when it is dropped without a commit it rolls
  back, which also covers a commit that failed.
\<close>

definition with_tx :: "(sql_error, unit) act \<Rightarrow> (sql_error, unit) act" where
  "with_tx body =
     bindA begin_tx (\<lambda>_ s.
       case thenA body (release ''BEGIN'') s of
         (Inr u, s') \<Rightarrow> (Inr u, s')
       | (Inl e, s') \<Rightarrow> (Inl e, snd (seqA [rollback_to ''BEGIN'', release ''BEGIN''] s')))"

text \<open>
  The shape every multi-statement operation of the code has: open a savepoint, run the inner
  function, release on success, roll back and release on failure with the rollback's own
  errors dropped, and return the inner result.
\<close>

definition with_savepoint ::
  "string \<Rightarrow> (sql_error \<Rightarrow> 'e) \<Rightarrow> ('e, 'a) act \<Rightarrow> ('e, 'a) act" where
  "with_savepoint n wrap inner =
     bindA (mapE wrap (savepoint n)) (\<lambda>_ s.
       case inner s of
         (Inr a, s') \<Rightarrow> thenA (mapE wrap (release n)) (ret a) s'
       | (Inl e, s') \<Rightarrow> (Inl e, snd (seqA [rollback_to n, release n] s')))"

section \<open>Relations that every action respects\<close>

text \<open>
  Much of what is said of an action is that the store before it and the store after it are related, whatever
  it returns and whichever statement fails. \<open>obeys R m\<close> says so. For a reflexive and transitive \<open>R\<close> it
  holds of a compound action when it holds of the parts, which the locale shows once for every such relation.
\<close>

definition obeys :: "(store \<Rightarrow> store \<Rightarrow> bool) \<Rightarrow> ('e, 'a) act \<Rightarrow> bool" where
  "obeys R m \<longleftrightarrow> (\<forall>s. R s (snd (m s)))"

lemma obeysI: "(\<And>s. R s (snd (m s))) \<Longrightarrow> obeys R m"
  by (simp add: obeys_def)

lemma obeys_run: "obeys R m \<Longrightarrow> m s = (r, s') \<Longrightarrow> R s s'"
  unfolding obeys_def by (metis snd_conv)

lemma obeys_snd: "obeys R m \<Longrightarrow> R s (snd (m s))"
  by (simp add: obeys_def)

locale action_relation =
  fixes R :: "store \<Rightarrow> store \<Rightarrow> bool"
  assumes R_refl: "R s s"
    and R_trans: "R s t \<Longrightarrow> R t u \<Longrightarrow> R s u"
begin

lemma basic: "obeys R (ret a)" "obeys R (fail e)" "obeys R (query q)" "obeys R (query_w q)"
  by (simp_all add: obeys_def ret_def fail_def query_def query_w_def R_refl)

lemma handle:
  assumes m: "obeys R m" and f: "\<And>a. obeys R (f a)" and k: "obeys R k"
  shows "obeys R (\<lambda>s. case m s of (Inr a, s') \<Rightarrow> f a s' | (Inl e, s') \<Rightarrow> (Inl e, snd (k s')))"
proof (rule obeysI)
  fix s
  obtain r s' where ms: "m s = (r, s')" by (cases "m s")
  then have s': "R s s'" by (rule obeys_run [OF m])
  show "R s (snd (case m s of (Inr a, s') \<Rightarrow> f a s' | (Inl e, s') \<Rightarrow> (Inl e, snd (k s'))))"
    using f k R_trans [OF s'] by (cases r) (simp_all add: ms obeys_def)
qed

lemma bind: "obeys R m \<Longrightarrow> (\<And>a. obeys R (f a)) \<Longrightarrow> obeys R (bindA m f)"
  using handle [of m f "ret ()"] basic(1) [of "()"] by (simp add: obeys_def bindA_def ret_def cong: sum.case_cong prod.case_cong)

lemma then_act: "obeys R m \<Longrightarrow> obeys R n \<Longrightarrow> obeys R (thenA m n)"
  by (simp add: thenA_def bind)

lemma seq: "list_all (obeys R) ms \<Longrightarrow> obeys R (seqA ms)"
  by (induction ms) (auto intro: basic then_act)

lemma for_all: "(\<And>x. obeys R (f x)) \<Longrightarrow> obeys R (forA f xs)"
  by (simp add: forA_def seq list_all_iff)

lemma ignore: "obeys R m \<Longrightarrow> obeys R (ignoreA m)"
  by (simp add: obeys_def ignoreA_def)

lemma map_err: "obeys R m \<Longrightarrow> obeys R (mapE f m)"
  unfolding obeys_def mapE_def by (auto split: prod.splits sum.splits; metis snd_conv)

lemmas acts = basic bind then_act seq for_all ignore map_err

end

text \<open>When the savepoint statements respect the relation too, so does every operation wrapped in a transaction.\<close>

locale store_relation = action_relation R for R :: "store \<Rightarrow> store \<Rightarrow> bool" +
  fixes good :: "stmt \<Rightarrow> bool"
  assumes exec_in: "good f \<Longrightarrow> obeys R (exec f)"
    and savepoint_in: "obeys R (savepoint n)"
    and release_in: "obeys R (release n)"
    and rollback_in: "obeys R (rollback_to n)"
    and begin_in: "obeys R begin_tx"
begin

lemma unwind: "obeys R (seqA [rollback_to n, release n])"
  by (intro seq) (simp add: rollback_in release_in)

lemma transaction: "obeys R body \<Longrightarrow> obeys R (with_tx body)"
  unfolding with_tx_def
  by (intro bind [OF begin_in] handle [where f = "\<lambda>u s. (Inr u, s)"] unwind then_act release_in)
    (simp_all add: obeys_def R_refl)

lemma wrapped: "obeys R inner \<Longrightarrow> obeys R (with_savepoint n wrap inner)"
  unfolding with_savepoint_def
  by (intro bind handle unwind then_act release_in map_err savepoint_in basic)

lemmas store_acts = acts exec_in savepoint_in release_in rollback_in begin_in transaction wrapped

end

section \<open>What an action leaves alone\<close>

text \<open>
  Inside an open savepoint an action of the inner functions changes neither the committed image
  nor the savepoint stack, whatever statement fails.
\<close>

definition kept :: "store \<Rightarrow> store \<Rightarrow> bool" where
  "kept s s' \<longleftrightarrow> (st_saves s \<noteq> [] \<longrightarrow> st_committed s' = st_committed s \<and> st_saves s' = st_saves s)"

abbreviation keeps :: "('e, 'a) act \<Rightarrow> bool" where
  "keeps \<equiv> obeys kept"

interpretation keeping: action_relation kept
  by unfold_locales (auto simp: kept_def)

lemma keeps_def:
  "keeps m \<longleftrightarrow> (\<forall>s. st_saves s \<noteq> [] \<longrightarrow>
     st_committed (snd (m s)) = st_committed s \<and> st_saves (snd (m s)) = st_saves s)"
  by (simp add: obeys_def kept_def)

lemmas keeps_acts [keeps_intros] = keeping.acts

lemma settle_simps [simp]:
  "st_live (settle s) = st_live s" "st_saves (settle s) = st_saves s"
  "st_faults (settle s) = st_faults s" "st_fk (settle s) = st_fk s" "st_pool (settle s) = st_pool s"
  "st_saves s = [] \<Longrightarrow> st_committed (settle s) = st_live s"
  "st_saves s \<noteq> [] \<Longrightarrow> settle s = s"
  by (simp_all add: settle_def)

lemma tick_simps [simp]:
  "st_live (tick s) = st_live s" "st_committed (tick s) = st_committed s"
  "st_saves (tick s) = st_saves s" "st_fk (tick s) = st_fk s" "st_pool (tick s) = st_pool s"
  "st_faults (tick s) = tl (st_faults s)"
  by (simp_all add: tick_def)

lemma quiet_tick [simp]: "quiet s \<Longrightarrow> tick s = s" "quiet s \<Longrightarrow> \<not> next_fault s"
  by (simp_all add: quiet_def tick_def next_fault_def)

lemma quiet_settle [simp]: "quiet (settle s) = quiet s"
  by (simp add: quiet_def)

lemma quiet_update [simp]:
  "quiet (s\<lparr>st_live := t\<rparr>) = quiet s" "quiet (s\<lparr>st_saves := ss\<rparr>) = quiet s"
  "quiet (s\<lparr>st_committed := t\<rparr>) = quiet s"
  by (simp_all add: quiet_def)

lemma keeps_exec [keeps_intros]: "keeps (exec f)"
  by (auto simp: keeps_def exec_def split: sum.split)

section \<open>What an action computes\<close>

text \<open>
  Without driver faults an action inside a savepoint is a function of the tables: \<open>computes m g\<close>
  says that \<open>m\<close> fails exactly where \<open>g\<close> does, with the same error, and otherwise leaves the live
  tables \<open>g\<close> gives.
\<close>

type_synonym 'e tfun = "bool \<Rightarrow> tables \<Rightarrow> 'e + tables"

definition computes :: "('e, unit) act \<Rightarrow> 'e tfun \<Rightarrow> bool" where
  "computes m g \<longleftrightarrow> (\<forall>s. quiet s \<and> st_saves s \<noteq> [] \<longrightarrow>
     (case g (st_fk s) (st_live s) of
        Inl e \<Rightarrow> (\<exists>t. m s = (Inl e, s\<lparr>st_live := t\<rparr>))
      | Inr t \<Rightarrow> m s = (Inr (), s\<lparr>st_live := t\<rparr>)))"

definition idT :: "'e tfun" where
  "idT k t = Inr t"

definition thenT :: "'e tfun \<Rightarrow> 'e tfun \<Rightarrow> 'e tfun" where
  "thenT g h k t = (case g k t of Inl e \<Rightarrow> Inl e | Inr t' \<Rightarrow> h k t')"

definition mapT :: "('e \<Rightarrow> 'f) \<Rightarrow> 'e tfun \<Rightarrow> 'f tfun" where
  "mapT f g k t = (case g k t of Inl e \<Rightarrow> Inl (f e) | Inr t' \<Rightarrow> Inr t')"

text \<open>A statement that cannot fail, as a plain function on the tables.\<close>

definition pureT :: "(tables \<Rightarrow> tables) \<Rightarrow> 'e tfun" where
  "pureT f k t = Inr (f t)"

named_theorems computes_intros \<open>the table function an action computes\<close>

lemma computes_Inr:
  assumes "computes m g" and "quiet s" and "st_saves s \<noteq> []" and "g (st_fk s) (st_live s) = Inr t"
  shows "m s = (Inr (), s\<lparr>st_live := t\<rparr>)"
  using assms by (auto simp: computes_def dest!: spec [of _ s])

lemma computes_Inl:
  assumes "computes m g" and "quiet s" and "st_saves s \<noteq> []" and "g (st_fk s) (st_live s) = Inl e"
  shows "\<exists>t. m s = (Inl e, s\<lparr>st_live := t\<rparr>)"
  using assms by (auto simp: computes_def dest!: spec [of _ s])

lemmas computesD = computes_Inr computes_Inl

lemma live_self: "\<exists>t. s = s\<lparr>st_live := t\<rparr>"
  by (rule exI [of _ "st_live s"]) simp

lemma computes_ret [computes_intros]: "computes (ret ()) idT"
  by (simp add: computes_def ret_def idT_def)

lemma computes_fail [computes_intros]: "computes (fail e) (\<lambda>_ _. Inl e)"
  by (simp add: computes_def fail_def live_self)

lemma computes_exec [computes_intros]: "computes (exec f) f"
  by (simp add: computes_def exec_def live_self split: sum.split)

lemma computes_then [computes_intros]:
  assumes m: "computes m g" and n: "computes n h"
  shows "computes (thenA m n) (thenT g h)"
  unfolding computes_def
proof (intro allI impI)
  fix s assume s: "quiet s \<and> st_saves s \<noteq> []"
  show "case thenT g h (st_fk s) (st_live s) of
      Inl e \<Rightarrow> \<exists>t. thenA m n s = (Inl e, s\<lparr>st_live := t\<rparr>)
    | Inr t \<Rightarrow> thenA m n s = (Inr (), s\<lparr>st_live := t\<rparr>)"
  proof (cases "g (st_fk s) (st_live s)")
    case (Inl e)
    with computesD(2) [OF m] s obtain t where "m s = (Inl e, s\<lparr>st_live := t\<rparr>)" by blast
    with Inl show ?thesis by (auto simp: thenT_def thenA_def bindA_def)
  next
    case (Inr t)
    let ?s = "s\<lparr>st_live := t\<rparr>"
    from computesD(1) [OF m] s Inr have ms: "m s = (Inr (), ?s)" by blast
    show ?thesis
    proof (cases "h (st_fk s) t")
      case (Inl e)
      with computesD(2) [OF n, of ?s] s obtain t' where "n ?s = (Inl e, ?s\<lparr>st_live := t'\<rparr>)" by auto
      with Inl Inr ms show ?thesis by (auto simp: thenT_def thenA_def bindA_def)
    next
      case (Inr t')
      with computesD(1) [OF n, of ?s] s have "n ?s = (Inr (), ?s\<lparr>st_live := t'\<rparr>)" by auto
      with Inr \<open>g (st_fk s) (st_live s) = Inr t\<close> ms show ?thesis
        by (auto simp: thenT_def thenA_def bindA_def)
    qed
  qed
qed

lemma computes_mapE [computes_intros]:
  assumes m: "computes m g" shows "computes (mapE f m) (mapT f g)"
  unfolding computes_def
proof (intro allI impI)
  fix s assume s: "quiet s \<and> st_saves s \<noteq> []"
  show "case mapT f g (st_fk s) (st_live s) of
      Inl e \<Rightarrow> \<exists>t. mapE f m s = (Inl e, s\<lparr>st_live := t\<rparr>)
    | Inr t \<Rightarrow> mapE f m s = (Inr (), s\<lparr>st_live := t\<rparr>)"
  proof (cases "g (st_fk s) (st_live s)")
    case (Inl e)
    with computesD(2) [OF m] s obtain t where "m s = (Inl e, s\<lparr>st_live := t\<rparr>)" by blast
    with Inl show ?thesis by (auto simp: mapT_def mapE_def)
  next
    case (Inr t)
    with computesD(1) [OF m] s show ?thesis by (simp add: mapT_def mapE_def)
  qed
qed

lemma computes_pure: "computes (exec (pureT f)) (pureT f)"
  by (rule computes_exec)

lemma computes_ignore_pure [computes_intros]: "computes (ignoreA (exec (pureT f))) (pureT f)"
  by (auto simp: computes_def ignoreA_def exec_def pureT_def)

lemma idT_pure: "idT = pureT (\<lambda>t. t)"
  by (simp add: fun_eq_iff idT_def pureT_def)

lemma thenT_pure: "thenT (pureT f) (pureT g) = pureT (\<lambda>t. g (f t))"
  by (simp add: fun_eq_iff thenT_def pureT_def)

lemma computes_for_pure [computes_intros]:
  assumes "\<And>x. computes (f x) (pureT (g x))"
  shows "computes (forA f xs) (pureT (fold g xs))"
proof (induction xs)
  case Nil
  show ?case using computes_ret by (simp add: forA_def idT_pure id_def)
next
  case (Cons x xs)
  with computes_then [OF assms [of x] Cons] show ?case
    by (simp add: forA_def thenT_pure comp_def)
qed

primrec forT :: "('x \<Rightarrow> 'e tfun) \<Rightarrow> 'x list \<Rightarrow> 'e tfun" where
  "forT g [] = idT"
| "forT g (x # xs) = thenT (g x) (forT g xs)"

lemma computes_for [computes_intros]:
  "(\<And>x. computes (f x) (g x)) \<Longrightarrow> computes (forA f xs) (forT g xs)"
  by (induction xs) (auto simp: forA_def intro: computes_ret computes_then)

lemma computes_seq_Nil [computes_intros]: "computes (seqA []) idT"
  by (simp add: computes_ret)

lemma computes_seq_Cons [computes_intros]:
  "computes m g \<Longrightarrow> computes (seqA ms) h \<Longrightarrow> computes (seqA (m # ms)) (thenT g h)"
  by (simp add: computes_then)

lemma bind_query_w: "bindA (query_w q) f s = f (q (st_live s)) s"
  by (simp add: bindA_def query_w_def)

lemma computes_query_w [computes_intros]:
  assumes "\<And>a. computes (f a) (g a)"
  shows "computes (bindA (query_w q) f) (\<lambda>k t. g (q t) k t)"
  using assms unfolding computes_def bind_query_w by blast

section \<open>What survives best-effort statements\<close>

text \<open>
  Some statements are run as \<open>let _ = ..\<close>: the fuzzy index and the conversation's last-message
  columns are best effort. \<open>durable\<close> erases these two tables, and \<open>acts_dur m f\<close> says what a
  successful run of \<open>m\<close> does to the rest, whichever best-effort statements failed.
\<close>

definition durable :: "tables \<Rightarrow> tables" where
  "durable t = t\<lparr>t_conv := [], t_fuzzy := []\<rparr>"

definition acts_dur :: "('e, 'a) act \<Rightarrow> (tables \<Rightarrow> tables) \<Rightarrow> bool" where
  "acts_dur m f \<longleftrightarrow> (\<forall>s a s'. m s = (Inr a, s') \<longrightarrow>
     durable (st_live s') = durable (f (durable (st_live s))))"

named_theorems acts_dur_intros \<open>the effect of a successful action on the durable tables\<close>

lemma durable_simps [simp]:
  "t_skel (durable t) = t_skel t" "t_body (durable t) = t_body t" "t_media (durable t) = t_media t"
  "t_fts (durable t) = t_fts t" "t_journal (durable t) = t_journal t"
  "t_journal_seq (durable t) = t_journal_seq t" "t_backup_state (durable t) = t_backup_state t"
  "t_outbox (durable t) = t_outbox t" "t_conv (durable t) = []" "t_fuzzy (durable t) = []"
  "durable (durable t) = durable t"
  by (simp_all add: durable_def)

lemma acts_ret [acts_dur_intros]: "acts_dur (ret a) (\<lambda>t. t)"
  by (simp add: acts_dur_def ret_def)

lemma acts_fail [acts_dur_intros]: "acts_dur (fail e) f"
  by (simp add: acts_dur_def fail_def)

lemma acts_exec:
  assumes "\<And>k t t'. f k t = Inr t' \<Longrightarrow> durable t' = durable (g (durable t))"
  shows "acts_dur (exec f) g"
  using assms by (auto simp: acts_dur_def exec_def split: if_splits sum.splits)

lemma acts_mapE [acts_dur_intros]: "acts_dur m f \<Longrightarrow> acts_dur (mapE h m) f"
  by (auto simp: acts_dur_def mapE_def split: prod.splits sum.splits)

lemma acts_then [acts_dur_intros]:
  assumes "acts_dur m f" and "acts_dur n g"
  shows "acts_dur (thenA m n) (\<lambda>t. g (durable (f t)))"
  unfolding acts_dur_def
proof (intro allI impI)
  fix s a s' assume r: "thenA m n s = (Inr a, s')"
  then obtain b s1 where m: "m s = (Inr b, s1)" and n: "n s1 = (Inr a, s')"
    by (auto simp: thenA_def bindA_def split: prod.splits sum.splits)
  from m assms(1) have "durable (st_live s1) = durable (f (durable (st_live s)))"
    by (simp add: acts_dur_def)
  with n assms(2) show "durable (st_live s') = durable (g (durable (f (durable (st_live s)))))"
    by (simp add: acts_dur_def)
qed

lemma acts_ignore_fuzzy:
  assumes "\<And>t. durable (f t) = durable t"
  shows "acts_dur (ignoreA (exec (pureT f))) (\<lambda>t. t)"
  using assms by (auto simp: acts_dur_def ignoreA_def exec_def pureT_def)

lemma acts_for:
  assumes "\<And>x. acts_dur (f x) (g x)"
  shows "acts_dur (forA f xs) (fold (\<lambda>x t. durable (g x t)) xs)"
proof (induction xs)
  case Nil
  show ?case using acts_ret by (simp add: forA_def id_def)
next
  case (Cons x xs)
  from acts_then [OF assms [of x] Cons] show ?case by (simp add: forA_def comp_def)
qed

lemma acts_seq_Nil [acts_dur_intros]: "acts_dur (seqA []) (\<lambda>t. t)"
  by (simp add: acts_ret)

lemma acts_seq_Cons [acts_dur_intros]:
  "acts_dur m f \<Longrightarrow> acts_dur (seqA ms) g \<Longrightarrow> acts_dur (seqA (m # ms)) (\<lambda>t. g (durable (f t)))"
  by (simp add: acts_then)

lemma acts_query_w [acts_dur_intros]:
  "(\<And>a. acts_dur (f a) (g a)) \<Longrightarrow> (\<And>t. q (durable t) = q t) \<Longrightarrow>
     acts_dur (bindA (query_w q) f) (\<lambda>t. g (q t) t)"
  by (simp add: acts_dur_def bind_query_w)

section \<open>Savepoint-protected operations\<close>

text \<open>
  The interface between an operation's inner function and the transaction around it. Given that
  the inner function respects the savepoint and computes \<open>spec\<close>, the whole operation is atomic:
  under any schedule of failures the committed image is either untouched or has everything, and
  without failures the operation is the table function \<open>spec\<close>.
\<close>

locale savepoint_body =
  fixes inner :: "('e, unit) act"
    and spec :: "'e tfun"
  assumes inner_keeps: "keeps inner"
    and inner_computes: "computes inner spec"
begin

lemma atomic_commit:
  assumes s: "settled s" and r: "with_savepoint n wrap inner s = (r, s')"
  shows "(\<forall>e. r = Inl e \<longrightarrow> st_committed s' = st_committed s)
    \<and> (r = Inr () \<longrightarrow> settled s' \<and>
        (\<exists>s1. inner ((tick s)\<lparr>st_saves := [(n, st_live s)]\<rparr>) = (Inr (), s1) \<and> st_live s' = st_live s1))"
proof (cases "next_fault s")
  case True
  with r show ?thesis by (auto simp: with_savepoint_def bindA_def mapE_def savepoint_def)
next
  case False
  let ?o = "(tick s)\<lparr>st_saves := [(n, st_live s)]\<rparr>"
  obtain q s1 where i: "inner ?o = (q, s1)" by (cases "inner ?o")
  from inner_keeps have k: "st_committed s1 = st_committed s" "st_saves s1 = [(n, st_live s)]"
    using i unfolding keeps_def by (auto dest!: spec [of _ ?o])
  have w: "with_savepoint n wrap inner s = (case q of
      Inr a \<Rightarrow> thenA (mapE wrap (release n)) (ret a) s1
    | Inl e \<Rightarrow> (Inl e, snd (seqA [rollback_to n, release n] s1)))"
    using False s i by (simp add: with_savepoint_def bindA_def mapE_def savepoint_def settled_def
        split: sum.split)
  show ?thesis
  proof (cases q)
    case (Inl e)
    with w r have "r = Inl e" and "s' = snd (seqA [rollback_to n, release n] s1)" by simp_all
    with k s show ?thesis
      by (auto simp: thenA_def bindA_def rollback_to_def release_def pop_saves_def ret_def
          settled_def settle_def split: if_splits)
  next
    case (Inr a)
    with w r have "thenA (mapE wrap (release n)) (ret a) s1 = (r, s')" by simp
    with k i Inr show ?thesis
      by (auto simp: thenA_def bindA_def mapE_def release_def pop_saves_def ret_def settled_def
          split: if_splits)
  qed
qed

lemma quiet_eval:
  assumes "settled s" and "quiet s"
  shows "with_savepoint n wrap inner s =
    (case spec (st_fk s) (st_live s) of
       Inl e \<Rightarrow> (Inl e, s)
     | Inr t \<Rightarrow> (Inr (), s\<lparr>st_live := t, st_committed := t\<rparr>))"
proof -
  let ?o = "s\<lparr>st_saves := [(n, st_live s)]\<rparr>"
  have o: "quiet ?o" "st_saves ?o \<noteq> []" "st_fk ?o = st_fk s" "st_live ?o = st_live s"
    using assms by simp_all
  show ?thesis
  proof (cases "spec (st_fk s) (st_live s)")
    case (Inl e)
    with computesD(2) [OF inner_computes o(1,2)] o obtain t where i: "inner ?o = (Inl e, ?o\<lparr>st_live := t\<rparr>)"
      by auto
    with Inl assms show ?thesis
      by (simp add: with_savepoint_def bindA_def mapE_def savepoint_def settled_def thenA_def
          rollback_to_def release_def pop_saves_def ret_def settle_def)
  next
    case (Inr t)
    with computesD(1) [OF inner_computes o(1,2)] o have i: "inner ?o = (Inr (), ?o\<lparr>st_live := t\<rparr>)"
      by auto
    with Inr assms show ?thesis
      by (simp add: with_savepoint_def bindA_def mapE_def savepoint_def settled_def thenA_def
          release_def pop_saves_def ret_def settle_def)
  qed
qed

end

text \<open>With the effect on the durable tables: an operation that reports success has all of it.\<close>

locale durable_body = savepoint_body inner spec
  for inner :: "('e, unit) act" and spec :: "'e tfun" +
  fixes effect :: "tables \<Rightarrow> tables"
  assumes inner_durable: "acts_dur inner effect"
    and effect_durable: "durable (effect (durable t)) = durable (effect t)"
begin

lemma atomic_durable:
  assumes s: "settled s" and r: "with_savepoint n wrap inner s = (r, s')"
  shows "(case r of Inl e \<Rightarrow> st_committed s' = st_committed s
    | Inr u \<Rightarrow> settled s' \<and> durable (st_committed s') = durable (effect (st_committed s)))"
proof (cases r)
  case (Inl e)
  with atomic_commit [OF s r] show ?thesis by simp
next
  case (Inr u)
  let ?o = "(tick s)\<lparr>st_saves := [(n, st_live s)]\<rparr>"
  from Inr atomic_commit [OF s r] obtain s1 where
    "settled s'" "inner ?o = (Inr (), s1)" "st_live s' = st_live s1" by auto
  with inner_durable effect_durable [of "st_live s"] have
    "durable (st_live s') = durable (effect (st_live s))"
    by (auto simp: acts_dur_def dest!: spec [of _ ?o])
  with Inr s \<open>settled s'\<close> show ?thesis by (simp add: settled_def)
qed

end

section \<open>Single statements in autocommit\<close>

lemma exec_quiet [store_simps]:
  "quiet s \<Longrightarrow> settled s \<Longrightarrow> exec f s =
     (case f (st_fk s) (st_live s) of
        Inl e \<Rightarrow> (Inl e, s)
      | Inr t \<Rightarrow> (Inr (), s\<lparr>st_live := t, st_committed := t\<rparr>))"
  by (auto simp: exec_def settled_def settle_def split: sum.split)

lemma settled_update [simp]:
  "settled s \<Longrightarrow> settled (s\<lparr>st_live := t, st_committed := t\<rparr>)"
  by (simp add: settled_def)

lemmas act_simps = ret_def fail_def bindA_def thenA_def ignoreA_def mapE_def query_def query_w_def

end
