(* ===== verification/Tokenizer.thy ===== *)
theory Tokenizer
  imports Prelude
begin

text \<open>
  The multilingual tokenizer of \<open>search/tokenizer.rs\<close>: script detection, splitting into
  script-tagged tokens, and the n-grams of the fuzzy index. Full Unicode lower-casing
  (\<open>str::to_lowercase\<close>) is a table of the standard library and is the parameter \<open>lower\<close>.
\<close>

datatype script =
  Latn | Cyrl | Grek | Hani | Hira | Kana | Hang | Arab | Hebr | Deva | Beng | Thai | OtherScript

fun script_code :: "script \<Rightarrow> string" where
  "script_code Latn = ''Latn''"
| "script_code Cyrl = ''Cyrl''"
| "script_code Grek = ''Grek''"
| "script_code Hani = ''Hani''"
| "script_code Hira = ''Hira''"
| "script_code Kana = ''Kana''"
| "script_code Hang = ''Hang''"
| "script_code Arab = ''Arab''"
| "script_code Hebr = ''Hebr''"
| "script_code Deva = ''Deva''"
| "script_code Beng = ''Beng''"
| "script_code Thai = ''Thai''"
| "script_code OtherScript = ''Other''"

definition in_range :: "nat \<Rightarrow> nat \<Rightarrow> nat \<Rightarrow> bool" where
  "in_range lo hi c \<longleftrightarrow> lo \<le> c \<and> c \<le> hi"

definition detect_script :: "uchar \<Rightarrow> script" where
  "detect_script c =
     (if in_range 0x0041 0x005A c \<or> in_range 0x0061 0x007A c \<or> in_range 0x00C0 0x024F c then Latn
      else if in_range 0x0400 0x04FF c then Cyrl
      else if in_range 0x0370 0x03FF c then Grek
      else if in_range 0x4E00 0x9FFF c \<or> in_range 0xF900 0xFAFF c then Hani
      else if in_range 0x3040 0x309F c then Hira
      else if in_range 0x30A0 0x30FF c then Kana
      else if in_range 0xAC00 0xD7AF c \<or> in_range 0x1100 0x11FF c then Hang
      else if in_range 0x0600 0x06FF c then Arab
      else if in_range 0x0590 0x05FF c then Hebr
      else if in_range 0x0900 0x097F c then Deva
      else if in_range 0x0980 0x09FF c then Beng
      else if in_range 0x0E00 0x0E7F c then Thai
      else OtherScript)"

text \<open>\<open>char::is_whitespace\<close>: the Unicode \<open>White_Space\<close> property.\<close>

definition is_whitespace :: "uchar \<Rightarrow> bool" where
  "is_whitespace c \<longleftrightarrow>
     in_range 9 13 c \<or> c = 32 \<or> c = 0x85 \<or> c = 0xA0 \<or> c = 0x1680 \<or> in_range 0x2000 0x200A c
       \<or> c = 0x2028 \<or> c = 0x2029 \<or> c = 0x202F \<or> c = 0x205F \<or> c = 0x3000"

definition trigrams :: "(ustr \<Rightarrow> ustr) \<Rightarrow> ustr \<Rightarrow> ustr list" where
  "trigrams lower token =
     (if length token < 3 then [lower token]
      else map (\<lambda>i. lower (take 3 (drop i token))) [0..<Suc (length token - 3)])"

definition bigrams :: "ustr \<Rightarrow> ustr list" where
  "bigrams token =
     (if length token < 2 then [token]
      else map (\<lambda>i. take 2 (drop i token)) [0..<Suc (length token - 2)])"

text \<open>The loop of \<open>tokenize\<close>: the tokens so far, the current token and its script.\<close>

fun tokenize_loop ::
  "ustr \<Rightarrow> (ustr \<times> script) list \<Rightarrow> ustr \<Rightarrow> script \<Rightarrow> (ustr \<times> script) list" where
  "tokenize_loop [] tokens current current_script =
     (if current \<noteq> [] then tokens @ [(current, current_script)] else tokens)"
| "tokenize_loop (c # cs) tokens current current_script =
     (if is_whitespace c then
        (if current \<noteq> [] then tokenize_loop cs (tokens @ [(current, current_script)]) [] current_script
         else tokenize_loop cs tokens current current_script)
      else
        (let sc = detect_script c in
         if sc \<noteq> current_script \<and> current \<noteq> []
         then tokenize_loop cs (tokens @ [(current, current_script)]) [c] sc
         else tokenize_loop cs tokens (current @ [c]) sc))"

definition tokenize :: "ustr \<Rightarrow> (ustr \<times> script) list" where
  "tokenize text = tokenize_loop text [] [] Latn"

text \<open>The choice between bigrams and trigrams that every indexer and the fuzzy search make.\<close>

definition grams_of :: "(ustr \<Rightarrow> ustr) \<Rightarrow> ustr \<times> script \<Rightarrow> ustr list" where
  "grams_of lower ts =
     (case ts of (token, sc) \<Rightarrow>
        if sc \<in> {Hani, Hira, Kana, Hang} then bigrams token else trigrams lower token)"

definition index_grams :: "(ustr \<Rightarrow> ustr) \<Rightarrow> ustr \<Rightarrow> (ustr \<times> string) list" where
  "index_grams lower text =
     concat (map (\<lambda>ts. map (\<lambda>g. (g, script_code (snd ts))) (grams_of lower ts)) (tokenize text))"

section \<open>What the tokenizer keeps\<close>

definition good_token :: "ustr \<times> script \<Rightarrow> bool" where
  "good_token ts \<longleftrightarrow> fst ts \<noteq> [] \<and> (\<forall>c \<in> set (fst ts). \<not> is_whitespace c \<and> detect_script c = snd ts)"

lemma tokenize_loop_concat:
  "concat (map fst (tokenize_loop cs toks cur sc)) =
     concat (map fst toks) @ cur @ filter (\<lambda>c. \<not> is_whitespace c) cs"
  by (induction cs toks cur sc rule: tokenize_loop.induct) (auto simp: Let_def)

lemma tokenize_loop_good:
  "list_all good_token toks \<Longrightarrow> (\<forall>c \<in> set cur. \<not> is_whitespace c \<and> detect_script c = sc) \<Longrightarrow>
     list_all good_token (tokenize_loop cs toks cur sc)"
proof (induction cs toks cur sc rule: tokenize_loop.induct)
  case (1 tokens current current_script)
  then show ?case by (auto simp: good_token_def)
next
  case (2 c cs tokens current current_script)
  show ?case
  proof (cases "is_whitespace c")
    case True
    with 2 show ?thesis by (auto simp: good_token_def)
  next
    case False
    with 2 show ?thesis
      by (cases "detect_script c \<noteq> current_script \<and> current \<noteq> []")
        (auto simp: Let_def good_token_def)
  qed
qed

lemma take_drop_middle:
  "i + n \<le> length q \<Longrightarrow> take n (drop (length a + i) (a @ q @ b)) = take n (drop i q)"
  by simp

lemma trigrams_iff:
  "3 \<le> length t \<Longrightarrow> g \<in> set (trigrams lower t) \<longleftrightarrow> (\<exists>i. i + 3 \<le> length t \<and> g = lower (take 3 (drop i t)))"
  by (auto simp: trigrams_def image_iff less_Suc_eq_le le_diff_conv2 simp del: upt_Suc)

lemma trigrams_subset:
  assumes "3 \<le> length q"
  shows "set (trigrams lower q) \<subseteq> set (trigrams lower (a @ q @ b))"
proof
  fix g assume "g \<in> set (trigrams lower q)"
  with assms obtain i where i: "i + 3 \<le> length q" "g = lower (take 3 (drop i q))"
    by (auto simp: trigrams_iff)
  with take_drop_middle [OF i(1), of a b] assms show "g \<in> set (trigrams lower (a @ q @ b))"
    by (auto simp: trigrams_iff simp del: take_append drop_append intro!: exI [of _ "length a + i"])
qed

lemma bigrams_iff:
  "2 \<le> length t \<Longrightarrow> g \<in> set (bigrams t) \<longleftrightarrow> (\<exists>i. i + 2 \<le> length t \<and> g = take 2 (drop i t))"
  by (auto simp: bigrams_def image_iff less_Suc_eq_le le_diff_conv2 simp del: upt_Suc add_2_eq_Suc')

lemma bigrams_subset:
  assumes "2 \<le> length q"
  shows "set (bigrams q) \<subseteq> set (bigrams (a @ q @ b))"
proof
  fix g assume "g \<in> set (bigrams q)"
  with assms obtain i where i: "i + 2 \<le> length q" "g = take 2 (drop i q)"
    by (auto simp: bigrams_iff)
  with take_drop_middle [OF i(1), of a b] assms show "g \<in> set (bigrams (a @ q @ b))"
    by (auto simp: bigrams_iff simp del: take_append drop_append intro!: exI [of _ "length a + i"])
qed

lemma length_grams:
  "length (trigrams lower t) = (if length t < 3 then 1 else length t - 2)"
  "length (bigrams t) = (if length t < 2 then 1 else length t - 1)"
  by (auto simp: trigrams_def bigrams_def)

section \<open>Properties\<close>

text \<open>
  tokenizing loses nothing but whitespace and mixes no scripts: the tokens in order are the
  text without its whitespace, and each token is non-empty, whitespace-free and of the one script
  it is tagged with.
\<close>

theorem tokenize_partition:
  "concat (map fst (tokenize text)) = filter (\<lambda>c. \<not> is_whitespace c) text
   \<and> list_all good_token (tokenize text)"
  using tokenize_loop_concat [of "text" "[]" "[]" Latn] tokenize_loop_good [of "[]" "[]" Latn "text"]
  by (simp add: tokenize_def)

text \<open>
  the fuzzy index is complete for substrings: when a query token occurs inside an indexed token of
  the same script and is long enough for one n-gram (two characters in the CJK scripts, three
  elsewhere), every n-gram the search looks up is an n-gram the indexer stored.
\<close>

theorem fuzzy_substring_complete:
  assumes "(if sc \<in> {Hani, Hira, Kana, Hang} then 2 else 3) \<le> length q"
  shows "set (grams_of lower (q, sc)) \<subseteq> set (grams_of lower (a @ q @ b, sc))"
  using assms trigrams_subset [of q lower a b] bigrams_subset [of q a b]
  by (auto simp: grams_of_def split: if_splits)

theorem fuzzy_substring_complete_witness:
  "set (grams_of id (lit ''ell'', Latn)) \<subseteq> set (grams_of id (lit ''h'' @ lit ''ell'' @ lit ''o'', Latn))"
  by (rule fuzzy_substring_complete) (simp add: lit_def)

end
