(* ===== verification/LocalStore.thy ===== *)
theory LocalStore
  imports Store Tokenizer
begin

text \<open>
  \<open>LocalStoreDb\<close> of \<open>local_store/db.rs\<close>: one definition per public operation, as an action over
  the store of theory \<open>Store\<close>. Each SQL statement is a table function; the writes go through the
  write connection, the reads through the pool. Rows come back in \<open>rowid\<close> order where the SQL has
  no \<open>ORDER BY\<close>, and ties of an \<open>ORDER BY\<close> keep that order, which is the order of the schema's
  indexes. The FTS5 matcher is SQLite's and is the parameter \<open>fts\<close>.
\<close>

section \<open>Statements\<close>

definition put_conv :: "conv_row \<Rightarrow> stmt" where
  "put_conv r fk t = Inr (t\<lparr>t_conv := upsert rc_id r (t_conv t)\<rparr>)"

definition put_skel :: "skel_row \<Rightarrow> stmt" where
  "put_skel r fk t =
     (if fk \<and> rs_conv r \<notin> rc_id ` set (t_conv t) then Inl FkViolation
      else Inr (t\<lparr>t_skel := upsert rs_id r (t_skel t)\<rparr>))"

definition put_body :: "message_body \<Rightarrow> stmt" where
  "put_body r fk t =
     (if fk \<and> b_id r \<notin> rs_id ` set (t_skel t) then Inl FkViolation
      else Inr (t\<lparr>t_body := upsert b_id r (t_body t)\<rparr>))"

definition put_media :: "media_row \<Rightarrow> stmt" where
  "put_media r fk t =
     (if fk \<and> rm_message r \<notin> rs_id ` set (t_skel t) then Inl FkViolation
      else Inr (t\<lparr>t_media := upsert rm_asset r (t_media t)\<rparr>))"

definition put_outbox :: "outbox_row \<Rightarrow> stmt" where
  "put_outbox r fk t = Inr (t\<lparr>t_outbox := upsert o_id r (t_outbox t)\<rparr>)"

definition add_fts :: "fts_row \<Rightarrow> stmt" where
  "add_fts r fk t = Inr (t\<lparr>t_fts := t_fts t @ [r]\<rparr>)"

definition add_fuzzy :: "fuzzy_row \<Rightarrow> tables \<Rightarrow> tables" where
  "add_fuzzy r t = t\<lparr>t_fuzzy := insert_ignore r (t_fuzzy t)\<rparr>"

text \<open>\<open>event_seq\<close> is \<open>AUTOINCREMENT\<close>: one more than the largest number ever handed out.\<close>

definition add_journal :: "backup_event_entry \<Rightarrow> stmt" where
  "add_journal e fk t =
     Inr (t\<lparr>t_journal := t_journal t @ [(t_journal_seq t + 1, e)],
            t_journal_seq := t_journal_seq t + 1\<rparr>)"

definition upd_conv :: "string \<Rightarrow> (conv_row \<Rightarrow> conv_row) \<Rightarrow> tables \<Rightarrow> tables" where
  "upd_conv k f t = t\<lparr>t_conv := update_where (\<lambda>r. rc_id r = k) f (t_conv t)\<rparr>"

definition upd_skel :: "string \<Rightarrow> (skel_row \<Rightarrow> skel_row) \<Rightarrow> tables \<Rightarrow> tables" where
  "upd_skel k f t = t\<lparr>t_skel := update_where (\<lambda>r. rs_id r = k) f (t_skel t)\<rparr>"

definition upd_body :: "string \<Rightarrow> (message_body \<Rightarrow> message_body) \<Rightarrow> tables \<Rightarrow> tables" where
  "upd_body k f t = t\<lparr>t_body := update_where (\<lambda>r. b_id r = k) f (t_body t)\<rparr>"

definition upd_media :: "string \<Rightarrow> (media_row \<Rightarrow> media_row) \<Rightarrow> tables \<Rightarrow> tables" where
  "upd_media k f t = t\<lparr>t_media := update_where (\<lambda>r. rm_asset r = k) f (t_media t)\<rparr>"

definition upd_outbox :: "string \<Rightarrow> (outbox_row \<Rightarrow> outbox_row) \<Rightarrow> tables \<Rightarrow> tables" where
  "upd_outbox k f t = t\<lparr>t_outbox := update_where (\<lambda>r. o_id r = k) f (t_outbox t)\<rparr>"

definition del_fts :: "string \<Rightarrow> tables \<Rightarrow> tables" where
  "del_fts k t = t\<lparr>t_fts := delete_where (\<lambda>r. f_id r = k) (t_fts t)\<rparr>"

definition del_fuzzy :: "string \<Rightarrow> tables \<Rightarrow> tables" where
  "del_fuzzy k t = t\<lparr>t_fuzzy := delete_where (\<lambda>r. snd (snd r) = k) (t_fuzzy t)\<rparr>"

definition del_body :: "string \<Rightarrow> tables \<Rightarrow> tables" where
  "del_body k t = t\<lparr>t_body := delete_where (\<lambda>r. b_id r = k) (t_body t)\<rparr>"

definition db_exec :: "stmt \<Rightarrow> (storage_error, unit) act" where
  "db_exec f = mapE Sqlite (exec f)"

section \<open>Connections and migrations\<close>

text \<open>
  \<open>read()\<close>: the pool slot and the next round-robin index; without a pool the write connection.
\<close>

definition read_slot :: "nat \<Rightarrow> u64 \<Rightarrow> nat option \<times> u64" where
  "read_slot pool idx = (if pool = 0 then (None, idx) else (Some (unat idx mod pool), idx + 1))"

definition latest_user_version :: int where
  "latest_user_version = 5"

definition migrations :: "int list" where
  "migrations = [1, 2, 3, 4, 5]"

text \<open>
  The database side of \<open>init_connection\<close>: \<open>user_version\<close> and the migrations applied so far, in
  order. \<open>batch v\<close> says whether SQLite executes the batch of version \<open>v\<close>.
\<close>

record versioned =
  v_user :: int
  v_applied :: "int list"

fun migrate_fresh :: "(int \<Rightarrow> bool) \<Rightarrow> int list \<Rightarrow> versioned \<Rightarrow> storage_error option \<times> versioned" where
  "migrate_fresh batch [] d = (None, d\<lparr>v_user := latest_user_version\<rparr>)"
| "migrate_fresh batch (v # vs) d =
     (if 1 < v then
        (if batch v then migrate_fresh batch vs (d\<lparr>v_applied := v_applied d @ [v]\<rparr>)
         else (Some (MigrationFailed (nat (v - 1)) (nat v) ''''), d))
      else migrate_fresh batch vs d)"

fun migrate_existing ::
  "(int \<Rightarrow> bool) \<Rightarrow> int \<Rightarrow> int list \<Rightarrow> versioned \<Rightarrow> storage_error option \<times> versioned" where
  "migrate_existing batch current [] d = (None, d)"
| "migrate_existing batch current (v # vs) d =
     (if current < v then
        (if batch v then migrate_existing batch current vs (d\<lparr>v_applied := v_applied d @ [v], v_user := v\<rparr>)
         else (Some (MigrationFailed (nat current) (nat v) ''''), d))
      else migrate_existing batch current vs d)"

definition init_connection :: "(int \<Rightarrow> bool) \<Rightarrow> versioned \<Rightarrow> storage_error option \<times> versioned" where
  "init_connection batch d =
     (if v_user d = 0 then
        (if batch 1 then migrate_fresh batch migrations (d\<lparr>v_applied := v_applied d @ [1]\<rparr>)
         else (Some (Sqlite DriverFailure), d))
      else if v_user d < latest_user_version
      then migrate_existing batch (v_user d) migrations d
      else (None, d))"

text \<open>
  The store right after \<open>open\<close> created the file (three read-only connections) or after
  \<open>open_in_memory\<close> (none).
\<close>

definition read_pool_size :: nat where
  "read_pool_size = 3"

definition fresh_store :: "nat \<Rightarrow> bool \<Rightarrow> store" where
  "fresh_store pool fk =
     \<lparr>st_live = empty_tables, st_committed = empty_tables, st_saves = [], st_faults = [],
      st_fk = fk, st_pool = pool\<rparr>"

definition open_db :: "bool \<Rightarrow> store" where
  "open_db fk = fresh_store read_pool_size fk"

definition open_in_memory :: "bool \<Rightarrow> store" where
  "open_in_memory fk = fresh_store 0 fk"

section \<open>Writes\<close>

definition insert_conversation :: "conversation \<Rightarrow> (storage_error, unit) act" where
  "insert_conversation c = db_exec (put_conv (conv_to_row c))"

definition insert_skeleton :: "message_skeleton \<Rightarrow> (storage_error, unit) act" where
  "insert_skeleton sk = db_exec (put_skel (skel_to_row sk))"

definition insert_body :: "message_body \<Rightarrow> (storage_error, unit) act" where
  "insert_body b = db_exec (put_body b)"

definition index_fts :: "string \<Rightarrow> string \<Rightarrow> string \<Rightarrow> int \<Rightarrow> ustr \<Rightarrow> (storage_error, unit) act" where
  "index_fts mid conv sender created text =
     db_exec (add_fts \<lparr>f_id = mid, f_conv = conv, f_sender = sender, f_created_ms = created, f_text = text\<rparr>)"

definition insert_media_asset :: "media_asset \<Rightarrow> (storage_error, unit) act" where
  "insert_media_asset m = db_exec (put_media (media_to_row m))"

definition update_body_state :: "string \<Rightarrow> string \<Rightarrow> (storage_error, unit) act" where
  "update_body_state mid state = db_exec (pureT (upd_skel mid (\<lambda>r. r\<lparr>rs_body := state\<rparr>)))"

definition update_media_state :: "string \<Rightarrow> string \<Rightarrow> (storage_error, unit) act" where
  "update_media_state asset state = db_exec (pureT (upd_media asset (\<lambda>r. r\<lparr>rm_state := state\<rparr>)))"

definition index_fuzzy :: "ustr \<Rightarrow> string \<Rightarrow> string \<Rightarrow> (storage_error, unit) act" where
  "index_fuzzy token scr mid = db_exec (pureT (add_fuzzy (token, scr, mid)))"

definition insert_backup_event :: "backup_event_entry \<Rightarrow> (storage_error, unit) act" where
  "insert_backup_event e = db_exec (add_journal e)"

definition set_last_message :: "string \<Rightarrow> int \<Rightarrow> conv_row \<Rightarrow> conv_row" where
  "set_last_message mid activity r =
     r\<lparr>rc_last_message_id := Some mid, rc_last_activity_ms := activity\<rparr>"

definition update_conversation_last_message :: "string \<Rightarrow> string \<Rightarrow> int \<Rightarrow> (storage_error, unit) act" where
  "update_conversation_last_message conv mid activity =
     db_exec (pureT (upd_conv conv (set_last_message mid activity)))"

definition update_message_body_text :: "string \<Rightarrow> ustr \<Rightarrow> (storage_error, unit) act" where
  "update_message_body_text mid new_text = db_exec (pureT (upd_body mid (\<lambda>r. r\<lparr>b_text := Some new_text\<rparr>)))"

definition update_skeleton_edited :: "string \<Rightarrow> int \<Rightarrow> (storage_error, unit) act" where
  "update_skeleton_edited mid edited = db_exec (pureT (upd_skel mid (\<lambda>r. r\<lparr>rs_edited_ms := Some edited\<rparr>)))"

definition delete_fts_row :: "string \<Rightarrow> (storage_error, unit) act" where
  "delete_fts_row mid = db_exec (pureT (del_fts mid))"

definition delete_fuzzy_rows :: "string \<Rightarrow> (storage_error, unit) act" where
  "delete_fuzzy_rows mid = db_exec (pureT (del_fuzzy mid))"

definition set_deleted :: "int \<Rightarrow> body_state \<Rightarrow> skel_row \<Rightarrow> skel_row" where
  "set_deleted deleted new_state r =
     r\<lparr>rs_deleted_ms := Some deleted, rs_body := body_to_string new_state\<rparr>"

definition update_skeleton_deleted :: "string \<Rightarrow> int \<Rightarrow> body_state \<Rightarrow> (storage_error, unit) act" where
  "update_skeleton_deleted mid deleted new_state =
     db_exec (pureT (upd_skel mid (set_deleted deleted new_state)))"

definition delete_message_body :: "string \<Rightarrow> (storage_error, unit) act" where
  "delete_message_body mid = db_exec (pureT (del_body mid))"

definition set_backed_up :: "skel_row \<Rightarrow> skel_row" where
  "set_backed_up r = r\<lparr>rs_backup := ''backup_manifest_committed''\<rparr>"

definition mark_skeleton_backed_up :: "string \<Rightarrow> (storage_error, unit) act" where
  "mark_skeleton_backed_up mid = db_exec (pureT (upd_skel mid set_backed_up))"

definition batch_mark_skeletons_backed_up :: "string list \<Rightarrow> (storage_error, unit) act" where
  "batch_mark_skeletons_backed_up ids =
     (if ids = [] then ret ()
      else mapE Sqlite (with_tx (forA (\<lambda>i. exec (pureT (upd_skel i set_backed_up))) ids)))"

definition reindex_message ::
  "(ustr \<Rightarrow> ustr) \<Rightarrow> string \<Rightarrow> string \<Rightarrow> string \<Rightarrow> int \<Rightarrow> ustr \<Rightarrow> (storage_error, unit) act" where
  "reindex_message lower mid conv sender created text =
     thenA (index_fts mid conv sender created text)
       (mapE Sqlite (with_tx
          (forA (\<lambda>(g, sc). exec (pureT (add_fuzzy (g, sc, mid)))) (index_grams lower text))))"

text \<open>The number of rows deleted is what \<open>execute\<close> returns.\<close>

definition prune_backup_events :: "int \<Rightarrow> (storage_error, nat) act" where
  "prune_backup_events before =
     bindA (query_w (\<lambda>t. length (filter (\<lambda>(_, e). be_created_ms e < before) (t_journal t)))) (\<lambda>n.
     thenA (db_exec (pureT (\<lambda>t. t\<lparr>t_journal := delete_where (\<lambda>(_, e). be_created_ms e < before) (t_journal t)\<rparr>)))
       (ret n))"

definition save_backup_state :: "u64 \<Rightarrow> bytes \<Rightarrow> (storage_error, unit) act" where
  "save_backup_state gen hash = db_exec (pureT (\<lambda>t. t\<lparr>t_backup_state := Some (u64_as_i64 gen, hash)\<rparr>))"

definition clear_skels :: stmt where
  "clear_skels fk t = (if fk \<and> (t_body t \<noteq> [] \<or> t_media t \<noteq> []) then Inl FkViolation else Inr (t\<lparr>t_skel := []\<rparr>))"

definition clear_convs :: stmt where
  "clear_convs fk t = (if fk \<and> t_skel t \<noteq> [] then Inl FkViolation else Inr (t\<lparr>t_conv := []\<rparr>))"

definition clear_all_message_data :: "(storage_error, unit) act" where
  "clear_all_message_data = mapE Sqlite (seqA
     [exec (pureT (\<lambda>t. t\<lparr>t_fts := []\<rparr>)),
      exec (pureT (\<lambda>t. t\<lparr>t_fuzzy := []\<rparr>)),
      exec (pureT (\<lambda>t. t\<lparr>t_body := []\<rparr>)),
      exec (pureT (\<lambda>t. t\<lparr>t_media := []\<rparr>)),
      exec clear_skels,
      exec clear_convs,
      exec (pureT (\<lambda>t. t\<lparr>t_journal := []\<rparr>)),
      exec (pureT (\<lambda>t. t\<lparr>t_outbox := []\<rparr>))])"

section \<open>Reads\<close>

definition fetch_timeline :: "string \<Rightarrow> nat \<Rightarrow> int option \<Rightarrow> (storage_error, timeline_row list) act" where
  "fetch_timeline conv limit before = query (\<lambda>t.
     map timeline_of_row (take limit (sort_key (\<lambda>r. - rs_created_ms r)
       (filter (\<lambda>r. rs_conv r = conv \<and> rs_deleted_ms r = None
                     \<and> (case before of None \<Rightarrow> True | Some b \<Rightarrow> rs_created_ms r < b)) (t_skel t)))))"

definition fetch_body :: "string \<Rightarrow> (storage_error, message_body option) act" where
  "fetch_body mid = query (\<lambda>t. row_of b_id mid (t_body t))"

definition max_batch_params :: nat where
  "max_batch_params = 900"

definition fetch_bodies_batch :: "string list \<Rightarrow> (storage_error, string \<rightharpoonup> ustr) act" where
  "fetch_bodies_batch ids =
     (if ids = [] then ret Map.empty
      else if max_batch_params < length ids
      then fail (Custom (''batch size '' @ dec_nat (length ids) @ '' exceeds SQLite parameter limit''))
      else query (\<lambda>t. fold (\<lambda>b m. case b_text b of None \<Rightarrow> m | Some x \<Rightarrow> m(b_id b \<mapsto> x))
             (filter (\<lambda>b. b_id b \<in> set ids) (t_body t)) Map.empty))"

type_synonym 'k fts_engine = "ustr \<Rightarrow> fts_row list \<Rightarrow> sql_error + (fts_row \<times> 'k) list"

definition trim_empty :: "ustr \<Rightarrow> bool" where
  "trim_empty q \<longleftrightarrow> list_all is_whitespace q"

definition fts_hit :: "fts_row \<times> 'k \<Rightarrow> string \<times> string \<times> string \<times> int \<times> 'k" where
  "fts_hit h = (case h of (r, k) \<Rightarrow> (f_id r, f_conv r, f_sender r, f_created_ms r, k))"

definition search_fts ::
  "'k fts_engine \<Rightarrow> ustr \<Rightarrow> nat \<Rightarrow> (storage_error, (string \<times> string \<times> string \<times> int \<times> 'k) list) act" where
  "search_fts fts q limit =
     (if trim_empty q then ret []
      else bindA (query (\<lambda>t. fts q (t_fts t))) (\<lambda>r.
             case r of Inl e \<Rightarrow> fail (Sqlite e) | Inr hits \<Rightarrow> ret (map fts_hit (take limit hits))))"

definition search_fts_filtered ::
  "'k fts_engine \<Rightarrow> ustr \<Rightarrow> string \<Rightarrow> nat \<Rightarrow>
     (storage_error, (string \<times> string \<times> string \<times> int \<times> 'k) list) act" where
  "search_fts_filtered fts q conv limit =
     (if trim_empty q then ret []
      else bindA (query (\<lambda>t. fts q (t_fts t))) (\<lambda>r.
             case r of Inl e \<Rightarrow> fail (Sqlite e)
             | Inr hits \<Rightarrow> ret (map fts_hit (take limit (filter (\<lambda>(h, _). f_conv h = conv) hits)))))"

definition fetch_media_asset :: "string \<Rightarrow> (storage_error, media_asset option) act" where
  "fetch_media_asset asset = query (\<lambda>t. map_option media_of_row (row_of rm_asset asset (t_media t)))"

definition fetch_skeleton :: "string \<Rightarrow> (storage_error, message_skeleton option) act" where
  "fetch_skeleton mid = query (\<lambda>t. map_option skel_of_row (row_of rs_id mid (t_skel t)))"

definition get_message_skeleton :: "string \<Rightarrow> (storage_error, message_skeleton option) act" where
  "get_message_skeleton mid = fetch_skeleton mid"

definition fetch_evictable_media :: "nat \<Rightarrow> (storage_error, (string \<times> int \<times> int) list) act" where
  "fetch_evictable_media limit = query (\<lambda>t.
     map (\<lambda>r. (rm_asset r, rm_bytes_local r, rm_bytes_total r))
       (take limit (sort_key (\<lambda>r. - rm_bytes_local r)
         (filter (\<lambda>r. rm_state r = ''original_local'' \<and> 0 < rm_bytes_local r) (t_media t)))))"

text \<open>The length of a \<open>NULL\<close> text is \<open>NULL\<close>, which \<open>get::<_, i64>\<close> refuses.\<close>

definition evictable_rows :: "tables \<Rightarrow> (message_body \<times> skel_row) list" where
  "evictable_rows t = sort_key (\<lambda>(_, r). rs_created_ms r)
     (concat (map (\<lambda>b. case row_of rs_id (b_id b) (t_skel t) of
          Some r \<Rightarrow> if rs_archive r = ''archive_verified'' \<and> rs_deleted_ms r = None then [(b, r)] else []
        | None \<Rightarrow> []) (t_body t)))"

definition fetch_evictable_bodies :: "nat \<Rightarrow> (storage_error, (string \<times> int \<times> int) list) act" where
  "fetch_evictable_bodies limit =
     bindA (query (\<lambda>t. take limit (evictable_rows t))) (\<lambda>rows.
     if list_ex (\<lambda>(b, r). b_text b = None) rows then fail (Sqlite InvalidColumnType)
     else ret (map (\<lambda>(b, r). (b_id b, int (length (the (b_text b))), rs_created_ms r)) rows))"

definition count_messages :: "string \<Rightarrow> (storage_error, int) act" where
  "count_messages conv = query (\<lambda>t.
     int (length (filter (\<lambda>r. rs_conv r = conv \<and> rs_deleted_ms r = None) (t_skel t))))"

definition list_media_assets_by_message :: "string \<Rightarrow> (storage_error, media_asset list) act" where
  "list_media_assets_by_message mid = query (\<lambda>t.
     map media_of_row (filter (\<lambda>r. rm_message r = mid) (t_media t)))"

definition list_all_conversations :: "(storage_error, conversation list) act" where
  "list_all_conversations = query (\<lambda>t. map conv_of_row (t_conv t))"

definition list_all_skeletons :: "(storage_error, message_skeleton list) act" where
  "list_all_skeletons = query (\<lambda>t. map skel_of_row (t_skel t))"

definition pending_backup :: "tables \<Rightarrow> skel_row list" where
  "pending_backup t = filter (\<lambda>r. rs_backup r = ''not_backed_up'') (t_skel t)"

definition list_skeletons_for_backup :: "(storage_error, message_skeleton list) act" where
  "list_skeletons_for_backup = query (\<lambda>t. map skel_of_row (pending_backup t))"

definition list_all_bodies :: "(storage_error, message_body list) act" where
  "list_all_bodies = query t_body"

definition list_skeletons_for_backup_batch :: "nat \<Rightarrow> int \<Rightarrow> (storage_error, message_skeleton list) act" where
  "list_skeletons_for_backup_batch limit offset = query (\<lambda>t.
     map skel_of_row (take limit (drop (nat offset) (pending_backup t))))"

definition list_all_bodies_batch :: "nat \<Rightarrow> int \<Rightarrow> (storage_error, message_body list) act" where
  "list_all_bodies_batch limit offset = query (\<lambda>t. take limit (drop (nat offset) (t_body t)))"

definition load_backup_state :: "(storage_error, (u64 \<times> bytes) option) act" where
  "load_backup_state = query (\<lambda>t. map_option (\<lambda>(gen, hash).
     (i64_as_u64 gen, if length hash = 32 then hash else replicate 32 0)) (t_backup_state t))"

end
