(* ===== verification/Levenshtein.thy ===== *)
theory Levenshtein
  imports Prelude
begin

text \<open>
  The two-row dynamic program \<open>levenshtein\<close> of \<open>search/fuzzy_search.rs\<close>, and the proof that it
  computes the least number of single-character insertions, deletions and substitutions that
  turn one string into the other.
\<close>

section \<open>The program\<close>

text \<open>
  The inner loop over \<open>j\<close>: the character of the outer loop, the rest of \<open>b\<close>, the cell just written
  (\<open>curr[j-1]\<close>) and the previous row from \<open>prev[j-1]\<close> on.
\<close>

fun lev_cells :: "'a \<Rightarrow> 'a list \<Rightarrow> nat \<Rightarrow> nat list \<Rightarrow> nat list" where
  "lev_cells c (d # ds) left (diag # up # prev) =
     (let cost = (if c = d then 0 else 1);
          cell = min (min (up + 1) (left + 1)) (diag + cost)
      in cell # lev_cells c ds cell (up # prev))"
| "lev_cells c _ left prev = []"

definition lev_row :: "'a list \<Rightarrow> nat \<Rightarrow> 'a \<Rightarrow> nat list \<Rightarrow> nat list" where
  "lev_row b i c prev = i # lev_cells c b i prev"

fun lev_rows :: "'a list \<Rightarrow> nat \<Rightarrow> 'a list \<Rightarrow> nat list \<Rightarrow> nat list" where
  "lev_rows b i [] prev = prev"
| "lev_rows b i (c # cs) prev = lev_rows b (Suc i) cs (lev_row b i c prev)"

definition levenshtein :: "'a list \<Rightarrow> 'a list \<Rightarrow> nat" where
  "levenshtein a b =
     (if length a = 0 then length b
      else if length b = 0 then length a
      else lev_rows b 1 a [0..<Suc (length b)] ! length b)"

section \<open>The specification\<close>

inductive edits :: "'a list \<Rightarrow> 'a list \<Rightarrow> nat \<Rightarrow> bool" where
  nothing: "edits [] [] 0"
| same: "edits a b n \<Longrightarrow> edits (x # a) (x # b) n"
| subst: "edits a b n \<Longrightarrow> edits (x # a) (y # b) (Suc n)"
| remove: "edits a b n \<Longrightarrow> edits (x # a) b (Suc n)"
| insert: "edits a b n \<Longrightarrow> edits a (y # b) (Suc n)"

fun ed :: "'a list \<Rightarrow> 'a list \<Rightarrow> nat" where
  "ed [] b = length b"
| "ed (x # a) [] = Suc (length a)"
| "ed (x # a) (y # b) =
     min (min (ed a (y # b) + 1) (ed (x # a) b + 1)) (ed a b + (if x = y then 0 else 1))"

lemma ed_Nil [simp]: "ed a [] = length a"
  by (cases a) simp_all

lemma edits_ins: "edits [] b (length b)"
  by (induction b) (auto intro: edits.intros)

lemma edits_del: "edits a [] (length a)"
  by (induction a) (auto intro: edits.intros)

lemma edits_ed: "edits a b (ed a b)"
proof (induction a b rule: ed.induct)
  case (1 b)
  show ?case by (simp add: edits_ins)
next
  case (2 x a)
  show ?case using edits_del [of "x # a"] by simp
next
  case (3 x a y b)
  have "edits (x # a) (y # b) (ed a b + (if x = y then 0 else 1))"
    using 3(3) by (auto intro: edits.intros)
  moreover have "edits (x # a) (y # b) (ed a (y # b) + 1)" "edits (x # a) (y # b) (ed (x # a) b + 1)"
    using 3(1,2) by (auto intro: edits.intros)
  ultimately show ?case by (simp only: ed.simps min_def split: if_split) simp
qed

lemma ed_remove: "ed (x # a) b \<le> Suc (ed a b)"
  by (cases b) simp_all

lemma ed_insert: "ed a (y # b) \<le> Suc (ed a b)"
  by (cases a) simp_all

lemma ed_minimal: "edits a b n \<Longrightarrow> ed a b \<le> n"
proof (induction rule: edits.induct)
  case (remove a b n x)
  then show ?case using ed_remove [of x a b] by simp
next
  case (insert a b n y)
  then show ?case using ed_insert [of a y b] by simp
qed auto

lemma edits_append: "edits a b n \<Longrightarrow> edits c d m \<Longrightarrow> edits (a @ c) (b @ d) (n + m)"
  by (induction rule: edits.induct) (auto intro: edits.intros)

lemma edits_rev: "edits a b n \<Longrightarrow> edits (rev a) (rev b) n"
proof (induction rule: edits.induct)
  case (same a b n x)
  have "edits [x] [x] 0" by (auto intro: edits.intros)
  from edits_append [OF same(2) this] show ?case by simp
next
  case (subst a b n x y)
  have "edits [x] [y] (Suc 0)" by (auto intro: edits.intros)
  from edits_append [OF subst(2) this] show ?case by simp
next
  case (remove a b n x)
  have "edits [x] [] (Suc 0)" by (auto intro: edits.intros)
  from edits_append [OF remove(2) this] show ?case by simp
next
  case (insert a b n y)
  have "edits [] [y] (Suc 0)" by (auto intro: edits.intros)
  from edits_append [OF insert(2) this] show ?case by simp
qed (auto intro: edits.intros)

lemma ed_rev: "ed (rev a) (rev b) = ed a b"
proof (rule antisym)
  show "ed (rev a) (rev b) \<le> ed a b" by (intro ed_minimal edits_rev edits_ed)
  show "ed a b \<le> ed (rev a) (rev b)"
    using ed_minimal [OF edits_rev [OF edits_ed [of "rev a" "rev b"]]] by simp
qed

lemma edits_sym: "edits a b n \<Longrightarrow> edits b a n"
  by (induction rule: edits.induct) (auto intro: edits.intros)

lemma edits_refl: "edits a a 0"
  by (induction a) (auto intro: edits.intros)

lemma edits_zero: "edits a b 0 \<Longrightarrow> a = b"
proof -
  have "edits a b n \<Longrightarrow> n = 0 \<longrightarrow> a = b" for n by (induction rule: edits.induct) auto
  then show "edits a b 0 \<Longrightarrow> a = b" by blast
qed

section \<open>The program computes the specification\<close>

text \<open>The row for the prefix \<open>p\<close> of the first string, over the prefixes of \<open>b\<close>.\<close>

definition ed_row :: "'a list \<Rightarrow> 'a list \<Rightarrow> nat list" where
  "ed_row p b = map (\<lambda>j. ed (rev p) (rev (take j b))) [0..<Suc (length b)]"

lemma lev_cells_eq:
  "lev_cells c ds (ed (rev (p @ [c])) (rev e)) (map (\<lambda>j. ed (rev p) (rev (e @ take j ds))) [0..<Suc (length ds)])
   = map (\<lambda>j. ed (rev (p @ [c])) (rev (e @ take j ds))) [1..<Suc (length ds)]"
proof (induction ds arbitrary: e)
  case (Cons d ds)
  have ones: "[1..<Suc (length (d # ds))] = 1 # [2..<Suc (length (d # ds))]"
    using upt_conv_Cons [of 1 "Suc (length (d # ds))"] by (simp add: numeral_2_eq_2 del: upt_Suc)
  have zeros: "[0..<Suc (length (d # ds))] = 0 # [1..<Suc (length (d # ds))]"
    using upt_conv_Cons [of 0 "Suc (length (d # ds))"] by (simp del: upt_Suc)
  have m: "map f [0..<Suc (length (d # ds))] = f 0 # f 1 # map f [2..<Suc (length (d # ds))]" for f :: "nat \<Rightarrow> nat"
    by (simp only: zeros ones list.map)
  have shift: "f 1 # map f [2..<Suc (length (d # ds))] = map (\<lambda>j. f (Suc j)) [0..<Suc (length ds)]" for f :: "nat \<Rightarrow> nat"
    by (rule nth_equalityI) (auto simp: nth_Cons' simp del: upt_Suc)
  have shift1: "map f [2..<Suc (length (d # ds))] = map (\<lambda>j. f (Suc j)) [1..<Suc (length ds)]" for f :: "nat \<Rightarrow> nat"
    by (rule nth_equalityI) (auto simp del: upt_Suc)
  have one: "map f [1..<Suc (length (d # ds))] = f 1 # map f [2..<Suc (length (d # ds))]" for f :: "nat \<Rightarrow> nat"
    by (simp only: ones list.map)
  let ?cell = "ed (rev (p @ [c])) (rev (e @ [d]))"
  have cell: "min (min (ed (rev p) (rev (e @ [d])) + 1) (ed (rev (p @ [c])) (rev e) + 1))
      (ed (rev p) (rev e) + (if c = d then 0 else 1)) = ?cell" by simp
  let ?R = "map (\<lambda>j. ed (rev p) (rev (e @ d # take j ds))) [0..<Suc (length ds)]"
  have R: "?R = ed (rev p) (rev (e @ [d])) # tl ?R"
    by (simp add: upt_rec [of 0] del: upt_Suc)
  have step: "lev_cells c (d # ds) left (diag # ?R) =
      min (min (ed (rev p) (rev (e @ [d])) + 1) (left + 1)) (diag + (if c = d then 0 else 1))
        # lev_cells c ds (min (min (ed (rev p) (rev (e @ [d])) + 1) (left + 1)) (diag + (if c = d then 0 else 1))) ?R"
    for left diag
    by (subst (1 2) R) (simp only: lev_cells.simps Let_def)
  have row: "map (\<lambda>j. ed (rev p) (rev (e @ take j (d # ds)))) [0..<Suc (length (d # ds))] = ed (rev p) (rev e) # ?R"
    using m [of "\<lambda>j. ed (rev p) (rev (e @ take j (d # ds)))"] shift [of "\<lambda>j. ed (rev p) (rev (e @ take j (d # ds)))"]
    by (simp only: take_0 append_Nil2 take_Suc_Cons)
  have IH: "lev_cells c ds ?cell ?R = map (\<lambda>j. ed (rev (p @ [c])) (rev (e @ d # take j ds))) [1..<Suc (length ds)]"
    using Cons [of "e @ [d]"] by (simp only: append_assoc append_Cons append_Nil)
  show ?case
    unfolding row step cell IH one [of "\<lambda>j. ed (rev (p @ [c])) (rev (e @ take j (d # ds)))"]
      shift1 [of "\<lambda>j. ed (rev (p @ [c])) (rev (e @ take j (d # ds)))"]
    by (simp only: take_Suc_Cons take_0 One_nat_def)
qed simp

lemma lev_row_eq: "lev_row b (Suc (length p)) c (ed_row p b) = ed_row (p @ [c]) b"
proof -
  have "map f [0..<Suc (length b)] = f 0 # map f [1..<Suc (length b)]" for f :: "nat \<Rightarrow> nat"
    by (simp add: upt_rec [of 0] del: upt_Suc)
  with lev_cells_eq [of c b p "[]"] show ?thesis
    by (simp add: lev_row_def ed_row_def del: upt_Suc)
qed

lemma lev_rows_eq: "lev_rows b (Suc (length p)) cs (ed_row p b) = ed_row (p @ cs) b"
proof (induction cs arbitrary: p)
  case (Cons c cs)
  from Cons [of "p @ [c]"] show ?case by (simp add: lev_row_eq)
qed simp

lemma levenshtein_ed: "levenshtein a b = ed a b"
proof -
  have "ed_row [] b = [0..<Suc (length b)]"
    by (rule nth_equalityI) (auto simp: ed_row_def simp del: upt_Suc)
  then have "lev_rows b 1 a [0..<Suc (length b)] = ed_row a b"
    using lev_rows_eq [of b "[]" a] by simp
  moreover have "ed_row a b ! length b = ed (rev a) (rev b)"
    by (simp add: ed_row_def del: upt_Suc)
  ultimately show ?thesis by (auto simp: levenshtein_def ed_rev)
qed

section \<open>Properties\<close>

text \<open>
  C19: the two-row program returns the edit distance: some script of that many insertions, deletions
  and substitutions turns \<open>a\<close> into \<open>b\<close>, and no shorter one does; it is symmetric and zero only
  for equal strings.
\<close>

theorem levenshtein_minimal:
  "levenshtein a b = (LEAST n. edits a b n) \<and> edits a b (levenshtein a b)
   \<and> levenshtein b a = levenshtein a b \<and> (levenshtein a b = 0) = (a = b)"
proof (intro conjI)
  have "(LEAST n. edits a b n) = ed a b"
    by (rule Least_equality) (simp_all add: edits_ed ed_minimal)
  then show "levenshtein a b = (LEAST n. edits a b n)" and "edits a b (levenshtein a b)"
    by (simp_all add: levenshtein_ed edits_ed)
  show "levenshtein b a = levenshtein a b"
    unfolding levenshtein_ed by (rule antisym) (rule ed_minimal, rule edits_sym, rule edits_ed)+
  show "(levenshtein a b = 0) = (a = b)"
  proof
    assume "levenshtein a b = 0"
    then show "a = b" using edits_ed [of a b] by (auto simp: levenshtein_ed intro: edits_zero)
  next
    assume "a = b"
    then show "levenshtein a b = 0" using ed_minimal [OF edits_refl [of a]] by (simp add: levenshtein_ed)
  qed
qed

end
