(* ===== verification/Search.thy ===== *)
theory Search
  imports Complex_Main LocalStore Levenshtein "HOL-Library.Product_Lexorder"
begin

text \<open>
  The search pipeline: \<open>search/text_search.rs\<close> (query sanitizing and the FTS5 query),
  \<open>search/fuzzy_search.rs\<close> (n-gram candidates scored by edit distance) and
  \<open>search/query_engine.rs\<close> (merging, snippets, filters, ranking). Scores are rationals: the
  code's \<open>f64\<close> quotients of text lengths are ordered like them for texts below \<open>2^26\<close> bytes.
  Parameters: SQLite's FTS5 matcher (\<open>fts\<close>) and the order in which it visits the rows of an index
  (\<open>scan\<close>), the iteration order of the hash map of candidates (\<open>ord\<close>), \<open>str::to_lowercase\<close>
  (\<open>lower\<close>) and \<open>Uuid::parse_str(..).unwrap_or_default()\<close> (\<open>parse_id\<close>). A panic is \<open>None\<close>.
\<close>

section \<open>Data\<close>

datatype search_error =
    QueryParse string
  | Fts5 storage_error
  | ColdSource string
  | SemanticErr string
  | SearchCustom storage_error

datatype content_kind = CkText | CkMedia | CkDocument | CkLink

datatype search_scope = LocalOnly | IncludeCold

record search_query =
  sq_query :: ustr
  sq_sender :: "string option"
  sq_conv :: "string option"
  sq_from_ms :: "int option"
  sq_to_ms :: "int option"
  sq_kind :: "content_kind option"

record search_result =
  sr_message :: string
  sr_conv :: string
  sr_sender :: string
  sr_created_ms :: int
  sr_snippet :: ustr
  sr_score :: rat
  sr_cold :: bool

section \<open>Full-text query\<close>

fun split_ws :: "ustr \<Rightarrow> ustr \<Rightarrow> ustr list" where
  "split_ws [] cur = (if cur = [] then [] else [cur])"
| "split_ws (c # cs) cur =
     (if is_whitespace c then (if cur = [] then split_ws cs [] else cur # split_ws cs [])
      else split_ws cs (cur @ [c]))"

definition split_whitespace :: "ustr \<Rightarrow> ustr list" where
  "split_whitespace s = split_ws s []"

definition fts_special :: "uchar \<Rightarrow> bool" where
  "fts_special c \<longleftrightarrow> c \<in> set (lit (CHR 0x22 # ''*():''))"

fun join_with :: "ustr \<Rightarrow> ustr list \<Rightarrow> ustr" where
  "join_with sep [] = []"
| "join_with sep [x] = x"
| "join_with sep (x # y # ys) = x @ sep @ join_with sep (y # ys)"

definition clean_token :: "ustr \<Rightarrow> ustr" where
  "clean_token tok =
     (let cleaned = filter (\<lambda>c. \<not> fts_special c) tok in
      if cleaned = [] then [] else [0x22] @ cleaned @ [0x22])"

definition sanitize_fts_query :: "ustr \<Rightarrow> ustr" where
  "sanitize_fts_query q = join_with (lit '' '') (filter (\<lambda>s. s \<noteq> []) (map clean_token (split_whitespace q)))"

definition hit_of_row ::
  "(string \<Rightarrow> string) \<Rightarrow> string \<times> string \<times> string \<times> int \<times> rat \<Rightarrow> search_result" where
  "hit_of_row parse_id row =
     (case row of (mid, conv, sender, created, rank) \<Rightarrow>
       \<lparr>sr_message = parse_id mid, sr_conv = parse_id conv, sr_sender = sender, sr_created_ms = created,
        sr_snippet = [], sr_score = 1 / (1 + \<bar>rank\<bar>), sr_cold = False\<rparr>)"

definition text_search ::
  "rat fts_engine \<Rightarrow> (string \<Rightarrow> string) \<Rightarrow> ustr \<Rightarrow> string option \<Rightarrow> nat \<Rightarrow> store \<Rightarrow>
     search_error + search_result list" where
  "text_search fts parse_id q conv limit s =
     (let fts_query = sanitize_fts_query q in
      if fts_query = [] then Inr []
      else case fst (case conv of Some cid \<Rightarrow> search_fts_filtered fts fts_query cid limit s
                     | None \<Rightarrow> search_fts fts fts_query limit s) of
             Inl e \<Rightarrow> Inl (Fts5 e)
           | Inr rows \<Rightarrow> Inr (map (hit_of_row parse_id) rows))"

section \<open>Fuzzy query\<close>

definition max_candidates :: nat where
  "max_candidates = 200"

record fuzzy_candidate =
  fc_message :: string
  fc_conv :: string
  fc_sender :: string
  fc_created_ms :: int
  fc_text :: "ustr option"

text \<open>The candidate query for one n-gram: the joins, \<open>DISTINCT\<close> and the limit.\<close>

definition candidates_for :: "(fuzzy_row list \<Rightarrow> fuzzy_row list) \<Rightarrow> ustr \<Rightarrow> tables \<Rightarrow> fuzzy_candidate list" where
  "candidates_for scan gram t =
     take max_candidates (remdups (concat (map (\<lambda>(_, _, mid).
       case row_of rs_id mid (t_skel t) of
         None \<Rightarrow> []
       | Some r \<Rightarrow>
           if rs_deleted_ms r \<noteq> None then []
           else [\<lparr>fc_message = mid, fc_conv = rs_conv r, fc_sender = rs_sender r, fc_created_ms = rs_created_ms r,
                  fc_text = Option.bind (row_of b_id mid (t_body t)) b_text\<rparr>])
       (scan (filter (\<lambda>(g, _). g = gram) (t_fuzzy t))))))"

text \<open>\<open>entry(id).or_insert(c)\<close> keeps the first candidate of each message.\<close>

fun keep_first :: "('a \<Rightarrow> 'k) \<Rightarrow> 'k list \<Rightarrow> 'a list \<Rightarrow> 'a list" where
  "keep_first key seen [] = []"
| "keep_first key seen (x # xs) =
     (if key x \<in> set seen then keep_first key seen xs else x # keep_first key (key x # seen) xs)"

definition collect_candidates ::
  "(fuzzy_row list \<Rightarrow> fuzzy_row list) \<Rightarrow> (ustr \<Rightarrow> ustr) \<Rightarrow> ustr \<Rightarrow> tables \<Rightarrow> fuzzy_candidate list" where
  "collect_candidates scan lower q t =
     keep_first fc_message []
       (concat (map (\<lambda>g. candidates_for scan g t) (concat (map (grams_of lower) (tokenize q)))))"

definition utf8_len :: "uchar \<Rightarrow> nat" where
  "utf8_len c = (if c < 0x80 then 1 else if c < 0x800 then 2 else if c < 0x10000 then 3 else 4)"

definition byte_len :: "ustr \<Rightarrow> nat" where
  "byte_len s = sum_list (map utf8_len s)"

definition similarity :: "ustr \<Rightarrow> ustr \<Rightarrow> rat" where
  "similarity query_lower text_lower =
     (let max_len = max (byte_len query_lower) (byte_len text_lower) in
      if max_len = 0 then 0 else 1 - of_nat (levenshtein query_lower text_lower) / of_nat max_len)"

definition score_candidate ::
  "(ustr \<Rightarrow> ustr) \<Rightarrow> (string \<Rightarrow> string) \<Rightarrow> ustr \<Rightarrow> fuzzy_candidate \<Rightarrow> search_result option" where
  "score_candidate lower parse_id q c =
     (let text = (case fc_text c of None \<Rightarrow> [] | Some x \<Rightarrow> x) in
      if text = [] then None
      else let sim = similarity (lower q) (lower text) in
        if sim \<le> 0 then None
        else Some \<lparr>sr_message = parse_id (fc_message c), sr_conv = parse_id (fc_conv c),
               sr_sender = fc_sender c, sr_created_ms = fc_created_ms c, sr_snippet = [],
               sr_score = sim, sr_cold = False\<rparr>)"

definition rank_key :: "search_result \<Rightarrow> rat \<times> int" where
  "rank_key r = (- sr_score r, - sr_created_ms r)"

definition fuzzy_search ::
  "(fuzzy_row list \<Rightarrow> fuzzy_row list) \<Rightarrow> (fuzzy_candidate list \<Rightarrow> fuzzy_candidate list) \<Rightarrow>
     (ustr \<Rightarrow> ustr) \<Rightarrow> (string \<Rightarrow> string) \<Rightarrow> ustr \<Rightarrow> nat \<Rightarrow> store \<Rightarrow> search_error + search_result list" where
  "fuzzy_search scan ord lower parse_id q limit s =
     (if tokenize q = [] then Inr []
      else Inr (take limit (sort_key rank_key
             (List.map_filter (score_candidate lower parse_id q)
               (ord (collect_candidates scan lower q (read_view s)))))))"

text \<open>Semantic search is disabled: the engine passes no embedder.\<close>

definition semantic_search :: "ustr \<Rightarrow> nat \<Rightarrow> store \<Rightarrow> search_error + search_result list" where
  "semantic_search q limit s = Inr []"

section \<open>Snippets\<close>

text \<open>Cutting a string at a byte position panics unless the position is a character boundary.\<close>

fun cut_at :: "ustr \<Rightarrow> nat \<Rightarrow> (ustr \<times> ustr) option" where
  "cut_at s 0 = Some ([], s)"
| "cut_at [] (Suc n) = None"
| "cut_at (c # cs) (Suc n) =
     (if Suc n < utf8_len c then None
      else map_option (\<lambda>(a, b). (c # a, b)) (cut_at cs (Suc n - utf8_len c)))"

definition slice :: "ustr \<Rightarrow> nat \<Rightarrow> nat \<Rightarrow> ustr option" where
  "slice s a b =
     (if b < a then None
      else Option.bind (cut_at s a) (\<lambda>(_, r). map_option fst (cut_at r (b - a))))"

text \<open>\<open>str::find\<close>: the byte position of the first occurrence.\<close>

fun find_str :: "ustr \<Rightarrow> ustr \<Rightarrow> nat \<Rightarrow> nat option" where
  "find_str needle s off =
     (if take (length needle) s = needle then Some off
      else case s of [] \<Rightarrow> None | c # cs \<Rightarrow> find_str needle cs (off + utf8_len c))"

declare find_str.simps [simp del]

definition contains_str :: "ustr \<Rightarrow> ustr \<Rightarrow> bool" where
  "contains_str needle s \<longleftrightarrow> find_str needle s 0 \<noteq> None"

definition generate_snippet :: "(ustr \<Rightarrow> ustr) \<Rightarrow> ustr \<Rightarrow> ustr \<Rightarrow> nat \<Rightarrow> ustr option" where
  "generate_snippet lower text q max_len =
     (case find_str (lower q) (lower text) 0 of
        Some pos \<Rightarrow>
          let start = pos - max_len div 3;
              end_pos = min (pos + byte_len q + max_len div 2) (byte_len text)
          in map_option (\<lambda>sn. (if 0 < start then lit ''...'' else []) @ sn
                 @ (if end_pos < byte_len text then lit ''...'' else []))
               (slice text start end_pos)
      | None \<Rightarrow>
          if byte_len text \<le> max_len then Some text
          else map_option (\<lambda>sn. sn @ lit ''...'') (slice text 0 max_len))"

section \<open>The query engine\<close>

definition add_snippet :: "(ustr \<Rightarrow> ustr) \<Rightarrow> ustr \<Rightarrow> (string \<rightharpoonup> ustr) \<Rightarrow> search_result \<Rightarrow> search_result option" where
  "add_snippet lower q bodies r =
     (if sr_snippet r = [] then
        (case bodies (sr_message r) of
           None \<Rightarrow> Some r
         | Some text \<Rightarrow> map_option (\<lambda>sn. r\<lparr>sr_snippet := sn\<rparr>) (generate_snippet lower text q 80))
      else Some r)"

primrec map_panic :: "('a \<Rightarrow> 'b option) \<Rightarrow> 'a list \<Rightarrow> 'b list option" where
  "map_panic f [] = Some []"
| "map_panic f (x # xs) = Option.bind (f x) (\<lambda>y. map_option (\<lambda>ys. y # ys) (map_panic f xs))"

definition skeleton_kind :: "string \<Rightarrow> store \<Rightarrow> message_kind option" where
  "skeleton_kind mid s = (case fst (fetch_skeleton mid s) of
     Inr (Some sk) \<Rightarrow> Some (sk_kind sk) | _ \<Rightarrow> None)"

fun matches_content_kind :: "search_result \<Rightarrow> content_kind \<Rightarrow> store \<Rightarrow> bool" where
  "matches_content_kind r CkText s = (skeleton_kind (sr_message r) s = Some KText)"
| "matches_content_kind r CkMedia s = (skeleton_kind (sr_message r) s = Some KMedia)"
| "matches_content_kind r CkDocument s = (skeleton_kind (sr_message r) s = Some KMedia)"
| "matches_content_kind r CkLink s =
     (contains_str (lit ''http://'') (sr_snippet r) \<or> contains_str (lit ''https://'') (sr_snippet r))"

definition passes_filters :: "search_query \<Rightarrow> store \<Rightarrow> search_result \<Rightarrow> bool" where
  "passes_filters q s r \<longleftrightarrow>
     (case sq_sender q of Some x \<Rightarrow> sr_sender r = x | None \<Rightarrow> True)
     \<and> (case sq_from_ms q of Some f \<Rightarrow> f \<le> sr_created_ms r | None \<Rightarrow> True)
     \<and> (case sq_to_ms q of Some u \<Rightarrow> sr_created_ms r \<le> u | None \<Rightarrow> True)
     \<and> (case sq_kind q of Some k \<Rightarrow> matches_content_kind r k s | None \<Rightarrow> True)"

definition result_limit :: nat where
  "result_limit = 50"

definition search_cold_shards :: "ustr \<Rightarrow> nat \<Rightarrow> search_error + search_result list" where
  "search_cold_shards q limit = Inr []"

text \<open>Steps 5 and 6 and the final ranking, on the merged results.\<close>

definition finish_search :: "search_query \<Rightarrow> store \<Rightarrow> search_result list \<Rightarrow> search_result list" where
  "finish_search q s rs =
     take result_limit (sort_key rank_key (keep_first sr_message [] (filter (passes_filters q s) rs)))"

definition with_snippets ::
  "(ustr \<Rightarrow> ustr) \<Rightarrow> ustr \<Rightarrow> search_result list \<Rightarrow> store \<Rightarrow> (search_error + search_result list) option" where
  "with_snippets lower q rs s =
     (let needs = map sr_message (filter (\<lambda>r. sr_snippet r = []) rs) in
      if needs = [] then Some (Inr rs)
      else case fst (fetch_bodies_batch needs s) of
             Inl e \<Rightarrow> Some (Inl (SearchCustom e))
           | Inr bodies \<Rightarrow> map_option Inr (map_panic (add_snippet lower q bodies) rs))"

definition gather ::
  "rat fts_engine \<Rightarrow> (fuzzy_row list \<Rightarrow> fuzzy_row list) \<Rightarrow> (fuzzy_candidate list \<Rightarrow> fuzzy_candidate list) \<Rightarrow>
     (ustr \<Rightarrow> ustr) \<Rightarrow> (string \<Rightarrow> string) \<Rightarrow> bool \<Rightarrow> search_query \<Rightarrow> search_scope \<Rightarrow> store \<Rightarrow>
     search_error + search_result list" where
  "gather fts scan ord lower parse_id has_cold q scope s =
     (case text_search fts parse_id (sq_query q) (sq_conv q) result_limit s of
        Inl e \<Rightarrow> Inl e
      | Inr r1 \<Rightarrow>
          (case (if length r1 < result_limit div 2
                 then fuzzy_search scan ord lower parse_id (sq_query q) result_limit s else Inr []) of
             Inl e \<Rightarrow> Inl e
           | Inr r2 \<Rightarrow>
               (case semantic_search (sq_query q) result_limit s of
                  Inl e \<Rightarrow> Inl e
                | Inr r3 \<Rightarrow>
                    (case (if scope = IncludeCold \<and> has_cold then search_cold_shards (sq_query q) result_limit
                           else Inr []) of
                       Inl e \<Rightarrow> Inl e
                     | Inr r4 \<Rightarrow> Inr (r1 @ r2 @ r3 @ r4)))))"

definition execute_search ::
  "rat fts_engine \<Rightarrow> (fuzzy_row list \<Rightarrow> fuzzy_row list) \<Rightarrow> (fuzzy_candidate list \<Rightarrow> fuzzy_candidate list) \<Rightarrow>
     (ustr \<Rightarrow> ustr) \<Rightarrow> (string \<Rightarrow> string) \<Rightarrow> bool \<Rightarrow> search_query \<Rightarrow> search_scope \<Rightarrow> store \<Rightarrow>
     (search_error + search_result list) option" where
  "execute_search fts scan ord lower parse_id has_cold q scope s =
     (case gather fts scan ord lower parse_id has_cold q scope s of
        Inl e \<Rightarrow> Some (Inl e)
      | Inr rs \<Rightarrow> map_option (map_sum id (finish_search q s)) (with_snippets lower (sq_query q) rs s))"

section \<open>Lemmas\<close>

lemma keep_first_spec:
  "distinct (map key (keep_first key seen xs)) \<and> set (keep_first key seen xs) \<subseteq> set xs
   \<and> key ` set (keep_first key seen xs) = key ` set xs - set seen"
proof (induction xs arbitrary: seen)
  case (Cons x xs)
  show ?case using Cons [of "key x # seen"] Cons [of seen] by (auto 4 4)
qed simp

lemma cut_at_ascii: "(\<forall>c \<in> set s. c < 0x80) \<Longrightarrow> n \<le> length s \<Longrightarrow> cut_at s n = Some (take n s, drop n s)"
proof (induction s arbitrary: n)
  case Nil
  then show ?case by simp
next
  case (Cons c s)
  then show ?case by (cases n) (auto simp: utf8_len_def)
qed

lemma byte_len_ascii: "(\<forall>c \<in> set s. c < 0x80) \<Longrightarrow> byte_len s = length s"
  by (induction s) (auto simp: byte_len_def utf8_len_def)

lemma slice_ascii:
  "(\<forall>c \<in> set s. c < 0x80) \<Longrightarrow> a \<le> b \<Longrightarrow> b \<le> length s \<Longrightarrow> slice s a b = Some (take (b - a) (drop a s))"
proof -
  assume s: "\<forall>c \<in> set s. c < 0x80" and ab: "a \<le> b" "b \<le> length s"
  then have "\<forall>c \<in> set (drop a s). c < 0x80" by (auto dest: in_set_dropD)
  with s ab show ?thesis by (simp add: slice_def cut_at_ascii)
qed

lemma find_str_pos: "find_str needle s off = Some p \<Longrightarrow> off \<le> p \<and> p \<le> off + byte_len s"
proof (induction needle s off rule: find_str.induct)
  case (1 needle s off)
  show ?case
  proof (cases "take (length needle) s = needle")
    case True
    with 1(2) show ?thesis by (simp add: find_str.simps [of needle s])
  next
    case False
    with 1(2) obtain c cs where s: "s = c # cs" "find_str needle cs (off + utf8_len c) = Some p"
      by (auto simp: find_str.simps [of needle s] split: list.splits)
    with 1(1) [OF False s(1)] show ?thesis by (simp add: byte_len_def)
  qed
qed

lemma split_ws_tokens:
  "(\<forall>c \<in> set cur. \<not> is_whitespace c) \<Longrightarrow>
     list_all (\<lambda>w. w \<noteq> [] \<and> (\<forall>c \<in> set w. \<not> is_whitespace c)) (split_ws s cur)"
  by (induction s cur rule: split_ws.induct) auto

lemma sorted_take: "sorted xs \<Longrightarrow> sorted (take n xs)"
  by (rule sorted_wrt_take)

definition ask :: "string \<Rightarrow> string option \<Rightarrow> search_query" where
  "ask q conv = \<lparr>sq_query = lit q, sq_sender = None, sq_conv = conv, sq_from_ms = None, sq_to_ms = None, sq_kind = None\<rparr>"

section \<open>A search inside one conversation\<close>

definition leak_row :: skel_row where
  "leak_row = \<lparr>rs_id = ''m2'', rs_conv = ''c2'', rs_sender = ''bob'', rs_created_ms = 7, rs_received_ms = 7,
     rs_kind = ''text'', rs_body = ''local_plain_available'', rs_media = None, rs_archive = ''not_archived'',
     rs_backup = ''not_backed_up'', rs_reply_to = None, rs_edited_ms = None, rs_deleted_ms = None\<rparr>"

definition leak_body :: message_body where
  "leak_body = \<lparr>b_id = ''m2'', b_text = Some (lit ''hey''), b_language = None, b_rich_meta = None\<rparr>"

definition leak_store :: store where
  "leak_store =
     (let t = empty_tables\<lparr>t_skel := [leak_row], t_body := [leak_body], t_fuzzy := [(lit ''hey'', ''Latn'', ''m2'')],
        t_fts := [\<lparr>f_id = ''m2'', f_conv = ''c2'', f_sender = ''bob'', f_created_ms = 7, f_text = lit ''hey''\<rparr>]\<rparr>
      in (open_db False)\<lparr>st_live := t, st_committed := t\<rparr>)"

lemma leak_view:
  "t_skel (read_view leak_store) = [leak_row]" "t_body (read_view leak_store) = [leak_body]"
  "t_fuzzy (read_view leak_store) = [(lit ''hey'', ''Latn'', ''m2'')]"
  by (simp_all add: leak_store_def read_view_def Let_def open_db_def fresh_store_def)

lemma leak_tokens: "concat (map (grams_of id) (tokenize (lit ''hey''))) = [lit ''hey'']" "tokenize (lit ''hey'') \<noteq> []"
  by (simp_all add: tokenize_def lit_def is_whitespace_def in_range_def detect_script_def Let_def grams_of_def trigrams_def)

abbreviation leak_candidate :: fuzzy_candidate where
  "leak_candidate \<equiv> \<lparr>fc_message = ''m2'', fc_conv = ''c2'', fc_sender = ''bob'', fc_created_ms = 7, fc_text = Some (lit ''hey'')\<rparr>"

abbreviation leak_hit :: search_result where
  "leak_hit \<equiv> \<lparr>sr_message = ''m2'', sr_conv = ''c2'', sr_sender = ''bob'', sr_created_ms = 7, sr_snippet = [],
     sr_score = 1, sr_cold = False\<rparr>"

lemma leak_candidates: "collect_candidates id id (lit ''hey'') (read_view leak_store) = [leak_candidate]"
  unfolding collect_candidates_def leak_tokens
  by (simp add: candidates_for_def leak_view row_of_def leak_row_def leak_body_def max_candidates_def)

lemma leak_score: "score_candidate id id (lit ''hey'') leak_candidate = Some leak_hit"
proof -
  have "levenshtein (lit ''hey'') (lit ''hey'') = 0" "byte_len (lit ''hey'') = 3" by code_simp+
  moreover have "lit ''hey'' \<noteq> []" by (simp add: lit_def)
  ultimately show ?thesis by (simp add: score_candidate_def similarity_def Let_def)
qed

lemma leak_fuzzy: "fuzzy_search id id id id (lit ''hey'') 50 leak_store = Inr [leak_hit]"
  by (simp add: fuzzy_search_def leak_tokens leak_candidates map_filter_simps leak_score)

lemma leak_gather: "gather (\<lambda>_ _. Inr []) id id id id False (ask ''hey'' (Some ''c1'')) LocalOnly leak_store = Inr [leak_hit]"
proof -
  have "text_search (\<lambda>_ _. Inr []) id (lit ''hey'') (Some ''c1'') n leak_store = Inr []" for n
    by (simp add: text_search_def search_fts_filtered_def act_simps Let_def)
  moreover note leak_fuzzy
  ultimately show ?thesis
    by (simp add: gather_def ask_def semantic_search_def result_limit_def)
qed

lemma leak_shown: "with_snippets id (lit ''hey'') [leak_hit] leak_store = Some (Inr [leak_hit\<lparr>sr_snippet := lit ''hey''\<rparr>])"
proof -
  have "fst (fetch_bodies_batch [''m2''] leak_store) = Inr [''m2'' \<mapsto> lit ''hey'']"
    by (simp add: fetch_bodies_batch_def max_batch_params_def query_def leak_view leak_body_def)
  moreover have "generate_snippet id (lit ''hey'') (lit ''hey'') 80 = Some (lit ''hey'')" by code_simp
  ultimately show ?thesis by (simp add: with_snippets_def add_snippet_def Let_def)
qed

section \<open>Properties\<close>

text \<open>
  the query sent to FTS5 cannot carry query syntax: it is a space-separated list of quoted, non-empty
  words without whitespace, in which none of the characters \<open>"*():\<close> of the user survives.
\<close>

theorem fts_query_inert:
  "\<exists>ws. sanitize_fts_query q = join_with (lit '' '') (map (\<lambda>w. [0x22] @ w @ [0x22]) ws)
     \<and> list_all (\<lambda>w. w \<noteq> [] \<and> list_all (\<lambda>c. \<not> is_whitespace c \<and> \<not> fts_special c) w) ws"
proof -
  have "\<exists>ws. filter (\<lambda>s. s \<noteq> []) (map clean_token ts) = map (\<lambda>w. [0x22] @ w @ [0x22]) ws
      \<and> list_all (\<lambda>w. w \<noteq> [] \<and> list_all (\<lambda>c. \<not> is_whitespace c \<and> \<not> fts_special c) w) ws"
    if "list_all (\<lambda>w. w \<noteq> [] \<and> (\<forall>c \<in> set w. \<not> is_whitespace c)) ts" for ts
    using that
  proof (induction ts)
    case (Cons t ts)
    then obtain ws where ws: "filter (\<lambda>s. s \<noteq> []) (map clean_token ts) = map (\<lambda>w. [0x22] @ w @ [0x22]) ws"
      "list_all (\<lambda>w. w \<noteq> [] \<and> list_all (\<lambda>c. \<not> is_whitespace c \<and> \<not> fts_special c) w) ws" by auto
    let ?c = "filter (\<lambda>c. \<not> fts_special c) t"
    show ?case
    proof (cases "?c = []")
      case True
      then have "clean_token t = []" by (simp add: clean_token_def)
      with ws show ?thesis by (intro exI [of _ ws]) simp
    next
      case False
      then have "clean_token t = [0x22] @ ?c @ [0x22]" by (simp add: clean_token_def)
      with False ws Cons.prems show ?thesis by (intro exI [of _ "?c # ws"]) (auto simp: list_all_iff)
    qed
  qed simp
  from this [OF split_ws_tokens [of "[]" q]] show ?thesis
    by (auto simp: sanitize_fts_query_def split_whitespace_def)
qed

text \<open>
  fuzzy search never surfaces a deleted message and keeps its limit and order: every hit stems from a
  message whose skeleton is not deleted and which shares an indexed n-gram with the query, its
  score is positive, and the hits are ranked.
\<close>

theorem fuzzy_hits_live:
  assumes "\<And>xs. set (scan xs) \<subseteq> set xs" and "\<And>xs. set (ord xs) = set xs"
    and "fuzzy_search scan ord lower parse_id q limit s = Inr rs"
  shows "length rs \<le> limit \<and> sorted (map rank_key rs)
    \<and> (\<forall>r \<in> set rs. 0 < sr_score r \<and> (\<exists>mid row gram sc. sr_message r = parse_id mid
         \<and> row_of rs_id mid (t_skel (read_view s)) = Some row \<and> rs_deleted_ms row = None
         \<and> sr_conv r = parse_id (rs_conv row) \<and> sr_sender r = rs_sender row \<and> sr_created_ms r = rs_created_ms row
         \<and> (gram, sc, mid) \<in> set (t_fuzzy (read_view s))
         \<and> gram \<in> set (concat (map (grams_of lower) (tokenize q)))))"
proof -
  let ?cs = "collect_candidates scan lower q (read_view s)"
  let ?hits = "List.map_filter (score_candidate lower parse_id q) (ord ?cs)"
  show ?thesis
  proof (cases "tokenize q = []")
    case True
    with assms(3) show ?thesis by (simp add: fuzzy_search_def)
  next
    case False
    with assms(3) have rs: "rs = take limit (sort_key rank_key ?hits)" by (simp add: fuzzy_search_def)
    have "0 < sr_score r \<and> (\<exists>mid row gram sc. sr_message r = parse_id mid
        \<and> row_of rs_id mid (t_skel (read_view s)) = Some row \<and> rs_deleted_ms row = None
        \<and> sr_conv r = parse_id (rs_conv row) \<and> sr_sender r = rs_sender row \<and> sr_created_ms r = rs_created_ms row
        \<and> (gram, sc, mid) \<in> set (t_fuzzy (read_view s))
        \<and> gram \<in> set (concat (map (grams_of lower) (tokenize q))))" if "r \<in> set rs" for r
    proof -
      from that have "r \<in> set ?hits" unfolding rs by (auto dest: in_set_takeD)
      then obtain c where c: "c \<in> set ?cs" "score_candidate lower parse_id q c = Some r"
        using assms(2) [of ?cs] by (auto simp: map_filter_def)
      from c(1) keep_first_spec [of fc_message "[]"] obtain g where
        g: "g \<in> set (concat (map (grams_of lower) (tokenize q)))" "c \<in> set (candidates_for scan g (read_view s))"
        unfolding collect_candidates_def by (force dest: subsetD)
      from g(2) obtain g' sc where f: "(g', sc, fc_message c) \<in> set (scan (filter (\<lambda>(x, _). x = g) (t_fuzzy (read_view s))))"
        "\<exists>row. row_of rs_id (fc_message c) (t_skel (read_view s)) = Some row \<and> rs_deleted_ms row = None
          \<and> fc_conv c = rs_conv row \<and> fc_sender c = rs_sender row \<and> fc_created_ms c = rs_created_ms row"
        by (auto simp: candidates_for_def dest!: in_set_takeD split: option.splits if_splits; metis)
      from f(1) assms(1) have "(g', sc, fc_message c) \<in> set (filter (\<lambda>(x, _). x = g) (t_fuzzy (read_view s)))"
        by blast
      with f(2) g(1) c(2) show ?thesis
        by (fastforce simp: score_candidate_def Let_def split: if_splits)
    qed
    moreover have "sorted (map rank_key rs)" unfolding rs by (simp add: take_map [symmetric] sorted_take)
    ultimately show ?thesis unfolding rs by simp
  qed
qed

theorem fuzzy_hits_live_witness:
  "fuzzy_search id id id id (lit ''hey'') 50 leak_store = Inr [leak_hit] \<and> length [leak_hit] \<le> 50"
proof -
  have f: "fuzzy_search id id id id (lit ''hey'') 50 leak_store = Inr [leak_hit]" by (rule leak_fuzzy)
  with fuzzy_hits_live [where scan = id and ord = id, OF _ _ f] show ?thesis by simp
qed

text \<open>
  snippets of ASCII messages never panic, for every query and every length limit, when lower-casing
  keeps ASCII texts ASCII and their length.
\<close>

theorem snippet_ascii_total:
  assumes "\<forall>c \<in> set text. c < 0x80" and "\<forall>c \<in> set (lower text). c < 0x80"
    and "length (lower text) = length text"
  shows "generate_snippet lower text q max_len \<noteq> None"
proof (cases "find_str (lower q) (lower text) 0")
  case None
  with assms(1) show ?thesis
    by (auto simp: generate_snippet_def byte_len_ascii slice_ascii)
next
  case (Some pos)
  from find_str_pos [OF Some] assms have "pos \<le> length text" by (simp add: byte_len_ascii)
  then have "slice text (pos - max_len div 3) (min (pos + byte_len q + max_len div 2) (length text)) \<noteq> None"
  proof -
    have "pos - max_len div 3 \<le> pos + byte_len q + max_len div 2" "pos - max_len div 3 \<le> length text"
      using \<open>pos \<le> length text\<close> by linarith+
    then show ?thesis by (simp add: slice_ascii [OF assms(1)])
  qed
  with Some assms(1) show ?thesis by (simp add: generate_snippet_def Let_def byte_len_ascii)
qed

theorem snippet_ascii_total_witness:
  "generate_snippet id (lit ''This is a long text'') (lit ''long'') 9 \<noteq> None"
  by (rule snippet_ascii_total) (simp_all add: lit_def)

text \<open>
  a snippet of a non-ASCII message can panic: for one ASCII letter followed by fifty two-byte letters
  and a query that does not occur, the cut at byte 80 falls inside a character.
\<close>

theorem snippet_panics_inside_character:
  "generate_snippet id (0x61 # replicate 50 0xE9) (lit ''zz'') 80 = None"
  by code_simp

text \<open>
  a search inside one conversation leaks messages of others: the full-text part is restricted
  to the conversation of the query, the fuzzy part and the filters are not, so here the only hit
  of a search in conversation \<open>c1\<close> is a message of \<open>c2\<close>.
\<close>

theorem conversation_search_leaks:
  "\<exists>r. execute_search (\<lambda>_ _. Inr []) id id id id False (ask ''hey'' (Some ''c1'')) LocalOnly leak_store
       = Some (Inr [r]) \<and> sr_conv r = ''c2'' \<and> sq_conv (ask ''hey'' (Some ''c1'')) = Some ''c1''"
  using leak_shown
  by (simp add: execute_search_def leak_gather finish_search_def result_limit_def passes_filters_def)
    (simp add: ask_def finish_search_def result_limit_def passes_filters_def)

end
