(* ===== verification/ShardCache.thy ===== *)
theory ShardCache
  imports Prelude
begin

text \<open>
  The LRU cache of search shards (\<open>search/shard_cache.rs\<close>): a map from shard ids to entries stamped
  with a counter. Its abstract specification is a recency list, and the concrete operations are
  shown to implement it. The map's iteration order does not matter, because the stamps differ as long as
  the \<open>u64\<close> counter has not wrapped round, which takes \<open>2^64\<close> lookups and insertions.
\<close>

section \<open>The cache\<close>

datatype index_type = IxBloom | IxText | IxFuzzy | IxVector | IxMedia

fun shard_type_as_str :: "index_type \<Rightarrow> string" where
  "shard_type_as_str IxText = ''text''"
| "shard_type_as_str IxFuzzy = ''fuzzy''"
| "shard_type_as_str IxVector = ''vector''"
| "shard_type_as_str IxMedia = ''media''"
| "shard_type_as_str IxBloom = ''bloom''"

definition shard_type_parse :: "string \<Rightarrow> index_type option" where
  "shard_type_parse s =
     (if s = ''text'' then Some IxText else if s = ''fuzzy'' then Some IxFuzzy
      else if s = ''vector'' then Some IxVector else if s = ''media'' then Some IxMedia
      else if s = ''bloom'' then Some IxBloom else None)"

record shard_id =
  si_conv_hash :: string
  si_bucket :: string
  si_type :: index_type

definition shard_to_key :: "shard_id \<Rightarrow> string" where
  "shard_to_key i = si_conv_hash i @ ''__'' @ si_bucket i @ ''__'' @ shard_type_as_str (si_type i)"

record shard_frame =
  hf_nonce :: bytes
  hf_ciphertext :: bytes
  hf_plain_hash :: bytes
  hf_plain_size :: u64

record 'f cache_entry =
  ce_frame :: 'f
  ce_access :: u64

text \<open>The entries as an association list with distinct keys, the capacity and the counter.\<close>

record ('k, 'f) cache =
  ca_entries :: "('k \<times> 'f cache_entry) list"
  ca_max :: nat
  ca_counter :: u64

definition cache_new :: "nat \<Rightarrow> ('k, 'f) cache" where
  "cache_new n = \<lparr>ca_entries = [], ca_max = n, ca_counter = 0\<rparr>"

definition cache_get :: "'k \<Rightarrow> ('k, 'f) cache \<Rightarrow> 'f option \<times> ('k, 'f) cache" where
  "cache_get k c =
     (let ts = ca_counter c + 1; c' = c\<lparr>ca_counter := ts\<rparr> in
      case map_of (ca_entries c) k of
        Some e \<Rightarrow> (Some (ce_frame e),
          c'\<lparr>ca_entries := map (\<lambda>(j, x). if j = k then (j, x\<lparr>ce_access := ts\<rparr>) else (j, x)) (ca_entries c)\<rparr>)
      | None \<Rightarrow> (None, c'))"

definition min_access :: "('k \<times> 'f cache_entry) list \<Rightarrow> 'k option" where
  "min_access es = (case es of [] \<Rightarrow> None | _ \<Rightarrow> Some (fst (arg_min_list (\<lambda>(_, e). ce_access e) es)))"

definition cache_insert :: "'k \<Rightarrow> 'f \<Rightarrow> ('k, 'f) cache \<Rightarrow> ('k, 'f) cache" where
  "cache_insert k f c =
     (let ts = ca_counter c + 1;
          es = ca_entries c;
          es1 = (if ca_max c \<le> length es \<and> k \<notin> fst ` set es then
                   (case min_access es of Some j \<Rightarrow> filter (\<lambda>(i, _). i \<noteq> j) es | None \<Rightarrow> es)
                 else es)
      in c\<lparr>ca_counter := ts,
           ca_entries := (k, \<lparr>ce_frame = f, ce_access = ts\<rparr>) # filter (\<lambda>(i, _). i \<noteq> k) es1\<rparr>)"

definition cache_len :: "('k, 'f) cache \<Rightarrow> nat" where
  "cache_len c = length (ca_entries c)"

definition cache_clear :: "('k, 'f) cache \<Rightarrow> ('k, 'f) cache" where
  "cache_clear c = c\<lparr>ca_entries := []\<rparr>"

section \<open>The specification: a recency list\<close>

text \<open>The most recently used pair first, at most \<open>n\<close> of them (one, when the capacity is 0).\<close>

definition lru_get :: "'k \<Rightarrow> ('k \<times> 'f) list \<Rightarrow> 'f option \<times> ('k \<times> 'f) list" where
  "lru_get k l =
     (case map_of l k of
        None \<Rightarrow> (None, l)
      | Some f \<Rightarrow> (Some f, (k, f) # filter (\<lambda>(i, _). i \<noteq> k) l))"

definition lru_insert :: "nat \<Rightarrow> 'k \<Rightarrow> 'f \<Rightarrow> ('k \<times> 'f) list \<Rightarrow> ('k \<times> 'f) list" where
  "lru_insert n k f l = take (max 1 n) ((k, f) # filter (\<lambda>(i, _). i \<noteq> k) l)"

text \<open>
  \<open>represents c l\<close>: some arrangement of the entries has strictly falling stamps and shows \<open>l\<close>.
\<close>

definition strip :: "('k \<times> 'f cache_entry) list \<Rightarrow> ('k \<times> 'f) list" where
  "strip es = map (\<lambda>(k, e). (k, ce_frame e)) es"

definition newest_first :: "('k \<times> 'f cache_entry) list \<Rightarrow> bool" where
  "newest_first es \<longleftrightarrow> sorted_wrt (\<lambda>x y. ce_access (snd y) < ce_access (snd x)) es"

definition represents :: "('k, 'f) cache \<Rightarrow> ('k \<times> 'f) list \<Rightarrow> bool" where
  "represents c l \<longleftrightarrow> (\<exists>es. set es = set (ca_entries c) \<and> length es = length (ca_entries c)
     \<and> distinct (map fst es) \<and> newest_first es \<and> l = strip es
     \<and> (\<forall>x \<in> set es. ce_access (snd x) \<le> ca_counter c) \<and> length es \<le> max 1 (ca_max c))"

lemma map_fst_strip [simp]: "map fst (strip es) = map fst es"
  by (simp add: strip_def case_prod_beta)

lemma length_strip [simp]: "length (strip es) = length es"
  by (simp add: strip_def)

lemma strip_filter: "strip (filter (\<lambda>(i, _). i \<noteq> k) es) = filter (\<lambda>(i, _). i \<noteq> k) (strip es)"
  by (induction es) (auto simp: strip_def)

lemma map_of_strip: "map_of (strip es) k = map_option ce_frame (map_of es k)"
  by (induction es) (auto simp: strip_def)

lemma map_of_same_set:
  assumes "set xs = set ys" and "length xs = length ys" and "distinct (map fst xs)"
  shows "map_of ys = map_of xs \<and> distinct (map fst ys)"
proof -
  have "distinct xs" using assms(3) by (simp add: distinct_map)
  then have "card (set ys) = length ys" using distinct_card [of xs] assms(1,2) by simp
  then have "distinct ys" by (rule card_distinct)
  moreover have "inj_on fst (set ys)" using assms(1,3) by (simp add: distinct_map)
  ultimately have d: "distinct (map fst ys)" by (simp add: distinct_map)
  with assms have "map_of ys = map_of xs" by (metis map_of_inject_set)
  with d show ?thesis by simp
qed

lemma newest_first_filter: "newest_first es \<Longrightarrow> newest_first (filter P es)"
  by (induction es) (auto simp: newest_first_def)

text \<open>The least recently used entry is the last of the arrangement.\<close>

lemma arg_min_is_last:
  assumes "newest_first (es @ [x])" and "set ys = set (es @ [x])" and "ys \<noteq> []"
  shows "arg_min_list (\<lambda>(_, e). ce_access e) ys = x"
proof -
  let ?m = "arg_min_list (\<lambda>(_, e). ce_access e) ys"
  have "?m \<in> set ys" using assms(3) by (rule arg_min_list_in)
  moreover have "(\<lambda>(_, e). ce_access e) ?m \<le> (\<lambda>(_, e). ce_access e) x"
    using f_arg_min_list_f [OF assms(3), of "\<lambda>(_, e). ce_access e"] assms(2) by simp
  moreover have "\<forall>z \<in> set es. ce_access (snd x) < ce_access (snd z)"
    using assms(1) by (auto simp: newest_first_def sorted_wrt_append)
  ultimately show ?thesis using assms(2) by (force simp: case_prod_beta)
qed

lemma tick_above:
  fixes c :: u64
  assumes "unat c + 1 < 2 ^ 64" and "x \<le> c"
  shows "x < c + 1" "x \<le> c + 1" "unat (c + 1) = unat c + 1"
proof -
  show u: "unat (c + 1) = unat c + 1" using assms(1) by (simp add: unat_word_ariths)
  then show "x < c + 1" using assms(2) by (simp add: word_less_nat_alt word_le_nat_alt)
  then show "x \<le> c + 1" by simp
qed

lemma ticks_above:
  fixes c :: u64
  assumes "unat c + 1 < 2 ^ 64" and "\<forall>x \<in> A. f x \<le> c"
  shows "\<forall>x \<in> A. f x < c + 1" "\<forall>x \<in> A. f x \<le> c + 1"
  using assms(2) tick_above(1,2) [OF assms(1)] by simp_all

lemma represents_new: "represents (cache_new n) []"
  by (auto simp: represents_def cache_new_def strip_def newest_first_def intro!: exI [of _ "[]"])

lemma represents_clear: "represents c l \<Longrightarrow> represents (cache_clear c) []"
  by (auto simp: represents_def cache_clear_def strip_def newest_first_def intro!: exI [of _ "[]"])

lemma filter_key_map_of_None: "k \<notin> fst ` set es \<Longrightarrow> filter (\<lambda>(i, _). i \<noteq> k) es = es"
  by (induction es) auto

lemma represents_get:
  assumes "represents c l" and room: "unat (ca_counter c) + 1 < 2 ^ 64"
  shows "fst (cache_get k c) = fst (lru_get k l) \<and> represents (snd (cache_get k c)) (snd (lru_get k l))"
proof -
  from assms obtain es where es: "set es = set (ca_entries c)" "length es = length (ca_entries c)"
    "distinct (map fst es)" "newest_first es" "l = strip es"
    "\<forall>x \<in> set es. ce_access (snd x) \<le> ca_counter c" "length es \<le> max 1 (ca_max c)"
    by (auto simp: represents_def)
  from map_of_same_set [OF es(1,2,3)] have m: "map_of (ca_entries c) = map_of es"
    and d: "distinct (map fst (ca_entries c))" by simp_all
  show ?thesis
  proof (cases "map_of es k")
    case None
    with m have "represents (snd (cache_get k c)) l"
      unfolding represents_def using es
      by (intro exI [of _ es]) (auto simp: cache_get_def Let_def simp: ticks_above(2) [OF room es(6)])
    with None m es(5) show ?thesis by (simp add: cache_get_def lru_get_def map_of_strip Let_def)
  next
    case (Some e)
    let ?ts = "ca_counter c + 1"
    let ?up = "\<lambda>(j, x). if j = k then (j, x\<lparr>ce_access := ?ts\<rparr>) else (j, x)"
    let ?es = "(k, e\<lparr>ce_access := ?ts\<rparr>) # filter (\<lambda>(i, _). i \<noteq> k) es"
    from Some have ke: "(k, e) \<in> set es" by (rule map_of_SomeD)
    have uniq: "x = e" if "(k, x) \<in> set es" for x
      using that ke es(3) by (metis map_of_is_SomeI option.inject)
    have s: "set ?es = ?up ` set (ca_entries c)"
    proof -
      have "p = (k, e)" if "p \<in> set es" "fst p = k" for p
      proof -
        have "(k, snd p) \<in> set es" using that by (metis prod.collapse)
        then show ?thesis using uniq that(2) by (metis prod.collapse)
      qed
      then have "set es = insert (k, e) {p \<in> set es. fst p \<noteq> k}" using ke by blast
      then have "?up ` set es = insert (?up (k, e)) (?up ` {p \<in> set es. fst p \<noteq> k})"
        by (metis (no_types, lifting) image_insert)
      also have "?up ` {p \<in> set es. fst p \<noteq> k} = (\<lambda>p. p) ` {p \<in> set es. fst p \<noteq> k}"
        by (rule image_cong) auto
      finally show ?thesis by (auto simp: es(1))
    qed
    have dk: "distinct (map fst ?es)" using es(3) by (auto simp: distinct_map_filter)
    have "length ?es = card (fst ` set ?es)"
      using distinct_card [OF dk] by simp
    also have "fst ` set ?es = fst ` set es"
      unfolding s es(1) [symmetric] image_image by (rule image_cong) auto
    also have "card (fst ` set es) = length es"
      using distinct_card [OF es(3)] by simp
    finally have len: "length ?es = length es" .
    have "newest_first ?es"
      using newest_first_filter [OF es(4)] ticks_above(1) [OF room es(6)] by (auto simp: newest_first_def)
    moreover have "strip ?es = snd (lru_get k l)"
      using Some es(5) by (simp add: lru_get_def map_of_strip strip_filter [symmetric])
        (simp add: strip_def)
    moreover have c: "ca_entries (snd (cache_get k c)) = map ?up (ca_entries c)"
      "ca_counter (snd (cache_get k c)) = ?ts" "ca_max (snd (cache_get k c)) = ca_max c"
      using Some m by (auto simp: cache_get_def Let_def)
    moreover have "\<forall>x \<in> set ?es. ce_access (snd x) \<le> ?ts" using ticks_above(2) [OF room es(6)] by auto
    ultimately have "represents (snd (cache_get k c)) (snd (lru_get k l))"
      unfolding represents_def c set_map length_map s [symmetric] es(2) [symmetric] len [symmetric]
      using dk len es(7) by (intro exI [of _ ?es]) simp
    with Some m es(5) show ?thesis by (simp add: cache_get_def lru_get_def map_of_strip Let_def)
  qed
qed

lemma newest_first_Cons:
  "newest_first es \<Longrightarrow> \<forall>x \<in> set es. ce_access (snd x) < t \<Longrightarrow> newest_first ((k, \<lparr>ce_frame = f, ce_access = t\<rparr>) # es)"
  by (simp add: newest_first_def)

text \<open>An insertion after the capacity has been made available.\<close>

lemma represents_put:
  assumes "set es = set en" and "length es = length en" and "distinct (map fst es)" and "newest_first es"
    and "\<forall>x \<in> set es. ce_access (snd x) \<le> ca_counter c"
    and "length (filter (\<lambda>(i, _). i \<noteq> k) es) < max 1 (ca_max c)" and room: "unat (ca_counter c) + 1 < 2 ^ 64"
  shows "represents (c\<lparr>ca_counter := ca_counter c + 1,
      ca_entries := (k, \<lparr>ce_frame = f, ce_access = ca_counter c + 1\<rparr>) # filter (\<lambda>(i, _). i \<noteq> k) en\<rparr>)
    ((k, f) # filter (\<lambda>(i, _). i \<noteq> k) (strip es))"
proof -
  let ?es = "(k, \<lparr>ce_frame = f, ce_access = ca_counter c + 1\<rparr>) # filter (\<lambda>(i, _). i \<noteq> k) es"
  have f: "length (filter (\<lambda>(i, _). i \<noteq> k) es) = length (filter (\<lambda>(i, _). i \<noteq> k) en)"
  proof -
    have "distinct es" "distinct en"
      using assms(1-3) map_of_same_set [OF assms(1-3)] by (auto simp: distinct_map)
    then have "distinct (filter (\<lambda>(i, _). i \<noteq> k) es)" "distinct (filter (\<lambda>(i, _). i \<noteq> k) en)" by simp_all
    then show ?thesis by (simp add: distinct_card [symmetric] assms(1))
  qed
  have "newest_first ?es"
    using ticks_above(1) [OF room assms(5)] by (intro newest_first_Cons newest_first_filter assms(4)) auto
  moreover have "distinct (map fst ?es)" using assms(3) by (auto simp: distinct_map_filter)
  moreover have "strip ?es = (k, f) # filter (\<lambda>(i, _). i \<noteq> k) (strip es)"
    by (simp add: strip_filter [symmetric]) (simp add: strip_def)
  ultimately show ?thesis
    unfolding represents_def using assms(1-4,6) ticks_above(2) [OF room assms(5)] f by (intro exI [of _ ?es]) auto
qed

lemma represents_insert:
  assumes "represents c l" and count: "unat (ca_counter c) + 1 < 2 ^ 64"
  shows "represents (cache_insert k f c) (lru_insert (ca_max c) k f l)"
proof -
  from assms obtain es where es: "set es = set (ca_entries c)" "length es = length (ca_entries c)"
    "distinct (map fst es)" "newest_first es" "l = strip es"
    "\<forall>x \<in> set es. ce_access (snd x) \<le> ca_counter c" "length es \<le> max 1 (ca_max c)"
    by (auto simp: represents_def)
  have keys: "fst ` set (ca_entries c) = fst ` set es" using es(1) by simp
  show ?thesis
  proof (cases "ca_max c \<le> length es \<and> k \<notin> fst ` set es \<and> es \<noteq> []")
    case False
    have room: "length (filter (\<lambda>(i, _). i \<noteq> k) es) < max 1 (ca_max c)"
    proof (cases "k \<in> fst ` set es")
      case True
      then have "length (filter (\<lambda>(i, _). i \<noteq> k) es) < length es"
        by (auto intro!: length_filter_less)
      with es(7) show ?thesis by simp
    next
      case k: False
      then have "filter (\<lambda>(i, _). i \<noteq> k) es = es" by (rule filter_key_map_of_None)
      with False k show ?thesis by (auto simp: max_def)
    qed
    have c: "cache_insert k f c = c\<lparr>ca_counter := ca_counter c + 1,
      ca_entries := (k, \<lparr>ce_frame = f, ce_access = ca_counter c + 1\<rparr>) # filter (\<lambda>(i, _). i \<noteq> k) (ca_entries c)\<rparr>"
    proof (cases "es = []")
      case True
      then have "ca_entries c = []" using es(1) by simp
      then show ?thesis unfolding cache_insert_def Let_def by (simp only: min_access_def list.case option.case if_cancel)
    next
      case n: False
      with False es(2) keys show ?thesis by (auto simp: cache_insert_def Let_def)
    qed
    have "lru_insert (ca_max c) k f l = (k, f) # filter (\<lambda>(i, _). i \<noteq> k) (strip es)"
      using room by (simp add: lru_insert_def es(5) strip_filter [symmetric])
    then show ?thesis
      unfolding c by (simp only:) (rule represents_put [OF es(1-4,6) room count])
  next
    case True
    then obtain es1 x where x: "es = es1 @ [x]" by (metis rev_exhaust)
    have nn: "ca_entries c \<noteq> []" using True es(1) by auto
    have "arg_min_list (\<lambda>(_, e). ce_access e) (ca_entries c) = x"
      using es(1,4) nn by (intro arg_min_is_last [of es1]) (simp_all add: x)
    then have mn: "min_access (ca_entries c) = Some (fst x)"
      using nn by (cases "ca_entries c") (simp_all add: min_access_def)
    have d1: "fst x \<notin> fst ` set es1" "distinct (map fst es1)" using es(3) by (auto simp: x)
    let ?en = "filter (\<lambda>(i, _). i \<noteq> fst x) (ca_entries c)"
    have en: "set es1 = set ?en"
    proof -
      have "set ?en = {p \<in> set es. fst p \<noteq> fst x}" by (auto simp: es(1))
      also have "\<dots> = set es1" using d1(1) unfolding x by (auto simp: image_iff)
      finally show ?thesis by simp
    qed
    have "distinct (ca_entries c)" using map_of_same_set [OF es(1,2,3)] by (simp add: distinct_map)
    then have "distinct ?en" by simp
    then have "length ?en = card (set ?en)" by (rule distinct_card [symmetric])
    also have "\<dots> = length es1"
      unfolding en [symmetric] using d1(2) by (intro distinct_card) (simp add: distinct_map)
    finally have len: "length es1 = length ?en" by simp
    have kx: "k \<notin> fst ` set es1" "k \<noteq> fst x" using True by (auto simp: x)
    have f1: "filter (\<lambda>(i, _). i \<noteq> k) es1 = es1" by (rule filter_key_map_of_None [OF kx(1)])
    have room: "length (filter (\<lambda>(i, _). i \<noteq> k) es1) < max 1 (ca_max c)"
      using es(7) unfolding f1 by (simp add: x)
    have c: "cache_insert k f c = c\<lparr>ca_counter := ca_counter c + 1,
        ca_entries := (k, \<lparr>ce_frame = f, ce_access = ca_counter c + 1\<rparr>) # filter (\<lambda>(i, _). i \<noteq> k) ?en\<rparr>"
      using True es(2) keys mn by (simp add: cache_insert_def Let_def)
    have len1: "length es1 + 1 = max 1 (ca_max c)" using True es(7) by (auto simp: x)
    have "filter (\<lambda>(i, _). i \<noteq> k) (strip es) = strip es"
      using True by (intro filter_key_map_of_None) (metis list.set_map map_fst_strip)
    then have "lru_insert (ca_max c) k f l = (k, f) # strip es1"
      using len1 by (simp add: lru_insert_def es(5) x) (simp add: strip_def take_Cons')
    also have "\<dots> = (k, f) # filter (\<lambda>(i, _). i \<noteq> k) (strip es1)"
      by (simp add: strip_filter [symmetric] f1)
    finally have l: "lru_insert (ca_max c) k f l = \<dots>" .
    show ?thesis unfolding c l
      by (rule represents_put [OF en len d1(2) _ _ room count])
        (use es(4,6) in \<open>auto simp: x newest_first_def sorted_wrt_append\<close>)
  qed
qed

section \<open>Runs\<close>

datatype ('k, 'f) cache_op = Get 'k | Put 'k 'f | Clear

fun run_cache :: "('k, 'f) cache_op \<Rightarrow> ('k, 'f) cache \<Rightarrow> ('k, 'f) cache" where
  "run_cache (Get k) c = snd (cache_get k c)"
| "run_cache (Put k f) c = cache_insert k f c"
| "run_cache Clear c = cache_clear c"

fun run_lru :: "nat \<Rightarrow> ('k, 'f) cache_op \<Rightarrow> ('k \<times> 'f) list \<Rightarrow> ('k \<times> 'f) list" where
  "run_lru n (Get k) l = snd (lru_get k l)"
| "run_lru n (Put k f) l = lru_insert n k f l"
| "run_lru n Clear l = []"

lemma ca_max_run [simp]: "ca_max (run_cache oper c) = ca_max c"
  by (cases oper) (simp_all add: cache_get_def cache_insert_def cache_clear_def Let_def split: option.split)

lemma represents_run:
  assumes "represents c l" and "unat (ca_counter c) + 1 < 2 ^ 64"
  shows "represents (run_cache oper c) (run_lru (ca_max c) oper l)"
    "unat (ca_counter (run_cache oper c)) \<le> unat (ca_counter c) + 1"
proof -
  show "represents (run_cache oper c) (run_lru (ca_max c) oper l)"
    using assms by (cases oper) (simp_all add: represents_get represents_insert represents_clear)
  have "ca_counter (run_cache oper c) = ca_counter c + 1 \<or> ca_counter (run_cache oper c) = ca_counter c"
    by (cases oper) (simp_all add: cache_get_def cache_insert_def cache_clear_def Let_def split: option.split)
  then show "unat (ca_counter (run_cache oper c)) \<le> unat (ca_counter c) + 1"
    using tick_above(3) [OF assms(2) order_refl] by auto
qed

lemma represents_runs:
  "represents c l \<Longrightarrow> unat (ca_counter c) + length ops < 2 ^ 64 \<Longrightarrow>
     represents (fold run_cache ops c) (fold (run_lru (ca_max c)) ops l) \<and> ca_max (fold run_cache ops c) = ca_max c
     \<and> unat (ca_counter (fold run_cache ops c)) \<le> unat (ca_counter c) + length ops"
proof (induction ops arbitrary: c l)
  case (Cons oper ops)
  then have "unat (ca_counter c) + 1 < 2 ^ 64" by simp
  note step = represents_run [OF Cons.prems(1) this, of oper]
  then have "unat (ca_counter (run_cache oper c)) + length ops < 2 ^ 64" using Cons.prems(2) by simp
  from Cons.IH [OF step(1) this] step(2) show ?case by simp
qed simp

section \<open>Properties\<close>

text \<open>
  C18: the shard cache is an LRU cache: after any sequence of fewer than \<open>2^64 - 1\<close> lookups, insertions and clears, a lookup
  returns what the recency list of the specification returns (the most recently used
  \<open>max_entries\<close> shards, the least recently used one evicted first), and the cache holds as many shards as the list, which is never
  more than its capacity, or one where the capacity is zero.
\<close>

theorem shard_cache_is_lru:
  assumes "length ops + 1 < 2 ^ 64"
  shows "fst (cache_get k (fold run_cache ops (cache_new n))) = map_of (fold (run_lru n) ops []) k
   \<and> cache_len (fold run_cache ops (cache_new n)) = length (fold (run_lru n) ops [])
   \<and> cache_len (fold run_cache ops (cache_new n)) \<le> max 1 n"
proof -
  have n: "ca_max (cache_new n) = n" "unat (ca_counter (cache_new n)) = 0" by (simp_all add: cache_new_def)
  let ?c = "fold run_cache ops (cache_new n)"
  have r: "represents ?c (fold (run_lru n) ops [])" and m: "ca_max ?c = n" and u: "unat (ca_counter ?c) + 1 < 2 ^ 64"
    using represents_runs [OF represents_new [of n], of ops] assms unfolding n by auto
  from r m have "length (ca_entries ?c) = length (fold (run_lru n) ops [])" "length (ca_entries ?c) \<le> max 1 n"
    by (auto simp: represents_def)
  with represents_get [OF r u, of k] show ?thesis
    by (auto simp: lru_get_def cache_len_def split: option.splits)
qed

text \<open>Three shards through a cache for two: the one that was looked up stays, the other one goes.\<close>

theorem shard_cache_is_lru_witness:
  "fst (cache_get (1 :: nat) (fold run_cache [Put 1 (10 :: nat), Put 2 20, Get 1, Put 3 30] (cache_new 2))) = Some 10
   \<and> fst (cache_get (2 :: nat) (fold run_cache [Put 1 (10 :: nat), Put 2 20, Get 1, Put 3 30] (cache_new 2))) = None"
proof -
  let ?ops = "[Put 1 10, Put 2 20, Get 1, Put 3 30] :: (nat, nat) cache_op list"
  have "length ?ops + 1 < 2 ^ 64" by simp
  from shard_cache_is_lru [OF this, of _ 2] have "fst (cache_get k (fold run_cache ?ops (cache_new 2)))
      = map_of (fold (run_lru 2) ?ops []) k" for k by blast
  then show ?thesis by (simp add: lru_get_def lru_insert_def)
qed

end
