(* ===== verification/StoreRelation.thy ===== *)
theory StoreRelation
  imports LocalStore
begin

text \<open>
  Relations between stores at the level of \<open>LocalStoreDb\<close>. \<open>message_relation\<close> is the contract of a relation that the
  statements of the write path respect, \<open>table_relation\<close> adds the one that writes conversations and \<open>clearing_relation\<close>
  those that empty tables; every public write of \<open>db.rs\<close> then respects it. \<open>table_order\<close> gives such relations from an
  order on tables: when each statement moves up in the order, the savepoint stack stays ordered and what is committed
  only moves up, whatever fails.
\<close>

section \<open>The statements of the write path\<close>

locale message_relation = store_relation R good for R :: "store \<Rightarrow> store \<Rightarrow> bool" and good :: "stmt \<Rightarrow> bool" +
  assumes put_rows: "good (put_skel b)" "good (put_body c)" "good (put_media d)" "good (put_outbox e)"
      "good (add_fts f)" "good (pureT (add_fuzzy g))" "good (add_journal h)"
    and upd_convs: "(\<And>r. rc_id (f1 r) = rc_id r) \<Longrightarrow> good (pureT (upd_conv k f1))"
    and upd_skels: "(\<And>r. rs_id (f2 r) = rs_id r) \<Longrightarrow> (\<And>r. rs_conv (f2 r) = rs_conv r) \<Longrightarrow> good (pureT (upd_skel k f2))"
    and upd_bodies: "(\<And>r. b_id (f3 r) = b_id r) \<Longrightarrow> good (pureT (upd_body k f3))"
    and upd_media_rows: "(\<And>r. rm_asset (f4 r) = rm_asset r) \<Longrightarrow> (\<And>r. rm_message (f4 r) = rm_message r) \<Longrightarrow>
        good (pureT (upd_media k f4))"
    and upd_outboxes: "(\<And>r. o_id (f5 r) = o_id r) \<Longrightarrow> good (pureT (upd_outbox k f5))"
    and del_rows: "good (pureT (del_fts k))" "good (pureT (del_fuzzy k))" "good (pureT (del_body k))"
    and prune_rows: "good (pureT (\<lambda>t. t\<lparr>t_journal := delete_where P (t_journal t)\<rparr>))"
    and save_rows: "good (pureT (\<lambda>t. t\<lparr>t_backup_state := v\<rparr>))"
begin

lemma record_updates:
  "good (pureT (upd_skel k (\<lambda>r. r\<lparr>rs_body := st\<rparr>)))"
  "good (pureT (upd_skel k (\<lambda>r. r\<lparr>rs_edited_ms := ed\<rparr>)))"
  "good (pureT (upd_skel k (set_deleted n b)))"
  "good (pureT (upd_skel k set_backed_up))"
  "good (pureT (upd_body k (\<lambda>r. r\<lparr>b_text := x\<rparr>)))"
  "good (pureT (upd_media k (\<lambda>r. r\<lparr>rm_state := st\<rparr>)))"
  "good (pureT (upd_conv k (set_last_message m n)))"
  by (auto intro!: upd_skels upd_bodies upd_media_rows upd_convs
      simp: set_deleted_def set_backed_up_def set_last_message_def)

lemma db_write: "good f \<Longrightarrow> obeys R (db_exec f)"
  by (simp add: db_exec_def map_err exec_in)

lemmas write_acts = store_acts db_write put_rows del_rows prune_rows save_rows record_updates

lemma row_writes:
  "obeys R (insert_skeleton k)" "obeys R (insert_body b)"
  "obeys R (index_fts m cv sd n x)" "obeys R (insert_media_asset md)" "obeys R (update_body_state m st)"
  "obeys R (update_media_state m st)" "obeys R (index_fuzzy g sc m)" "obeys R (insert_backup_event e)"
  "obeys R (update_conversation_last_message cv m n)" "obeys R (update_message_body_text m x)"
  "obeys R (update_skeleton_edited m n)" "obeys R (delete_fts_row m)" "obeys R (delete_fuzzy_rows m)"
  "obeys R (update_skeleton_deleted m n bs)" "obeys R (delete_message_body m)"
  "obeys R (mark_skeleton_backed_up m)" "obeys R (save_backup_state gn hs)"
  unfolding insert_skeleton_def insert_body_def index_fts_def insert_media_asset_def
    update_body_state_def update_media_state_def index_fuzzy_def insert_backup_event_def
    update_conversation_last_message_def update_message_body_text_def update_skeleton_edited_def
    delete_fts_row_def delete_fuzzy_rows_def update_skeleton_deleted_def delete_message_body_def
    mark_skeleton_backed_up_def save_backup_state_def
  by (intro write_acts)+

lemma batch_writes:
  "obeys R (batch_mark_skeletons_backed_up ids)" "obeys R (reindex_message lower m cv sd n x)"
  "obeys R (prune_backup_events before)"
  unfolding batch_mark_skeletons_backed_up_def reindex_message_def prune_backup_events_def
  by (auto intro!: write_acts row_writes)

end

text \<open>A conversation is written by \<open>insert_conversation\<close> and by the restore only.\<close>

locale table_relation = message_relation R good for R :: "store \<Rightarrow> store \<Rightarrow> bool" and good :: "stmt \<Rightarrow> bool" +
  assumes put_conversation: "good (put_conv a)"
begin

lemma conversation_write: "obeys R (insert_conversation c)"
  unfolding insert_conversation_def by (intro write_acts put_conversation)

end

text \<open>Only \<open>clear_all_message_data\<close> and the restore empty tables.\<close>

locale clearing_relation = table_relation R good for R :: "store \<Rightarrow> store \<Rightarrow> bool" and good :: "stmt \<Rightarrow> bool" +
  assumes clear_rows: "good (pureT (\<lambda>t. t\<lparr>t_fts := []\<rparr>))" "good (pureT (\<lambda>t. t\<lparr>t_fuzzy := []\<rparr>))"
      "good (pureT (\<lambda>t. t\<lparr>t_body := []\<rparr>))" "good (pureT (\<lambda>t. t\<lparr>t_media := []\<rparr>))" "good clear_skels" "good clear_convs"
      "good (pureT (\<lambda>t. t\<lparr>t_journal := []\<rparr>))" "good (pureT (\<lambda>t. t\<lparr>t_outbox := []\<rparr>))"
begin

lemma clear_write: "obeys R clear_all_message_data"
  unfolding clear_all_message_data_def
  by (intro map_err seq) (simp add: exec_in clear_rows)

end

section \<open>Relations from an order on tables\<close>

text \<open>\<open>stacked\<close>: the live tables, the savepoints from the innermost outwards and the committed image go down in the order.\<close>

definition stacked :: "(tables \<Rightarrow> tables \<Rightarrow> bool) \<Rightarrow> store \<Rightarrow> bool" where
  "stacked le s \<longleftrightarrow> sorted_wrt (\<lambda>a b. le b a) (st_live s # map snd (st_saves s) @ [st_committed s])"

definition grows :: "(tables \<Rightarrow> tables \<Rightarrow> bool) \<Rightarrow> store \<Rightarrow> store \<Rightarrow> bool" where
  "grows le s s' \<longleftrightarrow> (stacked le s \<longrightarrow> stacked le s' \<and> le (st_committed s) (st_committed s'))"

definition raises :: "(tables \<Rightarrow> tables \<Rightarrow> bool) \<Rightarrow> stmt \<Rightarrow> bool" where
  "raises le f \<longleftrightarrow> (\<forall>fk t t'. f fk t = Inr t' \<longrightarrow> le t t')"

lemma raises_pure: "(\<And>t. le t (f t)) \<Longrightarrow> raises le (pureT f)"
  by (simp add: raises_def pureT_def)

lemma stacked_tick [simp]: "stacked le (tick s) = stacked le s"
  by (simp add: stacked_def)

lemma popped: "pop_saves n ss = p # rest \<Longrightarrow> \<exists>front. ss = front @ p # rest"
  unfolding pop_saves_def by (metis takeWhile_dropWhile_id)

locale table_order =
  fixes le :: "tables \<Rightarrow> tables \<Rightarrow> bool"
  assumes le_refl: "le t t"
    and le_trans: "le t u \<Longrightarrow> le u v \<Longrightarrow> le t v"
begin

lemma stacked_settled: "settled s \<Longrightarrow> stacked le s"
  by (simp add: settled_def stacked_def le_refl)

lemma grows_here: "stacked le s' \<Longrightarrow> st_committed s' = st_committed s \<Longrightarrow> grows le s s'"
  by (simp add: grows_def le_refl)

text \<open>After the live tables moved up, or savepoints were dropped, settling keeps the order.\<close>

lemma grows_settle:
  assumes "le (st_live s) (st_live u)" and "st_saves s = front @ st_saves u" and "st_committed u = st_committed s"
  shows "grows le s (settle u)"
proof (cases "st_saves u = []")
  case True
  with assms show ?thesis by (auto simp: grows_def stacked_def settle_def le_refl intro: le_trans)
next
  case False
  with assms show ?thesis
    by (auto simp: grows_def stacked_def settle_def sorted_wrt_append le_refl intro: le_trans)
qed

lemma exec_grows:
  assumes "raises le f"
  shows "obeys (grows le) (exec f)"
proof (rule obeysI)
  fix s
  have "grows le s (settle ((tick s)\<lparr>st_live := t\<rparr>))" if "f (st_fk s) (st_live s) = Inr t" for t
    using assms that by (intro grows_settle [where front = "[]"]) (auto simp: raises_def)
  then show "grows le s (snd (exec f s))"
    by (auto simp: exec_def grows_def le_refl split: sum.split)
qed

lemma release_grows: "obeys (grows le) (release n)"
proof (rule obeysI)
  fix s
  have "grows le s (settle ((tick s)\<lparr>st_saves := rest\<rparr>))" if "pop_saves n (st_saves s) = p # rest" for p rest
  proof -
    from popped [OF that] obtain front where "st_saves s = front @ p # rest" by blast
    then show ?thesis by (intro grows_settle [where front = "front @ [p]"]) (simp_all add: le_refl)
  qed
  then show "grows le s (snd (release n s))"
    by (auto simp: release_def grows_def le_refl split: list.split)
qed

lemma rollback_grows: "obeys (grows le) (rollback_to n)"
proof (rule obeysI)
  fix s
  have "grows le s ((tick s)\<lparr>st_live := t, st_saves := (m, t) # rest\<rparr>)" if "pop_saves n (st_saves s) = (m, t) # rest" for m t rest
    using popped [OF that] by (auto simp: grows_def stacked_def sorted_wrt_append le_refl simp del: split_paired_All) force+
  then show "grows le s (snd (rollback_to n s))"
    by (auto simp: rollback_to_def grows_def le_refl split: list.split)
qed

lemma open_grows: "obeys (grows le) (savepoint n)" "obeys (grows le) begin_tx"
  by (auto simp: obeys_def savepoint_def begin_tx_def grows_def stacked_def le_refl)

lemma crash_grows:
  "stacked le s \<Longrightarrow> stacked le (s\<lparr>st_live := st_committed s, st_saves := []\<rparr>)"
  by (simp add: stacked_def le_refl)

end

sublocale table_order \<subseteq> growing: store_relation "grows le" "raises le"
  by unfold_locales
    (auto simp: grows_def le_refl intro: le_trans exec_grows open_grows release_grows rollback_grows)

section \<open>The orders of the store\<close>

text \<open>
  \<open>rows_last\<close>: no conversation, skeleton or outbox entry is lost. \<open>numbers_last\<close>: a number of the journal that was
  handed out never denotes another event. \<open>same_convs\<close>: the conversations stay as they are.
\<close>

definition rows_last :: "tables \<Rightarrow> tables \<Rightarrow> bool" where
  "rows_last t t' \<longleftrightarrow> rc_id ` set (t_conv t) \<subseteq> rc_id ` set (t_conv t') \<and> rs_id ` set (t_skel t) \<subseteq> rs_id ` set (t_skel t')
     \<and> o_id ` set (t_outbox t) \<subseteq> o_id ` set (t_outbox t')"

definition numbers_last :: "tables \<Rightarrow> tables \<Rightarrow> bool" where
  "numbers_last t t' \<longleftrightarrow> t_journal_seq t \<le> t_journal_seq t'
     \<and> (\<forall>p \<in> set (t_journal t'). fst p \<le> t_journal_seq t \<longrightarrow> p \<in> set (t_journal t))"

definition same_convs :: "tables \<Rightarrow> tables \<Rightarrow> bool" where
  "same_convs t t' \<longleftrightarrow> rc_id ` set (t_conv t') = rc_id ` set (t_conv t)"

lemma image_upsert_key: "key ` set (upsert key r t) = insert (key r) (key ` set t)"
  by (auto simp: set_upsert)

lemma image_update: "(\<And>x. g (f x) = g x) \<Longrightarrow> g ` set (update_where P f t) = g ` set t"
  by (induction t) (auto simp: update_where_def)

lemmas write_defs = put_conv_def put_skel_def put_body_def put_media_def put_outbox_def add_fts_def add_fuzzy_def
  add_journal_def upd_conv_def upd_skel_def upd_body_def upd_media_def upd_outbox_def del_fts_def del_fuzzy_def del_body_def
  clear_skels_def clear_convs_def

interpretation lasting_rows: table_order rows_last
  by (unfold_locales; simp add: rows_last_def; elim conjE; intro conjI; erule (1) subset_trans)

interpretation lasting_numbers: table_order numbers_last
  by unfold_locales (force simp: numbers_last_def)+

interpretation fixed_convs: table_order same_convs
  by unfold_locales (simp_all add: same_convs_def)

interpretation conv_keeping: message_relation "grows same_convs" "raises same_convs"
  by unfold_locales (auto simp: write_defs raises_def pureT_def same_convs_def image_update split: if_splits)

interpretation lasting: table_relation "grows rows_last" "raises rows_last"
  by unfold_locales
    (auto simp: write_defs raises_def pureT_def rows_last_def image_upsert_key image_update split: if_splits)

interpretation numbering: clearing_relation "grows numbers_last" "raises numbers_last"
  by unfold_locales (auto simp: write_defs raises_def pureT_def numbers_last_def delete_where_def split: if_splits)

text \<open>No action changes whether foreign keys are enforced.\<close>

definition same_fk :: "store \<Rightarrow> store \<Rightarrow> bool" where
  "same_fk s s' \<longleftrightarrow> st_fk s' = st_fk s"

interpretation fk_keeping: clearing_relation same_fk "\<lambda>_. True"
  by unfold_locales
    (auto simp: same_fk_def obeys_def exec_def savepoint_def release_def rollback_to_def begin_tx_def split: sum.split list.split)

text \<open>With no savepoint open everything is committed, and no action changes that, whatever fails.\<close>

definition aligned :: "store \<Rightarrow> bool" where
  "aligned s \<longleftrightarrow> (st_saves s = [] \<longrightarrow> settled s)"

definition stays_aligned :: "store \<Rightarrow> store \<Rightarrow> bool" where
  "stays_aligned s s' \<longleftrightarrow> (aligned s \<longrightarrow> aligned s')"

interpretation aligning: clearing_relation stays_aligned "\<lambda>_. True"
  by unfold_locales
    (auto simp: stays_aligned_def aligned_def settled_def settle_def obeys_def exec_def savepoint_def release_def rollback_to_def
      begin_tx_def split: sum.split list.split)

end
