(* ===== verification/StoreInvariant.thy ===== *)
theory StoreInvariant
  imports StoreRelation
begin

text \<open>
  The invariant of the local store and the operations that keep it. \<open>tables_wf\<close> says that primary
  keys are unique, the fuzzy index is a set, the journal is numbered upwards, and, when SQLite
  enforces foreign keys, that every reference has a target. \<open>wf_kept\<close> is the relation of stores that
  says it is kept for the live tables, the committed image and every savepoint; the theory interprets
  \<open>clearing_relation\<close> for it, so that every public write keeps it under any faults, and \<open>keyed_table\<close>
  for each table with a primary key.
\<close>

section \<open>The invariant\<close>

definition refs_ok :: "tables \<Rightarrow> bool" where
  "refs_ok t \<longleftrightarrow> rs_conv ` set (t_skel t) \<subseteq> rc_id ` set (t_conv t)
     \<and> b_id ` set (t_body t) \<subseteq> rs_id ` set (t_skel t)
     \<and> rm_message ` set (t_media t) \<subseteq> rs_id ` set (t_skel t)"

definition journal_ok :: "tables \<Rightarrow> bool" where
  "journal_ok t \<longleftrightarrow> sorted_wrt (<) (map fst (t_journal t))
     \<and> (\<forall>e \<in> set (t_journal t). fst e \<le> t_journal_seq t)"

definition keys_ok :: "tables \<Rightarrow> bool" where
  "keys_ok t \<longleftrightarrow> keys_unique rc_id (t_conv t) \<and> keys_unique rs_id (t_skel t)
     \<and> keys_unique b_id (t_body t) \<and> keys_unique rm_asset (t_media t)
     \<and> keys_unique o_id (t_outbox t) \<and> distinct (t_fuzzy t)"

definition tables_wf :: "bool \<Rightarrow> tables \<Rightarrow> bool" where
  "tables_wf fk t \<longleftrightarrow> keys_ok t \<and> journal_ok t \<and> (fk \<longrightarrow> refs_ok t)"

definition store_wf :: "store \<Rightarrow> bool" where
  "store_wf s \<longleftrightarrow> tables_wf (st_fk s) (st_live s) \<and> tables_wf (st_fk s) (st_committed s)
     \<and> (\<forall>p \<in> set (st_saves s). tables_wf (st_fk s) (snd p))"

definition stmt_safe :: "stmt \<Rightarrow> bool" where
  "stmt_safe f \<longleftrightarrow> (\<forall>fk t t'. tables_wf fk t \<longrightarrow> f fk t = Inr t' \<longrightarrow> tables_wf fk t')"

definition wf_kept :: "store \<Rightarrow> store \<Rightarrow> bool" where
  "wf_kept s s' \<longleftrightarrow> (store_wf s \<longrightarrow> store_wf s')"

named_theorems safe_intros \<open>statements that keep the invariant\<close>

lemma empty_tables_wf: "tables_wf fk empty_tables"
  by (simp add: tables_wf_def keys_ok_def journal_ok_def refs_ok_def empty_tables_def keys_unique_def)

section \<open>Statements\<close>

lemma keys_unique_update: "(\<And>x. key (f x) = key x) \<Longrightarrow> keys_unique key (update_where P f t) = keys_unique key t"
  by (simp add: keys_unique_def map_key_update)

lemma image_upsert_other: "g ` set (upsert key r t) \<subseteq> insert (g r) (g ` set t)"
  by (auto simp: set_upsert)

lemma safe_put_conv [safe_intros]: "stmt_safe (put_conv r)"
  by (auto simp: stmt_safe_def put_conv_def tables_wf_def keys_ok_def journal_ok_def refs_ok_def
      keys_unique_upsert image_upsert_key)

lemma safe_put_skel [safe_intros]: "stmt_safe (put_skel r)"
  unfolding stmt_safe_def
proof (intro allI impI)
  fix fk t t' assume w: "tables_wf fk t" and p: "put_skel r fk t = Inr t'"
  then have t': "t' = t\<lparr>t_skel := upsert rs_id r (t_skel t)\<rparr>" and c: "fk \<longrightarrow> rs_conv r \<in> rc_id ` set (t_conv t)"
    by (auto simp: put_skel_def split: if_splits)
  have "rs_conv ` set (upsert rs_id r (t_skel t)) \<subseteq> rc_id ` set (t_conv t)" if fk
  proof -
    have "insert (rs_conv r) (rs_conv ` set (t_skel t)) \<subseteq> rc_id ` set (t_conv t)"
      using that w c by (simp add: tables_wf_def refs_ok_def)
    with image_upsert_other show ?thesis by (rule order_trans)
  qed
  with w show "tables_wf fk t'"
    by (simp add: t' tables_wf_def keys_ok_def journal_ok_def refs_ok_def keys_unique_upsert
        image_upsert_key subset_insertI2)
qed

lemma safe_put_body [safe_intros]: "stmt_safe (put_body r)"
  by (auto simp: stmt_safe_def put_body_def tables_wf_def keys_ok_def journal_ok_def refs_ok_def
      keys_unique_upsert image_upsert_key split: if_splits)

lemma safe_put_media [safe_intros]: "stmt_safe (put_media r)"
  unfolding stmt_safe_def
proof (intro allI impI)
  fix fk t t' assume w: "tables_wf fk t" and p: "put_media r fk t = Inr t'"
  then have t': "t' = t\<lparr>t_media := upsert rm_asset r (t_media t)\<rparr>" and c: "fk \<longrightarrow> rm_message r \<in> rs_id ` set (t_skel t)"
    by (auto simp: put_media_def split: if_splits)
  have "rm_message ` set (upsert rm_asset r (t_media t)) \<subseteq> rs_id ` set (t_skel t)" if fk
  proof -
    have "insert (rm_message r) (rm_message ` set (t_media t)) \<subseteq> rs_id ` set (t_skel t)"
      using that w c by (simp add: tables_wf_def refs_ok_def)
    with image_upsert_other show ?thesis by (rule order_trans)
  qed
  with w show "tables_wf fk t'"
    by (simp add: t' tables_wf_def keys_ok_def journal_ok_def refs_ok_def keys_unique_upsert
        image_upsert_key subset_insertI2)
qed

lemma safe_put_outbox [safe_intros]: "stmt_safe (put_outbox r)"
  by (auto simp: stmt_safe_def put_outbox_def tables_wf_def keys_ok_def journal_ok_def refs_ok_def
      keys_unique_upsert)

lemma safe_add_fts [safe_intros]: "stmt_safe (add_fts r)"
  by (auto simp: stmt_safe_def add_fts_def tables_wf_def keys_ok_def journal_ok_def refs_ok_def)

lemma safe_add_journal [safe_intros]: "stmt_safe (add_journal e)"
  by (fastforce simp: stmt_safe_def add_journal_def tables_wf_def keys_ok_def journal_ok_def refs_ok_def
      sorted_wrt_append)

lemma safe_pure: "(\<And>fk t. tables_wf fk t \<Longrightarrow> tables_wf fk (f t)) \<Longrightarrow> stmt_safe (pureT f)"
  by (auto simp: stmt_safe_def pureT_def)

lemma safe_add_fuzzy [safe_intros]: "stmt_safe (pureT (add_fuzzy r))"
  by (rule safe_pure)
    (auto simp: add_fuzzy_def tables_wf_def keys_ok_def journal_ok_def refs_ok_def distinct_insert_ignore)

lemma safe_upd_conv:
  "(\<And>r. rc_id (f r) = rc_id r) \<Longrightarrow> stmt_safe (pureT (upd_conv k f))"
  by (rule safe_pure)
    (auto simp: upd_conv_def tables_wf_def keys_ok_def journal_ok_def refs_ok_def keys_unique_update image_update)

lemma safe_upd_skel:
  "(\<And>r. rs_id (f r) = rs_id r) \<Longrightarrow> (\<And>r. rs_conv (f r) = rs_conv r) \<Longrightarrow> stmt_safe (pureT (upd_skel k f))"
  by (rule safe_pure)
    (auto simp: upd_skel_def tables_wf_def keys_ok_def journal_ok_def refs_ok_def keys_unique_update image_update)

lemma safe_upd_body: "(\<And>r. b_id (f r) = b_id r) \<Longrightarrow> stmt_safe (pureT (upd_body k f))"
  by (rule safe_pure)
    (auto simp: upd_body_def tables_wf_def keys_ok_def journal_ok_def refs_ok_def keys_unique_update image_update)

lemma safe_upd_media:
  "(\<And>r. rm_asset (f r) = rm_asset r) \<Longrightarrow> (\<And>r. rm_message (f r) = rm_message r) \<Longrightarrow>
     stmt_safe (pureT (upd_media k f))"
  by (rule safe_pure)
    (auto simp: upd_media_def tables_wf_def keys_ok_def journal_ok_def refs_ok_def keys_unique_update image_update)

lemma safe_upd_outbox: "(\<And>r. o_id (f r) = o_id r) \<Longrightarrow> stmt_safe (pureT (upd_outbox k f))"
  by (rule safe_pure)
    (auto simp: upd_outbox_def tables_wf_def keys_ok_def journal_ok_def refs_ok_def keys_unique_update)

lemma distinct_delete_where: "distinct t \<Longrightarrow> distinct (delete_where P t)"
  by (simp add: delete_where_def)

lemma safe_del_fts [safe_intros]: "stmt_safe (pureT (del_fts k))"
  by (rule safe_pure) (auto simp: del_fts_def tables_wf_def keys_ok_def journal_ok_def refs_ok_def)

lemma safe_del_fuzzy [safe_intros]: "stmt_safe (pureT (del_fuzzy k))"
  by (rule safe_pure)
    (auto simp: del_fuzzy_def tables_wf_def keys_ok_def journal_ok_def refs_ok_def distinct_delete_where)

lemma safe_del_body [safe_intros]: "stmt_safe (pureT (del_body k))"
  by (rule safe_pure)
    (auto simp: del_body_def tables_wf_def keys_ok_def journal_ok_def refs_ok_def keys_unique_delete)

lemma sorted_fst_filter: "sorted_wrt (<) (map fst xs) \<Longrightarrow> sorted_wrt (<) (map fst (filter P xs))"
  by (induction xs) auto

lemma safe_prune [safe_intros]:
  "stmt_safe (pureT (\<lambda>t. t\<lparr>t_journal := delete_where P (t_journal t)\<rparr>))"
  by (rule safe_pure)
    (auto simp: tables_wf_def keys_ok_def journal_ok_def refs_ok_def delete_where_def sorted_fst_filter)

lemma safe_save_state [safe_intros]: "stmt_safe (pureT (\<lambda>t. t\<lparr>t_backup_state := v\<rparr>))"
  by (rule safe_pure) (auto simp: tables_wf_def keys_ok_def journal_ok_def refs_ok_def)

lemma safe_clears [safe_intros]:
  "stmt_safe (pureT (\<lambda>t. t\<lparr>t_fts := []\<rparr>))" "stmt_safe (pureT (\<lambda>t. t\<lparr>t_fuzzy := []\<rparr>))"
  "stmt_safe (pureT (\<lambda>t. t\<lparr>t_body := []\<rparr>))" "stmt_safe (pureT (\<lambda>t. t\<lparr>t_media := []\<rparr>))"
  "stmt_safe (pureT (\<lambda>t. t\<lparr>t_journal := []\<rparr>))" "stmt_safe (pureT (\<lambda>t. t\<lparr>t_outbox := []\<rparr>))"
  by (rule safe_pure;
      auto simp: tables_wf_def keys_ok_def journal_ok_def refs_ok_def keys_unique_def)+

lemma safe_clear_rows [safe_intros]: "stmt_safe clear_skels" "stmt_safe clear_convs"
  by (auto simp: stmt_safe_def clear_skels_def clear_convs_def tables_wf_def keys_ok_def journal_ok_def
      refs_ok_def keys_unique_def split: if_splits)

section \<open>Actions\<close>

lemma store_wf_tick [simp]: "store_wf (tick s) = store_wf s"
  by (simp add: store_wf_def)

lemma store_wf_settle: "store_wf s \<Longrightarrow> store_wf (settle s)"
  by (auto simp: store_wf_def settle_def)

lemma exec_wf: "stmt_safe f \<Longrightarrow> obeys wf_kept (exec f)"
proof (rule obeysI)
  fix s assume f: "stmt_safe f"
  have "store_wf (settle ((tick s)\<lparr>st_live := t\<rparr>))" if "store_wf s" and "f (st_fk s) (st_live s) = Inr t" for t
    using f that by (intro store_wf_settle) (auto simp: store_wf_def stmt_safe_def)
  then show "wf_kept s (snd (exec f s))" by (auto simp: wf_kept_def exec_def split: sum.split)
qed

lemma pop_saves_subset: "set (pop_saves n ss) \<subseteq> set ss"
  by (auto simp: pop_saves_def dest: set_dropWhileD)

lemma release_wf: "obeys wf_kept (release n)"
proof (rule obeysI)
  fix s
  have "store_wf (settle ((tick s)\<lparr>st_saves := rest\<rparr>))"
    if "store_wf s" and "pop_saves n (st_saves s) = p # rest" for p rest
    using that pop_saves_subset [of n "st_saves s"]
    by (intro store_wf_settle) (auto simp: store_wf_def)
  then show "wf_kept s (snd (release n s))" by (auto simp: wf_kept_def release_def split: list.split)
qed

lemma rollback_wf: "obeys wf_kept (rollback_to n)"
proof (rule obeysI)
  fix s
  have "store_wf ((tick s)\<lparr>st_live := t, st_saves := (m, t) # rest\<rparr>)"
    if "store_wf s" and "pop_saves n (st_saves s) = (m, t) # rest" for m t rest
    using that pop_saves_subset [of n "st_saves s"] by (auto simp: store_wf_def)
  then show "wf_kept s (snd (rollback_to n s))" by (auto simp: wf_kept_def rollback_to_def split: list.split)
qed

lemma open_wf: "obeys wf_kept (savepoint n)" "obeys wf_kept begin_tx"
  by (auto simp: obeys_def wf_kept_def savepoint_def begin_tx_def store_wf_def)

interpretation preserving: clearing_relation wf_kept stmt_safe
  by unfold_locales
    (auto simp: wf_kept_def intro: exec_wf open_wf release_wf rollback_wf safe_intros safe_upd_conv safe_upd_skel
      safe_upd_body safe_upd_media safe_upd_outbox)

section \<open>Keyed tables\<close>

interpretation conv_table: keyed_table rc_id "upsert rc_id" "\<lambda>k. delete_where (\<lambda>x. rc_id x = k)"
    "row_of rc_id" "keys_unique rc_id"
  by (rule keyed_table_upsert)

interpretation skel_table: keyed_table rs_id "upsert rs_id" "\<lambda>k. delete_where (\<lambda>x. rs_id x = k)"
    "row_of rs_id" "keys_unique rs_id"
  by (rule keyed_table_upsert)

interpretation body_table: keyed_table b_id "upsert b_id" "\<lambda>k. delete_where (\<lambda>x. b_id x = k)"
    "row_of b_id" "keys_unique b_id"
  by (rule keyed_table_upsert)

interpretation media_table: keyed_table rm_asset "upsert rm_asset" "\<lambda>k. delete_where (\<lambda>x. rm_asset x = k)"
    "row_of rm_asset" "keys_unique rm_asset"
  by (rule keyed_table_upsert)

interpretation outbox_table: keyed_table o_id "upsert o_id" "\<lambda>k. delete_where (\<lambda>x. o_id x = k)"
    "row_of o_id" "keys_unique o_id"
  by (rule keyed_table_upsert)

end
