(* ===== verification/Cbor.thy ===== *)
theory Cbor
  imports Prelude
begin

unbundle bit_operations_syntax

text \<open>
  Byte encoders the code writes by hand: the CBOR event payloads of \<open>message/processor.rs\<close>, the
  LEB128 varint and chunk AAD of \<open>crypto/aead.rs\<close>, and \<open>security::constant_time_eq\<close>. The decoder
  is a reference reader of the same format (RFC 8949), used to state that nothing is lost.
\<close>

section \<open>Big-endian integers\<close>

definition be_bytes :: "nat \<Rightarrow> nat \<Rightarrow> bytes" where
  "be_bytes k n = map (\<lambda>i. word_of_nat (n div 256 ^ (k - 1 - i))) [0..<k]"

definition be_val :: "bytes \<Rightarrow> nat" where
  "be_val bs = foldl (\<lambda>a b. 256 * a + unat b) 0 bs"

lemma length_be_bytes [simp]: "length (be_bytes k n) = k"
  by (simp add: be_bytes_def)

lemma be_bytes_Suc: "be_bytes (Suc k) n = be_bytes k (n div 256) @ [word_of_nat n]"
proof -
  have "map (\<lambda>i. word_of_nat (n div 256 ^ (k - i)) :: u8) [0..<k] =
      map (\<lambda>i. word_of_nat (n div 256 div 256 ^ (k - 1 - i))) [0..<k]"
  proof (rule map_cong [OF refl])
    fix i assume "i \<in> set [0..<k]"
    then have "k - i = Suc (k - 1 - i)" by auto
    then show "word_of_nat (n div 256 ^ (k - i)) = (word_of_nat (n div 256 div 256 ^ (k - 1 - i)) :: u8)"
      by (simp add: div_mult2_eq)
  qed
  then show ?thesis by (simp add: be_bytes_def)
qed

lemma be_val_snoc: "be_val (bs @ [b]) = 256 * be_val bs + unat b"
  by (simp add: be_val_def)

lemma be_val_be_bytes: "n < 256 ^ k \<Longrightarrow> be_val (be_bytes k n) = n"
proof (induction k arbitrary: n)
  case 0
  then show ?case by (simp add: be_bytes_def be_val_def)
next
  case (Suc k)
  then have "n div 256 < 256 ^ k" by (simp add: div_less_iff_less_mult mult.commute)
  with Suc.IH have "be_val (be_bytes k (n div 256)) = n div 256" by blast
  then show ?case by (simp add: be_bytes_Suc be_val_snoc unat_of_nat)
qed

lemma be_bytes_inj: "m < 256 ^ k \<Longrightarrow> n < 256 ^ k \<Longrightarrow> be_bytes k m = be_bytes k n \<Longrightarrow> m = n"
  by (metis be_val_be_bytes)

section \<open>CBOR pushes\<close>

definition push_cbor_uint_with_major :: "bytes \<Rightarrow> u8 \<Rightarrow> nat \<Rightarrow> bytes" where
  "push_cbor_uint_with_major out major v =
     (let m = push_bit 5 major in
      if v < 24 then out @ [m OR word_of_nat v]
      else if v \<le> 255 then out @ [m OR 24] @ [word_of_nat v]
      else if v \<le> 65535 then out @ [m OR 25] @ be_bytes 2 v
      else if v \<le> 4294967295 then out @ [m OR 26] @ be_bytes 4 v
      else out @ [m OR 27] @ be_bytes 8 v)"

definition push_cbor_uint :: "bytes \<Rightarrow> nat \<Rightarrow> bytes" where
  "push_cbor_uint out v = push_cbor_uint_with_major out 0 v"

definition push_cbor_int :: "bytes \<Rightarrow> int \<Rightarrow> bytes" where
  "push_cbor_int out v =
     (if 0 \<le> v then push_cbor_uint out (nat v)
      else push_cbor_uint_with_major out 1 (nat (- (v + 1))))"

definition push_cbor_text :: "bytes \<Rightarrow> string \<Rightarrow> bytes" where
  "push_cbor_text out s =
     (let bs = str_bytes s; n = length bs in
      (if n < 24 then out @ [0x60 OR word_of_nat n]
       else if n \<le> 255 then out @ [0x78] @ [word_of_nat n]
       else if n \<le> 65535 then out @ [0x79] @ be_bytes 2 n
       else out @ [0x7a] @ be_bytes 4 n) @ bs)"

definition encode_event_payload :: "string \<Rightarrow> string \<Rightarrow> string \<Rightarrow> int \<Rightarrow> bytes" where
  "encode_event_payload message_id conversation_id sender_id created_at_ms =
     push_cbor_int (push_cbor_text (push_cbor_text (push_cbor_text [0x84]
       message_id) conversation_id) sender_id) created_at_ms"

definition encode_edit_event_payload :: "string \<Rightarrow> int \<Rightarrow> bytes" where
  "encode_edit_event_payload message_id edited_at_ms =
     push_cbor_int (push_cbor_text (push_cbor_text (push_cbor_text [0xa2]
       ''message_id'') message_id) ''edited_at_ms'') edited_at_ms"

definition encode_delete_event_payload :: "string \<Rightarrow> string \<Rightarrow> bytes" where
  "encode_delete_event_payload message_id scope =
     push_cbor_text (push_cbor_text (push_cbor_text (push_cbor_text [0xa2]
       ''message_id'') message_id) ''scope'') scope"

definition encode_media_delete_event_payload :: "string \<Rightarrow> string \<Rightarrow> bytes" where
  "encode_media_delete_event_payload asset_id message_id =
     push_cbor_text (push_cbor_text (push_cbor_text (push_cbor_text [0xa2]
       ''asset_id'') asset_id) ''message_id'') message_id"

section \<open>A reference reader\<close>

text \<open>A CBOR item head: major type and argument, with the unread bytes.\<close>

definition read_head :: "bytes \<Rightarrow> (nat \<times> nat \<times> bytes) option" where
  "read_head bs =
     (case bs of [] \<Rightarrow> None
      | b # rest \<Rightarrow>
          let major = unat b div 32; info = unat b mod 32 in
          if info < 24 then Some (major, info, rest)
          else if info \<le> 27 then
            (let k = 2 ^ (info - 24) in
             if length rest < k then None
             else Some (major, be_val (take k rest), drop k rest))
          else None)"

definition read_int :: "bytes \<Rightarrow> (int \<times> bytes) option" where
  "read_int bs =
     (case read_head bs of
        Some (m, v, rest) \<Rightarrow>
          (if m = 0 then Some (int v, rest)
           else if m = 1 then Some (- int v - 1, rest) else None)
      | None \<Rightarrow> None)"

definition bytes_str :: "bytes \<Rightarrow> string" where
  "bytes_str bs = map (\<lambda>b. char_of (unat b)) bs"

definition read_text :: "bytes \<Rightarrow> (string \<times> bytes) option" where
  "read_text bs =
     (case read_head bs of
        Some (m, n, rest) \<Rightarrow>
          (if m = 3 \<and> n \<le> length rest then Some (bytes_str (take n rest), drop n rest) else None)
      | None \<Rightarrow> None)"

definition read_event_payload :: "bytes \<Rightarrow> (string \<times> string \<times> string \<times> int) option" where
  "read_event_payload bs =
     Option.bind (read_head bs) (\<lambda>(m, n, r0). if m \<noteq> 4 \<or> n \<noteq> 4 then None else
     Option.bind (read_text r0) (\<lambda>(a, r1).
     Option.bind (read_text r1) (\<lambda>(b, r2).
     Option.bind (read_text r2) (\<lambda>(c, r3).
     Option.bind (read_int r3) (\<lambda>(v, r4). if r4 = [] then Some (a, b, c, v) else None)))))"

text \<open>An encoder and its reader that leaves the remainder, so that fields can be chained.\<close>

locale stream_codec =
  fixes ok :: "'a \<Rightarrow> bool"
    and put :: "bytes \<Rightarrow> 'a \<Rightarrow> bytes"
    and get :: "bytes \<Rightarrow> ('a \<times> bytes) option"
  assumes put_append: "put out x = out @ put [] x"
    and get_put: "ok x \<Longrightarrow> get (put [] x @ rest) = Some (x, rest)"
begin

lemma get_put_exact: "ok x \<Longrightarrow> get (put [] x) = Some (x, [])"
  using get_put [of x "[]"] by simp

text \<open>No encoding is a proper prefix of another: concatenations are uniquely readable.\<close>

lemma prefix_free:
  assumes "ok x" and "ok y" and "put [] x @ r = put [] y @ r'"
  shows "x = y \<and> r = r'"
proof -
  have "get (put [] x @ r) = Some (x, r)" by (rule get_put [OF assms(1)])
  moreover have "get (put [] x @ r) = Some (y, r')"
    unfolding assms(3) by (rule get_put [OF assms(2)])
  ultimately show ?thesis by simp
qed

lemma put_inj: "ok x \<Longrightarrow> ok y \<Longrightarrow> put out x = put out y \<Longrightarrow> x = y"
  using prefix_free [of x y "[]" "[]"] by (simp add: put_append [of out])

end

lemma head_nat: "v < 32 \<Longrightarrow> push_bit 5 m OR v = 32 * m + (v :: nat)"
proof -
  assume v: "v < 32"
  then have "take_bit 5 v = v" by (simp add: take_bit_nat_eq_self)
  then have "\<not> bit (push_bit 5 m) n \<or> \<not> bit v n" for n
    by (metis bit_push_bit_iff bit_take_bit_iff not_less)
  then have "push_bit 5 m + v = push_bit 5 m OR v"
    by (intro disjunctive_add_eq_or) (auto simp: bit_eq_iff bit_and_iff)
  then show ?thesis by (simp add: push_bit_eq_mult)
qed

lemma head_byte:
  assumes "m < 8" and "v < 32"
  shows "unat (push_bit 5 (word_of_nat m) OR word_of_nat v :: u8) = 32 * m + v"
proof -
  have "take_bit 8 (push_bit 5 m) = push_bit 5 m"
    using assms(1) by (simp add: take_bit_nat_eq_self push_bit_eq_mult)
  with assms head_nat [of v m] show ?thesis
    by (simp add: unsigned_or_eq unsigned_push_bit_eq unat_of_nat)
qed


lemma unat_small_byte: "n < 256 \<Longrightarrow> unat (word_of_nat n :: u8) = n"
  by (simp add: unat_of_nat)

lemma read_head_short:
  "m < 8 \<Longrightarrow> v < 24 \<Longrightarrow> read_head ((push_bit 5 (word_of_nat m) OR word_of_nat v) # rest) = Some (m, v, rest)"
  by (simp add: read_head_def head_byte Let_def)

lemma read_head_wide:
  "unat b = 32 * m + (24 + j) \<Longrightarrow> j < 4 \<Longrightarrow> v < 256 ^ 2 ^ j \<Longrightarrow>
     read_head (b # be_bytes (2 ^ j) v @ rest) = Some (m, v, rest)"
  by (simp add: read_head_def Let_def be_val_be_bytes)

lemma read_head_long:
  assumes "m < 8" and "j < 4" and "v < 256 ^ 2 ^ j"
  shows "read_head ((push_bit 5 (word_of_nat m) OR word_of_nat (24 + j)) # be_bytes (2 ^ j) v @ rest)
    = Some (m, v, rest)"
  using head_byte [of m "24 + j"] assms by (intro read_head_wide) auto

lemma be_bytes_1: "be_bytes (Suc 0) v = [word_of_nat v]"
  by (simp add: be_bytes_def)

lemma push_head_forms:
  "push_cbor_uint_with_major [] M v =
     (if v < 24 then [push_bit 5 M OR word_of_nat v]
      else if v \<le> 255 then (push_bit 5 M OR word_of_nat (24 + 0)) # be_bytes (2 ^ 0) v
      else if v \<le> 65535 then (push_bit 5 M OR word_of_nat (24 + 1)) # be_bytes (2 ^ 1) v
      else if v \<le> 4294967295 then (push_bit 5 M OR word_of_nat (24 + 2)) # be_bytes (2 ^ 2) v
      else (push_bit 5 M OR word_of_nat (24 + 3)) # be_bytes (2 ^ 3) v)"
  by (simp add: push_cbor_uint_with_major_def Let_def be_bytes_1)

lemma read_push_head:
  assumes "m < 8" and "v < 2 ^ 64"
  shows "read_head (push_cbor_uint_with_major [] (word_of_nat m) v @ rest) = Some (m, v, rest)"
proof -
  consider "v < 24" | "24 \<le> v" "v \<le> 255" | "255 < v" "v \<le> 65535" | "65535 < v" "v \<le> 4294967295"
    | "4294967295 < v" by linarith
  then show ?thesis
  proof cases
    case 1
    with assms show ?thesis by (simp add: push_head_forms read_head_short)
  next
    case 2
    with assms read_head_long [of m 0 v rest] show ?thesis by (simp add: push_head_forms)
  next
    case 3
    with assms read_head_long [of m 1 v rest] show ?thesis by (simp add: push_head_forms)
  next
    case 4
    with assms read_head_long [of m 2 v rest] show ?thesis by (simp add: push_head_forms)
  next
    case 5
    with assms read_head_long [of m 3 v rest] show ?thesis by (simp add: push_head_forms)
  qed
qed

lemma push_head_append:
  "push_cbor_uint_with_major out M v = out @ push_cbor_uint_with_major [] M v"
  by (simp add: push_cbor_uint_with_major_def Let_def)

definition i64_range :: "int \<Rightarrow> bool" where
  "i64_range v \<longleftrightarrow> - (2 ^ 63) \<le> v \<and> v < 2 ^ 63"

interpretation int_codec: stream_codec i64_range push_cbor_int read_int
proof
  show "push_cbor_int out v = out @ push_cbor_int [] v" for out v
    by (simp add: push_cbor_int_def push_cbor_uint_def push_head_append [of out])
  show "read_int (push_cbor_int [] v @ rest) = Some (v, rest)" if "i64_range v" for v rest
  proof (cases "0 \<le> v")
    case True
    with that read_push_head [of 0 "nat v" rest] show ?thesis
      by (simp add: i64_range_def push_cbor_int_def push_cbor_uint_def read_int_def)
  next
    case False
    with that read_push_head [of 1 "nat (- (v + 1))" rest] show ?thesis
      by (simp add: i64_range_def push_cbor_int_def read_int_def)
  qed
qed

lemma text_head_is_major_3:
  assumes "length (str_bytes s) < 2 ^ 32"
  shows "push_cbor_text [] s = push_cbor_uint_with_major [] 3 (length (str_bytes s)) @ str_bytes s"
proof -
  have "push_bit 5 3 = (0x60 :: u8)" and "(0x60 :: u8) OR 24 = 0x78" and "(0x60 :: u8) OR 25 = 0x79"
    and "(0x60 :: u8) OR 26 = 0x7a" by (simp_all add: push_bit_eq_mult)
  with assms show ?thesis
    by (auto simp: push_cbor_text_def push_cbor_uint_with_major_def Let_def)
qed

lemma bytes_str_bytes: "bytes_str (str_bytes s) = s"
proof -
  have "char_of (unat (word_of_nat (of_char c) :: u8)) = c" for c
    by (simp add: unat_small_byte)
  then show ?thesis by (simp add: bytes_str_def str_bytes_def o_def)
qed

definition text_fits :: "string \<Rightarrow> bool" where
  "text_fits s \<longleftrightarrow> length s < 2 ^ 32"

interpretation text_codec: stream_codec text_fits push_cbor_text read_text
proof
  show "push_cbor_text out s = out @ push_cbor_text [] s" for out s
    by (simp add: push_cbor_text_def Let_def)
  show "read_text (push_cbor_text [] s @ rest) = Some (s, rest)" if "text_fits s" for s rest
    using that read_push_head [of 3 "length (str_bytes s)" "str_bytes s @ rest"]
    by (simp add: text_head_is_major_3 text_fits_def str_bytes_def [THEN arg_cong, of length]
        read_text_def bytes_str_bytes)
qed


section \<open>Chunk associated data\<close>

datatype blob_class = Media | ArchiveSegment | SearchIndexShard | BackupSegment | Manifest

fun class_as_u32 :: "blob_class \<Rightarrow> u32" where
  "class_as_u32 Media = 1"
| "class_as_u32 ArchiveSegment = 2"
| "class_as_u32 SearchIndexShard = 3"
| "class_as_u32 BackupSegment = 4"
| "class_as_u32 Manifest = 5"

definition kchat_blob_chunk_aad_magic :: bytes where
  "kchat_blob_chunk_aad_magic = str_bytes ''KCHAT_BLOB_CHUNK_V1''"

text \<open>The loop of \<open>write_varint\<close>: seven bits per byte, low first, the high bit set on all but the last.\<close>

function write_varint :: "nat \<Rightarrow> bytes \<Rightarrow> bytes" where
  "write_varint v out =
     (let byte = word_of_nat (v mod 128); v' = v div 128 in
      if v' \<noteq> 0 then write_varint v' (out @ [byte OR 0x80]) else out @ [byte])"
  by pat_completeness auto
termination by (relation "measure fst") auto

declare write_varint.simps [simp del]

definition build_kchat_chunk_aad :: "bytes \<Rightarrow> blob_class \<Rightarrow> u32 \<Rightarrow> u32 \<Rightarrow> bytes \<Rightarrow> bytes" where
  "build_kchat_chunk_aad blob_id cls chunk_no chunk_count merkle_root =
     write_varint (unat (class_as_u32 cls)) (kchat_blob_chunk_aad_magic @ blob_id)
       @ be_bytes 4 (unat chunk_no) @ be_bytes 4 (unat chunk_count) @ merkle_root"

text \<open>A reader for LEB128, to state that the varint is self-delimiting.\<close>

fun read_varint :: "bytes \<Rightarrow> (nat \<times> bytes) option" where
  "read_varint [] = None"
| "read_varint (b # bs) =
     (if unat b < 128 then Some (unat b, bs)
      else map_option (\<lambda>(v, r). (128 * v + (unat b - 128), r)) (read_varint bs))"

lemma write_varint_append: "write_varint v out = out @ write_varint v []"
proof (induction v arbitrary: out rule: less_induct)
  case (less v)
  show ?case
  proof (cases "v div 128 = 0")
    case True
    then show ?thesis by (simp add: write_varint.simps [of v])
  next
    case False
    then have "v div 128 < v" by simp
    from less [OF this, of "out @ [word_of_nat (v mod 128) OR 0x80]"]
      less [OF this, of "[word_of_nat (v mod 128) OR 0x80]"] False
    show ?thesis by (simp add: write_varint.simps [of v] Let_def)
  qed
qed

lemma continuation_nat: "v < 128 \<Longrightarrow> v OR 128 = 128 + (v :: nat)"
proof -
  assume v: "v < 128"
  then have t: "take_bit 7 v = v" by (simp add: take_bit_nat_eq_self)
  have "(128 :: nat) = push_bit 7 1" by (simp add: push_bit_eq_mult)
  moreover have "\<not> bit v n \<or> \<not> bit (push_bit 7 1 :: nat) n" for n
    by (metis t bit_push_bit_iff bit_take_bit_iff not_less)
  ultimately have "v + 128 = v OR 128"
    by (intro disjunctive_add_eq_or) (auto simp: bit_eq_iff bit_and_iff)
  then show ?thesis by simp
qed

lemma continuation_byte: "v < 128 \<Longrightarrow> unat (word_of_nat v OR 0x80 :: u8) = 128 + v"
  using continuation_nat [of v] by (simp add: unsigned_or_eq unat_of_nat)

interpretation varint_codec: stream_codec "\<lambda>_. True" "\<lambda>out v. write_varint v out" read_varint
proof
  show "write_varint v out = out @ write_varint v []" for v out
    by (rule write_varint_append)
  show "read_varint (write_varint v [] @ rest) = Some (v, rest)" for v rest
  proof (induction v rule: less_induct)
    case (less v)
    show ?case
    proof (cases "v div 128 = 0")
      case True
      then have "v < 128" by auto
      then show ?thesis by (simp add: write_varint.simps [of v] unat_small_byte)
    next
      case False
      then have "v div 128 < v" by simp
      with less have "read_varint (write_varint (v div 128) [] @ rest) = Some (v div 128, rest)"
        by blast
      with False show ?thesis
        using write_varint_append [of "v div 128" "[word_of_nat (v mod 128) OR 0x80]"]
        by (simp add: write_varint.simps [of v] Let_def continuation_byte)
    qed
  qed
qed

section \<open>Comparison and percent encoding\<close>

definition constant_time_eq :: "bytes \<Rightarrow> bytes \<Rightarrow> bool" where
  "constant_time_eq a b =
     (if length a \<noteq> length b then False
      else foldl (\<lambda>result (x, y). result OR (x XOR y)) 0 (zip a b) = 0)"

lemma or_fold_zero:
  "foldl (\<lambda>r (x, y). r OR (x XOR y)) r xys = (0 :: u8) \<longleftrightarrow> r = 0 \<and> (\<forall>(x, y) \<in> set xys. x = y)"
proof (induction xys arbitrary: r)
  case (Cons p xys)
  have "r OR (x XOR y) = 0 \<longleftrightarrow> r = 0 \<and> x = y" for x y :: u8
    by (metis or_eq_0_iff xor_self_eq xor.assoc xor.left_neutral xor.right_neutral)
  with Cons show ?case by (cases p) auto
qed auto

definition unreserved :: "u8 \<Rightarrow> bool" where
  "unreserved b \<longleftrightarrow>
     (0x30 \<le> b \<and> b \<le> 0x39) \<or> (0x41 \<le> b \<and> b \<le> 0x5A) \<or> (0x61 \<le> b \<and> b \<le> 0x7A)
       \<or> b = 0x2D \<or> b = 0x5F \<or> b = 0x2E \<or> b = 0x7E"

definition hex_upper :: "nat \<Rightarrow> u8" where
  "hex_upper d = (if d < 10 then word_of_nat (48 + d) else word_of_nat (55 + d))"

definition url_encode :: "bytes \<Rightarrow> bytes" where
  "url_encode s = concat (map (\<lambda>b. if unreserved b then [b]
     else [0x25, hex_upper (unat b div 16), hex_upper (unat b mod 16)]) s)"

definition hex_val :: "u8 \<Rightarrow> nat" where
  "hex_val b = (if b \<le> 0x39 then unat b - 48 else unat b - 55)"

fun url_decode :: "bytes \<Rightarrow> bytes" where
  "url_decode [] = []"
| "url_decode (b # bs) =
     (if b = 0x25 then
        (case bs of h # l # rest \<Rightarrow> word_of_nat (16 * hex_val h + hex_val l) # url_decode rest | _ \<Rightarrow> [])
      else b # url_decode bs)"

lemma hex_val_upper: "d < 16 \<Longrightarrow> hex_val (hex_upper d) = d"
  by (simp add: hex_val_def hex_upper_def word_le_nat_alt unat_small_byte del: of_nat_add)

lemma url_decode_encode: "url_decode (url_encode s) = s"
proof (induction s)
  case (Cons b s)
  have "unat b div 16 < 16" using unsigned_less [of b] by (simp add: div_less_iff_less_mult)
  then have "word_of_nat (16 * hex_val (hex_upper (unat b div 16)) + hex_val (hex_upper (unat b mod 16))) = b"
    by (simp add: hex_val_upper del: of_nat_add of_nat_mult)
  moreover have "\<not> unreserved 0x25" by (simp add: unreserved_def)
  ultimately show ?case using Cons by (auto simp: url_encode_def simp del: of_nat_add of_nat_mult)
qed (simp add: url_encode_def)

section \<open>Properties\<close>

text \<open>
  the four-field payload of the backup journal is lossless: a CBOR reader returns exactly the
  message id, conversation id, sender and (signed 64-bit) timestamp that were written.
\<close>

theorem event_payload_roundtrip:
  assumes "text_fits a" and "text_fits b" and "text_fits c" and "i64_range t"
  shows "read_event_payload (encode_event_payload a b c t) = Some (a, b, c, t)"
proof -
  have "encode_event_payload a b c t =
      0x84 # push_cbor_text [] a @ push_cbor_text [] b @ push_cbor_text [] c @ push_cbor_int [] t"
    by (simp add: encode_event_payload_def int_codec.put_append [of "_ # _"]
        text_codec.put_append [of "_ # _"])
  with assms show ?thesis
    by (simp add: read_event_payload_def read_head_def Let_def text_codec.get_put
        int_codec.get_put_exact)
qed

theorem event_payload_roundtrip_witness:
  "read_event_payload (encode_event_payload ''m1'' ''c1'' ''self'' (- 5)) = Some (''m1'', ''c1'', ''self'', - 5)"
  by (rule event_payload_roundtrip) (simp_all add: text_fits_def i64_range_def)

text \<open>
  the associated data of a chunk binds everything: for 16-byte blob ids, two chunks with the
  same associated data agree on blob id, object class, chunk number, chunk count and Merkle root.
\<close>

theorem chunk_aad_injective:
  assumes "length b = 16" and "length b' = 16"
    and "build_kchat_chunk_aad b cls n k r = build_kchat_chunk_aad b' cls' n' k' r'"
  shows "b = b' \<and> cls = cls' \<and> n = n' \<and> k = k' \<and> r = r'"
proof -
  let ?v = "\<lambda>c. write_varint (unat (class_as_u32 c)) []"
  have "b @ ?v cls @ be_bytes 4 (unat n) @ be_bytes 4 (unat k) @ r =
      b' @ ?v cls' @ be_bytes 4 (unat n') @ be_bytes 4 (unat k') @ r'"
    using assms(3) write_varint_append [of _ "_ @ _"] by (simp add: build_kchat_chunk_aad_def)
  with assms(1,2) have b: "b = b'" and
    t: "?v cls @ be_bytes 4 (unat n) @ be_bytes 4 (unat k) @ r =
        ?v cls' @ be_bytes 4 (unat n') @ be_bytes 4 (unat k') @ r'" by simp_all
  from varint_codec.prefix_free [OF TrueI TrueI t] have
    c: "unat (class_as_u32 cls) = unat (class_as_u32 cls')" and
    u: "be_bytes 4 (unat n) @ be_bytes 4 (unat k) @ r = be_bytes 4 (unat n') @ be_bytes 4 (unat k') @ r'"
    by simp_all
  have "unat (w :: u32) < 256 ^ 4" for w using unsigned_less [of w] by simp
  with u have "n = n'" "k = k'" "r = r'"
    using be_bytes_inj [of _ 4] by (auto simp: append_eq_append_conv word_unat_eq_iff)
  with b c show ?thesis by (cases cls; cases cls') auto
qed

theorem chunk_aad_injective_witness:
  "build_kchat_chunk_aad (replicate 16 0) Media 0 2 [] = build_kchat_chunk_aad (replicate 16 0) Media 0 2 []
   \<and> Media = Media"
  using chunk_aad_injective [of "replicate 16 0" "replicate 16 0" Media 0 2 "[]" Media 0 2 "[]"] by simp

text \<open>the constant-time comparison is equality: no two different byte strings compare equal.\<close>

theorem constant_time_eq_correct: "constant_time_eq a b = (a = b)"
proof (cases "length a = length b")
  case True
  then have "(\<forall>(x, y) \<in> set (zip a b). x = y) = (a = b)"
    by (induction a b rule: list_induct2) auto
  with True show ?thesis by (simp add: constant_time_eq_def or_fold_zero)
qed (auto simp: constant_time_eq_def)

text \<open>percent encoding of a query parameter is reversible, so no two parameters collide.\<close>

theorem url_encode_roundtrip: "url_decode (url_encode s) = s \<and> inj url_encode"
  using url_decode_encode by (auto intro: inj_on_inverseI)

end
