(* ===== verification/Messages.thy ===== *)
theory Messages
  imports StoreInvariant Cbor
begin

text \<open>
  The message pipeline of \<open>message/processor.rs\<close>: validation, ingest of decrypted messages, the
  outbox, edits and deletes. Every operation is the code's statement sequence inside its
  savepoint. UUIDs are their canonical strings; the clock readings (\<open>now_ms\<close>) are arguments, in
  the order in which the code takes them. The abstract specification of each operation is one
  function on the tables, and the interface \<open>durable_body\<close> of theory \<open>Store\<close> is interpreted for
  the four savepoint bodies.
\<close>

section \<open>Data\<close>

type_synonym uuid = string

record media_descriptor =
  md_asset :: uuid
  md_mime :: string
  md_bytes_total :: u64
  md_chunk_count :: u32
  md_merkle_root :: bytes
  md_blob :: uuid
  md_wrapped_key :: bytes
  md_sink :: "string option"
  md_width :: u32
  md_height :: u32
  md_duration_ms :: u64
  md_thumbnail :: "string option"
  md_node :: string
  md_version :: string

datatype processor_error =
    InvalidMessage string
  | DuplicateMessage
  | PStorage sql_error
  | Db storage_error
  | IllegalTransition transition_error

record ingested_message =
  im_id :: string
  im_conv :: string
  im_sender :: string
  im_created_ms :: int
  im_text :: "ustr option"
  im_media :: "media_descriptor list"
  im_reply_to :: "string option"

datatype outbox_status = OutPending | OutSending | OutSent | OutFailed

record outbox_entry =
  oe_id :: uuid
  oe_conv :: uuid
  oe_text :: ustr
  oe_media :: "string option"
  oe_reply_to :: "string option"
  oe_created_ms :: int
  oe_status :: outbox_status

datatype delete_scope = ForMe | ForEveryone

fun scope_label :: "delete_scope \<Rightarrow> string" where
  "scope_label ForMe = ''for_me''"
| "scope_label ForEveryone = ''for_everyone''"

section \<open>Pure part\<close>

definition create_outbox_entry :: "uuid \<Rightarrow> int \<Rightarrow> uuid \<Rightarrow> ustr \<Rightarrow> uuid option \<Rightarrow> outbox_entry" where
  "create_outbox_entry new_id now conv text reply_to =
     \<lparr>oe_id = new_id, oe_conv = conv, oe_text = text, oe_media = None, oe_reply_to = reply_to,
      oe_created_ms = now, oe_status = OutPending\<rparr>"

definition create_media_outbox_entry ::
  "uuid \<Rightarrow> int \<Rightarrow> uuid \<Rightarrow> string \<Rightarrow> ustr option \<Rightarrow> outbox_entry" where
  "create_media_outbox_entry new_id now conv asset caption =
     \<lparr>oe_id = new_id, oe_conv = conv, oe_text = (case caption of None \<Rightarrow> [] | Some c \<Rightarrow> c),
      oe_media = Some asset, oe_reply_to = None, oe_created_ms = now, oe_status = OutPending\<rparr>"

definition validate_ingest :: "ingested_message \<Rightarrow> processor_error + unit" where
  "validate_ingest msg =
     (if im_id msg = [] then Inl (InvalidMessage ''message_id must not be empty'')
      else if im_conv msg = [] then Inl (InvalidMessage ''conversation_id must not be empty'')
      else if im_sender msg = [] then Inl (InvalidMessage ''sender_id must not be empty'')
      else if im_created_ms msg \<le> 0
      then Inl (InvalidMessage (''created_at_ms must be positive (got '' @ dec_int (im_created_ms msg) @ '')''))
      else if im_text msg = None \<and> im_media msg = []
      then Inl (InvalidMessage ''message has neither text nor media'')
      else if im_text msg = Some [] then Inl (InvalidMessage ''text_content must not be empty when present'')
      else Inr ())"

definition is_duplicate :: "string \<Rightarrow> string set \<Rightarrow> bool" where
  "is_duplicate mid existing \<longleftrightarrow> mid \<in> existing"

definition message_kind_of :: "ingested_message \<Rightarrow> message_kind option" where
  "message_kind_of msg =
     (if im_media msg \<noteq> [] then Some KMedia else if im_text msg \<noteq> None then Some KText else None)"

definition ingest_skeleton :: "int \<Rightarrow> message_kind \<Rightarrow> ingested_message \<Rightarrow> message_skeleton" where
  "ingest_skeleton now kind msg =
     \<lparr>sk_id = im_id msg, sk_conv = im_conv msg, sk_sender = im_sender msg,
      sk_created_ms = im_created_ms msg, sk_received_ms = now, sk_kind = kind,
      sk_body = LocalPlainAvailable,
      sk_media = (if im_media msg \<noteq> [] then Some ThumbnailOnly else None),
      sk_archive = NotArchived, sk_backup = NotBackedUp, sk_reply_to = im_reply_to msg,
      sk_edited_ms = None, sk_deleted_ms = None\<rparr>"

definition descriptor_row :: "string \<Rightarrow> media_descriptor \<Rightarrow> media_row" where
  "descriptor_row mid d =
     \<lparr>rm_asset = md_asset d, rm_message = mid, rm_mime = md_mime d,
      rm_bytes_total = u64_as_i64 (md_bytes_total d), rm_bytes_local = 0,
      rm_state = media_to_string ThumbnailOnly, rm_wrapped_key = md_wrapped_key d,
      rm_chunk_count = u32_as_i32 (md_chunk_count d), rm_merkle_root = md_merkle_root d,
      rm_blob = md_blob d,
      rm_sink = (case md_sink d of None \<Rightarrow> ''kchat_backend'' | Some s \<Rightarrow> s)\<rparr>"

definition plain_body :: "string \<Rightarrow> ustr \<Rightarrow> message_body" where
  "plain_body mid text = \<lparr>b_id = mid, b_text = Some text, b_language = None, b_rich_meta = None\<rparr>"

definition fts_of :: "string \<Rightarrow> string \<Rightarrow> string \<Rightarrow> int \<Rightarrow> ustr \<Rightarrow> fts_row" where
  "fts_of mid conv sender created text =
     \<lparr>f_id = mid, f_conv = conv, f_sender = sender, f_created_ms = created, f_text = text\<rparr>"

definition journal_entry :: "string \<Rightarrow> string \<Rightarrow> string \<Rightarrow> bytes \<Rightarrow> int \<Rightarrow> backup_event_entry" where
  "journal_entry ty conv mid payload now =
     \<lparr>be_type = ty, be_conv = Some conv, be_message = Some mid, be_payload = payload, be_created_ms = now\<rparr>"

section \<open>Statements of the persister\<close>

type_synonym 'a pact = "(processor_error, 'a) act"

definition db_sql :: "sql_error \<Rightarrow> processor_error" where
  "db_sql e = Db (Sqlite e)"

definition skeleton_exists :: "string \<Rightarrow> bool pact" where
  "skeleton_exists mid = query (\<lambda>t. list_ex (\<lambda>r. rs_id r = mid) (t_skel t))"

definition check_duplicate :: "string \<Rightarrow> bool pact" where
  "check_duplicate mid = skeleton_exists mid"

definition insert_fts_row :: "string \<Rightarrow> string \<Rightarrow> string \<Rightarrow> int \<Rightarrow> ustr \<Rightarrow> unit pact" where
  "insert_fts_row mid conv sender created text =
     mapE PStorage (exec (add_fts (fts_of mid conv sender created text)))"

text \<open>The loop over tokens and n-grams; each insert's result is dropped.\<close>

definition index_fuzzy_grams :: "(ustr \<Rightarrow> ustr) \<Rightarrow> string \<Rightarrow> ustr \<Rightarrow> unit pact" where
  "index_fuzzy_grams lower mid text =
     forA (\<lambda>(g, sc). ignoreA (exec (pureT (add_fuzzy (g, sc, mid))))) (index_grams lower text)"

section \<open>Ingest\<close>

definition persist_ingested_message_inner ::
  "(ustr \<Rightarrow> ustr) \<Rightarrow> int \<Rightarrow> int \<Rightarrow> ingested_message \<Rightarrow> unit pact" where
  "persist_ingested_message_inner lower now1 now2 msg =
     (case message_kind_of msg of
        None \<Rightarrow> fail (InvalidMessage ''message has neither text nor media'')
      | Some kind \<Rightarrow>
          let skel = ingest_skeleton now1 kind msg; mid = sk_id skel in
          seqA
            [mapE PStorage (exec (put_skel (skel_to_row skel))),
             forA (\<lambda>d. mapE db_sql (exec (put_media (descriptor_row mid d)))) (im_media msg),
             (case im_text msg of None \<Rightarrow> ret ()
              | Some text \<Rightarrow> seqA
                  [mapE db_sql (exec (put_body (plain_body mid text))),
                   insert_fts_row mid (sk_conv skel) (sk_sender skel) (sk_created_ms skel) text,
                   index_fuzzy_grams lower mid text]),
             ignoreA (exec (pureT (upd_conv (sk_conv skel) (set_last_message mid (sk_created_ms skel))))),
             mapE db_sql (exec (add_journal (journal_entry ''message_received'' (sk_conv skel) mid
               (encode_event_payload mid (sk_conv skel) (sk_sender skel) (sk_created_ms skel)) now2)))])"

definition persist_ingested_message ::
  "(ustr \<Rightarrow> ustr) \<Rightarrow> int \<Rightarrow> int \<Rightarrow> ingested_message \<Rightarrow> unit pact" where
  "persist_ingested_message lower now1 now2 msg =
     (case validate_ingest msg of
        Inl e \<Rightarrow> fail e
      | Inr _ \<Rightarrow>
          bindA (skeleton_exists (im_id msg)) (\<lambda>dup.
          if dup then fail DuplicateMessage
          else with_savepoint ''persist_ingest'' PStorage
                 (persist_ingested_message_inner lower now1 now2 msg)))"

section \<open>Outbox\<close>

definition outbox_row_of :: "outbox_entry \<Rightarrow> outbox_row" where
  "outbox_row_of e =
     \<lparr>o_id = oe_id e, o_conv = oe_conv e, o_text = (if oe_text e = [] then None else Some (oe_text e)),
      o_media = oe_media e, o_created_ms = oe_created_ms e, o_sent = 0, o_sent_ms = None\<rparr>"

definition outbox_skeleton :: "outbox_entry \<Rightarrow> message_skeleton" where
  "outbox_skeleton e =
     \<lparr>sk_id = oe_id e, sk_conv = oe_conv e, sk_sender = ''self'', sk_created_ms = oe_created_ms e,
      sk_received_ms = oe_created_ms e, sk_kind = KText, sk_body = LocalPlainAvailable,
      sk_media = None, sk_archive = NotArchived, sk_backup = NotBackedUp,
      sk_reply_to = oe_reply_to e, sk_edited_ms = None, sk_deleted_ms = None\<rparr>"

definition persist_outbox_entry_inner :: "(ustr \<Rightarrow> ustr) \<Rightarrow> int \<Rightarrow> outbox_entry \<Rightarrow> unit pact" where
  "persist_outbox_entry_inner lower now e =
     (let mid = oe_id e; conv = oe_conv e in
      seqA
        [mapE PStorage (exec (put_outbox (outbox_row_of e))),
         (if oe_text e = [] then ret ()
          else seqA
            [mapE PStorage (exec (put_skel (skel_to_row (outbox_skeleton e)))),
             mapE db_sql (exec (put_body (plain_body mid (oe_text e)))),
             insert_fts_row mid conv ''self'' (oe_created_ms e) (oe_text e),
             index_fuzzy_grams lower mid (oe_text e),
             ignoreA (exec (pureT (upd_conv conv (set_last_message mid (oe_created_ms e))))),
             mapE db_sql (exec (add_journal (journal_entry ''outbox_pending'' conv mid
               (encode_event_payload mid conv ''self'' (oe_created_ms e)) now)))])])"

definition persist_outbox_entry :: "(ustr \<Rightarrow> ustr) \<Rightarrow> int \<Rightarrow> outbox_entry \<Rightarrow> uuid pact" where
  "persist_outbox_entry lower now e =
     (if oe_text e = [] \<and> oe_media e = None
      then fail (InvalidMessage ''outbox must have text or media'')
      else bindA (skeleton_exists (oe_id e)) (\<lambda>dup.
        if dup then fail DuplicateMessage
        else thenA (with_savepoint ''persist_outbox'' PStorage (persist_outbox_entry_inner lower now e))
               (ret (oe_id e))))"

definition set_sent :: "int \<Rightarrow> outbox_row \<Rightarrow> outbox_row" where
  "set_sent now r = r\<lparr>o_sent := 1, o_sent_ms := Some now\<rparr>"

definition mark_sent :: "int \<Rightarrow> int \<Rightarrow> string \<Rightarrow> unit pact" where
  "mark_sent now1 now2 mid =
     bindA (query_w (\<lambda>t. row_of rs_id mid (t_skel t))) (\<lambda>found.
     case found of
       None \<Rightarrow> fail (InvalidMessage (''no outbox entry with client_message_id='' @ mid))
     | Some r \<Rightarrow>
         thenA (mapE PStorage (exec (pureT (upd_outbox mid (set_sent now1)))))
           (mapE db_sql (exec (add_journal (journal_entry ''outbox_sent'' (rs_conv r) mid
              (encode_event_payload mid (rs_conv r) (rs_sender r) (rs_created_ms r)) now2)))))"

section \<open>Edit\<close>

definition edit_message_inner ::
  "(ustr \<Rightarrow> ustr) \<Rightarrow> message_skeleton \<Rightarrow> ustr \<Rightarrow> int \<Rightarrow> unit pact" where
  "edit_message_inner lower skel new_text edited_at_ms =
     (let mid = sk_id skel in
      seqA
        [mapE db_sql (exec (pureT (upd_body mid (\<lambda>r. r\<lparr>b_text := Some new_text\<rparr>)))),
         mapE db_sql (exec (pureT (upd_skel mid (\<lambda>r. r\<lparr>rs_edited_ms := Some edited_at_ms\<rparr>)))),
         mapE db_sql (exec (pureT (del_fts mid))),
         insert_fts_row mid (sk_conv skel) (sk_sender skel) (sk_created_ms skel) new_text,
         mapE db_sql (exec (pureT (del_fuzzy mid))),
         index_fuzzy_grams lower mid new_text,
         mapE db_sql (exec (add_journal (journal_entry ''message_edited'' (sk_conv skel) mid
           (encode_edit_event_payload mid edited_at_ms) edited_at_ms)))])"

definition edit_message :: "(ustr \<Rightarrow> ustr) \<Rightarrow> int \<Rightarrow> string \<Rightarrow> ustr \<Rightarrow> unit pact" where
  "edit_message lower now mid new_text =
     (if new_text = [] then fail (InvalidMessage ''edit text_content must not be empty'')
      else bindA (mapE Db (get_message_skeleton mid)) (\<lambda>found.
        case found of
          None \<Rightarrow> fail (InvalidMessage (''no message with id='' @ mid))
        | Some skel \<Rightarrow>
            if sk_body skel \<noteq> LocalPlainAvailable
            then fail (InvalidMessage (''edit requires body_state=local_plain_available, found ''
                   @ body_to_string (sk_body skel)))
            else with_savepoint ''edit_message'' PStorage (edit_message_inner lower skel new_text now)))"

section \<open>Delete\<close>

fun delete_target :: "delete_scope \<Rightarrow> body_state" where
  "delete_target ForMe = DeletedForMe"
| "delete_target ForEveryone = DeletedForEveryone"

definition media_deleted_entry :: "message_skeleton \<Rightarrow> int \<Rightarrow> string \<Rightarrow> backup_event_entry" where
  "media_deleted_entry skel now asset =
     journal_entry ''media_deleted'' (sk_conv skel) (sk_id skel)
       (encode_media_delete_event_payload asset (sk_id skel)) now"

definition delete_inner_tx ::
  "message_skeleton \<Rightarrow> delete_scope \<Rightarrow> body_state \<Rightarrow> int \<Rightarrow> unit pact" where
  "delete_inner_tx skel scope target deleted_at_ms =
     (let mid = sk_id skel in
      seqA
        [mapE db_sql (exec (pureT (upd_skel mid (set_deleted deleted_at_ms target)))),
         mapE db_sql (exec (pureT (del_fts mid))),
         mapE db_sql (exec (pureT (del_fuzzy mid))),
         (if scope = ForEveryone then mapE db_sql (exec (pureT (del_body mid))) else ret ()),
         mapE db_sql (exec (add_journal (journal_entry ''message_deleted'' (sk_conv skel) mid
           (encode_delete_event_payload mid (scope_label scope)) deleted_at_ms))),
         bindA (query_w (\<lambda>t. map rm_asset (filter (\<lambda>r. rm_message r = mid) (t_media t)))) (\<lambda>asset_ids.
           forA (\<lambda>a. mapE db_sql (exec (add_journal (media_deleted_entry skel deleted_at_ms a)))) asset_ids)])"

definition delete_inner :: "int \<Rightarrow> string \<Rightarrow> delete_scope \<Rightarrow> unit pact" where
  "delete_inner now mid scope =
     bindA (mapE Db (get_message_skeleton mid)) (\<lambda>found.
     case found of
       None \<Rightarrow> fail (InvalidMessage (''no message with id='' @ mid))
     | Some skel \<Rightarrow>
         (case body_try_transition (sk_body skel) (delete_target scope) of
            Inl e \<Rightarrow> fail (IllegalTransition e)
          | Inr _ \<Rightarrow> with_savepoint ''delete_message'' PStorage
                       (delete_inner_tx skel scope (delete_target scope) now)))"

definition delete_for_me :: "int \<Rightarrow> string \<Rightarrow> unit pact" where
  "delete_for_me now mid = delete_inner now mid ForMe"

definition delete_for_everyone :: "int \<Rightarrow> string \<Rightarrow> unit pact" where
  "delete_for_everyone now mid = delete_inner now mid ForEveryone"


section \<open>What the operations do to the tables\<close>

definition log_event :: "backup_event_entry \<Rightarrow> tables \<Rightarrow> tables" where
  "log_event e t = t\<lparr>t_journal := t_journal t @ [(t_journal_seq t + 1, e)],
     t_journal_seq := t_journal_seq t + 1\<rparr>"

definition index_all :: "(ustr \<Rightarrow> ustr) \<Rightarrow> string \<Rightarrow> ustr \<Rightarrow> tables \<Rightarrow> tables" where
  "index_all lower mid text = fold (\<lambda>(g, sc). add_fuzzy (g, sc, mid)) (index_grams lower text)"

definition ingest_tables :: "(ustr \<Rightarrow> ustr) \<Rightarrow> int \<Rightarrow> int \<Rightarrow> ingested_message \<Rightarrow> tables \<Rightarrow> tables" where
  "ingest_tables lower now1 now2 msg t =
     (let skel = ingest_skeleton now1 (if im_media msg \<noteq> [] then KMedia else KText) msg;
          mid = im_id msg;
          t1 = t\<lparr>t_skel := upsert rs_id (skel_to_row skel) (t_skel t),
                 t_media := fold (upsert rm_asset) (map (descriptor_row mid) (im_media msg)) (t_media t)\<rparr>;
          t2 = (case im_text msg of None \<Rightarrow> t1
                | Some text \<Rightarrow> index_all lower mid text
                    (t1\<lparr>t_body := upsert b_id (plain_body mid text) (t_body t1),
                        t_fts := t_fts t1 @ [fts_of mid (im_conv msg) (im_sender msg) (im_created_ms msg) text]\<rparr>))
      in log_event (journal_entry ''message_received'' (im_conv msg) mid
           (encode_event_payload mid (im_conv msg) (im_sender msg) (im_created_ms msg)) now2)
           (upd_conv (im_conv msg) (set_last_message mid (im_created_ms msg)) t2))"

definition ingest_spec :: "(ustr \<Rightarrow> ustr) \<Rightarrow> int \<Rightarrow> int \<Rightarrow> ingested_message \<Rightarrow> processor_error tfun" where
  "ingest_spec lower now1 now2 msg fk t =
     (if message_kind_of msg = None then Inl (InvalidMessage ''message has neither text nor media'')
      else if fk \<and> im_conv msg \<notin> rc_id ` set (t_conv t) then Inl (PStorage FkViolation)
      else Inr (ingest_tables lower now1 now2 msg t))"

definition outbox_tables :: "(ustr \<Rightarrow> ustr) \<Rightarrow> int \<Rightarrow> outbox_entry \<Rightarrow> tables \<Rightarrow> tables" where
  "outbox_tables lower now e t =
     (let mid = oe_id e; conv = oe_conv e; text = oe_text e;
          t1 = t\<lparr>t_outbox := upsert o_id (outbox_row_of e) (t_outbox t)\<rparr>
      in if text = [] then t1
         else log_event (journal_entry ''outbox_pending'' conv mid
                (encode_event_payload mid conv ''self'' (oe_created_ms e)) now)
              (upd_conv conv (set_last_message mid (oe_created_ms e))
              (index_all lower mid text
                (t1\<lparr>t_skel := upsert rs_id (skel_to_row (outbox_skeleton e)) (t_skel t1),
                    t_body := upsert b_id (plain_body mid text) (t_body t1),
                    t_fts := t_fts t1 @ [fts_of mid conv ''self'' (oe_created_ms e) text]\<rparr>))))"

definition outbox_spec :: "(ustr \<Rightarrow> ustr) \<Rightarrow> int \<Rightarrow> outbox_entry \<Rightarrow> processor_error tfun" where
  "outbox_spec lower now e fk t =
     (if fk \<and> oe_text e \<noteq> [] \<and> oe_conv e \<notin> rc_id ` set (t_conv t) then Inl (PStorage FkViolation)
      else Inr (outbox_tables lower now e t))"

definition edit_tables :: "(ustr \<Rightarrow> ustr) \<Rightarrow> message_skeleton \<Rightarrow> ustr \<Rightarrow> int \<Rightarrow> tables \<Rightarrow> tables" where
  "edit_tables lower skel text now t =
     (let mid = sk_id skel;
          t1 = upd_skel mid (\<lambda>r. r\<lparr>rs_edited_ms := Some now\<rparr>)
                 (upd_body mid (\<lambda>r. r\<lparr>b_text := Some text\<rparr>) t);
          t2 = (del_fts mid t1);
          t3 = t2\<lparr>t_fts := t_fts t2 @ [fts_of mid (sk_conv skel) (sk_sender skel) (sk_created_ms skel) text]\<rparr>
      in log_event (journal_entry ''message_edited'' (sk_conv skel) mid
           (encode_edit_event_payload mid now) now)
           (index_all lower mid text (del_fuzzy mid t3)))"

definition delete_tables :: "message_skeleton \<Rightarrow> delete_scope \<Rightarrow> int \<Rightarrow> tables \<Rightarrow> tables" where
  "delete_tables skel scope now t =
     (let mid = sk_id skel;
          t1 = del_fuzzy mid (del_fts mid (upd_skel mid (set_deleted now (delete_target scope)) t));
          t2 = (if scope = ForEveryone then del_body mid t1 else t1);
          assets = map rm_asset (filter (\<lambda>r. rm_message r = mid) (t_media t))
      in fold (\<lambda>a. log_event (media_deleted_entry skel now a)) assets
           (log_event (journal_entry ''message_deleted'' (sk_conv skel) mid
              (encode_delete_event_payload mid (scope_label scope)) now) t2))"

lemma pure_stmts:
  "add_journal e = pureT (log_event e)" "put_outbox q = pureT (\<lambda>t. t\<lparr>t_outbox := upsert o_id q (t_outbox t)\<rparr>)"
  "add_fts r = pureT (\<lambda>t. t\<lparr>t_fts := t_fts t @ [r]\<rparr>)"
  by (simp_all add: fun_eq_iff add_journal_def pureT_def log_event_def put_outbox_def add_fts_def)

lemma computes_cong: "computes m g \<Longrightarrow> (\<And>k t. g k t = h k t) \<Longrightarrow> computes m h"
  by (simp add: computes_def)

lemma mapT_pure: "mapT f (pureT g) = pureT g"
  by (simp add: fun_eq_iff mapT_def pureT_def)

lemma computes_fuzzy: "computes (index_fuzzy_grams lower mid text) (pureT (index_all lower mid text))"
  unfolding index_fuzzy_grams_def index_all_def
  by (rule computes_for_pure) (auto intro: computes_ignore_pure split: prod.split)

lemma computes_logs:
  "computes (forA (\<lambda>a. mapE f (exec (add_journal (j a)))) xs) (pureT (fold (\<lambda>a. log_event (j a)) xs))"
proof (rule computes_for_pure)
  show "computes (mapE f (exec (add_journal (j a)))) (pureT (log_event (j a)))" for a
    using computes_mapE [OF computes_exec, of f "add_journal (j a)"] by (simp add: pure_stmts mapT_pure)
qed

lemma media_stmts:
  assumes "m \<in> rs_id ` set (t_skel t)"
  shows "forT (\<lambda>d. mapT f (put_media (descriptor_row m d))) ds fk t =
    Inr (t\<lparr>t_media := fold (upsert rm_asset) (map (descriptor_row m) ds) (t_media t)\<rparr>)"
  using assms
proof (induction ds arbitrary: t)
  case Nil
  then show ?case by (simp add: idT_def)
next
  case (Cons d ds)
  then show ?case by (simp add: thenT_def mapT_def put_media_def descriptor_row_def)
qed

lemma upsert_has_key: "key r \<in> key ` set (upsert key r t)"
  by (simp add: upsert_def)

lemma computes_media:
  "computes (forA (\<lambda>d. mapE f (exec (put_media (descriptor_row m d)))) ds)
     (forT (\<lambda>d. mapT f (put_media (descriptor_row m d))) ds)"
  by (intro computes_for computes_mapE computes_exec)

lemma computes_if: "computes m g \<Longrightarrow> computes n h \<Longrightarrow> computes (if b then m else n) (if b then g else h)"
  by simp

lemma computes_query_pure:
  "(\<And>a. computes (f a) (pureT (g a))) \<Longrightarrow> computes (bindA (query_w q) f) (pureT (\<lambda>t. g (q t) t))"
  using computes_query_w [of f "\<lambda>a. pureT (g a)" q] by (simp add: pureT_def [abs_def])

lemmas persister_steps = computes_if computes_seq_Cons computes_seq_Nil computes_mapE [OF computes_exec]
  computes_ignore_pure computes_ret computes_fuzzy computes_media computes_logs computes_query_pure

lemma skeleton_rows:
  "rs_id (skel_to_row (ingest_skeleton now kind msg)) = im_id msg"
  "rs_conv (skel_to_row (ingest_skeleton now kind msg)) = im_conv msg"
  "rs_id (skel_to_row (outbox_skeleton e)) = oe_id e"
  "rs_conv (skel_to_row (outbox_skeleton e)) = oe_conv e"
  "sk_id (ingest_skeleton now kind msg) = im_id msg"
  "sk_conv (ingest_skeleton now kind msg) = im_conv msg"
  "sk_sender (ingest_skeleton now kind msg) = im_sender msg"
  "sk_created_ms (ingest_skeleton now kind msg) = im_created_ms msg"
  "sk_id (outbox_skeleton e) = oe_id e" "sk_conv (outbox_skeleton e) = oe_conv e"
  "b_id (plain_body mid text) = mid"
  by (simp_all add: ingest_skeleton_def outbox_skeleton_def plain_body_def)

lemma kind_text: "message_kind_of msg = Some kind \<Longrightarrow> kind = (if im_media msg \<noteq> [] then KMedia else KText)"
  by (auto simp: message_kind_of_def split: if_splits)

lemma step_simps:
  "thenT (pureT f) g k t = g k (f t)" "idT k t = Inr t" "pureT f k t = Inr (f t)"
  by (simp_all add: thenT_def pureT_def idT_def)

lemma ingest_computes:
  "computes (persist_ingested_message_inner lower now1 now2 msg) (ingest_spec lower now1 now2 msg)"
proof (cases "message_kind_of msg")
  case None
  then show ?thesis
    using computes_fail [of "InvalidMessage ''message has neither text nor media''"]
    by (simp add: persist_ingested_message_inner_def computes_def ingest_spec_def)
next
  case (Some kind)
  note kind = kind_text [OF Some]
  show ?thesis
  proof (cases "im_text msg")
    case None
    show ?thesis
      unfolding persist_ingested_message_inner_def Some option.case Let_def None skeleton_rows insert_fts_row_def
      apply (rule computes_cong)
       apply (rule persister_steps)+
      using Some None kind
      by (auto simp: ingest_spec_def ingest_tables_def thenT_def mapT_pure pure_stmts step_simps
          mapT_def put_skel_def media_stmts upsert_has_key Let_def skeleton_rows image_upsert_key
          split: sum.splits)
  next
    case tx: (Some a)
    show ?thesis
      unfolding persist_ingested_message_inner_def Some option.case Let_def tx skeleton_rows insert_fts_row_def
      apply (rule computes_cong)
       apply (rule persister_steps)+
      using Some tx kind
      by (auto simp: ingest_spec_def ingest_tables_def thenT_def mapT_pure pure_stmts step_simps
          mapT_def put_skel_def put_body_def media_stmts upsert_has_key Let_def skeleton_rows image_upsert_key
          split: sum.splits)
  qed
qed

lemma outbox_computes:
  "computes (persist_outbox_entry_inner lower now e) (outbox_spec lower now e)"
  unfolding persist_outbox_entry_inner_def Let_def insert_fts_row_def
  apply (rule computes_cong)
   apply (rule persister_steps)+
  by (auto simp: outbox_spec_def outbox_tables_def thenT_def mapT_pure pure_stmts step_simps
      mapT_def put_skel_def put_body_def Let_def skeleton_rows image_upsert_key)

lemma edit_computes:
  "computes (edit_message_inner lower skel text now) (pureT (edit_tables lower skel text now))"
  unfolding edit_message_inner_def Let_def insert_fts_row_def
  apply (rule computes_cong)
   apply (rule persister_steps)+
  by (simp add: edit_tables_def pure_stmts mapT_pure step_simps Let_def)

lemma delete_computes:
  "computes (delete_inner_tx skel scope (delete_target scope) now) (pureT (delete_tables skel scope now))"
  unfolding delete_inner_tx_def Let_def
  apply (rule computes_cong)
   apply (rule persister_steps)+
  by (cases scope) (simp_all add: delete_tables_def pure_stmts mapT_pure step_simps Let_def log_event_def
      del_fuzzy_def del_fts_def upd_skel_def del_body_def thenT_def)

text \<open>None of the inner functions touches the committed image or the savepoint stack.\<close>

lemma keeps_fuzzy: "keeps (index_fuzzy_grams lower mid text)"
  unfolding index_fuzzy_grams_def by (intro keeping.for_all) (auto intro!: keeps_intros)

lemma inner_keeps:
  "keeps (persist_ingested_message_inner lower now1 now2 msg)"
  "keeps (persist_outbox_entry_inner lower now e)"
  "keeps (edit_message_inner lower skel text now)"
  "keeps (delete_inner_tx skel scope target now)"
  unfolding persist_ingested_message_inner_def persist_outbox_entry_inner_def edit_message_inner_def
    delete_inner_tx_def insert_fts_row_def Let_def
  by (auto intro!: keeps_intros keeps_fuzzy split: option.split)

section \<open>The effect on the durable tables\<close>

lemma acts_pure:
  "(\<And>t. durable (f t) = durable (f (durable t))) \<Longrightarrow> acts_dur (exec (pureT f)) f"
  by (rule acts_exec) (auto simp: pureT_def)

lemma acts_puts:
  "acts_dur (exec (put_skel r)) (\<lambda>t. t\<lparr>t_skel := upsert rs_id r (t_skel t)\<rparr>)"
  "acts_dur (exec (put_body b)) (\<lambda>t. t\<lparr>t_body := upsert b_id b (t_body t)\<rparr>)"
  "acts_dur (exec (put_media m)) (\<lambda>t. t\<lparr>t_media := upsert rm_asset m (t_media t)\<rparr>)"
  by (rule acts_exec; auto simp: put_skel_def put_body_def put_media_def durable_def split: if_splits)+

lemma acts_edits:
  "acts_dur (exec (add_journal e)) (log_event e)"
  "acts_dur (exec (put_outbox q)) (\<lambda>t. t\<lparr>t_outbox := upsert o_id q (t_outbox t)\<rparr>)"
  "acts_dur (exec (add_fts r)) (\<lambda>t. t\<lparr>t_fts := t_fts t @ [r]\<rparr>)"
  "acts_dur (exec (pureT (upd_body k f))) (upd_body k f)"
  "acts_dur (exec (pureT (upd_skel k g))) (upd_skel k g)"
  "acts_dur (exec (pureT (del_fts k))) (del_fts k)"
  "acts_dur (exec (pureT (del_fuzzy k))) (del_fuzzy k)"
  "acts_dur (exec (pureT (del_body k))) (del_body k)"
  unfolding pure_stmts
  by (rule acts_pure; simp add: durable_def log_event_def upd_body_def upd_skel_def del_fts_def
      del_fuzzy_def del_body_def)+

lemma durable_fuzzy: "durable (add_fuzzy r t) = durable t"
  by (simp add: durable_def add_fuzzy_def)

lemma durable_upd_conv: "durable (upd_conv k f t) = durable t"
  by (simp add: durable_def upd_conv_def)

lemma durable_index_all: "durable (index_all lower mid text t) = durable t"
proof -
  have "durable (fold (\<lambda>(g, sc). add_fuzzy (g, sc, mid)) gs t) = durable t" for gs
    by (induction gs arbitrary: t) (auto simp: durable_fuzzy split: prod.splits)
  then show ?thesis by (simp add: index_all_def)
qed

lemma acts_ident_seq: "list_all (\<lambda>m. acts_dur m (\<lambda>t. t)) ms \<Longrightarrow> acts_dur (seqA ms) (\<lambda>t. t)"
proof (induction ms)
  case Nil
  show ?case by (rule acts_seq_Nil)
next
  case (Cons m ms)
  then have "acts_dur (seqA (m # ms)) (\<lambda>t. durable t)" by (intro acts_seq_Cons) auto
  then show ?case by (simp add: acts_dur_def)
qed

lemma acts_fuzzy: "acts_dur (index_fuzzy_grams lower mid text) (\<lambda>t. t)"
  unfolding index_fuzzy_grams_def forA_def
  by (intro acts_ident_seq) (auto simp: list_all_iff durable_fuzzy intro!: acts_ignore_fuzzy)

lemma acts_conv: "acts_dur (ignoreA (exec (pureT (upd_conv k f)))) (\<lambda>t. t)"
  by (rule acts_ignore_fuzzy) (rule durable_upd_conv)

lemma acts_cong: "acts_dur m f \<Longrightarrow> (\<And>t. durable (f (durable t)) = durable (g (durable t))) \<Longrightarrow> acts_dur m g"
  by (simp add: acts_dur_def)

lemma acts_for_fold:
  assumes a: "\<And>x. acts_dur (f x) (g x)" and g: "\<And>x t. durable (g x (durable t)) = durable (g x t)"
  shows "acts_dur (forA f xs) (fold g xs)"
proof (rule acts_cong [OF acts_for [OF a]])
  have "durable (fold (\<lambda>x t. durable (g x t)) xs u) = durable (fold g xs t)" if "durable u = durable t" for u t
    using that
  proof (induction xs arbitrary: u t)
    case (Cons x xs)
    have "durable (g x u) = durable (g x t)" using Cons.prems g by metis
    with Cons.IH [of "durable (g x u)" "g x t"] show ?case by simp
  qed simp
  from this [OF refl]
  show "durable (fold (\<lambda>x t. durable (g x t)) xs (durable t)) = durable (fold g xs (durable t))" for t .
qed

lemma fold_media: "fold (\<lambda>d t. t\<lparr>t_media := upsert rm_asset (row d) (t_media t)\<rparr>) ds t
    = t\<lparr>t_media := fold (upsert rm_asset) (map row ds) (t_media t)\<rparr>"
  by (induction ds arbitrary: t) simp_all

lemma acts_media:
  "acts_dur (forA (\<lambda>d. mapE h (exec (put_media (row d)))) ds)
     (\<lambda>t. t\<lparr>t_media := fold (upsert rm_asset) (map row ds) (t_media t)\<rparr>)"
  unfolding fold_media [symmetric]
  by (rule acts_for_fold) (simp_all add: acts_mapE acts_puts durable_def)

lemma durable_log_event: "durable (log_event e t) = log_event e (durable t)"
  by (simp add: durable_def log_event_def)

lemma durable_push:
  "durable (t\<lparr>t_skel := a\<rparr>) = (durable t)\<lparr>t_skel := a\<rparr>"
  "durable (t\<lparr>t_body := b\<rparr>) = (durable t)\<lparr>t_body := b\<rparr>"
  "durable (t\<lparr>t_media := c\<rparr>) = (durable t)\<lparr>t_media := c\<rparr>"
  "durable (t\<lparr>t_fts := d\<rparr>) = (durable t)\<lparr>t_fts := d\<rparr>"
  "durable (t\<lparr>t_outbox := e\<rparr>) = (durable t)\<lparr>t_outbox := e\<rparr>"
  "durable (upd_skel k f t) = upd_skel k f (durable t)"
  "durable (upd_body k g t) = upd_body k g (durable t)"
  "durable (del_fts k t) = del_fts k (durable t)"
  "durable (del_body k t) = del_body k (durable t)"
  "durable (del_fuzzy k t) = durable t"
  by (simp_all add: durable_def upd_skel_def upd_body_def del_fts_def del_body_def del_fuzzy_def)

lemmas durable_eval = durable_push durable_log_event durable_upd_conv durable_index_all

lemma index_all_rest:
  "t_skel (index_all lower mid text t) = t_skel t" "t_body (index_all lower mid text t) = t_body t"
  "t_fts (index_all lower mid text t) = t_fts t" "t_media (index_all lower mid text t) = t_media t"
  "t_journal (index_all lower mid text t) = t_journal t" "t_outbox (index_all lower mid text t) = t_outbox t"
  "t_conv (index_all lower mid text t) = t_conv t"
  "t_journal_seq (index_all lower mid text t) = t_journal_seq t"
proof -
  have "durable (index_all lower mid text t) = durable t" by (rule durable_index_all)
  then show "t_skel (index_all lower mid text t) = t_skel t" "t_body (index_all lower mid text t) = t_body t"
    "t_fts (index_all lower mid text t) = t_fts t" "t_media (index_all lower mid text t) = t_media t"
    "t_journal (index_all lower mid text t) = t_journal t" "t_outbox (index_all lower mid text t) = t_outbox t"
    "t_journal_seq (index_all lower mid text t) = t_journal_seq t"
    by (metis durable_simps)+
  have "t_conv (fold (\<lambda>(g, sc). add_fuzzy (g, sc, mid)) gs t) = t_conv t" for gs
    by (induction gs arbitrary: t) (auto simp: add_fuzzy_def split: prod.splits)
  then show "t_conv (index_all lower mid text t) = t_conv t" by (simp add: index_all_def)
qed

lemma acts_logs:
  "acts_dur (forA (\<lambda>a. mapE h (exec (add_journal (j a)))) xs) (fold (\<lambda>a. log_event (j a)) xs)"
  by (rule acts_for_fold) (simp_all add: acts_mapE acts_edits durable_log_event)

lemma acts_if: "acts_dur m f \<Longrightarrow> acts_dur n g \<Longrightarrow> acts_dur (if b then m else n) (if b then f else g)"
  by simp

lemmas durable_steps = acts_seq_Cons acts_seq_Nil acts_if acts_media acts_logs acts_fuzzy acts_conv acts_ret
  acts_mapE acts_puts acts_edits

lemma ingest_durable:
  assumes "message_kind_of msg \<noteq> None"
  shows "acts_dur (persist_ingested_message_inner lower now1 now2 msg) (ingest_tables lower now1 now2 msg)"
proof -
  from assms obtain kind where Some: "message_kind_of msg = Some kind" by blast
  note kind = kind_text [OF Some]
  show ?thesis
  proof (cases "im_text msg")
    case None
    show ?thesis
      unfolding persist_ingested_message_inner_def Some option.case Let_def None skeleton_rows insert_fts_row_def
      apply (rule acts_cong)
       apply (rule durable_steps)+
      using None kind
      by (simp add: ingest_tables_def Let_def durable_eval)
  next
    case tx: (Some a)
    show ?thesis
      unfolding persist_ingested_message_inner_def Some option.case Let_def tx skeleton_rows insert_fts_row_def
      apply (rule acts_cong)
       apply (rule durable_steps)+
      using tx kind
      by (simp add: ingest_tables_def Let_def durable_eval)
  qed
qed

lemma outbox_durable:
  "acts_dur (persist_outbox_entry_inner lower now e) (outbox_tables lower now e)"
  unfolding persist_outbox_entry_inner_def Let_def insert_fts_row_def
  apply (rule acts_cong)
   apply (rule durable_steps)+
  by (simp add: outbox_tables_def Let_def durable_eval)

lemma edit_durable:
  "acts_dur (edit_message_inner lower skel text now) (edit_tables lower skel text now)"
  unfolding edit_message_inner_def Let_def insert_fts_row_def
  apply (rule acts_cong)
   apply (rule durable_steps)+
  by (simp add: edit_tables_def Let_def durable_eval upd_body_def upd_skel_def del_fts_def)

lemma acts_asset_logs:
  "acts_dur (bindA (query_w (\<lambda>t. map rm_asset (filter P (t_media t))))
     (\<lambda>ids. forA (\<lambda>a. mapE h (exec (add_journal (j a)))) ids))
     (\<lambda>t. fold (\<lambda>a. log_event (j a)) (map rm_asset (filter P (t_media t))) t)"
  by (rule acts_query_w) (simp_all add: acts_logs)

lemma durable_fold_log: "durable (fold (\<lambda>a. log_event (j a)) xs t) = fold (\<lambda>a. log_event (j a)) xs (durable t)"
  by (induction xs arbitrary: t) (simp_all add: durable_log_event)

lemma media_kept:
  "t_media (upd_skel k f t) = t_media t" "t_media (del_fts k t) = t_media t"
  "t_media (del_fuzzy k t) = t_media t" "t_media (del_body k t) = t_media t"
  "t_media (log_event e t) = t_media t"
  by (simp_all add: upd_skel_def del_fts_def del_fuzzy_def del_body_def log_event_def)

lemma delete_durable:
  "acts_dur (delete_inner_tx skel scope (delete_target scope) now) (delete_tables skel scope now)"
  unfolding delete_inner_tx_def Let_def
  apply (rule acts_cong)
   apply (rule durable_steps acts_asset_logs)+
  by (cases scope) (simp_all add: delete_tables_def Let_def durable_eval durable_fold_log media_kept)

lemma fts_kept:
  "t_fts (upd_skel k f t) = t_fts t" "t_fts (upd_body k g t) = t_fts t"
  "t_fts (del_fts k t) = delete_where (\<lambda>r. f_id r = k) (t_fts t)"
  by (simp_all add: upd_skel_def upd_body_def del_fts_def)

lemma tables_effects_durable:
  "durable (ingest_tables lower now1 now2 msg (durable t)) = durable (ingest_tables lower now1 now2 msg t)"
  "durable (outbox_tables lower now e (durable t)) = durable (outbox_tables lower now e t)"
  "durable (edit_tables lower skel text now (durable t)) = durable (edit_tables lower skel text now t)"
  "durable (delete_tables skel scope now (durable t)) = durable (delete_tables skel scope now t)"
     apply (cases t)
     apply (simp add: ingest_tables_def Let_def durable_eval split: option.split)
     apply (simp add: durable_def)
    apply (simp add: outbox_tables_def Let_def durable_eval)
   apply (simp add: edit_tables_def Let_def durable_eval fts_kept)
  apply (simp add: delete_tables_def Let_def durable_eval durable_fold_log)
  done

text \<open>The four savepoint bodies, as instances of the transaction interface.\<close>

interpretation ingest: durable_body "persist_ingested_message_inner lower now1 now2 msg"
    "ingest_spec lower now1 now2 msg" "ingest_tables lower now1 now2 msg"
  for lower now1 now2 msg
proof unfold_locales
  show "acts_dur (persist_ingested_message_inner lower now1 now2 msg) (ingest_tables lower now1 now2 msg)"
  proof (cases "message_kind_of msg")
    case None
    then show ?thesis by (simp add: persist_ingested_message_inner_def acts_fail)
  next
    case (Some k)
    then show ?thesis by (simp add: ingest_durable)
  qed
qed (rule inner_keeps ingest_computes tables_effects_durable)+

interpretation outbox: durable_body "persist_outbox_entry_inner lower now e" "outbox_spec lower now e"
    "outbox_tables lower now e" for lower now e
  by unfold_locales (rule inner_keeps outbox_computes outbox_durable tables_effects_durable)+

interpretation edit: durable_body "edit_message_inner lower skel text now"
    "pureT (edit_tables lower skel text now)" "edit_tables lower skel text now" for lower skel "text" now
  by unfold_locales (rule inner_keeps edit_computes edit_durable tables_effects_durable)+

interpretation delete: durable_body "delete_inner_tx skel scope (delete_target scope) now"
    "pureT (delete_tables skel scope now)" "delete_tables skel scope now" for skel scope now
  by unfold_locales (rule inner_keeps delete_computes delete_durable tables_effects_durable)+

end
