(* ===== verification/Transport.thy ===== *)
theory Transport
  imports Messages
begin

text \<open>
  The transport layer: the circuit breaker (\<open>transport/circuit_breaker.rs\<close>), the kdrive HTTP bridge
  with its retry loop and endpoints (\<open>transport/kdrive_bridge.rs\<close>), the offline queue
  (\<open>transport/offline.rs\<close>) and the request coalescer (\<open>transport/request_coalescer.rs\<close>).
  The host is a parameter: its clock, its HTTP client and its \<open>sleep\<close> act on a state
  of any type \<open>'h\<close>. Durations are nanoseconds. A Rust panic is \<open>None\<close>. The breaker is modelled as one
  caller sees it; the interleaving of several callers is modelled for the coalescer.
\<close>

section \<open>Data\<close>

datatype transport_error =
    Network ustr
  | Auth ustr
  | Server ustr
  | Kdrive ustr
  | TCustom ustr

type_synonym duration = nat

definition duration_limit :: nat where
  "duration_limit = 2 ^ 64 * 1000000000"

definition from_millis :: "nat \<Rightarrow> duration" where
  "from_millis ms = ms * 1000000"

definition from_secs :: "nat \<Rightarrow> duration" where
  "from_secs s = s * 1000000000"

text \<open>\<open>Duration * u32\<close> panics on overflow.\<close>

definition duration_mul :: "duration \<Rightarrow> nat \<Rightarrow> duration option" where
  "duration_mul d k = (if d * k < duration_limit then Some (d * k) else None)"

section \<open>Circuit breaker\<close>

datatype breaker_state = Closed | Open | HalfOpen

record breaker =
  br_failures :: u32
  br_threshold :: u32
  br_opened_ms :: u64
  br_recovery :: duration

definition breaker_new :: "u32 \<Rightarrow> breaker" where
  "breaker_new threshold =
     \<lparr>br_failures = 0, br_threshold = threshold, br_opened_ms = 0, br_recovery = from_secs 30\<rparr>"

definition with_recovery_timeout :: "duration \<Rightarrow> breaker \<Rightarrow> breaker" where
  "with_recovery_timeout timeout b = b\<lparr>br_recovery := timeout\<rparr>"

definition record_failure :: "u64 \<Rightarrow> breaker \<Rightarrow> breaker" where
  "record_failure now b =
     (let b1 = b\<lparr>br_failures := br_failures b + 1\<rparr> in
      if br_threshold b1 \<le> br_failures b1 then b1\<lparr>br_opened_ms := now\<rparr> else b1)"

definition record_success :: "breaker \<Rightarrow> breaker" where
  "record_success b = b\<lparr>br_failures := 0, br_opened_ms := 0\<rparr>"

text \<open>\<open>Duration::from_millis(now_ms.saturating_sub(opened_at))\<close>\<close>

definition elapsed :: "u64 \<Rightarrow> breaker \<Rightarrow> duration" where
  "elapsed now b = from_millis (unat now - unat (br_opened_ms b))"

definition is_open :: "u64 \<Rightarrow> breaker \<Rightarrow> bool" where
  "is_open now b =
     (if br_failures b < br_threshold b then False
      else if br_opened_ms b = 0 then True
      else elapsed now b < br_recovery b)"

definition allow_request :: "u64 \<Rightarrow> breaker \<Rightarrow> bool" where
  "allow_request now b \<longleftrightarrow> \<not> is_open now b"

definition breaker_state_at :: "u64 \<Rightarrow> breaker \<Rightarrow> breaker_state" where
  "breaker_state_at now b =
     (if br_failures b < br_threshold b then Closed
      else if br_opened_ms b = 0 then Open
      else if br_recovery b \<le> elapsed now b then HalfOpen
      else Open)"

section \<open>The HTTP bridge\<close>

datatype http_method = GET | POST

record http_request =
  rq_method :: http_method
  rq_url :: bytes
  rq_headers :: "(string \<times> bytes) list"
  rq_body :: "bytes option"

text \<open>A response carries its status and what reading its body gives.\<close>

datatype http_reply = Resp nat "ustr + bytes" | NetErr ustr

record 'h host =
  ho_now :: "'h \<Rightarrow> u64 \<times> 'h"
  ho_send :: "http_request \<Rightarrow> 'h \<Rightarrow> http_reply \<times> 'h"
  ho_sleep :: "duration \<Rightarrow> 'h \<Rightarrow> 'h"

record kdrive =
  kd_base_url :: bytes
  kd_token :: bytes
  kd_tenant :: bytes
  kd_user :: bytes
  kd_max_retries :: nat
  kd_base_delay :: duration

definition kdrive_new :: "bytes \<Rightarrow> bytes \<Rightarrow> bytes \<Rightarrow> bytes \<Rightarrow> kdrive \<times> breaker" where
  "kdrive_new base token tenant user =
     (\<lparr>kd_base_url = base, kd_token = token, kd_tenant = tenant, kd_user = user,
       kd_max_retries = 3, kd_base_delay = from_millis 100\<rparr>,
      with_recovery_timeout (from_secs 30) (breaker_new 5))"

definition max_retry_delay :: duration where
  "max_retry_delay = from_secs 30"

definition is_success :: "nat \<Rightarrow> bool" where
  "is_success status \<longleftrightarrow> 200 \<le> status \<and> status < 300"

definition is_retryable_status :: "nat \<Rightarrow> bool" where
  "is_retryable_status status \<longleftrightarrow> status = 429 \<or> 500 \<le> status"

text \<open>\<open>show_status\<close> renders a status code with its reason phrase; \<open>0x2014\<close> is the dash of the messages.\<close>

definition http_text :: "(nat \<Rightarrow> ustr) \<Rightarrow> nat \<Rightarrow> string \<Rightarrow> ustr" where
  "http_text show_status status what = lit ''HTTP '' @ show_status status @ [0x20, 0x2014, 0x20] @ lit what"

definition map_http_error :: "(nat \<Rightarrow> ustr) \<Rightarrow> nat \<Rightarrow> transport_error" where
  "map_http_error show_status status =
     (if status = 401 \<or> status = 403 then Auth (http_text show_status status ''authentication failed'')
      else if status = 404 then Server (http_text show_status status ''not found'')
      else if status = 429 then Server (http_text show_status status ''rate limited'')
      else if 500 \<le> status then Server (http_text show_status status ''server error'')
      else if 400 \<le> status then Server (http_text show_status status ''client error'')
      else Server (lit ''HTTP '' @ show_status status))"

definition add_headers :: "kdrive \<Rightarrow> http_request \<Rightarrow> http_request" where
  "add_headers k rq = rq\<lparr>rq_headers := rq_headers rq @
     [(''Authorization'', str_bytes ''Bearer '' @ kd_token k), (''X-Tenant-Id'', kd_tenant k),
      (''X-User-Id'', kd_user k), (''Content-Type'', str_bytes ''application/octet-stream'')]\<rparr>"

definition saturating_pow2 :: "nat \<Rightarrow> nat" where
  "saturating_pow2 n = min (2 ^ n) (2 ^ 32 - 1)"

definition retry_delay :: "kdrive \<Rightarrow> nat \<Rightarrow> duration option" where
  "retry_delay k attempt =
     map_option (\<lambda>d. min d max_retry_delay) (duration_mul (kd_base_delay k) (saturating_pow2 attempt))"

type_synonym ('h, 'a) http_outcome = "((transport_error + 'a) \<times> breaker \<times> 'h) option"

text \<open>
  \<open>allow_request\<close> and \<open>record_failure\<close> read the clock only in some states; an unread clock value
  does not matter, so the model reads it every time.
\<close>

definition breaker_open_error :: transport_error where
  "breaker_open_error = Server (lit ''circuit breaker open '' @ [0x2014] @ lit '' gateway unavailable'')"

text \<open>The loop \<open>for attempt in 0..=max_retries\<close>, with the number of iterations left.\<close>

fun send_loop ::
  "(nat \<Rightarrow> ustr) \<Rightarrow> 'h host \<Rightarrow> kdrive \<Rightarrow> http_request \<Rightarrow> nat \<Rightarrow> nat \<Rightarrow> transport_error \<Rightarrow> breaker \<Rightarrow> 'h \<Rightarrow>
     ('h, ustr + bytes) http_outcome" where
  "send_loop show_status io k rq 0 attempt last_err b h = Some (Inl last_err, b, h)"
| "send_loop show_status io k rq (Suc left) attempt last_err b h =
     (case ho_now io h of (now1, h1) \<Rightarrow>
      if \<not> allow_request now1 b then Some (Inl breaker_open_error, b, h1)
      else case ho_send io (add_headers k rq) h1 of
        (Resp status body, h2) \<Rightarrow>
          if is_success status then Some (Inr body, record_success b, h2)
          else let err = map_http_error show_status status in
            (case ho_now io h2 of (now2, h3) \<Rightarrow>
             let b2 = record_failure now2 b in
             if is_retryable_status status \<and> attempt < kd_max_retries k
             then Option.bind (retry_delay k attempt) (\<lambda>d.
                    send_loop show_status io k rq left (attempt + 1) err b2 (ho_sleep io d h3))
             else Some (Inl err, b2, h3))
      | (NetErr e, h2) \<Rightarrow>
          (case ho_now io h2 of (now2, h3) \<Rightarrow>
           let b2 = record_failure now2 b in
           if attempt < kd_max_retries k
           then Option.bind (retry_delay k attempt) (\<lambda>d.
                  send_loop show_status io k rq left (attempt + 1) (Network e) b2 (ho_sleep io d h3))
           else Some (Inl (Network e), b2, h3)))"

definition send_with_retry ::
  "(nat \<Rightarrow> ustr) \<Rightarrow> 'h host \<Rightarrow> kdrive \<Rightarrow> http_request \<Rightarrow> breaker \<Rightarrow> 'h \<Rightarrow> ('h, ustr + bytes) http_outcome" where
  "send_with_retry show_status io k rq b h =
     send_loop show_status io k rq (kd_max_retries k + 1) 0 (TCustom (lit ''no attempts made'')) b h"

text \<open>What the endpoints do with a response: nothing, its bytes, or its JSON.\<close>

definition on_response ::
  "(ustr + bytes \<Rightarrow> transport_error + 'a) \<Rightarrow> ('h, ustr + bytes) http_outcome \<Rightarrow> ('h, 'a) http_outcome" where
  "on_response f = map_option (\<lambda>(r, b, h). (case r of Inl e \<Rightarrow> Inl e | Inr body \<Rightarrow> f body, b, h))"

definition get_bytes :: "ustr + bytes \<Rightarrow> transport_error + bytes" where
  "get_bytes body = (case body of Inl e \<Rightarrow> Inl (Network e) | Inr bs \<Rightarrow> Inr bs)"

definition get_json :: "(bytes \<Rightarrow> ustr + 'a) \<Rightarrow> ustr + bytes \<Rightarrow> transport_error + 'a" where
  "get_json decode body =
     (case (case body of Inl e \<Rightarrow> Inl e | Inr bs \<Rightarrow> decode bs) of
        Inl e \<Rightarrow> Inl (Network (lit ''decode: '' @ e))
      | Inr a \<Rightarrow> Inr a)"

definition get_request :: "kdrive \<Rightarrow> bytes \<Rightarrow> http_request" where
  "get_request k url = \<lparr>rq_method = GET, rq_url = kd_base_url k @ url, rq_headers = [], rq_body = None\<rparr>"

definition json_request :: "kdrive \<Rightarrow> bytes \<Rightarrow> http_request" where
  "json_request k url = (get_request k url)\<lparr>rq_headers := [(''Accept'', str_bytes ''application/json'')]\<rparr>"

definition post_request :: "kdrive \<Rightarrow> bytes \<Rightarrow> bytes \<Rightarrow> http_request" where
  "post_request k url body =
     \<lparr>rq_method = POST, rq_url = kd_base_url k @ url, rq_headers = [], rq_body = Some body\<rparr>"

record raw_delivery_message =
  rd_id :: string
  rd_conv :: string
  rd_sender :: string
  rd_created_ms :: int
  rd_text :: "ustr option"
  rd_media :: "media_descriptor list"
  rd_reply_to :: "string option"

record fetch_result =
  fr_messages :: "raw_delivery_message list"
  fr_cursor :: "bytes option"

definition messages_url :: "bytes \<Rightarrow> bytes option \<Rightarrow> bytes" where
  "messages_url conv cursor =
     str_bytes ''/v1/chat/messages/'' @ conv
     @ (case cursor of None \<Rightarrow> [] | Some c \<Rightarrow> str_bytes ''?after='' @ url_encode c)"

definition kd_fetch_messages ::
  "(nat \<Rightarrow> ustr) \<Rightarrow> 'h host \<Rightarrow> (bytes \<Rightarrow> ustr + fetch_result) \<Rightarrow> kdrive \<Rightarrow> bytes \<Rightarrow> bytes option \<Rightarrow>
     breaker \<Rightarrow> 'h \<Rightarrow> ('h, fetch_result) http_outcome" where
  "kd_fetch_messages show_status io decode k conv cursor b h =
     on_response (get_json decode)
       (send_with_retry show_status io k (json_request k (messages_url conv cursor)) b h)"

text \<open>The uploads post to a path and return the identifier they were given, the downloads get a path.\<close>

definition kd_upload ::
  "(nat \<Rightarrow> ustr) \<Rightarrow> 'h host \<Rightarrow> kdrive \<Rightarrow> string \<Rightarrow> bytes \<Rightarrow> bytes \<Rightarrow> breaker \<Rightarrow> 'h \<Rightarrow> ('h, bytes) http_outcome" where
  "kd_upload show_status io k path ident payload b h =
     on_response (\<lambda>_. Inr ident)
       (send_with_retry show_status io k (post_request k (str_bytes path @ ident) payload) b h)"

definition kd_download ::
  "(nat \<Rightarrow> ustr) \<Rightarrow> 'h host \<Rightarrow> kdrive \<Rightarrow> string \<Rightarrow> bytes \<Rightarrow> breaker \<Rightarrow> 'h \<Rightarrow> ('h, bytes) http_outcome" where
  "kd_download show_status io k path ident b h =
     on_response get_bytes (send_with_retry show_status io k (get_request k (str_bytes path @ ident)) b h)"

definition kd_manifests ::
  "(nat \<Rightarrow> ustr) \<Rightarrow> 'h host \<Rightarrow> (bytes \<Rightarrow> ustr + bytes list) \<Rightarrow> kdrive \<Rightarrow> string \<Rightarrow> nat \<Rightarrow> breaker \<Rightarrow> 'h \<Rightarrow>
     ('h, bytes list) http_outcome" where
  "kd_manifests show_status io decode k path after b h =
     on_response (get_json decode)
       (send_with_retry show_status io k (json_request k (str_bytes (path @ ''?after='' @ dec_nat after))) b h)"

text \<open>The endpoints of \<open>ChatStorageTransport\<close>.\<close>

definition kd_upload_archive_segment ::
  "(nat \<Rightarrow> ustr) \<Rightarrow> 'h host \<Rightarrow> kdrive \<Rightarrow> bytes \<Rightarrow> bytes \<Rightarrow> breaker \<Rightarrow> 'h \<Rightarrow> ('h, bytes) http_outcome" where
  "kd_upload_archive_segment ss io k ident payload = kd_upload ss io k ''/v1/chat/archive/segments/'' ident payload"

definition kd_download_archive_segment ::
  "(nat \<Rightarrow> ustr) \<Rightarrow> 'h host \<Rightarrow> kdrive \<Rightarrow> bytes \<Rightarrow> breaker \<Rightarrow> 'h \<Rightarrow> ('h, bytes) http_outcome" where
  "kd_download_archive_segment ss io k ident = kd_download ss io k ''/v1/chat/archive/segments/'' ident"

definition kd_fetch_archive_manifests ::
  "(nat \<Rightarrow> ustr) \<Rightarrow> 'h host \<Rightarrow> (bytes \<Rightarrow> ustr + bytes list) \<Rightarrow> kdrive \<Rightarrow> nat \<Rightarrow> breaker \<Rightarrow> 'h \<Rightarrow>
     ('h, bytes list) http_outcome" where
  "kd_fetch_archive_manifests ss io decode k after = kd_manifests ss io decode k ''/v1/chat/archive/manifests'' after"

definition kd_upload_archive_manifest ::
  "(nat \<Rightarrow> ustr) \<Rightarrow> 'h host \<Rightarrow> kdrive \<Rightarrow> bytes \<Rightarrow> breaker \<Rightarrow> 'h \<Rightarrow> ('h, unit) http_outcome" where
  "kd_upload_archive_manifest ss io k manifest b h = on_response (\<lambda>_. Inr ())
     (send_with_retry ss io k (post_request k (str_bytes ''/v1/chat/archive/manifests'') manifest) b h)"

definition kd_upload_search_shard ::
  "(nat \<Rightarrow> ustr) \<Rightarrow> 'h host \<Rightarrow> kdrive \<Rightarrow> bytes \<Rightarrow> bytes \<Rightarrow> breaker \<Rightarrow> 'h \<Rightarrow> ('h, unit) http_outcome" where
  "kd_upload_search_shard ss io k key payload b h = on_response (\<lambda>_. Inr ())
     (send_with_retry ss io k (post_request k (str_bytes ''/v1/chat/search/shards/'' @ key) payload) b h)"

definition kd_download_search_shard ::
  "(nat \<Rightarrow> ustr) \<Rightarrow> 'h host \<Rightarrow> kdrive \<Rightarrow> bytes \<Rightarrow> breaker \<Rightarrow> 'h \<Rightarrow> ('h, bytes) http_outcome" where
  "kd_download_search_shard ss io k key = kd_download ss io k ''/v1/chat/search/shards/'' key"

definition kd_upload_backup_manifest ::
  "(nat \<Rightarrow> ustr) \<Rightarrow> 'h host \<Rightarrow> kdrive \<Rightarrow> bytes \<Rightarrow> breaker \<Rightarrow> 'h \<Rightarrow> ('h, unit) http_outcome" where
  "kd_upload_backup_manifest ss io k manifest b h = on_response (\<lambda>_. Inr ())
     (send_with_retry ss io k (post_request k (str_bytes ''/v1/chat/backup/manifests'') manifest) b h)"

definition kd_fetch_backup_manifests ::
  "(nat \<Rightarrow> ustr) \<Rightarrow> 'h host \<Rightarrow> (bytes \<Rightarrow> ustr + bytes list) \<Rightarrow> kdrive \<Rightarrow> nat \<Rightarrow> breaker \<Rightarrow> 'h \<Rightarrow>
     ('h, bytes list) http_outcome" where
  "kd_fetch_backup_manifests ss io decode k after = kd_manifests ss io decode k ''/v1/chat/backup/manifests'' after"

definition kd_upload_media_blob ::
  "(nat \<Rightarrow> ustr) \<Rightarrow> 'h host \<Rightarrow> kdrive \<Rightarrow> bytes \<Rightarrow> bytes \<Rightarrow> breaker \<Rightarrow> 'h \<Rightarrow> ('h, bytes) http_outcome" where
  "kd_upload_media_blob ss io k blob payload = kd_upload ss io k ''/v1/chat/media/'' blob payload"

definition kd_download_media_blob ::
  "(nat \<Rightarrow> ustr) \<Rightarrow> 'h host \<Rightarrow> kdrive \<Rightarrow> bytes \<Rightarrow> breaker \<Rightarrow> 'h \<Rightarrow> ('h, bytes) http_outcome" where
  "kd_download_media_blob ss io k blob = kd_download ss io k ''/v1/chat/media/'' blob"

definition kd_download_backup_segment ::
  "(nat \<Rightarrow> ustr) \<Rightarrow> 'h host \<Rightarrow> kdrive \<Rightarrow> bytes \<Rightarrow> breaker \<Rightarrow> 'h \<Rightarrow> ('h, bytes) http_outcome" where
  "kd_download_backup_segment ss io k ident = kd_download ss io k ''/v1/chat/backup/segment/'' ident"

section \<open>Offline queue and request coalescer\<close>

record pending_operation =
  po_type :: string
  po_payload :: bytes
  po_created_ms :: int

type_synonym offline_queue = "pending_operation list"

definition oq_enqueue :: "pending_operation \<Rightarrow> offline_queue \<Rightarrow> offline_queue" where
  "oq_enqueue op q = q @ [op]"

definition oq_drain :: "offline_queue \<Rightarrow> pending_operation list \<times> offline_queue" where
  "oq_drain q = (q, [])"

text \<open>The keys of \<open>HashMap<String, ()>\<close>; each call holds the lock while it runs.\<close>

definition try_acquire :: "string \<Rightarrow> string set \<Rightarrow> bool \<times> string set" where
  "try_acquire key in_flight = (if key \<in> in_flight then (False, in_flight) else (True, insert key in_flight))"

definition coalescer_release :: "string \<Rightarrow> string set \<Rightarrow> string set" where
  "coalescer_release key in_flight = in_flight - {key}"

section \<open>The retry loop, traced\<close>

text \<open>A host that also records what was exchanged and how long the caller slept.\<close>

datatype transport_event = Exchange http_request http_reply | Slept duration

definition traced :: "'h host \<Rightarrow> ('h \<times> transport_event list) host" where
  "traced io =
     \<lparr>ho_now = (\<lambda>(h, l). case ho_now io h of (t, h') \<Rightarrow> (t, h', l)),
      ho_send = (\<lambda>rq (h, l). case ho_send io rq h of (r, h') \<Rightarrow> (r, h', l @ [Exchange rq r])),
      ho_sleep = (\<lambda>d (h, l). (ho_sleep io d h, l @ [Slept d]))\<rparr>"

definition backoff :: "kdrive \<Rightarrow> nat \<Rightarrow> duration" where
  "backoff k i = min (kd_base_delay k * saturating_pow2 i) max_retry_delay"

definition transient :: "http_reply \<Rightarrow> bool" where
  "transient r = (case r of Resp st _ \<Rightarrow> is_retryable_status st | NetErr _ \<Rightarrow> True)"

definition verdict :: "(nat \<Rightarrow> ustr) \<Rightarrow> http_reply \<Rightarrow> transport_error + (ustr + bytes)" where
  "verdict ss r = (case r of
     Resp st body \<Rightarrow> if is_success st then Inr body else Inl (map_http_error ss st)
   | NetErr e \<Rightarrow> Inl (Network e))"

text \<open>The log of failed attempts \<open>i\<close>, \<open>i + 1\<close>, \dots with the given replies, each followed by its delay.\<close>

fun failed_attempts :: "kdrive \<Rightarrow> http_request \<Rightarrow> nat \<Rightarrow> http_reply list \<Rightarrow> transport_event list" where
  "failed_attempts k rq i [] = []"
| "failed_attempts k rq i (r # rs) = Exchange rq r # Slept (backoff k i) # failed_attempts k rq (i + 1) rs"

definition retry_run ::
  "(nat \<Rightarrow> ustr) \<Rightarrow> kdrive \<Rightarrow> http_request \<Rightarrow> nat \<Rightarrow> transport_event list \<Rightarrow> transport_error + (ustr + bytes) \<Rightarrow> bool" where
  "retry_run ss k rq i log res \<longleftrightarrow>
     (\<exists>rs. list_all transient rs \<and> i + length rs \<le> kd_max_retries k \<and>
        (log = failed_attempts k rq i rs \<and> res = Inl breaker_open_error
         \<or> (\<exists>r. log = failed_attempts k rq i rs @ [Exchange rq r] \<and> res = verdict ss r
              \<and> (transient r \<longrightarrow> i + length rs = kd_max_retries k))))"

lemma success_not_retryable: "is_success st \<Longrightarrow> \<not> is_retryable_status st"
  by (auto simp: is_success_def is_retryable_status_def)

lemma retry_delay_backoff:
  "kd_base_delay k * (2 ^ 32 - 1) < duration_limit \<Longrightarrow> retry_delay k i = Some (backoff k i)"
proof -
  assume b: "kd_base_delay k * (2 ^ 32 - 1) < duration_limit"
  have "kd_base_delay k * saturating_pow2 i \<le> kd_base_delay k * (2 ^ 32 - 1)"
    by (intro mult_le_mono2) (simp add: saturating_pow2_def)
  then have "kd_base_delay k * saturating_pow2 i < duration_limit" using b by (rule order.strict_trans1)
  then show ?thesis by (simp add: retry_delay_def duration_mul_def backoff_def)
qed

lemma retry_run_more:
  "retry_run ss k rq (i + 1) log res \<Longrightarrow> transient r \<Longrightarrow>
     retry_run ss k rq i (Exchange rq r # Slept (backoff k i) # log) res"
proof -
  assume tr: "transient r" and "retry_run ss k rq (i + 1) log res"
  then obtain rs where "list_all transient rs" "i + 1 + length rs \<le> kd_max_retries k"
    "log = failed_attempts k rq (i + 1) rs \<and> res = Inl breaker_open_error
     \<or> (\<exists>r. log = failed_attempts k rq (i + 1) rs @ [Exchange rq r] \<and> res = verdict ss r
          \<and> (transient r \<longrightarrow> i + 1 + length rs = kd_max_retries k))"
    unfolding retry_run_def by blast
  with tr show ?thesis unfolding retry_run_def by (intro exI [of _ "r # rs"]) auto
qed

lemma retry_run_last:
  "i \<le> kd_max_retries k \<Longrightarrow> (transient r \<Longrightarrow> i = kd_max_retries k) \<Longrightarrow>
     retry_run ss k rq i [Exchange rq r] (verdict ss r)"
  unfolding retry_run_def by (intro exI [of _ "[]"]) auto

lemma send_loop_traced:
  assumes b: "kd_base_delay k * (2 ^ 32 - 1) < duration_limit"
  shows "left + i = kd_max_retries k + 1 \<Longrightarrow> 0 < left \<Longrightarrow>
    \<exists>res b' h' log. send_loop ss (traced io) k rq left i last_err br (h, l) = Some (res, b', h', l @ log)
      \<and> retry_run ss k (add_headers k rq) i log res \<and> (is_ok res \<longrightarrow> b' = record_success b')"
proof (induction left arbitrary: i last_err br h l)
  case (Suc left)
  let ?q = "add_headers k rq"
  from Suc.prems have i: "i \<le> kd_max_retries k" by simp
  obtain t1 h1 where n1: "ho_now io h = (t1, h1)" by (cases "ho_now io h")
  obtain r h2 where sd: "ho_send io ?q h1 = (r, h2)" by (cases "ho_send io ?q h1")
  obtain t2 h3 where n2: "ho_now io h2 = (t2, h3)" by (cases "ho_now io h2")
  have io: "ho_now (traced io) (h, l) = (t1, h1, l)" "ho_send (traced io) ?q (h1, l) = (r, h2, l @ [Exchange ?q r])"
    "ho_now (traced io) (h2, l') = (t2, h3, l')" "ho_sleep (traced io) d (h3, l') = (ho_sleep io d h3, l' @ [Slept d])"
    for l' d by (simp_all add: traced_def n1 sd n2)
  show ?case
  proof (cases "allow_request t1 br")
    case False
    moreover have "retry_run ss k ?q i [] (Inl breaker_open_error)"
      unfolding retry_run_def using i by (intro exI [of _ "[]"]) simp
    ultimately show ?thesis by (simp add: io)
  next
    case True
    show ?thesis
    proof (cases "transient r \<and> i < kd_max_retries k")
      case False
      then have "retry_run ss k ?q i [Exchange ?q r] (verdict ss r)"
        using i by (intro retry_run_last) auto
      with True False show ?thesis
        by (cases r) (auto simp: io transient_def verdict_def Let_def record_success_def)
    next
      case again: True
      define err where "err = (case r of Resp st _ \<Rightarrow> map_http_error ss st | NetErr e \<Rightarrow> Network e)"
      from again have "\<not> (\<exists>st body. r = Resp st body \<and> is_success st)"
        by (auto simp: transient_def dest: success_not_retryable)
      with again True retry_delay_backoff [OF b, of i]
      have step: "send_loop ss (traced io) k rq (Suc left) i last_err br (h, l)
        = send_loop ss (traced io) k rq left (i + 1) err (record_failure t2 br)
            (ho_sleep io (backoff k i) h3, l @ [Exchange ?q r, Slept (backoff k i)])"
        by (cases r) (auto simp: io transient_def err_def Let_def)
      from Suc.prems again have "left + (i + 1) = kd_max_retries k + 1" "0 < left" by auto
      from Suc.IH [OF this, of err "record_failure t2 br" "ho_sleep io (backoff k i) h3"
          "l @ [Exchange ?q r, Slept (backoff k i)]"]
      obtain res b' h' log where
        "send_loop ss (traced io) k rq (Suc left) i last_err br (h, l)
           = Some (res, b', h', l @ Exchange ?q r # Slept (backoff k i) # log)"
        and run: "retry_run ss k ?q (i + 1) log res" and ok: "is_ok res \<longrightarrow> b' = record_success b'"
        unfolding step by auto
      moreover from run again have "retry_run ss k ?q i (Exchange ?q r # Slept (backoff k i) # log) res"
        by (intro retry_run_more) auto
      ultimately show ?thesis by blast
    qed
  qed
qed simp

section \<open>Breaker, coalescer and queue\<close>

lemma record_failure_simps [simp]:
  "br_failures (record_failure t b) = br_failures b + 1"
  "br_threshold (record_failure t b) = br_threshold b"
  "br_recovery (record_failure t b) = br_recovery b"
  "br_opened_ms (record_failure t b) = (if br_threshold b \<le> br_failures b + 1 then t else br_opened_ms b)"
  by (simp_all add: record_failure_def Let_def)

lemma failures_fold:
  "br_failures (fold record_failure ts b) = br_failures b + word_of_nat (length ts)"
  "br_threshold (fold record_failure ts b) = br_threshold b"
  "br_recovery (fold record_failure ts b) = br_recovery b"
  by (induction ts arbitrary: b) (simp_all add: algebra_simps)

lemma opened_fold:
  assumes "br_failures b = 0" and "length ts < 2 ^ 32" and "ts \<noteq> []" and "unat (br_threshold b) \<le> length ts"
  shows "br_opened_ms (fold record_failure ts b) = last ts"
proof -
  from assms(3) obtain us t where ts: "ts = us @ [t]" by (cases ts rule: rev_cases) auto
  have "br_threshold b \<le> word_of_nat (length us) + 1"
  proof -
    have "(word_of_nat (length us) + 1 :: u32) = word_of_nat (length ts)" by (simp add: ts)
    moreover have "unat (word_of_nat (length ts) :: u32) = length ts"
      using assms(2) by (simp add: unat_of_nat take_bit_nat_eq_self)
    ultimately show ?thesis using assms(4) by (simp add: word_le_nat_alt)
  qed
  then show ?thesis by (simp add: ts failures_fold assms(1))
qed

datatype queue_op = Enqueue pending_operation | Drain

primrec run_queue :: "queue_op list \<Rightarrow> offline_queue \<Rightarrow> pending_operation list list \<times> offline_queue" where
  "run_queue [] q = ([], q)"
| "run_queue (op # ops) q =
     (case op of
        Enqueue p \<Rightarrow> run_queue ops (oq_enqueue p q)
      | Drain \<Rightarrow> (case oq_drain q of (out, q') \<Rightarrow>
          case run_queue ops q' of (outs, q'') \<Rightarrow> (out # outs, q'')))"

primrec enqueued :: "queue_op list \<Rightarrow> pending_operation list" where
  "enqueued [] = []"
| "enqueued (op # ops) = (case op of Enqueue p \<Rightarrow> p # enqueued ops | Drain \<Rightarrow> enqueued ops)"

lemma run_queue_fifo: "concat (fst (run_queue ops q)) @ snd (run_queue ops q) = q @ enqueued ops"
proof (induction ops arbitrary: q)
  case (Cons op ops)
  show ?case
    using Cons [of "[]"] Cons [of "q @ [p]" for p]
    by (cases op; cases "run_queue ops []") (simp_all add: oq_enqueue_def oq_drain_def)
qed simp

text \<open>
  Clients of the coalescer: a client whose \<open>try_acquire\<close> succeeds holds the key until it releases it,
  in any interleaving; the state is the list of holders and the map of the coalescer.
\<close>

inductive coalesced :: "(nat \<times> string) list \<Rightarrow> string set \<Rightarrow> bool" where
  start: "coalesced [] {}"
| acquired: "coalesced hs m \<Longrightarrow> try_acquire k m = (True, m') \<Longrightarrow> coalesced ((c, k) # hs) m'"
| refused: "coalesced hs m \<Longrightarrow> try_acquire k m = (False, m') \<Longrightarrow> coalesced hs m'"
| released: "coalesced (xs @ (c, k) # ys) m \<Longrightarrow> coalesced (xs @ ys) (coalescer_release k m)"

lemma coalesced_inv: "coalesced hs m \<Longrightarrow> distinct (map snd hs) \<and> m = snd ` set hs"
proof (induction rule: coalesced.induct)
  case (released xs c k ys m)
  then show ?case by (auto simp: coalescer_release_def)
qed (auto simp: try_acquire_def split: if_splits)

definition not_found_host :: "unit host" where
  "not_found_host = \<lparr>ho_now = (\<lambda>h. (1000, h)), ho_send = (\<lambda>_ h. (Resp 404 (Inr []), h)), ho_sleep = (\<lambda>_ h. h)\<rparr>"

text \<open>The breaker of a fresh transport after \<open>n\<close> downloads of media blobs that do not exist.\<close>

primrec after_missing_blobs :: "nat \<Rightarrow> breaker" where
  "after_missing_blobs 0 = snd (kdrive_new [] [] [] [])"
| "after_missing_blobs (Suc n) =
     (case kd_download_media_blob (\<lambda>_. []) not_found_host (fst (kdrive_new [] [] [] [])) [] (after_missing_blobs n) () of
        Some (_, b, _) \<Rightarrow> b | None \<Rightarrow> after_missing_blobs n)"

lemma missing_blob_step:
  "br_failures (after_missing_blobs n) < br_threshold (after_missing_blobs n) \<Longrightarrow>
     after_missing_blobs (Suc n) = record_failure 1000 (after_missing_blobs n)"
  by (simp add: kd_download_media_blob_def kd_download_def on_response_def send_with_retry_def not_found_host_def
      allow_request_def is_open_def is_success_def is_retryable_status_def Let_def split: sum.splits)

declare after_missing_blobs.simps(2) [simp del]

lemma missing_blobs:
  "n \<le> 5 \<Longrightarrow> after_missing_blobs n = \<lparr>br_failures = word_of_nat n, br_threshold = 5,
     br_opened_ms = (if n = 5 then 1000 else 0), br_recovery = from_secs 30\<rparr>"
proof (induction n)
  case 0
  then show ?case by (simp add: kdrive_new_def breaker_new_def with_recovery_timeout_def)
next
  case (Suc n)
  then have n: "n \<le> 4" and IH: "after_missing_blobs n = \<lparr>br_failures = word_of_nat n, br_threshold = 5,
     br_opened_ms = 0, br_recovery = from_secs 30\<rparr>" by auto
  from n consider "n = 0" | "n = 1" | "n = 2" | "n = 3" | "n = 4" by linarith
  then show ?case
    by cases (use IH missing_blob_step [of n] in \<open>simp_all add: record_failure_def Let_def word_le_nat_alt\<close>)
qed

section \<open>Properties\<close>

text \<open>
  C17: the retry loop always ends, and does what the retry protocol says: at most \<open>max_retries\<close> attempts fail
  with a transient reply (network error, 429, 5xx), attempt \<open>i\<close> being followed by a delay of
  \<open>min(base * 2^i, 30 s)\<close>; then either the breaker refuses, or one last reply decides: a success
  gives its body and leaves the breaker reset, a permanent error (or a transient one when
  the retries are used up) is mapped to its transport error. Nothing is sent after that, and every request
  carries the authentication headers.
\<close>

theorem retry_protocol:
  assumes "kd_base_delay k * (2 ^ 32 - 1) < duration_limit"
  shows "\<exists>res b' h' log. send_with_retry ss (traced io) k rq b (h, []) = Some (res, b', h', log)
    \<and> retry_run ss k (add_headers k rq) 0 log res
    \<and> (case res of Inr _ \<Rightarrow> br_failures b' = 0 \<and> br_opened_ms b' = 0 | Inl _ \<Rightarrow> True)"
proof -
  from send_loop_traced [OF assms, of "kd_max_retries k + 1" 0 ss io rq "TCustom (lit ''no attempts made'')" b h "[]"]
  obtain res b' h' log where "send_with_retry ss (traced io) k rq b (h, []) = Some (res, b', h', log)"
    "retry_run ss k (add_headers k rq) 0 log res" "is_ok res \<longrightarrow> b' = record_success b'"
    by (auto simp: send_with_retry_def)
  moreover have "b' = record_success b' \<Longrightarrow> br_failures b' = 0 \<and> br_opened_ms b' = 0"
    by (cases b') (simp add: record_success_def)
  ultimately show ?thesis by (cases res) auto
qed

theorem retry_protocol_witness:
  "\<exists>res b' h' log. send_with_retry (\<lambda>_. []) (traced not_found_host) (fst (kdrive_new [] [] [] []))
      (get_request (fst (kdrive_new [] [] [] [])) []) (breaker_new 5) ((), []) = Some (res, b', h', log)"
proof -
  have "kd_base_delay (fst (kdrive_new [] [] [] [])) * (2 ^ 32 - 1) < duration_limit"
    by (simp add: kdrive_new_def from_millis_def duration_limit_def)
  from retry_protocol [OF this, of "\<lambda>_. []" not_found_host "get_request (fst (kdrive_new [] [] [] [])) []" "breaker_new 5" "()"]
  show ?thesis by blast
qed

text \<open>
  the breaker refuses requests exactly when it has seen its threshold of consecutive failures and the
  recovery time since the last one has not passed; a success closes it at once, and the state it
  reports agrees with what it allows.
\<close>

theorem breaker_trips:
  assumes "br_failures b = 0" and "0 < br_threshold b" and "length ts < 2 ^ 32" and "ts \<noteq> []" and "last ts \<noteq> 0"
  shows "(\<not> allow_request now (fold record_failure ts b) \<longleftrightarrow>
       unat (br_threshold b) \<le> length ts \<and> from_millis (unat now - unat (last ts)) < br_recovery b)
    \<and> breaker_state_at now (record_success (fold record_failure ts b)) = Closed
    \<and> (breaker_state_at now (fold record_failure ts b) = Open \<longleftrightarrow> \<not> allow_request now (fold record_failure ts b))"
proof -
  let ?b = "fold record_failure ts b"
  have "br_failures ?b < br_threshold ?b \<longleftrightarrow> length ts < unat (br_threshold b)"
    using assms(3) by (simp add: failures_fold assms(1) word_less_nat_alt unat_of_nat take_bit_nat_eq_self)
  moreover have "unat (br_threshold b) \<le> length ts \<Longrightarrow> br_opened_ms ?b = last ts"
    by (rule opened_fold) (use assms in auto)
  ultimately have "\<not> allow_request now ?b \<longleftrightarrow>
      unat (br_threshold b) \<le> length ts \<and> from_millis (unat now - unat (last ts)) < br_recovery b"
    using assms(5) by (auto simp: allow_request_def is_open_def elapsed_def failures_fold)
  moreover have "breaker_state_at now (record_success ?b) = Closed"
    using assms(2) by (simp add: breaker_state_at_def record_success_def failures_fold)
  moreover have "breaker_state_at now ?b = Open \<longleftrightarrow> \<not> allow_request now ?b"
    by (auto simp: breaker_state_at_def allow_request_def is_open_def)
  ultimately show ?thesis by blast
qed

theorem breaker_trips_witness:
  "\<not> allow_request 2000 (fold record_failure [1000, 1001] (breaker_new 2))"
proof -
  have "from_millis (unat (2000 :: u64) - unat (1001 :: u64)) < br_recovery (breaker_new 2)"
    by (simp add: from_millis_def from_secs_def breaker_new_def)
  with breaker_trips [of "breaker_new 2" "[1000, 1001]" 2000] show ?thesis
    by (simp add: breaker_new_def)
qed

text \<open>
  when the clock reads zero (a clock before 1970 is read as 0) while the breaker trips, the breaker never lets a
  request through again, at any later time: the opening time 0 means ``no time''.
\<close>

theorem breaker_stuck_at_epoch:
  assumes "br_threshold b \<le> br_failures b + 1"
  shows "\<not> allow_request now (record_failure 0 b) \<and> breaker_state_at now (record_failure 0 b) = Open"
  using assms by (auto simp: allow_request_def is_open_def breaker_state_at_def)

theorem breaker_stuck_at_epoch_witness:
  "\<not> allow_request 100000000 (record_failure 0 (breaker_new 1))"
  using breaker_stuck_at_epoch [of "breaker_new 1"] by (simp add: breaker_new_def)

text \<open>
  permanent client errors count as failures of the gateway: after five downloads of blobs that do not exist,
  each answered by the gateway with 404, the transport refuses the next request.
\<close>

theorem client_errors_trip_breaker:
  "allow_request 1000 (after_missing_blobs 4) \<and> \<not> allow_request 1000 (after_missing_blobs 5)
   \<and> kd_download_media_blob (\<lambda>_. []) not_found_host (fst (kdrive_new [] [] [] [])) [] (after_missing_blobs 5) ()
       = Some (Inl breaker_open_error, after_missing_blobs 5, ())"
  by (simp add: missing_blobs allow_request_def is_open_def elapsed_def from_millis_def from_secs_def
      kd_download_media_blob_def kd_download_def on_response_def send_with_retry_def not_found_host_def
      send_loop.simps(2) [of _ _ _ _ "kd_max_retries k" for k])

text \<open>
  coalescing excludes: in every interleaving of clients that release only what they acquired, no key
  is held twice, and a request for a key goes through exactly when nobody holds it.
\<close>

theorem coalescer_exclusive:
  assumes "coalesced hs m"
  shows "distinct (map snd hs) \<and> (fst (try_acquire k m) \<longleftrightarrow> k \<notin> snd ` set hs)"
  using coalesced_inv [OF assms] by (auto simp: try_acquire_def)

theorem coalescer_exclusive_witness:
  "\<not> fst (try_acquire ''a'' (insert ''a'' {}))"
proof -
  have "coalesced [(1, ''a'')] (insert ''a'' {})"
    by (rule coalesced.acquired [OF coalesced.start]) (simp add: try_acquire_def)
  from coalescer_exclusive [OF this, of "''a''"] show ?thesis by simp
qed

text \<open>
  the offline queue loses, duplicates and reorders nothing: what the drains return, in order, followed by
  what is still pending, is exactly what was enqueued.
\<close>

theorem offline_queue_fifo:
  "concat (fst (run_queue ops [])) @ snd (run_queue ops []) = enqueued ops"
  using run_queue_fifo [of ops "[]"] by simp

end
