(* ===== verification/KeyBridge.thy ===== *)
theory KeyBridge
  imports Cbor "HOL-Library.Sublist"
begin

text \<open>
  Key derivation: \<open>crypto/mod.rs\<close>, \<open>crypto/key_bridge.rs\<close>, \<open>crypto/key_wrap.rs\<close> and the hash wrappers of
  \<open>crypto/content_hash.rs\<close>. The primitives (HKDF-SHA256, AES-KW, XChaCha20-Poly1305, BLAKE3) are the
  crates the code calls; they are the fields of \<open>prims\<close>, a parameter of every definition. Keys, nonces and
  hashes are byte lists; that a \<open>[u8; 32]\<close> has 32 bytes is stated where it matters.
\<close>

section \<open>Errors and primitives\<close>

datatype crypto_error =
    Aead string
  | Kdf string
  | KeyWrap string
  | InvalidKeyLength nat nat
  | HashMismatch string string
  | KdriveCrypto string
  | InvalidInput string
  | Frame string
  | Signature string

text \<open>
  \<open>pr_hkdf salt ikm info n\<close> is extract-and-expand, \<open>pr_from_prk\<close> reports a pseudo-random key that is too
  short, \<open>pr_expand prk info n\<close> is expand alone; a \<open>string\<close> is the library's error text. Seal and open take
  key, nonce, text and associated data.
\<close>

record prims =
  pr_hkdf :: "bytes option \<Rightarrow> bytes \<Rightarrow> bytes \<Rightarrow> nat \<Rightarrow> string + bytes"
  pr_from_prk :: "bytes \<Rightarrow> string option"
  pr_expand :: "bytes \<Rightarrow> bytes \<Rightarrow> nat \<Rightarrow> string + bytes"
  pr_seal :: "bytes \<Rightarrow> bytes \<Rightarrow> bytes \<Rightarrow> bytes \<Rightarrow> bytes option"
  pr_open :: "bytes \<Rightarrow> bytes \<Rightarrow> bytes \<Rightarrow> bytes \<Rightarrow> bytes option"
  pr_wrap :: "bytes \<Rightarrow> bytes \<Rightarrow> bytes option"
  pr_unwrap :: "bytes \<Rightarrow> bytes \<Rightarrow> bytes option"
  pr_hash :: "bytes \<Rightarrow> bytes"

definition hkdf_derive :: "prims \<Rightarrow> bytes \<Rightarrow> bytes \<Rightarrow> crypto_error + bytes" where
  "hkdf_derive P ikm info =
     (case pr_hkdf P None ikm info 32 of
        Inl e \<Rightarrow> Inl (Kdf (''HKDF-SHA256 expand failed: '' @ e))
      | Inr okm \<Rightarrow> Inr okm)"

definition hkdf_expand :: "prims \<Rightarrow> bytes \<Rightarrow> bytes \<Rightarrow> crypto_error + bytes" where
  "hkdf_expand P prk info =
     (case pr_from_prk P prk of
        Some e \<Rightarrow> Inl (Kdf (''HKDF-SHA256 from_prk failed: '' @ e))
      | None \<Rightarrow>
          (case pr_expand P prk info 32 of
             Inl e \<Rightarrow> Inl (Kdf (''HKDF-SHA256 expand failed: '' @ e))
           | Inr okm \<Rightarrow> Inr okm))"

section \<open>Roots\<close>

definition derive_archive_root :: "prims \<Rightarrow> bytes \<Rightarrow> crypto_error + bytes" where
  "derive_archive_root P wrapping = hkdf_derive P wrapping (str_bytes ''chat-storage/archive-root/v1'')"

definition derive_backup_root :: "prims \<Rightarrow> bytes \<Rightarrow> crypto_error + bytes" where
  "derive_backup_root P wrapping = hkdf_derive P wrapping (str_bytes ''chat-storage/backup-root/v1'')"

definition derive_search_root :: "prims \<Rightarrow> bytes \<Rightarrow> crypto_error + bytes" where
  "derive_search_root P wrapping = hkdf_derive P wrapping (str_bytes ''chat-storage/search-root/v1'')"

definition derive_local_db_key :: "prims \<Rightarrow> bytes \<Rightarrow> crypto_error + bytes" where
  "derive_local_db_key P wrapping = hkdf_derive P wrapping (str_bytes ''chat-storage/local-db/v1'')"

definition derive_media_root :: "prims \<Rightarrow> bytes \<Rightarrow> crypto_error + bytes" where
  "derive_media_root P wrapping = hkdf_derive P wrapping (str_bytes ''chat-storage/media-root/v1'')"

definition derive_b2b_tenant_root :: "prims \<Rightarrow> bytes \<Rightarrow> bytes \<Rightarrow> crypto_error + bytes" where
  "derive_b2b_tenant_root P wrapping tenant =
     hkdf_derive P wrapping (str_bytes ''chat-storage/b2b-tenant-root/v1'' @ tenant)"

section \<open>Keys below a root\<close>

definition derive_media_blob :: "prims \<Rightarrow> bytes \<Rightarrow> bytes \<Rightarrow> crypto_error + bytes" where
  "derive_media_blob P root asset = hkdf_expand P root (str_bytes ''chat-storage/media-blob/v1'' @ asset)"

definition derive_archive_epoch :: "prims \<Rightarrow> bytes \<Rightarrow> u64 \<Rightarrow> crypto_error + bytes" where
  "derive_archive_epoch P root epoch =
     hkdf_expand P root (str_bytes ''chat-storage/archive-epoch/v1'' @ be_bytes 8 (unat epoch))"

definition derive_archive_segment :: "prims \<Rightarrow> bytes \<Rightarrow> bytes \<Rightarrow> crypto_error + bytes" where
  "derive_archive_segment P epoch_key segment =
     hkdf_expand P epoch_key (str_bytes ''chat-storage/archive-segment/v1'' @ segment)"

definition derive_archive_manifest :: "prims \<Rightarrow> bytes \<Rightarrow> bytes \<Rightarrow> crypto_error + bytes" where
  "derive_archive_manifest P epoch_key manifest =
     hkdf_expand P epoch_key (str_bytes ''chat-storage/archive-manifest/v1'' @ manifest)"

definition derive_backup_segment :: "prims \<Rightarrow> bytes \<Rightarrow> bytes \<Rightarrow> crypto_error + bytes" where
  "derive_backup_segment P root segment =
     hkdf_expand P root (str_bytes ''chat-storage/backup-segment/v1'' @ segment)"

definition derive_backup_manifest :: "prims \<Rightarrow> bytes \<Rightarrow> bytes \<Rightarrow> crypto_error + bytes" where
  "derive_backup_manifest P root manifest =
     hkdf_expand P root (str_bytes ''chat-storage/backup-manifest/v1'' @ manifest)"

definition derive_text_index_shard :: "prims \<Rightarrow> bytes \<Rightarrow> bytes \<Rightarrow> crypto_error + bytes" where
  "derive_text_index_shard P root shard =
     hkdf_expand P root (str_bytes ''chat-storage/text-index-shard/v1'' @ shard)"

definition derive_vector_index_shard :: "prims \<Rightarrow> bytes \<Rightarrow> bytes \<Rightarrow> crypto_error + bytes" where
  "derive_vector_index_shard P root shard =
     hkdf_expand P root (str_bytes ''chat-storage/vector-index-shard/v1'' @ shard)"

definition derive_media_index_shard :: "prims \<Rightarrow> bytes \<Rightarrow> bytes \<Rightarrow> crypto_error + bytes" where
  "derive_media_index_shard P root shard =
     hkdf_expand P root (str_bytes ''chat-storage/media-index-shard/v1'' @ shard)"

definition derive_fuzzy_index_shard :: "prims \<Rightarrow> bytes \<Rightarrow> bytes \<Rightarrow> crypto_error + bytes" where
  "derive_fuzzy_index_shard P root shard =
     hkdf_expand P root (str_bytes ''chat-storage/fuzzy-index-shard/v1'' @ shard)"

definition derive_bloom_index_shard :: "prims \<Rightarrow> bytes \<Rightarrow> bytes \<Rightarrow> crypto_error + bytes" where
  "derive_bloom_index_shard P root shard =
     hkdf_expand P root (str_bytes ''chat-storage/bloom-index-shard/v1'' @ shard)"

definition derive_conversation_hash_key :: "prims \<Rightarrow> bytes \<Rightarrow> crypto_error + bytes" where
  "derive_conversation_hash_key P root = hkdf_expand P root (str_bytes ''chat-storage/conversation-hash/v1'')"

text \<open>Two identifiers under one label: the first one is preceded by its length as a big-endian \<open>u32\<close>.\<close>

definition two_ids :: "bytes \<Rightarrow> bytes \<Rightarrow> bytes \<Rightarrow> bytes" where
  "two_ids label id_a id_b =
     (let id_a_len = (if length id_a < 2 ^ 32 then length id_a else 2 ^ 32 - 1)
      in label @ be_bytes 4 id_a_len @ id_a @ id_b)"

definition derive_with_two_ids :: "prims \<Rightarrow> bytes \<Rightarrow> bytes \<Rightarrow> bytes \<Rightarrow> bytes \<Rightarrow> crypto_error + bytes" where
  "derive_with_two_ids P parent label id_a id_b = hkdf_expand P parent (two_ids label id_a id_b)"

definition derive_text_index_shard_for_bucket :: "prims \<Rightarrow> bytes \<Rightarrow> bytes \<Rightarrow> bytes \<Rightarrow> crypto_error + bytes" where
  "derive_text_index_shard_for_bucket P root conv bucket =
     derive_with_two_ids P root (str_bytes ''chat-storage/text-index-bucket/v1'') conv bucket"

definition derive_fuzzy_index_shard_for_bucket :: "prims \<Rightarrow> bytes \<Rightarrow> bytes \<Rightarrow> bytes \<Rightarrow> crypto_error + bytes" where
  "derive_fuzzy_index_shard_for_bucket P root conv bucket =
     derive_with_two_ids P root (str_bytes ''chat-storage/fuzzy-index-bucket/v1'') conv bucket"

definition derive_b2b_archive_epoch :: "prims \<Rightarrow> bytes \<Rightarrow> bytes \<Rightarrow> bytes \<Rightarrow> crypto_error + bytes" where
  "derive_b2b_archive_epoch P tenant_root tenant epoch =
     derive_with_two_ids P tenant_root (str_bytes ''chat-storage/b2b-archive-epoch/v1'') tenant epoch"

definition derive_b2b_text_index_shard :: "prims \<Rightarrow> bytes \<Rightarrow> bytes \<Rightarrow> bytes \<Rightarrow> crypto_error + bytes" where
  "derive_b2b_text_index_shard P root tenant shard =
     derive_with_two_ids P root (str_bytes ''chat-storage/b2b-text-index-shard/v1'') tenant shard"

definition derive_archive_epoch_key :: "prims \<Rightarrow> bytes \<Rightarrow> string \<Rightarrow> crypto_error + bytes" where
  "derive_archive_epoch_key P root epoch_id =
     hkdf_expand P root (str_bytes ''chat-storage/archive-epoch/v1'' @ str_bytes epoch_id)"

definition derive_archive_segment_key :: "prims \<Rightarrow> bytes \<Rightarrow> string \<Rightarrow> crypto_error + bytes" where
  "derive_archive_segment_key P epoch_key segment =
     hkdf_expand P epoch_key (str_bytes ''chat-storage/archive-segment/v1'' @ str_bytes segment)"

definition derive_archive_manifest_key :: "prims \<Rightarrow> bytes \<Rightarrow> string \<Rightarrow> crypto_error + bytes" where
  "derive_archive_manifest_key P epoch_key manifest =
     hkdf_expand P epoch_key (str_bytes ''chat-storage/archive-manifest/v1'' @ str_bytes manifest)"

section \<open>Key wrapping and hashing\<close>

definition wrapped_key_len :: nat where
  "wrapped_key_len = 32 + 8"

definition wrap_key :: "prims \<Rightarrow> bytes \<Rightarrow> bytes \<Rightarrow> crypto_error + bytes" where
  "wrap_key P wrapping key =
     (case pr_wrap P wrapping key of None \<Rightarrow> Inl (KeyWrap ''aes-kw wrap failed'') | Some w \<Rightarrow> Inr w)"

definition unwrap_key :: "prims \<Rightarrow> bytes \<Rightarrow> bytes \<Rightarrow> crypto_error + bytes" where
  "unwrap_key P wrapping wrapped =
     (if length wrapped \<noteq> wrapped_key_len
      then Inl (InvalidInput ''aes-kw unwrap: wrapped key must be 40 bytes'')
      else case pr_unwrap P wrapping wrapped of
             None \<Rightarrow> Inl (KeyWrap ''aes-kw unwrap failed'')
           | Some k \<Rightarrow> Inr k)"

definition wrap_epoch_key :: "prims \<Rightarrow> bytes \<Rightarrow> bytes \<Rightarrow> crypto_error + bytes" where
  "wrap_epoch_key = wrap_key"

definition unwrap_epoch_key :: "prims \<Rightarrow> bytes \<Rightarrow> bytes \<Rightarrow> crypto_error + bytes" where
  "unwrap_epoch_key = unwrap_key"

definition content_hash :: "prims \<Rightarrow> bytes \<Rightarrow> bytes" where
  "content_hash P d = pr_hash P d"

definition verify_content_hash :: "prims \<Rightarrow> bytes \<Rightarrow> bytes \<Rightarrow> bool" where
  "verify_content_hash P d expected = constant_time_eq (content_hash P d) expected"

section \<open>The epoch rotator\<close>

record epoch_rotator =
  ro_epoch :: string
  ro_last_ms :: int
  ro_cadence_ms :: int

definition epoch_id_prefix :: string where
  "epoch_id_prefix = ''epoch-''"

definition default_epoch_cadence_ms :: int where
  "default_epoch_cadence_ms = 30 * 24 * 60 * 60 * 1000"

definition parse_epoch_counter :: "string \<Rightarrow> crypto_error + nat" where
  "parse_epoch_counter s =
     (let bad = InvalidInput (''epoch id must be of the form '' @ [char_of (39 :: nat)] @ ''epoch-<u64>'' @ [char_of (39 :: nat)]) in
      if take (length epoch_id_prefix) s = epoch_id_prefix
      then (case parse_u64 (drop (length epoch_id_prefix) s) of None \<Rightarrow> Inl bad | Some n \<Rightarrow> Inr n)
      else Inl bad)"

definition rotator_new :: "string \<Rightarrow> int \<Rightarrow> int \<Rightarrow> epoch_rotator" where
  "rotator_new epoch last_ms cadence =
     \<lparr>ro_epoch = epoch, ro_last_ms = last_ms, ro_cadence_ms = max cadence 1\<rparr>"

definition rotator_monthly :: "string \<Rightarrow> int \<Rightarrow> epoch_rotator" where
  "rotator_monthly epoch last_ms = rotator_new epoch last_ms default_epoch_cadence_ms"

definition rotator_try_new :: "string \<Rightarrow> int \<Rightarrow> int \<Rightarrow> crypto_error + epoch_rotator" where
  "rotator_try_new epoch last_ms cadence =
     (case parse_epoch_counter epoch of Inl e \<Rightarrow> Inl e | Inr _ \<Rightarrow> Inr (rotator_new epoch last_ms cadence))"

definition i64_saturating_sub :: "int \<Rightarrow> int \<Rightarrow> int" where
  "i64_saturating_sub a b = max (- (2 ^ 63)) (min (2 ^ 63 - 1) (a - b))"

definition should_rotate :: "int \<Rightarrow> int \<Rightarrow> int \<Rightarrow> bool" where
  "should_rotate last_ms now_ms cadence \<longleftrightarrow> max cadence 1 \<le> i64_saturating_sub now_ms last_ms"

definition is_due :: "epoch_rotator \<Rightarrow> int \<Rightarrow> bool" where
  "is_due r now_ms = should_rotate (ro_last_ms r) now_ms (ro_cadence_ms r)"

definition rotate_epoch :: "string \<Rightarrow> crypto_error + string" where
  "rotate_epoch epoch =
     (case parse_epoch_counter epoch of
        Inl e \<Rightarrow> Inl e
      | Inr n \<Rightarrow> if n + 1 < 2 ^ 64 then Inr (epoch_id_prefix @ dec_nat (n + 1))
                else Inl (InvalidInput ''epoch counter overflow''))"

definition rotator_rotate ::
  "prims \<Rightarrow> bytes \<Rightarrow> int \<Rightarrow> epoch_rotator \<Rightarrow> (crypto_error + string \<times> bytes) \<times> epoch_rotator" where
  "rotator_rotate P root now_ms r =
     (case rotate_epoch (ro_epoch r) of
        Inl e \<Rightarrow> (Inl e, r)
      | Inr next_id \<Rightarrow>
          (case derive_archive_epoch_key P root next_id of
             Inl e \<Rightarrow> (Inl e, r)
           | Inr key \<Rightarrow> (Inr (next_id, key), r\<lparr>ro_epoch := next_id, ro_last_ms := now_ms\<rparr>)))"

definition rotator_current_key :: "prims \<Rightarrow> bytes \<Rightarrow> epoch_rotator \<Rightarrow> crypto_error + bytes" where
  "rotator_current_key P root r = derive_archive_epoch_key P root (ro_epoch r)"

section \<open>Domain separation\<close>

text \<open>
  Everything that is derived from a parent key by expansion. Epochs, archive segments and archive manifests have two forms each,
  by number or bytes and by name.
\<close>

datatype purpose =
    ForMediaBlob bytes
  | ForArchiveEpoch u64
  | ForArchiveSegment bytes
  | ForArchiveManifest bytes
  | ForBackupSegment bytes
  | ForBackupManifest bytes
  | ForTextShard bytes
  | ForVectorShard bytes
  | ForMediaShard bytes
  | ForFuzzyShard bytes
  | ForBloomShard bytes
  | ForConversationHash
  | ForTextBucket bytes bytes
  | ForFuzzyBucket bytes bytes
  | ForTenantEpoch bytes bytes
  | ForTenantShard bytes bytes
  | ForEpochName string
  | ForSegmentName string
  | ForManifestName string

fun derive_key :: "prims \<Rightarrow> bytes \<Rightarrow> purpose \<Rightarrow> crypto_error + bytes" where
  "derive_key P k (ForMediaBlob i) = derive_media_blob P k i"
| "derive_key P k (ForArchiveEpoch e) = derive_archive_epoch P k e"
| "derive_key P k (ForArchiveSegment i) = derive_archive_segment P k i"
| "derive_key P k (ForArchiveManifest i) = derive_archive_manifest P k i"
| "derive_key P k (ForBackupSegment i) = derive_backup_segment P k i"
| "derive_key P k (ForBackupManifest i) = derive_backup_manifest P k i"
| "derive_key P k (ForTextShard i) = derive_text_index_shard P k i"
| "derive_key P k (ForVectorShard i) = derive_vector_index_shard P k i"
| "derive_key P k (ForMediaShard i) = derive_media_index_shard P k i"
| "derive_key P k (ForFuzzyShard i) = derive_fuzzy_index_shard P k i"
| "derive_key P k (ForBloomShard i) = derive_bloom_index_shard P k i"
| "derive_key P k ForConversationHash = derive_conversation_hash_key P k"
| "derive_key P k (ForTextBucket c b) = derive_text_index_shard_for_bucket P k c b"
| "derive_key P k (ForFuzzyBucket c b) = derive_fuzzy_index_shard_for_bucket P k c b"
| "derive_key P k (ForTenantEpoch t e) = derive_b2b_archive_epoch P k t e"
| "derive_key P k (ForTenantShard t i) = derive_b2b_text_index_shard P k t i"
| "derive_key P k (ForEpochName n) = derive_archive_epoch_key P k n"
| "derive_key P k (ForSegmentName n) = derive_archive_segment_key P k n"
| "derive_key P k (ForManifestName n) = derive_archive_manifest_key P k n"

fun purpose_label :: "purpose \<Rightarrow> string" where
  "purpose_label (ForMediaBlob _) = ''chat-storage/media-blob/v1''"
| "purpose_label (ForArchiveEpoch _) = ''chat-storage/archive-epoch/v1''"
| "purpose_label (ForArchiveSegment _) = ''chat-storage/archive-segment/v1''"
| "purpose_label (ForArchiveManifest _) = ''chat-storage/archive-manifest/v1''"
| "purpose_label (ForBackupSegment _) = ''chat-storage/backup-segment/v1''"
| "purpose_label (ForBackupManifest _) = ''chat-storage/backup-manifest/v1''"
| "purpose_label (ForTextShard _) = ''chat-storage/text-index-shard/v1''"
| "purpose_label (ForVectorShard _) = ''chat-storage/vector-index-shard/v1''"
| "purpose_label (ForMediaShard _) = ''chat-storage/media-index-shard/v1''"
| "purpose_label (ForFuzzyShard _) = ''chat-storage/fuzzy-index-shard/v1''"
| "purpose_label (ForBloomShard _) = ''chat-storage/bloom-index-shard/v1''"
| "purpose_label ForConversationHash = ''chat-storage/conversation-hash/v1''"
| "purpose_label (ForTextBucket _ _) = ''chat-storage/text-index-bucket/v1''"
| "purpose_label (ForFuzzyBucket _ _) = ''chat-storage/fuzzy-index-bucket/v1''"
| "purpose_label (ForTenantEpoch _ _) = ''chat-storage/b2b-archive-epoch/v1''"
| "purpose_label (ForTenantShard _ _) = ''chat-storage/b2b-text-index-shard/v1''"
| "purpose_label (ForEpochName _) = ''chat-storage/archive-epoch/v1''"
| "purpose_label (ForSegmentName _) = ''chat-storage/archive-segment/v1''"
| "purpose_label (ForManifestName _) = ''chat-storage/archive-manifest/v1''"

fun purpose_payload :: "purpose \<Rightarrow> bytes" where
  "purpose_payload (ForMediaBlob i) = i"
| "purpose_payload (ForArchiveEpoch e) = be_bytes 8 (unat e)"
| "purpose_payload (ForArchiveSegment i) = i"
| "purpose_payload (ForArchiveManifest i) = i"
| "purpose_payload (ForBackupSegment i) = i"
| "purpose_payload (ForBackupManifest i) = i"
| "purpose_payload (ForTextShard i) = i"
| "purpose_payload (ForVectorShard i) = i"
| "purpose_payload (ForMediaShard i) = i"
| "purpose_payload (ForFuzzyShard i) = i"
| "purpose_payload (ForBloomShard i) = i"
| "purpose_payload ForConversationHash = []"
| "purpose_payload (ForTextBucket c b) = two_ids [] c b"
| "purpose_payload (ForFuzzyBucket c b) = two_ids [] c b"
| "purpose_payload (ForTenantEpoch t e) = two_ids [] t e"
| "purpose_payload (ForTenantShard t i) = two_ids [] t i"
| "purpose_payload (ForEpochName n) = str_bytes n"
| "purpose_payload (ForSegmentName n) = str_bytes n"
| "purpose_payload (ForManifestName n) = str_bytes n"

definition hkdf_info :: "purpose \<Rightarrow> bytes" where
  "hkdf_info p = str_bytes (purpose_label p) @ purpose_payload p"

text \<open>The two forms of one use: a name that spells the bytes of the other form.\<close>

fun named_form :: "purpose \<Rightarrow> purpose \<Rightarrow> bool" where
  "named_form (ForArchiveEpoch e) (ForEpochName n) \<longleftrightarrow> str_bytes n = be_bytes 8 (unat e)"
| "named_form (ForArchiveSegment i) (ForSegmentName n) \<longleftrightarrow> str_bytes n = i"
| "named_form (ForArchiveManifest i) (ForManifestName n) \<longleftrightarrow> str_bytes n = i"
| "named_form _ _ \<longleftrightarrow> False"

definition same_use :: "purpose \<Rightarrow> purpose \<Rightarrow> bool" where
  "same_use p q \<longleftrightarrow> p = q \<or> named_form p q \<or> named_form q p"

text \<open>Two different inputs of HKDF-Expand with one output under the key \<open>k\<close>.\<close>

definition expand_collision :: "prims \<Rightarrow> bytes \<Rightarrow> bytes \<Rightarrow> bytes \<Rightarrow> bool" where
  "expand_collision P k i j \<longleftrightarrow> i \<noteq> j \<and> (\<exists>okm. pr_expand P k i 32 = Inr okm \<and> pr_expand P k j 32 = Inr okm)"

fun well_sized :: "purpose \<Rightarrow> bool" where
  "well_sized (ForTextBucket c _) = (length c < 2 ^ 32)"
| "well_sized (ForFuzzyBucket c _) = (length c < 2 ^ 32)"
| "well_sized (ForTenantEpoch t _) = (length t < 2 ^ 32)"
| "well_sized (ForTenantShard t _) = (length t < 2 ^ 32)"
| "well_sized _ = True"

definition all_labels :: "string list" where
  "all_labels = map purpose_label
     [ForMediaBlob [], ForArchiveEpoch 0, ForArchiveSegment [], ForArchiveManifest [], ForBackupSegment [],
      ForBackupManifest [], ForTextShard [], ForVectorShard [], ForMediaShard [], ForFuzzyShard [],
      ForBloomShard [], ForConversationHash, ForTextBucket [] [], ForFuzzyBucket [] [], ForTenantEpoch [] [],
      ForTenantShard [] []]"

lemma two_ids_label: "two_ids label a b = label @ two_ids [] a b"
  by (simp add: two_ids_def Let_def)

lemma two_ids_inj:
  assumes "length a < 2 ^ 32" and "length a' < 2 ^ 32" and "two_ids l a b = two_ids l a' b'"
  shows "a = a' \<and> b = b'"
proof -
  from assms have "be_bytes 4 (length a) @ a @ b = be_bytes 4 (length a') @ a' @ b'"
    by (simp add: two_ids_def)
  then have l: "be_bytes 4 (length a) = be_bytes 4 (length a')" and r: "a @ b = a' @ b'"
    by (simp_all add: append_eq_append_conv)
  from l have "length a = length a'" using assms(1,2) by (intro be_bytes_inj [of _ 4]) simp_all
  with r show ?thesis by simp
qed

lemma two_ids_iff:
  "length a < 2 ^ 32 \<Longrightarrow> length a' < 2 ^ 32 \<Longrightarrow> two_ids l a b = two_ids l a' b' \<longleftrightarrow> a = a' \<and> b = b'"
  using two_ids_inj by blast

lemma be_u64_iff: "be_bytes 8 (unat x) = be_bytes 8 (unat y) \<longleftrightarrow> x = y" for x y :: u64
proof
  assume "be_bytes 8 (unat x) = be_bytes 8 (unat y)"
  moreover have "unat x < 256 ^ 8" "unat y < 256 ^ 8"
    using unsigned_less [of x, where ?'a = nat] unsigned_less [of y, where ?'a = nat] by simp_all
  ultimately show "x = y" using be_bytes_inj by (metis word_unat_eq_iff)
qed simp

lemma derive_key_info: "derive_key P k p = hkdf_expand P k (hkdf_info p)"
  unfolding hkdf_info_def
  by (cases p) (simp_all add: derive_archive_epoch_key_def derive_archive_segment_key_def derive_archive_manifest_key_def
      derive_media_blob_def derive_archive_epoch_def derive_archive_segment_def
      derive_archive_manifest_def derive_backup_segment_def derive_backup_manifest_def derive_text_index_shard_def
      derive_vector_index_shard_def derive_media_index_shard_def derive_fuzzy_index_shard_def
      derive_bloom_index_shard_def derive_conversation_hash_key_def derive_text_index_shard_for_bucket_def
      derive_fuzzy_index_shard_for_bucket_def derive_b2b_archive_epoch_def derive_b2b_text_index_shard_def
      derive_with_two_ids_def two_ids_label [of "str_bytes x" for x])

lemma hkdf_expand_Inr: "hkdf_expand P k i = Inr okm \<longleftrightarrow> pr_from_prk P k = None \<and> pr_expand P k i 32 = Inr okm"
  by (simp add: hkdf_expand_def split: option.split sum.split)

lemma all_labels_prefix_free: "list_all (\<lambda>a. list_all (\<lambda>b. prefix a b \<longrightarrow> a = b) all_labels) all_labels"
  unfolding all_labels_def by simp

lemma purpose_label_in: "purpose_label p \<in> set all_labels"
  by (cases p) (simp_all add: all_labels_def)

lemma list_all_in: "list_all Q xs \<Longrightarrow> x \<in> set xs \<Longrightarrow> Q x"
  by (simp add: list_all_iff)

lemma label_prefix: "a \<in> set all_labels \<Longrightarrow> b \<in> set all_labels \<Longrightarrow> prefix a b \<Longrightarrow> a = b"
proof -
  assume a: "a \<in> set all_labels" and b: "b \<in> set all_labels" and p: "prefix a b"
  from all_labels_prefix_free a have "list_all (\<lambda>b. prefix a b \<longrightarrow> a = b) all_labels" by (rule list_all_in)
  then have "prefix a b \<longrightarrow> a = b" using b by (rule list_all_in)
  with p show "a = b" by simp
qed

lemma str_bytes_inj: "str_bytes s = str_bytes t \<longleftrightarrow> s = t"
proof
  assume eq: "str_bytes s = str_bytes t"
  have "inj (\<lambda>c :: char. word_of_nat (of_char c) :: u8)"
  proof (rule injI)
    fix c d :: char
    assume "(word_of_nat (of_char c) :: u8) = word_of_nat (of_char d)"
    then have "unat (word_of_nat (of_char c) :: u8) = unat (word_of_nat (of_char d) :: u8)" by simp
    then have "(of_char c :: nat) = of_char d"
      by (simp add: unat_of_nat take_bit_nat_eq_self)
    then show "c = d" by simp
  qed
  with eq show "s = t" by (simp add: str_bytes_def inj_map_eq_map)
qed simp

lemma label_cancel:
  assumes "str_bytes (purpose_label p) @ x = str_bytes (purpose_label q) @ y"
  shows "purpose_label p = purpose_label q \<and> x = y"
proof -
  have pre: "str_bytes a @ u = str_bytes b @ v \<Longrightarrow> length a \<le> length b \<Longrightarrow> prefix a b" for a b u v
  proof -
    assume eq: "str_bytes a @ u = str_bytes b @ v" and le: "length a \<le> length b"
    have "take (length a) (str_bytes a @ u) = take (length a) (str_bytes b @ v)" using eq by simp
    with le have "str_bytes a = str_bytes (take (length a) b)" by (simp add: str_bytes_def take_map)
    then have "a = take (length a) b" by (simp add: str_bytes_inj)
    then show "prefix a b" by (metis take_is_prefix)
  qed
  have "prefix (purpose_label p) (purpose_label q) \<or> prefix (purpose_label q) (purpose_label p)"
    using pre [OF assms] pre [OF assms [symmetric]] by linarith
  then have "purpose_label p = purpose_label q"
    by (metis label_prefix purpose_label_in)
  with assms show ?thesis by simp
qed

fun purpose_kind :: "purpose \<Rightarrow> nat" where
  "purpose_kind (ForMediaBlob _) = 0"
| "purpose_kind (ForArchiveEpoch _) = 1"
| "purpose_kind (ForArchiveSegment _) = 2"
| "purpose_kind (ForArchiveManifest _) = 3"
| "purpose_kind (ForBackupSegment _) = 4"
| "purpose_kind (ForBackupManifest _) = 5"
| "purpose_kind (ForTextShard _) = 6"
| "purpose_kind (ForVectorShard _) = 7"
| "purpose_kind (ForMediaShard _) = 8"
| "purpose_kind (ForFuzzyShard _) = 9"
| "purpose_kind (ForBloomShard _) = 10"
| "purpose_kind ForConversationHash = 11"
| "purpose_kind (ForTextBucket _ _) = 12"
| "purpose_kind (ForFuzzyBucket _ _) = 13"
| "purpose_kind (ForTenantEpoch _ _) = 14"
| "purpose_kind (ForTenantShard _ _) = 15"
| "purpose_kind (ForEpochName _) = 1"
| "purpose_kind (ForSegmentName _) = 2"
| "purpose_kind (ForManifestName _) = 3"

lemma purpose_kind_label: "purpose_kind p < length all_labels \<and> all_labels ! purpose_kind p = purpose_label p"
  unfolding all_labels_def by (cases p) simp_all

lemma all_labels_distinct: "distinct all_labels"
  unfolding all_labels_def by simp

lemma purpose_determined:
  assumes "purpose_label p = purpose_label q" and "purpose_payload p = purpose_payload q"
    and "well_sized p" and "well_sized q"
  shows "same_use p q"
proof -
  have "purpose_kind p = purpose_kind q"
    using assms(1) purpose_kind_label [of p] purpose_kind_label [of q] all_labels_distinct
    by (metis nth_eq_iff_index_eq)
  then show ?thesis
    using assms(2-) by (cases p; cases q) (simp_all add: same_use_def two_ids_iff be_u64_iff str_bytes_inj)
qed

section \<open>Rotation\<close>

abbreviation epoch_name :: "nat \<Rightarrow> string" where
  "epoch_name n \<equiv> epoch_id_prefix @ dec_nat n"

lemma parse_epoch_name: "n < 2 ^ 64 \<Longrightarrow> parse_epoch_counter (epoch_name n) = Inr n"
  by (simp add: parse_epoch_counter_def Let_def parse_u64_dec_nat)

lemma dec_nat_eq: "dec_nat m = dec_nat n \<longleftrightarrow> m = n"
  by (metis dec_nat_digits)

text \<open>Rotating at each of the given times; the epoch ids that were announced.\<close>

fun rotate_all ::
  "prims \<Rightarrow> bytes \<Rightarrow> int list \<Rightarrow> epoch_rotator \<Rightarrow> (crypto_error + (string \<times> bytes)) list \<times> epoch_rotator" where
  "rotate_all P root [] r = ([], r)"
| "rotate_all P root (t # ts) r =
     (case rotator_rotate P root t r of (x, r1) \<Rightarrow>
        case rotate_all P root ts r1 of (xs, r2) \<Rightarrow> (x # xs, r2))"

lemma rotate_step:
  assumes "n + 1 < 2 ^ 64" and "derive_archive_epoch_key P root (epoch_name (n + 1)) = Inr key"
  shows "rotator_rotate P root t \<lparr>ro_epoch = epoch_name n, ro_last_ms = l, ro_cadence_ms = c\<rparr>
    = (Inr (epoch_name (n + 1), key), \<lparr>ro_epoch = epoch_name (n + 1), ro_last_ms = t, ro_cadence_ms = c\<rparr>)"
  using assms by (simp add: rotator_rotate_def rotate_epoch_def parse_epoch_name)

lemma rotate_all_counts:
  assumes key: "\<And>n. derive_archive_epoch_key P root (epoch_name n) = Inr (key n)"
  shows "n + length ts < 2 ^ 64 \<Longrightarrow>
    rotate_all P root ts \<lparr>ro_epoch = epoch_name n, ro_last_ms = l, ro_cadence_ms = c\<rparr>
    = (map (\<lambda>i. Inr (epoch_name i, key i)) [n + 1..<n + 1 + length ts],
       \<lparr>ro_epoch = epoch_name (n + length ts), ro_last_ms = last (l # ts), ro_cadence_ms = c\<rparr>)"
proof (induction ts arbitrary: n l)
  case (Cons t ts)
  have "[n + 1..<n + 1 + length (t # ts)] = (n + 1) # [n + 1 + 1..<n + 1 + 1 + length ts]"
    by (simp add: upt_conv_Cons del: upt_Suc)
  with Cons.prems Cons.IH [of "n + 1" t] rotate_step [OF _ key, of n t l c] show ?case
    by (simp del: upt_Suc)
qed simp

text \<open>Primitives under which everything succeeds, for the examples.\<close>

definition toy_prims :: prims where
  "toy_prims = \<lparr>pr_hkdf = (\<lambda>_ ikm info n. Inr (ikm @ info)), pr_from_prk = (\<lambda>_. None),
     pr_expand = (\<lambda>prk info n. Inr (prk @ info)), pr_seal = (\<lambda>k n p a. Some (p @ replicate 16 0)),
     pr_open = (\<lambda>k n c a. if length c < 16 then None else Some (take (length c - 16) c)),
     pr_wrap = (\<lambda>w k. Some (k @ replicate 8 0)), pr_unwrap = (\<lambda>w c. Some (take 32 c)), pr_hash = id\<rparr>"

section \<open>Properties\<close>


text \<open>An expansion to 32 bytes, the last ones of the input.\<close>

definition tail_prims :: prims where
  "tail_prims = toy_prims\<lparr>pr_expand := \<lambda>prk info n. Inr (take n (rev info @ replicate n 0))\<rparr>"


text \<open>
  the two kinds of epoch keys share one HKDF label, but no numbered epoch below \<open>2^56\<close> gets the key of a
  named epoch \<open>epoch-<n>\<close>, unless HKDF-Expand has a collision on their inputs.
\<close>

theorem epoch_ids_disjoint:
  assumes "derive_archive_epoch_key P k (epoch_id_prefix @ dec_nat n) = Inr a" and "derive_archive_epoch P k e = Inr b"
    and "unat e < 2 ^ 56"
  shows "a \<noteq> b \<or> expand_collision P k (hkdf_info (ForEpochName (epoch_id_prefix @ dec_nat n))) (hkdf_info (ForArchiveEpoch e))"
proof -
  have "str_bytes (epoch_name n) \<noteq> be_bytes 8 (unat e)"
  proof
    assume "str_bytes (epoch_name n) = be_bytes 8 (unat e)"
    then have "hd (str_bytes (epoch_name n)) = hd (be_bytes 8 (unat e))" by simp
    moreover have "hd (be_bytes 8 (unat e)) = 0"
      using assms(3) by (simp add: be_bytes_def upt_conv_Cons)
    moreover have "hd (str_bytes (epoch_name n)) = 101" by (simp add: str_bytes_def epoch_id_prefix_def)
    ultimately show False by simp
  qed
  then have "hkdf_info (ForEpochName (epoch_name n)) \<noteq> hkdf_info (ForArchiveEpoch e)" by (simp add: hkdf_info_def)
  moreover have "pr_expand P k (hkdf_info (ForEpochName (epoch_name n))) 32 = Inr a"
      "pr_expand P k (hkdf_info (ForArchiveEpoch e)) 32 = Inr b"
    using assms(1,2) by (simp_all add: derive_archive_epoch_key_def derive_archive_epoch_def hkdf_expand_Inr hkdf_info_def)
  ultimately show ?thesis unfolding expand_collision_def by blast
qed

theorem epoch_ids_disjoint_witness:
  "\<exists>a b. derive_archive_epoch_key tail_prims [] (epoch_id_prefix @ dec_nat 7) = Inr a \<and> derive_archive_epoch tail_prims [] 7 = Inr b
     \<and> (a \<noteq> b \<or> expand_collision tail_prims [] (hkdf_info (ForEpochName (epoch_id_prefix @ dec_nat 7))) (hkdf_info (ForArchiveEpoch 7)))"
proof -
  have "derive_key tail_prims [] p = Inr (take 32 (rev (hkdf_info p) @ replicate 32 0))" for p
    by (simp add: derive_key_info hkdf_expand_def tail_prims_def toy_prims_def)
  from this [of "ForEpochName (epoch_name 7)"] this [of "ForArchiveEpoch 7"]
  have "derive_archive_epoch_key tail_prims [] (epoch_name 7) = Inr (take 32 (rev (hkdf_info (ForEpochName (epoch_name 7))) @ replicate 32 0))"
    "derive_archive_epoch tail_prims [] 7 = Inr (take 32 (rev (hkdf_info (ForArchiveEpoch 7)) @ replicate 32 0))" by simp_all
  from epoch_ids_disjoint [OF this] this show ?thesis by auto
qed

text \<open>
  rotation counts: a rotator at \<open>epoch-<n>\<close> that is rotated at each of the given times announces the
  epochs \<open>n + 1\<close>, \<open>n + 2\<close>, \dots with their keys, in order and never the same one twice, and ends at the last of
  them with the last time.
\<close>

theorem rotation_counts:
  assumes "\<And>n. derive_archive_epoch_key P root (epoch_id_prefix @ dec_nat n) = Inr (key n)"
    and "n + length ts < 2 ^ 64"
  shows "\<exists>ids. rotate_all P root ts (rotator_new (epoch_id_prefix @ dec_nat n) l c)
       = (map (\<lambda>i. Inr (epoch_id_prefix @ dec_nat i, key i)) ids,
          \<lparr>ro_epoch = epoch_id_prefix @ dec_nat (n + length ts), ro_last_ms = last (l # ts), ro_cadence_ms = max c 1\<rparr>)
    \<and> ids = [n + 1..<n + 1 + length ts] \<and> distinct (map (\<lambda>i. epoch_id_prefix @ dec_nat i) ids)"
proof -
  have "distinct (map (\<lambda>i. epoch_name i) [n + 1..<n + 1 + length ts])"
    by (simp add: distinct_map inj_on_def dec_nat_eq del: upt_Suc)
  with rotate_all_counts [OF assms(1,2), where l = l and c = "max c 1"] show ?thesis
    by (simp add: rotator_new_def)
qed

theorem rotation_counts_witness:
  "\<exists>xs. rotate_all toy_prims [] [10, 20] (rotator_new (epoch_id_prefix @ dec_nat 0) 0 1)
     = (xs, \<lparr>ro_epoch = epoch_id_prefix @ dec_nat 2, ro_last_ms = 20, ro_cadence_ms = 1\<rparr>)"
proof -
  have k: "derive_archive_epoch_key toy_prims [] (epoch_name n)
      = Inr (str_bytes ''chat-storage/archive-epoch/v1'' @ str_bytes (epoch_name n))" for n
    by (simp add: derive_archive_epoch_key_def hkdf_expand_def toy_prims_def)
  have "(0::nat) + length [10 :: int, 20] < 2 ^ 64" by simp
  from rotation_counts [OF k this, of 0 1] show ?thesis by (auto simp: numeral_2_eq_2)
qed

text \<open>
  the cadence test is exact: with saturating 64-bit arithmetic a rotator is due at \<open>now\<close> exactly when at least its
  cadence (at least one millisecond) has passed since the last rotation, also for extreme clock values.
\<close>

theorem rotation_due_exact:
  assumes "c < 2 ^ 63"
  shows "is_due (rotator_new e l c) now \<longleftrightarrow> max c 1 \<le> now - l"
  using assms by (auto simp: is_due_def rotator_new_def should_rotate_def i64_saturating_sub_def)

theorem rotation_due_exact_witness:
  "is_due (rotator_new ''epoch-0'' (- (2 ^ 63)) 1000) (2 ^ 63 - 1)"
  using rotation_due_exact [of 1000 "''epoch-0''" "- (2 ^ 63)" "2 ^ 63 - 1"] by simp

end
