(* ===== verification/Convergent.thy ===== *)
theory Convergent
  imports KeyBridge
begin

text \<open>
  Convergent encryption of whole objects (\<open>crypto/convergent.rs\<close>, ``Pattern C'') and the AEAD wrappers of
  \<open>crypto/aead.rs\<close>: the key and nonce derivations, the chunking and the frame format
  \<open>[nonce (24)][length (4, big endian)][ciphertext and tag]\<close>.
\<close>

section \<open>AEAD wrappers\<close>

definition seal :: "prims \<Rightarrow> bytes \<Rightarrow> bytes \<Rightarrow> bytes \<Rightarrow> bytes \<Rightarrow> crypto_error + bytes" where
  "seal P key nonce plaintext aad =
     (case pr_seal P key nonce plaintext aad of
        None \<Rightarrow> Inl (Aead ''xchacha20-poly1305 seal failed'') | Some ct \<Rightarrow> Inr ct)"

definition open_sealed :: "prims \<Rightarrow> bytes \<Rightarrow> bytes \<Rightarrow> bytes \<Rightarrow> bytes \<Rightarrow> crypto_error + bytes" where
  "open_sealed P key nonce ciphertext aad =
     (case pr_open P key nonce ciphertext aad of
        None \<Rightarrow> Inl (Aead ''xchacha20-poly1305 open failed'') | Some pt \<Rightarrow> Inr pt)"

section \<open>Derivations\<close>

definition default_chunk_size :: nat where
  "default_chunk_size = 16 * 1024 * 1024"

definition chunk_header_size :: nat where
  "chunk_header_size = 24 + 4"

definition tag_len :: nat where
  "tag_len = 16"

definition derive_convergent_dek :: "prims \<Rightarrow> bytes \<Rightarrow> bytes \<Rightarrow> crypto_error + bytes" where
  "derive_convergent_dek P hash tenant =
     (if hash = [] then Inl (InvalidInput ''convergent DEK: contentHash is required'')
      else if tenant = [] then Inl (InvalidInput ''convergent DEK: tenantID is required'')
      else case pr_hkdf P (Some tenant) hash (str_bytes ''zkof-convergent-dek-v1'') 32 of
             Inl _ \<Rightarrow> Inl (Kdf ''convergent DEK: hkdf expand failed'')
           | Inr dek \<Rightarrow> Inr dek)"

definition derive_convergent_nonce :: "prims \<Rightarrow> bytes \<Rightarrow> nat \<Rightarrow> nat \<Rightarrow> crypto_error + bytes" where
  "derive_convergent_nonce P dek chunk_index nonce_size =
     (case pr_hkdf P None dek (str_bytes ''zkof-nonce-v1'' @ be_bytes 8 chunk_index) nonce_size of
        Inl _ \<Rightarrow> Inl (Kdf ''convergent nonce: hkdf expand failed'')
      | Inr nonce \<Rightarrow> Inr nonce)"

definition effective_chunk_size :: "nat \<Rightarrow> nat" where
  "effective_chunk_size chunk_size = (if chunk_size = 0 then default_chunk_size else chunk_size)"

section \<open>Encryption\<close>

text \<open>One iteration of the loop: the frame of a chunk.\<close>

definition seal_frame :: "prims \<Rightarrow> bytes \<Rightarrow> nat \<Rightarrow> bytes \<Rightarrow> crypto_error + bytes" where
  "seal_frame P dek chunk_index chunk =
     (case derive_convergent_nonce P dek chunk_index 24 of
        Inl e \<Rightarrow> Inl e
      | Inr nonce \<Rightarrow>
          (case pr_seal P dek nonce chunk [] of
             None \<Rightarrow> Inl (Aead ''Pattern C: seal failed'')
           | Some sealed \<Rightarrow>
               if length sealed < 2 ^ 32 then Inr (nonce @ be_bytes 4 (length sealed) @ sealed)
               else Inl (Frame (''ciphertext length '' @ dec_nat (length sealed) @ '' exceeds u32''))))"

text \<open>The loop over \<open>offset\<close>; \<open>rest\<close> is the plaintext from the offset on.\<close>

function seal_chunks :: "prims \<Rightarrow> bytes \<Rightarrow> nat \<Rightarrow> nat \<Rightarrow> bytes \<Rightarrow> crypto_error + bytes" where
  "seal_chunks P dek chunk_size chunk_index rest =
     (if rest = [] \<or> chunk_size = 0 then Inr []
      else case seal_frame P dek chunk_index (take chunk_size rest) of
             Inl e \<Rightarrow> Inl e
           | Inr frame \<Rightarrow>
               (case seal_chunks P dek chunk_size (chunk_index + 1) (drop chunk_size rest) of
                  Inl e \<Rightarrow> Inl e
                | Inr out \<Rightarrow> Inr (frame @ out)))"
  by pat_completeness auto
termination
  by (relation "measure (\<lambda>(P, dek, n, i, rest). length rest)") auto

declare seal_chunks.simps [simp del]

definition encrypt_object_pattern_c :: "prims \<Rightarrow> bytes \<Rightarrow> bytes \<Rightarrow> nat \<Rightarrow> crypto_error + bytes" where
  "encrypt_object_pattern_c P plaintext dek chunk_size =
     (if length dek \<noteq> 32 then Inl (InvalidInput ''Pattern C: DEK must be 32 bytes'')
      else seal_chunks P dek (effective_chunk_size chunk_size) 0 plaintext)"

section \<open>Decryption\<close>

text \<open>
  The loop over \<open>cursor\<close>: \<open>rest\<close> is the ciphertext from the cursor on, \<open>full_len\<close> the length of all of it.
\<close>

function open_frames :: "prims \<Rightarrow> bytes \<Rightarrow> nat \<Rightarrow> nat \<Rightarrow> nat \<Rightarrow> bytes \<Rightarrow> crypto_error + bytes" where
  "open_frames P dek max_ct full_len cursor rest =
     (if rest = [] then Inr []
      else if length rest < chunk_header_size
      then Inl (Frame (''truncated frame header at offset '' @ dec_nat cursor))
      else
        let nonce = take 24 rest;
            ct_len = be_val (take 4 (drop 24 rest)) in
        if ct_len = 0 \<or> max_ct < ct_len
        then Inl (Frame (''frame length '' @ dec_nat ct_len @ '' out of bounds (max '' @ dec_nat max_ct @ '')''))
        else
          let body_end = cursor + chunk_header_size + ct_len in
          if full_len < body_end
          then Inl (Frame (''frame body truncated: need '' @ dec_nat body_end @ '', have '' @ dec_nat full_len))
          else case pr_open P dek nonce (take ct_len (drop chunk_header_size rest)) [] of
                 None \<Rightarrow> Inl (Aead ''Pattern C: open failed'')
               | Some pt \<Rightarrow>
                   (case open_frames P dek max_ct full_len body_end (drop (chunk_header_size + ct_len) rest) of
                      Inl e \<Rightarrow> Inl e
                    | Inr out \<Rightarrow> Inr (pt @ out)))"
  by pat_completeness auto
termination
  by (relation "measure (\<lambda>(P, dek, m, t, c, rest). length rest)") (auto simp: chunk_header_size_def)

declare open_frames.simps [simp del]

definition decrypt_object_pattern_c :: "prims \<Rightarrow> bytes \<Rightarrow> bytes \<Rightarrow> nat \<Rightarrow> crypto_error + bytes" where
  "decrypt_object_pattern_c P ciphertext dek chunk_size =
     (if length dek \<noteq> 32 then Inl (InvalidInput ''Pattern C: DEK must be 32 bytes'')
      else let cs = effective_chunk_size chunk_size in
        if 2 ^ 32 \<le> cs + tag_len then Inl (Frame (''chunk_size '' @ dec_nat cs @ '' exceeds u32 range''))
        else open_frames P dek (cs + tag_len) (length ciphertext) 0 ciphertext)"

section \<open>Frames\<close>

text \<open>A well-formed frame and the text it opens to.\<close>

definition frame_of :: "prims \<Rightarrow> bytes \<Rightarrow> nat \<Rightarrow> bytes \<Rightarrow> bytes \<Rightarrow> bool" where
  "frame_of P dek max_ct f pt \<longleftrightarrow>
     (\<exists>nonce body. f = nonce @ be_bytes 4 (length body) @ body \<and> length nonce = 24 \<and> body \<noteq> []
        \<and> length body \<le> max_ct \<and> pr_open P dek nonce body [] = Some pt)"

lemma be_bytes_val: "length bs = k \<Longrightarrow> be_bytes k (be_val bs) = bs"
proof (induction bs arbitrary: k rule: rev_induct)
  case Nil
  then show ?case by (simp add: be_bytes_def)
next
  case (snoc b bs)
  have "(256 * be_val bs + unat b) div 256 = be_val bs"
    using unsigned_less [of b, where ?'a = nat] by simp
  moreover have "(word_of_nat (256 * be_val bs + unat b) :: u8) = b"
    using unsigned_less [of b, where ?'a = nat]
    by (simp add: word_unat_eq_iff unat_of_nat take_bit_eq_mod del: of_nat_add of_nat_mult)
  ultimately show ?case using snoc by (auto simp: be_bytes_Suc be_val_snoc)
qed

lemma frame_ofI:
  "length nonce = 24 \<Longrightarrow> body \<noteq> [] \<Longrightarrow> length body \<le> max_ct \<Longrightarrow> pr_open P dek nonce body [] = Some pt \<Longrightarrow>
     frame_of P dek max_ct (nonce @ be_bytes 4 (length body) @ body) pt"
  by (auto simp: frame_of_def)

lemma open_frames_cons:
  assumes "frame_of P dek max_ct f pt" and "max_ct < 2 ^ 32" and "full_len = cursor + length f + length rest"
  shows "open_frames P dek max_ct full_len cursor (f @ rest) =
    (case open_frames P dek max_ct full_len (cursor + length f) rest of Inl e \<Rightarrow> Inl e | Inr out \<Rightarrow> Inr (pt @ out))"
proof -
  from assms(1) obtain nonce body where f: "f = nonce @ be_bytes 4 (length body) @ body" "length nonce = 24"
    "body \<noteq> []" "length body \<le> max_ct" "pr_open P dek nonce body [] = Some pt"
    by (auto simp: frame_of_def)
  have lf: "length f = 28 + length body" using f by simp
  from assms(2) f(4) have val: "be_val (be_bytes 4 (length body)) = length body"
    by (intro be_val_be_bytes) simp
  have parts: "take 24 (f @ rest) = nonce" "take 4 (drop 24 (f @ rest)) = be_bytes 4 (length body)"
    "take (length body) (drop 28 (f @ rest)) = body" "drop (28 + length body) (f @ rest) = rest"
    using f by simp_all
  have "f @ rest \<noteq> []" "\<not> length (f @ rest) < 28" using lf by auto
  with f val parts lf assms(3) show ?thesis
    by (subst open_frames.simps) (simp add: chunk_header_size_def Let_def add.assoc)
qed

lemma open_frames_ok:
  "list_all2 (frame_of P dek max_ct) fs pts \<Longrightarrow> max_ct < 2 ^ 32 \<Longrightarrow> full_len = cursor + length (concat fs) \<Longrightarrow>
     open_frames P dek max_ct full_len cursor (concat fs) = Inr (concat pts)"
proof (induction fs pts arbitrary: cursor rule: list_all2_induct)
  case Nil
  then show ?case by (subst open_frames.simps) simp
next
  case (Cons f fs pt pts)
  from open_frames_cons [OF Cons.hyps(1) Cons.prems(1), of full_len cursor "concat fs"] Cons.prems(2)
    Cons.IH [OF Cons.prems(1), of "cursor + length f"]
  show ?case by simp
qed

lemma open_frames_split:
  assumes "max_ct < 2 ^ 32"
  shows "open_frames P dek max_ct full_len cursor rest = Inr out \<Longrightarrow> full_len = cursor + length rest \<Longrightarrow>
     \<exists>fs pts. rest = concat fs \<and> out = concat pts \<and> list_all2 (frame_of P dek max_ct) fs pts"
proof (induction P dek max_ct full_len cursor rest arbitrary: out rule: open_frames.induct)
  case (1 P dek max_ct full_len cursor rest)
  show ?case
  proof (cases "rest = []")
    case True
    with 1(2) show ?thesis by (subst (asm) open_frames.simps) (auto intro: exI [of _ "[]"])
  next
    case False
    let ?n = "be_val (take 4 (drop 24 rest))"
    from 1(2) False obtain pt out' where
      h: "\<not> length rest < chunk_header_size" "\<not> (?n = 0 \<or> max_ct < ?n)"
      "\<not> full_len < cursor + chunk_header_size + ?n"
      and op: "pr_open P dek (take 24 rest) (take ?n (drop chunk_header_size rest)) [] = Some pt"
      and rec: "open_frames P dek max_ct full_len (cursor + chunk_header_size + ?n) (drop (chunk_header_size + ?n) rest) = Inr out'"
      and out: "out = pt @ out'"
      by (subst (asm) open_frames.simps) (auto simp: Let_def split: if_splits option.splits sum.splits)
    from h 1(3) have len: "chunk_header_size + ?n \<le> length rest" by simp
    from 1(1) [OF False h(1) refl refl h(2) refl h(3) op rec] 1(3) len obtain fs pts where
      fs: "drop (chunk_header_size + ?n) rest = concat fs" "out' = concat pts" "list_all2 (frame_of P dek max_ct) fs pts"
      by auto
    let ?f = "take (chunk_header_size + ?n) rest"
    have four: "length (take 4 (drop 24 rest)) = 4" using len by (simp add: chunk_header_size_def)
    have body: "length (take ?n (drop chunk_header_size rest)) = ?n" using len by simp
    have "?f = take 24 rest @ take 4 (drop 24 rest) @ take ?n (drop chunk_header_size rest)"
      using take_add [of 24 4 rest] take_add [of 28 ?n rest] by (simp add: chunk_header_size_def)
    moreover have "take 4 (drop 24 rest) = be_bytes 4 ?n"
      using be_bytes_val [OF four] by simp
    moreover have "length (take 24 rest) = 24" using len by (simp add: chunk_header_size_def)
    moreover have "take ?n (drop chunk_header_size rest) \<noteq> []" using body h(2) by auto
    ultimately have "frame_of P dek max_ct ?f pt"
      using frame_ofI [of "take 24 rest" "take ?n (drop chunk_header_size rest)" max_ct P dek pt] op body h(2) by simp
    with fs out show ?thesis
      by (intro exI [of _ "?f # fs"] exI [of _ "pt # pts"]) (simp flip: fs(1))
  qed
qed

lemma decrypt_frames:
  assumes "length dek = 32" and "effective_chunk_size cs + tag_len < 2 ^ 32"
  shows "decrypt_object_pattern_c P ct dek cs = Inr out \<longleftrightarrow>
    (\<exists>fs pts. ct = concat fs \<and> out = concat pts
       \<and> list_all2 (frame_of P dek (effective_chunk_size cs + tag_len)) fs pts)"
proof -
  have d: "decrypt_object_pattern_c P ct dek cs
      = open_frames P dek (effective_chunk_size cs + tag_len) (length ct) 0 ct"
    using assms by (simp add: decrypt_object_pattern_c_def Let_def not_le [symmetric])
  show ?thesis
    unfolding d using open_frames_split [OF assms(2), of P dek "length ct" 0 ct out]
    by (auto intro!: open_frames_ok [OF _ assms(2)])
qed

lemma div_ceil_step: "0 < n \<Longrightarrow> 0 < (l :: nat) \<Longrightarrow> (l + n - 1) div n = Suc ((l - n + n - 1) div n)"
proof -
  assume n: "0 < n" and l: "0 < l"
  have a: "l + n - 1 = (l - 1) + n" using l by simp
  have b: "((l - 1) + n) div n = Suc ((l - 1) div n)" by (subst div_add_self2) (use n in simp_all)
  show ?thesis
  proof (cases "n \<le> l")
    case True
    then have "l - n + n = l" by simp
    with a b show ?thesis by simp
  next
    case False
    then have "(l - 1) div n = 0" "(l - n + n - 1) div n = 0" using n by simp_all
    with a b show ?thesis by simp
  qed
qed

lemma seal_chunks_frames:
  assumes nonce: "\<And>i. \<exists>n. derive_convergent_nonce P dek i 24 = Inr n \<and> length n = 24"
    and aead: "\<And>n pt. \<exists>ct. pr_seal P dek n pt [] = Some ct \<and> length ct = length pt + 16 \<and> pr_open P dek n ct [] = Some pt"
    and cs: "0 < cs" "cs + tag_len < 2 ^ 32"
  shows "\<exists>fs pts. seal_chunks P dek cs i rest = Inr (concat fs) \<and> list_all2 (frame_of P dek (cs + tag_len)) fs pts
     \<and> concat pts = rest \<and> length (concat fs) = length rest + 44 * ((length rest + cs - 1) div cs)"
proof (induction "length rest" arbitrary: i rest rule: less_induct)
  case less
  show ?case
  proof (cases "rest = []")
    case True
    with cs show ?thesis by (subst seal_chunks.simps) (auto intro!: exI [of _ "[]"])
  next
    case False
    let ?c = "take cs rest"
    from nonce [of i] obtain n where n: "derive_convergent_nonce P dek i 24 = Inr n" "length n = 24" by blast
    from aead [of n ?c] obtain ct where ct: "pr_seal P dek n ?c [] = Some ct" "length ct = length ?c + 16"
      "pr_open P dek n ct [] = Some ?c" by blast
    let ?f = "n @ be_bytes 4 (length ct) @ ct"
    have small: "length ct \<le> cs + tag_len" using ct(2) by (simp add: tag_len_def)
    have sf: "seal_frame P dek i ?c = Inr ?f"
      using n ct cs small by (simp add: seal_frame_def)
    have fr: "frame_of P dek (cs + tag_len) ?f ?c"
      by (rule frame_ofI) (use n ct small in auto)
    from False cs have "length (drop cs rest) < length rest" by simp
    from less [OF this, of "i + 1"] obtain fs pts where
      r: "seal_chunks P dek cs (i + 1) (drop cs rest) = Inr (concat fs)" "list_all2 (frame_of P dek (cs + tag_len)) fs pts"
      "concat pts = drop cs rest"
      "length (concat fs) = length (drop cs rest) + 44 * ((length (drop cs rest) + cs - 1) div cs)" by blast
    have "seal_chunks P dek cs i rest = Inr (concat (?f # fs))"
      using False cs sf r(1) by (subst seal_chunks.simps) simp
    moreover have "length (concat (?f # fs)) = length rest + 44 * ((length rest + cs - 1) div cs)"
      using r(4) n(2) ct(2) div_ceil_step [OF cs(1), of "length rest"] False by simp
    ultimately show ?thesis
      using fr r(2,3) by (intro exI [of _ "?f # fs"] exI [of _ "?c # pts"]) simp
  qed
qed

section \<open>Properties\<close>

text \<open>
  C28: Pattern C is lossless: when the nonces can be derived and the AEAD opens what it sealed (adding a 16-byte
  tag), encrypting an object succeeds, decrypting the stream gives the object back, and the stream is
  longer by exactly 44 bytes per chunk.
\<close>

theorem pattern_c_roundtrip:
  assumes "length dek = 32" and "effective_chunk_size cs + tag_len < 2 ^ 32"
    and "\<And>i. \<exists>n. derive_convergent_nonce P dek i 24 = Inr n \<and> length n = 24"
    and "\<And>n pt. \<exists>ct. pr_seal P dek n pt [] = Some ct \<and> length ct = length pt + 16 \<and> pr_open P dek n ct [] = Some pt"
  shows "\<exists>ct. encrypt_object_pattern_c P plaintext dek cs = Inr ct
    \<and> decrypt_object_pattern_c P ct dek cs = Inr plaintext
    \<and> length ct = length plaintext
        + 44 * ((length plaintext + effective_chunk_size cs - 1) div effective_chunk_size cs)"
proof -
  have "0 < effective_chunk_size cs" by (simp add: effective_chunk_size_def default_chunk_size_def)
  from seal_chunks_frames [OF assms(3,4) this assms(2), of 0 plaintext] obtain fs pts where
    "encrypt_object_pattern_c P plaintext dek cs = Inr (concat fs)" "concat pts = plaintext"
    "list_all2 (frame_of P dek (effective_chunk_size cs + tag_len)) fs pts"
    "length (concat fs) = length plaintext
       + 44 * ((length plaintext + effective_chunk_size cs - 1) div effective_chunk_size cs)"
    by (auto simp: encrypt_object_pattern_c_def assms(1))
  then show ?thesis using decrypt_frames [OF assms(1,2)] by blast
qed

definition toy_cipher :: prims where
  "toy_cipher = toy_prims\<lparr>pr_hkdf := \<lambda>_ _ _ n. Inr (replicate n 7)\<rparr>"

theorem pattern_c_roundtrip_witness:
  "\<exists>ct. encrypt_object_pattern_c toy_cipher [1, 2, 3] (replicate 32 5) 2 = Inr ct
     \<and> decrypt_object_pattern_c toy_cipher ct (replicate 32 5) 2 = Inr [1, 2, 3]"
proof -
  have "\<exists>ct. encrypt_object_pattern_c toy_cipher [1, 2, 3] (replicate 32 5) 2 = Inr ct
    \<and> decrypt_object_pattern_c toy_cipher ct (replicate 32 5) 2 = Inr [1, 2, 3]
    \<and> length ct = length [1 :: u8, 2, 3]
        + 44 * ((length [1 :: u8, 2, 3] + effective_chunk_size 2 - 1) div effective_chunk_size 2)"
    by (rule pattern_c_roundtrip)
      (simp_all add: toy_cipher_def toy_prims_def effective_chunk_size_def tag_len_def derive_convergent_nonce_def)
  then show ?thesis by blast
qed

text \<open>
  the reader accepts exactly the concatenations of well-formed frames that open under the key, each no longer
  than a sealed chunk, and returns the texts in the order of the frames: no trailing or truncated bytes pass.
\<close>

theorem pattern_c_accepts_frames:
  assumes "length dek = 32" and "effective_chunk_size cs + tag_len < 2 ^ 32"
  shows "decrypt_object_pattern_c P ct dek cs = Inr out \<longleftrightarrow>
    (\<exists>fs pts. ct = concat fs \<and> out = concat pts
       \<and> list_all2 (frame_of P dek (effective_chunk_size cs + tag_len)) fs pts)"
  by (rule decrypt_frames [OF assms])

theorem pattern_c_accepts_frames_witness:
  "decrypt_object_pattern_c toy_cipher [] (replicate 32 5) 2 = Inr []"
proof -
  have "effective_chunk_size 2 + tag_len < 2 ^ 32" by (simp add: effective_chunk_size_def tag_len_def)
  from pattern_c_accepts_frames [OF _ this, of "replicate 32 5" toy_cipher "[]" "[]"] show ?thesis
    by (auto intro!: exI [of _ "[]"])
qed

text \<open>
  nothing ties a frame to its place: streams that decrypt can be joined in any order and still decrypt, so
  frames that are swapped, repeated or cut off at a frame boundary pass without an error.
\<close>

theorem pattern_c_order_unbound:
  assumes "effective_chunk_size cs + tag_len < 2 ^ 32"
    and "decrypt_object_pattern_c P a dek cs = Inr p" and "decrypt_object_pattern_c P b dek cs = Inr q"
  shows "decrypt_object_pattern_c P (b @ a) dek cs = Inr (q @ p)"
proof -
  from assms(2) have k: "length dek = 32" by (auto simp: decrypt_object_pattern_c_def split: if_splits)
  from assms(2,3) obtain fs pts gs qts where
    "a = concat fs" "p = concat pts" "b = concat gs" "q = concat qts"
    "list_all2 (frame_of P dek (effective_chunk_size cs + tag_len)) (gs @ fs) (qts @ pts)"
    unfolding decrypt_frames [OF k assms(1)] by (metis list_all2_appendI)
  then show ?thesis unfolding decrypt_frames [OF k assms(1)] by (metis concat_append)
qed

theorem pattern_c_order_unbound_witness:
  "\<exists>a b. decrypt_object_pattern_c toy_cipher (b @ a) (replicate 32 5) 2 = Inr [3, 1, 2]"
proof -
  let ?m = "effective_chunk_size 2 + tag_len"
  have m: "?m < 2 ^ 32" by (simp add: effective_chunk_size_def tag_len_def)
  have f: "frame_of toy_cipher (replicate 32 5) ?m (replicate 24 7 @ be_bytes 4 (length (pt @ replicate 16 0)) @ pt @ replicate 16 0) pt"
    if "length pt \<le> 2" for pt :: bytes
    by (rule frame_ofI) (use that in \<open>simp_all add: toy_cipher_def toy_prims_def effective_chunk_size_def tag_len_def\<close>)
  have d: "decrypt_object_pattern_c toy_cipher
      (replicate 24 7 @ be_bytes 4 (length (pt @ replicate 16 0)) @ pt @ replicate 16 0) (replicate 32 5) 2 = Inr pt"
    if "length pt \<le> 2" for pt
    using decrypt_frames [OF _ m, of "replicate 32 5" toy_cipher] f [OF that]
    by (auto intro!: exI [of _ "[_]"])
  from pattern_c_order_unbound [OF m d [of "[1, 2]"] d [of "[3]"]] show ?thesis by auto
qed

end
