(* ===== verification/Manifests.thy ===== *)
theory Manifests
  imports Search ShardCache Transport Convergent
begin

text \<open>
  The crate-wide error (\<open>lib.rs\<close>), the CBOR facade (\<open>cbor.rs\<close>), the wire formats of segments and
  manifests (\<open>formats/mod.rs\<close>, \<open>formats/manifest.rs\<close>), hybrid signing (\<open>crypto/signing.rs\<close>) and the chain
  check of \<open>restore/manifest_verifier.rs\<close>. Serialization by \<open>ciborium\<close> and the signature schemes are
  parameters.
\<close>

section \<open>Errors\<close>

text \<open>
  Where the code stores only the rendered text of an error (\<open>e.to_string().into()\<close>), the model keeps the
  error that was rendered.
\<close>

datatype error_text =
    OfTransport transport_error
  | OfCodec string
  | OfSql sql_error
  | OfTransition transition_error

datatype core_error =
    CCrypto crypto_error
  | CStorage storage_error
  | CStorageText error_text
  | CSearch search_error
  | CMessage processor_error
  | CTransport transport_error
  | CNotImplemented string
  | CSegmentFailed string core_error

section \<open>Codecs\<close>

text \<open>
  \<open>cbor::to_vec\<close> and \<open>cbor::from_slice\<close>: the writer and the reader of \<open>ciborium\<close> for one type; the reader
  also tells how many bytes it consumed, and the facade insists on all of them.
\<close>

record 'a codec =
  co_write :: "'a \<Rightarrow> string + bytes"
  co_read :: "bytes \<Rightarrow> string + 'a \<times> nat"

definition cbor_to_vec :: "'a codec \<Rightarrow> 'a \<Rightarrow> string + bytes" where
  "cbor_to_vec C v = co_write C v"

definition cbor_from_slice :: "'a codec \<Rightarrow> bytes \<Rightarrow> string + 'a" where
  "cbor_from_slice C bs =
     (case co_read C bs of
        Inl e \<Rightarrow> Inl e
      | Inr (v, consumed) \<Rightarrow>
          if consumed < length bs
          then Inl (''trailing bytes after CBOR value: '' @ dec_nat (length bs - consumed)
                 @ '' byte(s) unread at offset '' @ dec_nat consumed)
          else Inr v)"

definition codec_ok :: "'a codec \<Rightarrow> bool" where
  "codec_ok C \<longleftrightarrow> (\<forall>v bs rest. co_write C v = Inr bs \<longrightarrow> co_read C (bs @ rest) = Inr (v, length bs))"

lemma codec_read_back:
  assumes "codec_ok C" and "cbor_to_vec C v = Inr bs"
  shows "cbor_from_slice C bs = Inr v"
proof -
  from assms have "co_read C (bs @ []) = Inr (v, length bs)"
    unfolding codec_ok_def cbor_to_vec_def by blast
  then show ?thesis by (simp add: cbor_from_slice_def)
qed

lemma codec_write_inj: "codec_ok C \<Longrightarrow> cbor_to_vec C v = Inr bs \<Longrightarrow> cbor_to_vec C w = Inr bs \<Longrightarrow> v = w"
  by (metis Inr_inject codec_read_back)

section \<open>Segments\<close>

datatype segment_type =
    Events
  | MessageDelta
  | TimelineSkeleton
  | MediaKeyDelta
  | SearchTextIndex
  | SearchVectorIndex
  | MediaIndex
  | Checkpoint

definition is_backup_segment :: "segment_type \<Rightarrow> bool" where
  "is_backup_segment t \<longleftrightarrow> t = Events"

definition is_archive_segment :: "segment_type \<Rightarrow> bool" where
  "is_archive_segment t \<longleftrightarrow> \<not> is_backup_segment t"

record segment_frame =
  sf_magic :: bytes
  sf_version :: u16
  sf_id :: uuid
  sf_type :: segment_type
  sf_seq_from :: u64
  sf_seq_to :: u64
  sf_nonce :: bytes
  sf_aad_hash :: bytes
  sf_ciphertext :: bytes
  sf_sha256 :: bytes

definition backup_segment_magic :: bytes where
  "backup_segment_magic = str_bytes ''KCHAT_BAK_V1''"

definition archive_segment_magic :: bytes where
  "archive_segment_magic = str_bytes ''KCHAT_ARC_V1''"

definition frame_version :: u16 where
  "frame_version = 1"

definition backup_frame_header_ok :: "segment_frame \<Rightarrow> bool" where
  "backup_frame_header_ok f \<longleftrightarrow> sf_magic f = backup_segment_magic \<and> sf_version f = frame_version"

definition archive_frame_header_ok :: "segment_frame \<Rightarrow> bool" where
  "archive_frame_header_ok f \<longleftrightarrow> sf_magic f = archive_segment_magic \<and> sf_version f = frame_version"

section \<open>Manifests\<close>

record segment_ref =
  sr_segment :: uuid
  sr_type :: segment_type
  sr_sha256 :: bytes
  sr_size :: u64

record shard_ref =
  hr_shard :: uuid
  hr_index :: index_type
  hr_sha256 :: bytes
  hr_bucket :: string

record media_ref =
  mr_asset :: uuid
  mr_blob :: uuid
  mr_root :: bytes
  mr_wrapped_key :: bytes

record tombstone =
  to_kind :: string
  to_id :: string
  to_deleted_ms :: int

record wrapped_epoch_key =
  we_epoch :: string
  we_key :: bytes

record backup_manifest =
  bm_magic :: string
  bm_version :: nat
  bm_id :: uuid
  bm_generation :: u64
  bm_previous :: bytes
  bm_segments :: "segment_ref list"
  bm_shards :: "shard_ref list"
  bm_media :: "media_ref list"
  bm_tombstones :: "tombstone list"
  bm_merkle_root :: bytes
  bm_signature :: bytes
  bm_pqc_signature :: bytes

record archive_manifest =
  am_magic :: string
  am_version :: nat
  am_id :: uuid
  am_generation :: u64
  am_previous :: bytes
  am_segments :: "segment_ref list"
  am_shards :: "shard_ref list"
  am_media :: "media_ref list"
  am_tombstones :: "tombstone list"
  am_wrapped_keys :: "wrapped_epoch_key list"
  am_merkle_root :: bytes
  am_signature :: bytes
  am_pqc_signature :: bytes

definition backup_manifest_magic :: string where
  "backup_manifest_magic = ''KCHAT_BAK_MANIFEST_V2''"

definition archive_manifest_magic :: string where
  "archive_manifest_magic = ''KCHAT_ARC_MANIFEST_V2''"

definition manifest_version :: nat where
  "manifest_version = 2"

definition genesis_previous_hash :: bytes where
  "genesis_previous_hash = replicate 32 0"

definition backup_manifest_header_ok :: "backup_manifest \<Rightarrow> bool" where
  "backup_manifest_header_ok m =
     (if bm_magic m \<noteq> backup_manifest_magic \<or> bm_version m \<noteq> manifest_version then False
      else if bm_generation m = 0 \<and> bm_previous m \<noteq> genesis_previous_hash then False
      else True)"

definition archive_manifest_header_ok :: "archive_manifest \<Rightarrow> bool" where
  "archive_manifest_header_ok m =
     (if am_magic m \<noteq> archive_manifest_magic \<or> am_version m \<noteq> manifest_version then False
      else if am_generation m = 0 \<and> am_previous m \<noteq> genesis_previous_hash then False
      else True)"

section \<open>Hybrid signatures\<close>

record signing_key =
  sk_ed25519 :: "bytes \<Rightarrow> bytes"
  sk_ml_dsa :: "bytes \<Rightarrow> bytes option"

record verifying_key =
  vk_ed25519 :: "bytes \<Rightarrow> bytes \<Rightarrow> bool"
  vk_ml_decodes :: "bytes \<Rightarrow> bool"
  vk_ml_dsa :: "bytes \<Rightarrow> bytes \<Rightarrow> bool"

definition signature_length :: nat where
  "signature_length = 64"

definition ml_dsa_signature_len :: nat where
  "ml_dsa_signature_len = 3309"

definition sign_payload :: "signing_key \<Rightarrow> bytes \<Rightarrow> crypto_error + bytes \<times> bytes" where
  "sign_payload k payload =
     (case sk_ml_dsa k payload of
        None \<Rightarrow> Inl (Signature ''ml-dsa-65 sign failed'')
      | Some ml \<Rightarrow> Inr (sk_ed25519 k payload, ml))"

definition verify_ed25519 :: "verifying_key \<Rightarrow> bytes \<Rightarrow> bytes \<Rightarrow> crypto_error + unit" where
  "verify_ed25519 k payload sig =
     (if length sig \<noteq> signature_length
      then Inl (Frame (''manifest: ed25519 signature must be 64 bytes, got '' @ dec_nat (length sig)))
      else if vk_ed25519 k payload sig then Inr ()
      else Inl (Signature ''manifest: ed25519 verify failed''))"

definition decode_ml_dsa_signature :: "verifying_key \<Rightarrow> bytes \<Rightarrow> crypto_error + bytes" where
  "decode_ml_dsa_signature k sig =
     (if length sig \<noteq> ml_dsa_signature_len
      then Inl (Frame (''manifest: ml-dsa-65 signature must be 3309 bytes, got '' @ dec_nat (length sig)))
      else if vk_ml_decodes k sig then Inr sig
      else Inl (Frame ''manifest: ml-dsa-65 signature decode failed''))"

definition verify_ml_dsa :: "verifying_key \<Rightarrow> bytes \<Rightarrow> bytes \<Rightarrow> crypto_error + unit" where
  "verify_ml_dsa k payload sig =
     (case decode_ml_dsa_signature k sig of
        Inl e \<Rightarrow> Inl e
      | Inr s \<Rightarrow> if vk_ml_dsa k payload s then Inr () else Inl (Signature ''manifest: ml-dsa-65 verify failed''))"

datatype hybrid_failure = FailEd25519 | FailMlDsa

definition verify_payload :: "verifying_key \<Rightarrow> bytes \<Rightarrow> bytes \<Rightarrow> bytes \<Rightarrow> hybrid_failure + unit" where
  "verify_payload k payload edsig pqc =
     (if \<not> is_ok (verify_ed25519 k payload edsig) then Inl FailEd25519
      else if \<not> is_ok (verify_ml_dsa k payload pqc) then Inl FailMlDsa
      else Inr ())"

text \<open>The trait \<open>Manifest\<close>: the accessors of the two signatures.\<close>

record 'm manifest_ops =
  mo_set_sig :: "bytes \<Rightarrow> 'm \<Rightarrow> 'm"
  mo_sig :: "'m \<Rightarrow> bytes"
  mo_set_pqc :: "bytes \<Rightarrow> 'm \<Rightarrow> 'm"
  mo_pqc :: "'m \<Rightarrow> bytes"

definition backup_ops :: "backup_manifest manifest_ops" where
  "backup_ops = \<lparr>mo_set_sig = (\<lambda>s m. m\<lparr>bm_signature := s\<rparr>), mo_sig = bm_signature,
     mo_set_pqc = (\<lambda>s m. m\<lparr>bm_pqc_signature := s\<rparr>), mo_pqc = bm_pqc_signature\<rparr>"

definition archive_ops :: "archive_manifest manifest_ops" where
  "archive_ops = \<lparr>mo_set_sig = (\<lambda>s m. m\<lparr>am_signature := s\<rparr>), mo_sig = am_signature,
     mo_set_pqc = (\<lambda>s m. m\<lparr>am_pqc_signature := s\<rparr>), mo_pqc = am_pqc_signature\<rparr>"

definition unsigned_form :: "'m manifest_ops \<Rightarrow> 'm \<Rightarrow> 'm" where
  "unsigned_form M m = mo_set_pqc M [] (mo_set_sig M [] m)"

definition canonical_signing_payload :: "'m manifest_ops \<Rightarrow> 'm codec \<Rightarrow> 'm \<Rightarrow> crypto_error + bytes" where
  "canonical_signing_payload M C m =
     (case cbor_to_vec C (unsigned_form M m) of
        Inl _ \<Rightarrow> Inl (Frame ''manifest: canonical CBOR encode failed'')
      | Inr b \<Rightarrow> Inr b)"

definition sign_with :: "'m manifest_ops \<Rightarrow> 'm codec \<Rightarrow> signing_key \<Rightarrow> 'm \<Rightarrow> crypto_error + 'm" where
  "sign_with M C k m =
     (case canonical_signing_payload M C m of
        Inl e \<Rightarrow> Inl e
      | Inr payload \<Rightarrow>
          (case sign_payload k payload of
             Inl e \<Rightarrow> Inl e
           | Inr (edsig, ml) \<Rightarrow> Inr (mo_set_pqc M ml (mo_set_sig M edsig m))))"

definition verify_with :: "'m manifest_ops \<Rightarrow> 'm codec \<Rightarrow> verifying_key \<Rightarrow> 'm \<Rightarrow> crypto_error + unit" where
  "verify_with M C k m =
     (if length (mo_sig M m) \<noteq> signature_length
      then Inl (Frame (''manifest: ed25519 signature must be 64 bytes, got '' @ dec_nat (length (mo_sig M m))))
      else if length (mo_pqc M m) \<noteq> ml_dsa_signature_len
      then Inl (Frame (''manifest: ml-dsa-65 signature must be 3309 bytes, got '' @ dec_nat (length (mo_pqc M m))))
      else case canonical_signing_payload M C m of
             Inl e \<Rightarrow> Inl e
           | Inr payload \<Rightarrow>
               (case verify_payload k payload (mo_sig M m) (mo_pqc M m) of
                  Inl FailEd25519 \<Rightarrow> Inl (Signature ''manifest: ed25519 verify failed'')
                | Inl FailMlDsa \<Rightarrow> Inl (Signature ''manifest: ml-dsa-65 verify failed'')
                | Inr u \<Rightarrow> Inr u))"

definition sign_backup_manifest :: "backup_manifest codec \<Rightarrow> signing_key \<Rightarrow> backup_manifest \<Rightarrow> crypto_error + backup_manifest" where
  "sign_backup_manifest = sign_with backup_ops"

definition verify_backup_manifest :: "backup_manifest codec \<Rightarrow> verifying_key \<Rightarrow> backup_manifest \<Rightarrow> crypto_error + unit" where
  "verify_backup_manifest = verify_with backup_ops"

definition sign_archive_manifest :: "archive_manifest codec \<Rightarrow> signing_key \<Rightarrow> archive_manifest \<Rightarrow> crypto_error + archive_manifest" where
  "sign_archive_manifest = sign_with archive_ops"

definition verify_archive_manifest :: "archive_manifest codec \<Rightarrow> verifying_key \<Rightarrow> archive_manifest \<Rightarrow> crypto_error + unit" where
  "verify_archive_manifest = verify_with archive_ops"

section \<open>Building and chaining\<close>

text \<open>\<open>build_manifest\<close> of the archive and of the backup engine are the same function; the wrapped keys are dropped.\<close>

definition build_manifest ::
  "uuid \<Rightarrow> u64 \<Rightarrow> bytes \<Rightarrow> segment_ref list \<Rightarrow> wrapped_epoch_key list \<Rightarrow> backup_manifest" where
  "build_manifest fresh_id generation previous segments wrapped =
     \<lparr>bm_magic = backup_manifest_magic, bm_version = manifest_version, bm_id = fresh_id, bm_generation = generation,
      bm_previous = previous, bm_segments = segments, bm_shards = [], bm_media = [], bm_tombstones = [],
      bm_merkle_root = replicate 32 0, bm_signature = [], bm_pqc_signature = []\<rparr>"

definition manifest_hash :: "prims \<Rightarrow> backup_manifest codec \<Rightarrow> backup_manifest \<Rightarrow> core_error + bytes" where
  "manifest_hash P C m =
     (case cbor_to_vec C m of Inl e \<Rightarrow> Inl (CStorageText (OfCodec e)) | Inr d \<Rightarrow> Inr (content_hash P d))"

text \<open>The loop of \<open>verify_chain\<close>: every manifest names the hash of the one before it.\<close>

fun check_links ::
  "prims \<Rightarrow> backup_manifest codec \<Rightarrow> backup_manifest list \<Rightarrow> core_error + unit" where
  "check_links P C (m # n # ms) =
     (case manifest_hash P C m of
        Inl e \<Rightarrow> Inl e
      | Inr h \<Rightarrow>
          if bm_previous n \<noteq> h
          then Inl (CStorage (Custom (''manifest chain broken at generation '' @ dec_nat (unat (bm_generation n)))))
          else check_links P C (n # ms))"
| "check_links P C ms = Inr ()"

definition verify_chain :: "prims \<Rightarrow> backup_manifest codec \<Rightarrow> backup_manifest list \<Rightarrow> core_error + unit" where
  "verify_chain P C ms =
     (case ms of
        [] \<Rightarrow> Inr ()
      | m # _ \<Rightarrow>
          if bm_generation m \<noteq> 0 \<and> bm_previous m \<noteq> replicate 32 0
          then Inl (CStorage (Custom ''first manifest has non-zero previous_manifest_hash''))
          else check_links P C ms)"

section \<open>What the signature code needs of a manifest type\<close>

locale signable =
  fixes M :: "'m manifest_ops"
  assumes sig_of_signed: "mo_sig M (mo_set_pqc M p (mo_set_sig M s m)) = s"
    and pqc_of_signed: "mo_pqc M (mo_set_pqc M p m) = p"
    and unsigned_signed: "unsigned_form M (mo_set_pqc M p (mo_set_sig M s m)) = unsigned_form M m"
begin

lemma payload_signed:
  "canonical_signing_payload M C (mo_set_pqc M p (mo_set_sig M s m)) = canonical_signing_payload M C m"
  by (simp add: canonical_signing_payload_def unsigned_signed)

lemma sign_shape:
  "sign_with M C k m = Inr m' \<Longrightarrow>
     \<exists>payload ml. canonical_signing_payload M C m = Inr payload \<and> sk_ml_dsa k payload = Some ml
       \<and> m' = mo_set_pqc M ml (mo_set_sig M (sk_ed25519 k payload) m)"
  by (auto simp: sign_with_def sign_payload_def split: sum.splits option.splits)

lemma verify_accepts:
  "verify_with M C k m = Inr u \<longleftrightarrow> length (mo_sig M m) = signature_length \<and> length (mo_pqc M m) = ml_dsa_signature_len
     \<and> (\<exists>payload. canonical_signing_payload M C m = Inr payload \<and> vk_ed25519 k payload (mo_sig M m)
          \<and> vk_ml_decodes k (mo_pqc M m) \<and> vk_ml_dsa k payload (mo_pqc M m))"
  by (auto simp: verify_with_def verify_payload_def verify_ed25519_def verify_ml_dsa_def decode_ml_dsa_signature_def
      split: sum.splits hybrid_failure.splits)

end

text \<open>A key pair: what the one part signs, the other accepts.\<close>

definition key_pair :: "signing_key \<Rightarrow> verifying_key \<Rightarrow> bool" where
  "key_pair sk vk \<longleftrightarrow>
     (\<forall>p. length (sk_ed25519 sk p) = signature_length \<and> vk_ed25519 vk p (sk_ed25519 sk p))
     \<and> (\<forall>p s. sk_ml_dsa sk p = Some s \<longrightarrow> length s = ml_dsa_signature_len \<and> vk_ml_decodes vk s \<and> vk_ml_dsa vk p s)"

context signable
begin

lemma signed_verifies:
  assumes "key_pair sk vk" and "sign_with M C sk m = Inr m'"
  shows "verify_with M C vk m' = Inr () \<and> unsigned_form M m' = unsigned_form M m"
proof -
  from sign_shape [OF assms(2)] obtain payload ml where
    p: "canonical_signing_payload M C m = Inr payload" "sk_ml_dsa sk payload = Some ml"
    and m': "m' = mo_set_pqc M ml (mo_set_sig M (sk_ed25519 sk payload) m)" by blast
  from assms(1) p(2) have "length (sk_ed25519 sk payload) = signature_length"
    "vk_ed25519 vk payload (sk_ed25519 sk payload)" "length ml = ml_dsa_signature_len" "vk_ml_decodes vk ml"
    "vk_ml_dsa vk payload ml" by (auto simp: key_pair_def)
  with p(1) show ?thesis
    by (simp add: verify_accepts m' payload_signed sig_of_signed pqc_of_signed unsigned_signed)
qed

lemma verified_authentic:
  assumes "codec_ok C" and "(\<forall>p s. vk_ed25519 vk p s \<longrightarrow> p \<in> S) \<or> (\<forall>p s. vk_ml_dsa vk p s \<longrightarrow> p \<in> S)"
    and "S = {b. \<exists>a \<in> A. canonical_signing_payload M C a = Inr b}" and "verify_with M C vk m = Inr ()"
  shows "\<exists>a \<in> A. unsigned_form M m = unsigned_form M a"
proof -
  from assms(4) obtain payload where p: "canonical_signing_payload M C m = Inr payload"
    "vk_ed25519 vk payload (mo_sig M m)" "vk_ml_dsa vk payload (mo_pqc M m)"
    unfolding verify_accepts by blast
  with assms(2) have "payload \<in> S" by blast
  with assms(3) obtain a where a: "a \<in> A" "canonical_signing_payload M C a = Inr payload" by blast
  with p(1) have "cbor_to_vec C (unsigned_form M m) = Inr payload" "cbor_to_vec C (unsigned_form M a) = Inr payload"
    by (simp_all add: canonical_signing_payload_def split: sum.splits)
  with codec_write_inj [OF assms(1)] a(1) show ?thesis by blast
qed

end

interpretation backup_sig: signable backup_ops
  by unfold_locales (simp_all add: backup_ops_def unsigned_form_def)

interpretation archive_sig: signable archive_ops
  by unfold_locales (simp_all add: archive_ops_def unsigned_form_def)

section \<open>The chain\<close>

lemma check_links_snoc:
  "check_links P C (ms @ [a, b]) = Inr () \<longleftrightarrow>
     check_links P C (ms @ [a]) = Inr () \<and> manifest_hash P C a = Inr (bm_previous b)"
proof (induction ms)
  case (Cons m ms)
  then show ?case by (cases ms) (auto split: sum.splits)
qed (auto split: sum.splits)

lemma verify_chain_links: "verify_chain P C ms = Inr () \<Longrightarrow> check_links P C ms = Inr ()"
  by (auto simp: verify_chain_def split: list.splits if_splits)

text \<open>Two different encodings of manifests with one hash.\<close>

definition hash_collision :: "prims \<Rightarrow> backup_manifest codec \<Rightarrow> backup_manifest \<Rightarrow> backup_manifest \<Rightarrow> bool" where
  "hash_collision P C a b \<longleftrightarrow> (\<exists>x y. cbor_to_vec C a = Inr x \<and> cbor_to_vec C b = Inr y \<and> x \<noteq> y \<and> pr_hash P x = pr_hash P y)"

lemma manifest_hash_same:
  assumes "codec_ok C" and "manifest_hash P C a = Inr h" and "manifest_hash P C b = Inr h"
  shows "a = b \<or> hash_collision P C a b"
proof -
  from assms(2,3) obtain x y where xy: "cbor_to_vec C a = Inr x" "cbor_to_vec C b = Inr y" "pr_hash P x = h" "pr_hash P y = h"
    by (auto simp: manifest_hash_def content_hash_def split: sum.splits)
  then show ?thesis using codec_write_inj [OF assms(1)] unfolding hash_collision_def by metis
qed

lemma links_determined:
  assumes "codec_ok C"
  shows "check_links P C (ms @ [m]) = Inr () \<Longrightarrow> check_links P C (ns @ [m]) = Inr () \<Longrightarrow>
    suffix ms ns \<or> suffix ns ms \<or> (\<exists>a \<in> set ms. \<exists>b \<in> set ns. hash_collision P C a b)"
proof (induction ms arbitrary: ns m rule: rev_induct)
  case (snoc a ms)
  show ?case
  proof (cases ns rule: rev_cases)
    case (snoc ns' b)
    from snoc.prems(1) have a: "check_links P C (ms @ [a]) = Inr ()" "manifest_hash P C a = Inr (bm_previous m)"
      using check_links_snoc [of P C ms a m] by simp_all
    from snoc.prems(2) snoc have b: "check_links P C (ns' @ [b]) = Inr ()" "manifest_hash P C b = Inr (bm_previous m)"
      using check_links_snoc [of P C ns' b m] by simp_all
    from manifest_hash_same [OF assms a(2) b(2)] show ?thesis
    proof
      assume "a = b"
      with snoc.IH [OF a(1), of ns'] b(1) snoc show ?thesis by auto
    qed (simp add: snoc)
  qed simp
qed simp

section \<open>Examples\<close>

text \<open>A codec that writes a manifest as the byte of its generation, and one manifest; the hash is the identity.\<close>

definition sample_ref :: segment_ref where
  "sample_ref = \<lparr>sr_segment = ''s'', sr_type = Events, sr_sha256 = replicate 32 0, sr_size = 0\<rparr>"

definition sample_manifest :: backup_manifest where
  "sample_manifest = build_manifest ''m'' 0 genesis_previous_hash [sample_ref] []"

definition toy_codec :: "'a \<Rightarrow> 'a codec" where
  "toy_codec v = \<lparr>co_write = (\<lambda>w. if w = v then Inr [1] else Inl ''unsupported''),
     co_read = (\<lambda>bs. case bs of [] \<Rightarrow> Inl ''eof'' | _ \<Rightarrow> Inr (v, 1))\<rparr>"

lemma toy_codec_ok: "codec_ok (toy_codec v)"
  by (auto simp: codec_ok_def toy_codec_def split: if_splits)

definition toy_signer :: signing_key where
  "toy_signer = \<lparr>sk_ed25519 = (\<lambda>p. replicate 64 0), sk_ml_dsa = (\<lambda>p. Some (replicate 3309 0))\<rparr>"

definition toy_verifier :: verifying_key where
  "toy_verifier = \<lparr>vk_ed25519 = (\<lambda>p s. p = [1]), vk_ml_decodes = (\<lambda>s. True), vk_ml_dsa = (\<lambda>p s. p = [1])\<rparr>"

definition open_verifier :: verifying_key where
  "open_verifier = \<lparr>vk_ed25519 = (\<lambda>p s. True), vk_ml_decodes = (\<lambda>s. True), vk_ml_dsa = (\<lambda>p s. True)\<rparr>"

lemma toy_pair: "key_pair toy_signer open_verifier"
  by (simp add: key_pair_def toy_signer_def open_verifier_def signature_length_def ml_dsa_signature_len_def)

lemma unsigned_sample: "unsigned_form backup_ops sample_manifest = sample_manifest"
  by (simp add: unsigned_form_def backup_ops_def sample_manifest_def build_manifest_def)

section \<open>Properties\<close>

text \<open>
  signing and verifying fit: a manifest of either kind that was signed with a hybrid key verifies under
  the matching key, and signing changes nothing but the two signatures.
\<close>

theorem manifest_sign_verify:
  assumes "key_pair sk vk"
  shows "(sign_backup_manifest C sk m = Inr m' \<longrightarrow>
      verify_backup_manifest C vk m' = Inr () \<and> unsigned_form backup_ops m' = unsigned_form backup_ops m)
    \<and> (sign_archive_manifest D sk n = Inr n' \<longrightarrow>
      verify_archive_manifest D vk n' = Inr () \<and> unsigned_form archive_ops n' = unsigned_form archive_ops n)"
  using backup_sig.signed_verifies [OF assms] archive_sig.signed_verifies [OF assms]
  by (simp add: sign_backup_manifest_def verify_backup_manifest_def sign_archive_manifest_def
      verify_archive_manifest_def)

theorem manifest_sign_verify_witness:
  "\<exists>m'. sign_backup_manifest (toy_codec sample_manifest) toy_signer sample_manifest = Inr m'
     \<and> verify_backup_manifest (toy_codec sample_manifest) open_verifier m' = Inr ()"
proof -
  have "\<exists>m'. sign_backup_manifest (toy_codec sample_manifest) toy_signer sample_manifest = Inr m'"
    by (simp add: sign_backup_manifest_def sign_with_def canonical_signing_payload_def unsigned_sample toy_codec_def
        cbor_to_vec_def sign_payload_def toy_signer_def)
  then show ?thesis using manifest_sign_verify [OF toy_pair] by blast
qed

text \<open>
  C32: hybrid authenticity: as long as one of the two signature schemes is unforgeable (it accepts only payloads
  of manifests that were signed), every backup manifest that verifies has, up to its signatures, the content
  of a manifest that was signed.
\<close>

theorem manifest_authentic:
  assumes "codec_ok C"
    and "(\<forall>p s. vk_ed25519 vk p s \<longrightarrow> p \<in> S) \<or> (\<forall>p s. vk_ml_dsa vk p s \<longrightarrow> p \<in> S)"
    and "S = {b. \<exists>a \<in> endorsed. canonical_signing_payload backup_ops C a = Inr b}"
    and "verify_backup_manifest C vk m = Inr ()"
  shows "\<exists>a \<in> endorsed. unsigned_form backup_ops m = unsigned_form backup_ops a"
  by (rule backup_sig.verified_authentic [OF assms(1,2,3)])
    (use assms(4) in \<open>simp add: verify_backup_manifest_def\<close>)

theorem manifest_authentic_witness:
  "\<exists>a \<in> {sample_manifest}. unsigned_form backup_ops
      (sample_manifest\<lparr>bm_signature := replicate 64 0, bm_pqc_signature := replicate 3309 0\<rparr>) = unsigned_form backup_ops a"
proof (rule manifest_authentic)
  let ?C = "toy_codec sample_manifest"
  let ?m = "sample_manifest\<lparr>bm_signature := replicate 64 0, bm_pqc_signature := replicate 3309 0\<rparr>"
  have p: "canonical_signing_payload backup_ops ?C sample_manifest = Inr [1]"
    by (simp add: canonical_signing_payload_def unsigned_sample toy_codec_def cbor_to_vec_def)
  show "codec_ok ?C" by (rule toy_codec_ok)
  show "(\<forall>p s. vk_ed25519 toy_verifier p s \<longrightarrow> p \<in> {[1]}) \<or> (\<forall>p s. vk_ml_dsa toy_verifier p s \<longrightarrow> p \<in> {[1]})"
    by (simp add: toy_verifier_def)
  show "{[1]} = {b. \<exists>a \<in> {sample_manifest}. canonical_signing_payload backup_ops ?C a = Inr b}"
    using p by auto
  have u: "unsigned_form backup_ops ?m = sample_manifest"
    by (simp add: unsigned_form_def backup_ops_def sample_manifest_def build_manifest_def)
  have q: "canonical_signing_payload backup_ops ?C ?m = Inr [1]"
    using p by (simp add: canonical_signing_payload_def u unsigned_sample)
  show "verify_backup_manifest ?C toy_verifier ?m = Inr ()"
    using q by (simp add: verify_backup_manifest_def backup_sig.verify_accepts)
      (simp add: backup_ops_def signature_length_def ml_dsa_signature_len_def toy_verifier_def)
qed

text \<open>
  C35: the head of a chain fixes its history: two chains that verify and end in the same manifest agree on everything
  before it, as far as the shorter one reaches, or else they exhibit two manifests whose different encodings have the same
  hash.
\<close>

theorem chain_head_determines_history:
  assumes "codec_ok C" and "verify_chain P C (ms @ [m]) = Inr ()" and "verify_chain P C (ns @ [m]) = Inr ()"
  shows "suffix ms ns \<or> suffix ns ms \<or> (\<exists>a \<in> set ms. \<exists>b \<in> set ns. hash_collision P C a b)"
  using links_determined [OF assms(1)] verify_chain_links [OF assms(2)] verify_chain_links [OF assms(3)] by blast

theorem chain_head_determines_history_witness:
  "(let m = sample_manifest\<lparr>bm_previous := [1]\<rparr> in
    verify_chain toy_prims (toy_codec sample_manifest) ([sample_manifest] @ [m]) = Inr ()
    \<and> verify_chain toy_prims (toy_codec sample_manifest) ([] @ [m]) = Inr ())
   \<and> (suffix [sample_manifest] [] \<or> suffix [] [sample_manifest]
     \<or> (\<exists>a \<in> set [sample_manifest]. \<exists>b \<in> set []. hash_collision toy_prims (toy_codec sample_manifest) a b))"
proof -
  let ?m = "sample_manifest\<lparr>bm_previous := [1]\<rparr>"
  have v: "verify_chain toy_prims (toy_codec sample_manifest) ([sample_manifest] @ [?m]) = Inr ()"
    "verify_chain toy_prims (toy_codec sample_manifest) ([] @ [?m]) = Inr ()"
    by (simp_all add: verify_chain_def manifest_hash_def content_hash_def cbor_to_vec_def toy_prims_def toy_codec_def)
      (simp_all add: sample_manifest_def build_manifest_def)
  from chain_head_determines_history [OF toy_codec_ok v] v show ?thesis by (simp only: Let_def)
qed

text \<open>
  the chain check does not look at the first manifest the way its comment says: a chain that starts with a
  generation-0 manifest naming a previous manifest passes, although the manifest's own header check rejects it.
\<close>

theorem chain_accepts_bad_genesis:
  "verify_chain P C [build_manifest i 0 (replicate 32 7) segs []] = Inr ()
   \<and> \<not> backup_manifest_header_ok (build_manifest i 0 (replicate 32 7) segs [])"
proof -
  have "hd (replicate 32 (7 :: u8)) \<noteq> hd (replicate 32 0)" by simp
  then have "replicate 32 (7 :: u8) \<noteq> replicate 32 0" by metis
  then show ?thesis
    by (simp add: verify_chain_def build_manifest_def backup_manifest_header_ok_def genesis_previous_hash_def)
qed

text \<open>
  the manifests the engines build carry no signatures, so under every key they fail to verify, although
  their module describes them as signed; the chain check accepts them.
\<close>

theorem built_manifests_unsigned:
  "verify_backup_manifest C vk (build_manifest i 0 genesis_previous_hash segs keys)
     = Inl (Frame (''manifest: ed25519 signature must be 64 bytes, got '' @ dec_nat 0))
   \<and> verify_chain P C [build_manifest i 0 genesis_previous_hash segs keys] = Inr ()"
  by (simp add: verify_backup_manifest_def verify_with_def backup_ops_def build_manifest_def signature_length_def
      verify_chain_def)

end
