(* ===== verification/Archive.thy ===== *)
theory Archive
  imports Manifests
begin

text \<open>
  The archive engine (\<open>archive/\<close>) and the gateway it talks to, the trait \<open>ChatStorageTransport\<close> of
  \<open>transport/mod.rs\<close>: epoch keys (\<open>epoch_keys.rs\<close>), encrypted segments (\<open>types.rs\<close>, \<open>segment_builder.rs\<close>), the
  event journal, uploads and downloads, and the coordinator that chains the manifests (\<open>coordinator.rs\<close>).
  The gateway acts on a state of any type \<open>'w\<close>. Random nonces and fresh UUIDs are arguments. JSON, zstd and
  the clock are parameters.
\<close>

section \<open>The gateway\<close>

record 'w gateway =
  gw_fetch_messages :: "string \<Rightarrow> bytes option \<Rightarrow> 'w \<Rightarrow> (transport_error + fetch_result) \<times> 'w"
  gw_upload_archive_segment :: "string \<Rightarrow> bytes \<Rightarrow> 'w \<Rightarrow> (transport_error + string) \<times> 'w"
  gw_download_archive_segment :: "string \<Rightarrow> 'w \<Rightarrow> (transport_error + bytes) \<times> 'w"
  gw_fetch_archive_manifests :: "nat \<Rightarrow> 'w \<Rightarrow> (transport_error + bytes list) \<times> 'w"
  gw_upload_archive_manifest :: "bytes \<Rightarrow> 'w \<Rightarrow> (transport_error + unit) \<times> 'w"
  gw_upload_backup_manifest :: "bytes \<Rightarrow> 'w \<Rightarrow> (transport_error + unit) \<times> 'w"
  gw_fetch_backup_manifests :: "nat \<Rightarrow> 'w \<Rightarrow> (transport_error + bytes list) \<times> 'w"
  gw_upload_media_blob :: "string \<Rightarrow> bytes \<Rightarrow> 'w \<Rightarrow> (transport_error + string) \<times> 'w"
  gw_download_backup_segment :: "string \<Rightarrow> 'w \<Rightarrow> (transport_error + bytes) \<times> 'w"
  gw_upload_search_shard :: "string \<Rightarrow> bytes \<Rightarrow> 'w \<Rightarrow> (transport_error + unit) \<times> 'w"
  gw_download_search_shard :: "string \<Rightarrow> 'w \<Rightarrow> (transport_error + bytes) \<times> 'w"
  gw_download_media_blob :: "string \<Rightarrow> 'w \<Rightarrow> (transport_error + bytes) \<times> 'w"

text \<open>\<open>map_err(|e| Error::Storage(e.to_string().into()))\<close> on a call of the transport.\<close>

definition as_storage :: "(transport_error + 'a) \<times> 'w \<Rightarrow> (core_error + 'a) \<times> 'w" where
  "as_storage rw = (case rw of (Inl e, w) \<Rightarrow> (Inl (CStorageText (OfTransport e)), w) | (Inr a, w) \<Rightarrow> (Inr a, w))"

section \<open>Epoch keys\<close>

record epoch_keys =
  ek_root :: bytes
  ek_current :: nat
  ek_wrapped :: "(nat \<times> bytes) list"

definition current_epoch_id :: "nat \<Rightarrow> nat" where
  "current_epoch_id now_secs =
     (let years = now_secs div (365 * 24 * 3600);
          remaining = now_secs mod (365 * 24 * 3600);
          months = remaining div (30 * 24 * 3600)
      in years * 12 + months)"

definition epochs_new :: "prims \<Rightarrow> nat \<Rightarrow> bytes \<Rightarrow> crypto_error + epoch_keys" where
  "epochs_new P now_secs wrapping =
     (case derive_archive_root P wrapping of
        Inl e \<Rightarrow> Inl e
      | Inr root_key \<Rightarrow> Inr \<lparr>ek_root = root_key, ek_current = current_epoch_id now_secs, ek_wrapped = []\<rparr>)"

definition current_epoch_key :: "prims \<Rightarrow> epoch_keys \<Rightarrow> crypto_error + bytes" where
  "current_epoch_key P k = derive_archive_epoch P (ek_root k) (word_of_nat (ek_current k))"

definition ok_opt :: "'e + 'a \<Rightarrow> 'a option" where
  "ok_opt r = (case r of Inl _ \<Rightarrow> None | Inr a \<Rightarrow> Some a)"

definition epoch_key :: "prims \<Rightarrow> nat \<Rightarrow> epoch_keys \<Rightarrow> bytes option" where
  "epoch_key P e k =
     (if e = ek_current k then ok_opt (derive_archive_epoch P (ek_root k) (word_of_nat e))
      else case map_of (ek_wrapped k) e of
             None \<Rightarrow> None
           | Some wrapped \<Rightarrow> ok_opt (unwrap_key P (ek_root k) wrapped))"

definition epochs_rotate :: "prims \<Rightarrow> epoch_keys \<Rightarrow> (core_error + unit) \<times> epoch_keys" where
  "epochs_rotate P k =
     (case current_epoch_key P k of
        Inl e \<Rightarrow> (Inl (CCrypto e), k)
      | Inr old_key \<Rightarrow>
          (case wrap_key P (ek_root k) old_key of
             Inl e \<Rightarrow> (Inl (CCrypto e), k)
           | Inr wrapped \<Rightarrow>
               (Inr (), k\<lparr>ek_wrapped := ek_wrapped k @ [(ek_current k, wrapped)], ek_current := ek_current k + 1\<rparr>)))"

definition prune_old_epochs :: "nat \<Rightarrow> epoch_keys \<Rightarrow> epoch_keys" where
  "prune_old_epochs keep_count k =
     (let keep = max keep_count 1; n = length (ek_wrapped k) in
      if keep < n then k\<lparr>ek_wrapped := drop (n - keep) (ek_wrapped k)\<rparr> else k)"

definition prune_old_epochs_default :: "epoch_keys \<Rightarrow> epoch_keys" where
  "prune_old_epochs_default = prune_old_epochs 12"

section \<open>Segments\<close>

text \<open>UTF-8, which \<open>as_bytes\<close> exposes.\<close>

definition utf8_char :: "uchar \<Rightarrow> bytes" where
  "utf8_char c =
     (if c < 0x80 then [word_of_nat c]
      else if c < 0x800 then [word_of_nat (0xC0 + c div 64), word_of_nat (0x80 + c mod 64)]
      else if c < 0x10000
      then [word_of_nat (0xE0 + c div 4096), word_of_nat (0x80 + c div 64 mod 64), word_of_nat (0x80 + c mod 64)]
      else [word_of_nat (0xF0 + c div 262144), word_of_nat (0x80 + c div 4096 mod 64),
            word_of_nat (0x80 + c div 64 mod 64), word_of_nat (0x80 + c mod 64)])"

definition utf8 :: "ustr \<Rightarrow> bytes" where
  "utf8 s = concat (map utf8_char s)"

datatype entry_kind = EText | EMedia | ESystem | EDeleted

record archive_media_ref =
  ar_asset :: string
  ar_mime :: string
  ar_node :: string
  ar_version :: string
  ar_bytes :: u64

record archive_entry =
  ae_message :: string
  ae_created_ms :: int
  ae_kind :: entry_kind
  ae_body :: bytes
  ae_nonce :: bytes
  ae_media :: "archive_media_ref list"

record archive_payload =
  ap_segment :: string
  ap_conv :: string
  ap_bucket :: string
  ap_epoch :: nat
  ap_entries :: "archive_entry list"

record archive_frame =
  af_nonce :: bytes
  af_ciphertext :: bytes
  af_hash :: bytes
  af_size :: nat

text \<open>\<open>serde_json\<close> for payloads and frames, and zstd; a \<open>string\<close> is the rendered error.\<close>

record archive_codecs =
  ac_payload_write :: "archive_payload \<Rightarrow> string + bytes"
  ac_payload_read :: "bytes \<Rightarrow> string + archive_payload"
  ac_frame_write :: "archive_frame \<Rightarrow> string + bytes"
  ac_frame_read :: "bytes \<Rightarrow> string + archive_frame"
  ac_compress :: "bytes \<Rightarrow> string + bytes"
  ac_decompress :: "bytes \<Rightarrow> string + bytes"

definition coded :: "string + 'a \<Rightarrow> core_error + 'a" where
  "coded r = (case r of Inl e \<Rightarrow> Inl (CStorageText (OfCodec e)) | Inr a \<Rightarrow> Inr a)"

definition ciphered :: "crypto_error + 'a \<Rightarrow> core_error + 'a" where
  "ciphered r = (case r of Inl e \<Rightarrow> Inl (CCrypto e) | Inr a \<Rightarrow> Inr a)"

fun and_then :: "'e + 'a \<Rightarrow> ('a \<Rightarrow> 'e + 'b) \<Rightarrow> 'e + 'b" where
  "and_then (Inl e) f = Inl e"
| "and_then (Inr a) f = f a"

definition compress :: "archive_codecs \<Rightarrow> bytes \<Rightarrow> core_error + bytes" where
  "compress Z d = coded (ac_compress Z d)"

definition decompress :: "archive_codecs \<Rightarrow> bytes \<Rightarrow> core_error + bytes" where
  "decompress Z d = coded (ac_decompress Z d)"

definition encode_payload :: "archive_codecs \<Rightarrow> archive_payload \<Rightarrow> core_error + bytes" where
  "encode_payload Z p = coded (ac_payload_write Z p)"

definition decode_payload :: "archive_codecs \<Rightarrow> bytes \<Rightarrow> core_error + archive_payload" where
  "decode_payload Z d = coded (ac_payload_read Z d)"

definition archive_body_aad :: bytes where
  "archive_body_aad = str_bytes ''chat-storage/archive-body/v1''"

definition archive_segment_aad :: bytes where
  "archive_segment_aad = str_bytes ''chat-storage/archive-segment/v1''"

definition media_ref_of :: "media_descriptor \<Rightarrow> archive_media_ref" where
  "media_ref_of d = \<lparr>ar_asset = md_asset d, ar_mime = md_mime d, ar_node = md_node d, ar_version = md_version d,
     ar_bytes = md_bytes_total d\<rparr>"

definition build_entry :: "prims \<Rightarrow> bytes \<Rightarrow> bytes \<Rightarrow> ingested_message \<Rightarrow> core_error + archive_entry" where
  "build_entry P key nonce msg =
     and_then (ciphered (seal P key nonce (utf8 (case im_text msg of None \<Rightarrow> [] | Some x \<Rightarrow> x)) archive_body_aad))
       (\<lambda>ct. Inr \<lparr>ae_message = im_id msg, ae_created_ms = im_created_ms msg,
          ae_kind = (if im_media msg = [] then EText else EMedia), ae_body = ct, ae_nonce = nonce,
          ae_media = map media_ref_of (im_media msg)\<rparr>)"

text \<open>The loop over the messages; message \<open>i\<close> gets the random nonce \<open>nonce i\<close>.\<close>

fun build_entries :: "prims \<Rightarrow> bytes \<Rightarrow> (nat \<Rightarrow> bytes) \<Rightarrow> nat \<Rightarrow> ingested_message list \<Rightarrow> core_error + archive_entry list" where
  "build_entries P key nonce i [] = Inr []"
| "build_entries P key nonce i (m # ms) =
     and_then (build_entry P key (nonce i) m) (\<lambda>e.
     and_then (build_entries P key nonce (i + 1) ms) (\<lambda>es. Inr (e # es)))"

definition build_segment ::
  "prims \<Rightarrow> archive_codecs \<Rightarrow> string \<Rightarrow> (nat \<Rightarrow> bytes) \<Rightarrow> ingested_message list \<Rightarrow> string \<Rightarrow> string \<Rightarrow> nat \<Rightarrow> bytes \<Rightarrow>
     core_error + archive_frame" where
  "build_segment P Z fresh_id nonce messages conv bucket epoch key =
     and_then (build_entries P key nonce 0 messages) (\<lambda>entries.
     and_then (encode_payload Z \<lparr>ap_segment = fresh_id, ap_conv = conv, ap_bucket = bucket, ap_epoch = epoch,
         ap_entries = entries\<rparr>) (\<lambda>plaintext.
     and_then (compress Z plaintext) (\<lambda>compressed.
     and_then (ciphered (seal P key (nonce (length messages)) compressed archive_segment_aad)) (\<lambda>ct.
     Inr \<lparr>af_nonce = nonce (length messages), af_ciphertext = ct, af_hash = content_hash P plaintext,
          af_size = length plaintext\<rparr>))))"

definition open_segment :: "prims \<Rightarrow> archive_codecs \<Rightarrow> archive_frame \<Rightarrow> bytes \<Rightarrow> core_error + archive_payload" where
  "open_segment P Z frame key =
     and_then (ciphered (open_sealed P key (af_nonce frame) (af_ciphertext frame) archive_segment_aad)) (\<lambda>compressed.
     and_then (decompress Z compressed) (\<lambda>plaintext. decode_payload Z plaintext))"

section \<open>Transfer\<close>

definition upload_segment ::
  "archive_codecs \<Rightarrow> 'w gateway \<Rightarrow> string \<Rightarrow> archive_frame \<Rightarrow> 'w \<Rightarrow> (core_error + string) \<times> 'w" where
  "upload_segment Z G segment frame w =
     (case coded (ac_frame_write Z frame) of
        Inl e \<Rightarrow> (Inl e, w)
      | Inr payload \<Rightarrow> as_storage (gw_upload_archive_segment G segment payload w))"

definition upload_manifest :: "'w gateway \<Rightarrow> bytes \<Rightarrow> 'w \<Rightarrow> (core_error + unit) \<times> 'w" where
  "upload_manifest G manifest w = as_storage (gw_upload_archive_manifest G manifest w)"

definition download_segment ::
  "archive_codecs \<Rightarrow> 'w gateway \<Rightarrow> string \<Rightarrow> 'w \<Rightarrow> (core_error + archive_frame) \<times> 'w" where
  "download_segment Z G segment w =
     (case as_storage (gw_download_archive_segment G segment w) of
        (Inl e, w') \<Rightarrow> (Inl e, w')
      | (Inr d, w') \<Rightarrow> (coded (ac_frame_read Z d), w'))"

definition download_manifests :: "'w gateway \<Rightarrow> nat \<Rightarrow> 'w \<Rightarrow> (core_error + bytes list) \<times> 'w" where
  "download_manifests G after w = as_storage (gw_fetch_archive_manifests G after w)"

section \<open>The coordinator\<close>

datatype archive_event =
    SegmentUploaded string nat nat
  | SegmentDownloaded string
  | SegmentCompacted "string list" string
  | ManifestUploaded u64 nat
  | EpochRotated nat

record archive_coordinator =
  co_epochs :: epoch_keys
  co_journal :: "archive_event list"
  co_pending :: "(string \<times> archive_frame) list"
  co_generation :: u64
  co_prev_hash :: bytes

definition max_pending_segments :: nat where
  "max_pending_segments = 100"

definition archive_new :: "prims \<Rightarrow> nat \<Rightarrow> bytes \<Rightarrow> core_error + archive_coordinator" where
  "archive_new P now_secs wrapping =
     and_then (ciphered (epochs_new P now_secs wrapping)) (\<lambda>k.
       Inr \<lparr>co_epochs = k, co_journal = [], co_pending = [], co_generation = 0, co_prev_hash = replicate 32 0\<rparr>)"

definition archive_record :: "archive_event \<Rightarrow> archive_coordinator \<Rightarrow> archive_coordinator" where
  "archive_record e c = c\<lparr>co_journal := co_journal c @ [e]\<rparr>"

type_synonym ('w, 'a) archive_outcome = "(core_error + 'a) \<times> archive_coordinator \<times> 'w"

definition archive_batch ::
  "prims \<Rightarrow> archive_codecs \<Rightarrow> 'w gateway \<Rightarrow> string \<Rightarrow> string \<Rightarrow> (nat \<Rightarrow> bytes) \<Rightarrow> ingested_message list \<Rightarrow> string \<Rightarrow>
     string \<Rightarrow> archive_coordinator \<Rightarrow> 'w \<Rightarrow> ('w, string) archive_outcome" where
  "archive_batch P Z G inner_id segment_id nonce messages conv bucket c w =
     (let epoch = ek_current (co_epochs c) in
      case and_then (ciphered (current_epoch_key P (co_epochs c))) (\<lambda>key.
             build_segment P Z inner_id nonce messages conv bucket epoch key) of
        Inl e \<Rightarrow> (Inl e, c, w)
      | Inr frame \<Rightarrow>
          (case upload_segment Z G segment_id frame w of
             (Inl e, w') \<Rightarrow> (Inl e, c, w')
           | (Inr uploaded, w') \<Rightarrow>
               let c1 = archive_record (SegmentUploaded uploaded epoch (length messages)) c in
               if max_pending_segments \<le> length (co_pending c1)
               then (Inl (CStorage (Custom (''pending segment cap reached ('' @ dec_nat max_pending_segments
                      @ '') '' @ [CHR 0xE2, CHR 0x80, CHR 0x94] @ '' call finalize_epoch first''))), c1, w')
               else (Inr uploaded, c1\<lparr>co_pending := co_pending c1 @ [(uploaded, frame)]\<rparr>, w')))"

definition pending_ref :: "(string \<Rightarrow> uuid) \<Rightarrow> string \<times> archive_frame \<Rightarrow> segment_ref" where
  "pending_ref parse_or_fresh s =
     (case s of (ident, frame) \<Rightarrow>
       \<lparr>sr_segment = parse_or_fresh ident, sr_type = MessageDelta, sr_sha256 = af_hash frame,
        sr_size = word_of_nat (length (af_ciphertext frame))\<rparr>)"

definition wrapped_refs :: "epoch_keys \<Rightarrow> wrapped_epoch_key list" where
  "wrapped_refs k = map (\<lambda>(e, w). \<lparr>we_epoch = dec_nat e, we_key = w\<rparr>) (ek_wrapped k)"

definition finalize_epoch ::
  "prims \<Rightarrow> backup_manifest codec \<Rightarrow> 'w gateway \<Rightarrow> uuid \<Rightarrow> (string \<Rightarrow> uuid) \<Rightarrow> archive_coordinator \<Rightarrow> 'w \<Rightarrow>
     ('w, u64) archive_outcome" where
  "finalize_epoch P C G fresh_id parse_or_fresh c w =
     (if co_pending c = [] then (Inr (co_generation c), c, w)
      else
        let manifest = build_manifest fresh_id (co_generation c) (co_prev_hash c)
               (map (pending_ref parse_or_fresh) (co_pending c)) (wrapped_refs (co_epochs c)) in
        case coded (cbor_to_vec C manifest) of
          Inl e \<Rightarrow> (Inl e, c, w)
        | Inr manifest_bytes \<Rightarrow>
            (case upload_manifest G manifest_bytes w of
               (Inl e, w') \<Rightarrow> (Inl e, c, w')
             | (Inr _, w') \<Rightarrow>
                 (case manifest_hash P C manifest of
                    Inl e \<Rightarrow> (Inl e, c, w')
                  | Inr h \<Rightarrow>
                      let c1 = archive_record (ManifestUploaded (co_generation c) (length (co_pending c)))
                                 (c\<lparr>co_prev_hash := h\<rparr>);
                          c2 = c1\<lparr>co_pending := [], co_generation := co_generation c + 1\<rparr>
                      in (Inr (co_generation c2), c2, w'))))"

definition maybe_rotate :: "prims \<Rightarrow> nat \<Rightarrow> archive_coordinator \<Rightarrow> (core_error + bool) \<times> archive_coordinator" where
  "maybe_rotate P now_secs c =
     (if ek_current (co_epochs c) < current_epoch_id now_secs
      then (case epochs_rotate P (co_epochs c) of
              (Inl e, k) \<Rightarrow> (Inl e, c\<lparr>co_epochs := k\<rparr>)
            | (Inr _, k) \<Rightarrow> (Inr True, archive_record (EpochRotated (ek_current (co_epochs c))) (c\<lparr>co_epochs := k\<rparr>)))
      else (Inr False, c))"

section \<open>Planning helpers\<close>

definition plan_compaction :: "(string \<times> nat) list \<Rightarrow> nat \<Rightarrow> string list" where
  "plan_compaction segments min_size = map fst (filter (\<lambda>(_, size). size < min_size) segments)"

definition plan_batch_prefetch :: "string \<Rightarrow> string \<Rightarrow> (string \<times> string) list" where
  "plan_batch_prefetch conv bucket = [(conv, bucket)]"

definition generate_dummy_requests :: "nat \<Rightarrow> string list" where
  "generate_dummy_requests count = map (\<lambda>i. ''dummy-segment-'' @ dec_nat i) [0..<count]"

definition resolve_backend :: "archive_backend \<Rightarrow> archive_backend" where
  "resolve_backend b = b"

section \<open>Running the coordinator\<close>

text \<open>One call of a method of the coordinator with its clock, random values and fresh identifiers.\<close>

datatype archive_op =
    DoBatch string string "nat \<Rightarrow> bytes" "ingested_message list" string string
  | DoFinalize uuid "string \<Rightarrow> uuid"
  | DoMaybeRotate nat
  | DoPrune nat

fun archive_step ::
  "prims \<Rightarrow> archive_codecs \<Rightarrow> backup_manifest codec \<Rightarrow> 'w gateway \<Rightarrow> archive_op \<Rightarrow> archive_coordinator \<times> 'w \<Rightarrow>
     archive_coordinator \<times> 'w" where
  "archive_step P Z C G (DoBatch inner seg nonce msgs conv bucket) (c, w) =
     snd (archive_batch P Z G inner seg nonce msgs conv bucket c w)"
| "archive_step P Z C G (DoFinalize i parse) (c, w) = snd (finalize_epoch P C G i parse c w)"
| "archive_step P Z C G (DoMaybeRotate now_secs) (c, w) = (snd (maybe_rotate P now_secs c), w)"
| "archive_step P Z C G (DoPrune n) (c, w) = (c\<lparr>co_epochs := prune_old_epochs n (co_epochs c)\<rparr>, w)"

definition archive_run ::
  "prims \<Rightarrow> archive_codecs \<Rightarrow> backup_manifest codec \<Rightarrow> 'w gateway \<Rightarrow> archive_op list \<Rightarrow> archive_coordinator \<times> 'w \<Rightarrow>
     archive_coordinator \<times> 'w" where
  "archive_run P Z C G ops = fold (archive_step P Z C G) ops"

text \<open>A gateway that also keeps the manifests it acknowledged, in order.\<close>

definition lifted :: "('w \<Rightarrow> 'r \<times> 'w) \<Rightarrow> 'w \<times> bytes list \<Rightarrow> 'r \<times> 'w \<times> bytes list" where
  "lifted f wl = (case f (fst wl) of (r, w) \<Rightarrow> (r, w, snd wl))"

definition recording :: "'w gateway \<Rightarrow> ('w \<times> bytes list) gateway" where
  "recording G =
     \<lparr>gw_fetch_messages = (\<lambda>a b. lifted (gw_fetch_messages G a b)),
      gw_upload_archive_segment = (\<lambda>a b. lifted (gw_upload_archive_segment G a b)),
      gw_download_archive_segment = (\<lambda>a. lifted (gw_download_archive_segment G a)),
      gw_fetch_archive_manifests = (\<lambda>a. lifted (gw_fetch_archive_manifests G a)),
      gw_upload_archive_manifest = (\<lambda>m wl. case gw_upload_archive_manifest G m (fst wl) of
          (Inl e, w) \<Rightarrow> (Inl e, w, snd wl) | (Inr u, w) \<Rightarrow> (Inr u, w, snd wl @ [m])),
      gw_upload_backup_manifest = (\<lambda>a. lifted (gw_upload_backup_manifest G a)),
      gw_fetch_backup_manifests = (\<lambda>a. lifted (gw_fetch_backup_manifests G a)),
      gw_upload_media_blob = (\<lambda>a b. lifted (gw_upload_media_blob G a b)),
      gw_download_backup_segment = (\<lambda>a. lifted (gw_download_backup_segment G a)),
      gw_upload_search_shard = (\<lambda>a b. lifted (gw_upload_search_shard G a b)),
      gw_download_search_shard = (\<lambda>a. lifted (gw_download_search_shard G a)),
      gw_download_media_blob = (\<lambda>a. lifted (gw_download_media_blob G a))\<rparr>"

section \<open>The published chain\<close>

text \<open>
  The manifests \<open>ms\<close> behind the published bytes form a chain with the generations \<open>0, 1, 2, \<dots>\<close>, and \<open>g\<close> and \<open>h\<close>
  are the generation and the previous hash of the next one.
\<close>

definition published ::
  "prims \<Rightarrow> backup_manifest codec \<Rightarrow> nat \<Rightarrow> bytes \<Rightarrow> bytes list \<Rightarrow> bool" where
  "published P C g h bs \<longleftrightarrow>
     (\<exists>ms. map (cbor_to_vec C) ms = map Inr bs \<and> length ms = g \<and> check_links P C ms = Inr ()
       \<and> map bm_generation ms = map word_of_nat [0..<g]
       \<and> (ms = [] \<longrightarrow> h = replicate 32 0) \<and> (ms \<noteq> [] \<longrightarrow> manifest_hash P C (last ms) = Inr h)
       \<and> (ms \<noteq> [] \<longrightarrow> bm_previous (hd ms) = replicate 32 0))"

lemma published_start: "published P C 0 (replicate 32 0) []"
  by (simp add: published_def)

lemma published_next:
  assumes "published P C g h bs" and "cbor_to_vec C m = Inr b" and "manifest_hash P C m = Inr h'"
    and "bm_generation m = word_of_nat g" and "bm_previous m = h"
  shows "published P C (Suc g) h' (bs @ [b])"
proof -
  from assms(1) obtain ms where ms: "map (cbor_to_vec C) ms = map Inr bs" "length ms = g" "check_links P C ms = Inr ()"
      "map bm_generation ms = map word_of_nat [0..<g]"
      "ms = [] \<longrightarrow> h = replicate 32 0" "ms \<noteq> [] \<longrightarrow> manifest_hash P C (last ms) = Inr h"
      "ms \<noteq> [] \<longrightarrow> bm_previous (hd ms) = replicate 32 0"
    unfolding published_def by blast
  have links: "check_links P C (ms @ [m]) = Inr ()"
  proof (cases ms rule: rev_cases)
    case (snoc ns a)
    then show ?thesis using ms(3,6) assms(5) check_links_snoc [of P C ns a m] by simp
  qed simp
  have gen: "map bm_generation (ms @ [m]) = map word_of_nat [0..<Suc g]" using ms(4) assms(4) by simp
  have first: "bm_previous (hd (ms @ [m])) = replicate 32 0" using ms(5,7) assms(5) by (cases ms) simp_all
  show ?thesis unfolding published_def
    by (rule exI [of _ "ms @ [m]"]) (use ms(1,2) assms(2,3) links gen first in simp)
qed

lemma published_chain:
  assumes "published P C g h bs"
  shows "\<exists>ms. map (cbor_to_vec C) ms = map Inr bs \<and> verify_chain P C ms = Inr ()
    \<and> map bm_generation ms = map word_of_nat [0..<g]"
proof -
  from assms obtain ms where ms: "map (cbor_to_vec C) ms = map Inr bs" "check_links P C ms = Inr ()"
      "map bm_generation ms = map word_of_nat [0..<g]" "ms \<noteq> [] \<longrightarrow> bm_previous (hd ms) = replicate 32 0"
    unfolding published_def by blast
  from ms(2,4) have "verify_chain P C ms = Inr ()" by (cases ms) (simp_all add: verify_chain_def)
  with ms(1,3) show ?thesis by blast
qed

lemma manifest_hash_of: "cbor_to_vec C m = Inr b \<Longrightarrow> manifest_hash P C m = Inr (content_hash P b)"
  by (simp add: manifest_hash_def)

definition on_record :: "prims \<Rightarrow> backup_manifest codec \<Rightarrow> archive_coordinator \<times> 'w \<times> bytes list \<Rightarrow> bool" where
  "on_record P C s = (case s of (c, w, bs) \<Rightarrow> 
     co_generation c = word_of_nat (length bs) \<and> published P C (length bs) (co_prev_hash c) bs)"

lemma batch_on_record:
  "on_record P C (c, w, bs) \<Longrightarrow>
   on_record P C (snd (archive_batch P Z (recording G) inner seg nonce msgs conv bucket c (w, bs)))"
  by (auto simp: on_record_def archive_batch_def upload_segment_def as_storage_def recording_def lifted_def Let_def
      archive_record_def split: sum.splits prod.splits)

lemma finalize_on_record:
  assumes "on_record P C (c, w, bs)"
  shows "on_record P C (snd (finalize_epoch P C (recording G) i parse c (w, bs)))"
proof (cases "co_pending c = []")
  case False
  have g: "co_generation c = word_of_nat (length bs)" using assms by (simp add: on_record_def)
  define m where "m = build_manifest i (word_of_nat (length bs)) (co_prev_hash c)
    (map (pending_ref parse) (co_pending c)) (wrapped_refs (co_epochs c))"
  show ?thesis
  proof (cases "cbor_to_vec C m")
    case (Inr b)
    have "published P C (Suc (length bs)) (content_hash P b) (bs @ [b])"
      by (rule published_next [where m = m])
        (use assms Inr manifest_hash_of [OF Inr] in \<open>simp_all add: on_record_def m_def build_manifest_def\<close>)
    then show ?thesis using False Inr assms
      by (auto simp: finalize_epoch_def g m_def [symmetric] Let_def coded_def upload_manifest_def as_storage_def recording_def
          manifest_hash_of [OF Inr] on_record_def archive_record_def split: sum.splits prod.splits)
  qed (use False assms in \<open>simp add: finalize_epoch_def g m_def [symmetric] Let_def coded_def\<close>)
qed (use assms in \<open>simp add: finalize_epoch_def\<close>)

lemma step_on_record: "on_record P C s \<Longrightarrow> on_record P C (archive_step P Z C (recording G) x s)"
proof (cases s)
  case (fields c w bs)
  assume "on_record P C s"
  with fields have s: "on_record P C (c, w, bs)" by simp
  show ?thesis
  proof (cases x)
    case DoMaybeRotate
    then show ?thesis using s fields
      by (auto simp: on_record_def maybe_rotate_def archive_record_def split: sum.splits prod.splits)
  next
    case DoPrune
    then show ?thesis using s fields by (simp add: on_record_def)
  qed (use s fields batch_on_record finalize_on_record in simp_all)
qed

lemma run_on_record: "on_record P C s \<Longrightarrow> on_record P C (archive_run P Z C (recording G) ops s)"
  by (induction ops arbitrary: s) (simp_all add: archive_run_def step_on_record)

section \<open>Epoch keys over time\<close>

datatype epoch_op = Rotate | Prune nat

fun epoch_step :: "prims \<Rightarrow> epoch_op \<Rightarrow> epoch_keys \<Rightarrow> epoch_keys" where
  "epoch_step P Rotate k = snd (epochs_rotate P k)"
| "epoch_step P (Prune n) k = prune_old_epochs n k"

text \<open>The wrapped keys are those of the epochs from \<open>lo\<close> to the one before the current.\<close>

definition holds_window :: "prims \<Rightarrow> bytes \<Rightarrow> (u64 \<Rightarrow> bytes) \<Rightarrow> nat \<Rightarrow> epoch_keys \<Rightarrow> bool" where
  "holds_window P rk key lo k \<longleftrightarrow>
     ek_root k = rk \<and> lo \<le> ek_current k
     \<and> ek_wrapped k = map (\<lambda>e. (e, projr (wrap_key P rk (key (word_of_nat e))))) [lo..<ek_current k]"

lemma map_of_window:
  "map_of (map (\<lambda>e. (e, f e)) [lo..<n]) e = (if lo \<le> e \<and> e < n then Some (f e) else None)"
  using map_of_map_restrict [of f "[lo..<n]"] by (auto simp: restrict_map_def)

lemma window_rotate:
  assumes "\<And>x. derive_archive_epoch P rk x = Inr (key x)" and "\<And>x. \<exists>w. pr_wrap P rk (key x) = Some w"
    and "holds_window P rk key lo k"
  shows "holds_window P rk key lo (snd (epochs_rotate P k)) \<and> ek_current (snd (epochs_rotate P k)) = ek_current k + 1"
proof -
  obtain w where "pr_wrap P rk (key (word_of_nat (ek_current k))) = Some w" using assms(2) by blast
  then have "wrap_key P rk (key (word_of_nat (ek_current k))) = Inr w" by (simp add: wrap_key_def)
  with assms(1,3) show ?thesis by (simp add: holds_window_def epochs_rotate_def current_epoch_key_def)
qed

lemma window_prune:
  assumes "holds_window P rk key lo k"
  shows "holds_window P rk key (max lo (ek_current k - max n 1)) (prune_old_epochs n k)"
proof (cases "max n 1 < length (ek_wrapped k)")
  case True
  let ?d = "length (ek_wrapped k) - max n 1"
  from assms have len: "length (ek_wrapped k) = ek_current k - lo" and le: "lo \<le> ek_current k"
    by (simp_all add: holds_window_def)
  have lo': "lo + (ek_current k - (lo + max n (Suc 0))) = max lo (ek_current k - max n (Suc 0))"
    using True len le by simp
  show ?thesis using assms True le
    by (simp add: holds_window_def prune_old_epochs_def Let_def drop_map len lo')
next
  case False
  from assms have len: "length (ek_wrapped k) = ek_current k - lo" and le: "lo \<le> ek_current k"
    by (simp_all add: holds_window_def)
  have "max lo (ek_current k - max n 1) = lo" using False len le by linarith
  then show ?thesis using assms False by (auto simp: prune_old_epochs_def Let_def)
qed

lemma window_epoch_key:
  assumes "holds_window P rk key lo k" and "\<And>x. derive_archive_epoch P rk x = Inr (key x)"
    and "\<And>x. \<exists>w. pr_wrap P rk (key x) = Some w"
    and "\<And>x w. pr_wrap P rk (key x) = Some w \<Longrightarrow> length w = 40 \<and> pr_unwrap P rk w = Some (key x)"
  shows "epoch_key P e k = (if lo \<le> e \<and> e \<le> ek_current k then Some (key (word_of_nat e)) else None)"
proof (cases "e = ek_current k")
  case True
  then show ?thesis using assms(1,2) by (simp add: epoch_key_def ok_opt_def holds_window_def)
next
  case False
  obtain w where w: "pr_wrap P rk (key (word_of_nat e)) = Some w" using assms(3) by blast
  from assms(4) [OF w] have "unwrap_key P rk (projr (wrap_key P rk (key (word_of_nat e)))) = Inr (key (word_of_nat e))"
    by (simp add: unwrap_key_def wrap_key_def w wrapped_key_len_def)
  with False assms(1) show ?thesis by (auto simp: epoch_key_def ok_opt_def holds_window_def map_of_window)
qed

definition rotations :: "epoch_op list \<Rightarrow> nat" where
  "rotations ops = length (filter (\<lambda>x. x = Rotate) ops)"

fun keeps_at_least :: "nat \<Rightarrow> epoch_op \<Rightarrow> bool" where
  "keeps_at_least n Rotate = True"
| "keeps_at_least n (Prune m) = (n \<le> max m 1)"

lemma window_run:
  assumes "\<And>x. derive_archive_epoch P rk x = Inr (key x)" and "\<And>x. \<exists>w. pr_wrap P rk (key x) = Some w"
    and "list_all (keeps_at_least n) ops" and "holds_window P rk key lo k" and "lo \<le> max l (ek_current k - n)"
  shows "\<exists>lo'. holds_window P rk key lo' (fold (epoch_step P) ops k)
    \<and> ek_current (fold (epoch_step P) ops k) = ek_current k + rotations ops
    \<and> lo' \<le> max l (ek_current (fold (epoch_step P) ops k) - n)"
  using assms(3,4,5)
proof (induction ops arbitrary: k lo)
  case Nil
  then show ?case by (auto simp: rotations_def)
next
  case (Cons x ops)
  show ?case
  proof (cases x)
    case Rotate
    from window_rotate [OF assms(1,2) Cons.prems(2)]
    have k: "holds_window P rk key lo (epoch_step P x k)" "ek_current (epoch_step P x k) = ek_current k + 1"
      using Rotate by simp_all
    have "lo \<le> max l (ek_current (epoch_step P x k) - n)" using Cons.prems(3) k(2) by linarith
    from Cons.IH [OF _ k(1) this] Cons.prems(1) k(2) Rotate show ?thesis by (simp add: rotations_def)
  next
    case (Prune m)
    let ?lo = "max lo (ek_current k - max m 1)"
    have k: "holds_window P rk key ?lo (epoch_step P x k)" "ek_current (epoch_step P x k) = ek_current k"
      using window_prune [OF Cons.prems(2)] Prune by (simp_all add: prune_old_epochs_def Let_def)
    have "ek_current k - max m 1 \<le> ek_current k - n" using Cons.prems(1) Prune by (simp add: diff_le_mono2)
    then have "?lo \<le> max l (ek_current (epoch_step P x k) - n)"
      using Cons.prems(3) unfolding k(2) by (meson le_max_iff_disj max.bounded_iff)
    from Cons.IH [OF _ k(1) this] Cons.prems(1) k(2) Prune show ?thesis by (simp add: rotations_def)
  qed
qed

lemma maybe_rotate_current:
  assumes "\<And>x. derive_archive_epoch P rk x = Inr (key x)" and "\<And>x. \<exists>w. pr_wrap P rk (key x) = Some w"
    and "ek_root (co_epochs c) = rk"
  shows "ek_root (co_epochs (snd (maybe_rotate P t c))) = rk
    \<and> ek_current (co_epochs (snd (maybe_rotate P t c)))
        = (if ek_current (co_epochs c) < current_epoch_id t then ek_current (co_epochs c) + 1 else ek_current (co_epochs c))"
proof -
  obtain w where "pr_wrap P rk (key (word_of_nat (ek_current (co_epochs c)))) = Some w" using assms(2) by blast
  then have "wrap_key P rk (key (word_of_nat (ek_current (co_epochs c)))) = Inr w" by (simp add: wrap_key_def)
  with assms(1,3) show ?thesis
    by (simp add: maybe_rotate_def epochs_rotate_def current_epoch_key_def archive_record_def)
qed

lemma catch_up:
  "(if max e (min T (e + n)) < T then max e (min T (e + n)) + 1 else max e (min T (e + n))) = max e (min T (e + Suc n))"
  for e T n :: nat
  by (simp add: max_def min_def)

section \<open>Segments round trip\<close>

definition aead_ok :: "prims \<Rightarrow> bool" where
  "aead_ok P \<longleftrightarrow> (\<forall>k n p a c. pr_seal P k n p a = Some c \<longrightarrow> pr_open P k n c a = Some p)"

definition archive_codecs_ok :: "archive_codecs \<Rightarrow> bool" where
  "archive_codecs_ok Z \<longleftrightarrow>
     (\<forall>p b. ac_payload_write Z p = Inr b \<longrightarrow> ac_payload_read Z b = Inr p)
     \<and> (\<forall>f b. ac_frame_write Z f = Inr b \<longrightarrow> ac_frame_read Z b = Inr f)
     \<and> (\<forall>d b. ac_compress Z d = Inr b \<longrightarrow> ac_decompress Z b = Inr d)"

lemma sealed_opens: "aead_ok P \<Longrightarrow> seal P k n p a = Inr c \<Longrightarrow> open_sealed P k n c a = Inr p"
  by (auto simp: aead_ok_def seal_def open_sealed_def split: option.splits)

lemma and_then_Inr: "and_then r f = Inr b \<longleftrightarrow> (\<exists>a. r = Inr a \<and> f a = Inr b)"
  by (cases r) auto

lemma ciphered_Inr [simp]: "ciphered r = Inr a \<longleftrightarrow> r = Inr a"
  by (cases r) (simp_all add: ciphered_def)

lemma coded_Inr [simp]: "coded r = Inr a \<longleftrightarrow> r = Inr a"
  by (cases r) (simp_all add: coded_def)

text \<open>What an entry of a segment is about: everything of the message that the archive keeps.\<close>

definition entry_of :: "prims \<Rightarrow> bytes \<Rightarrow> archive_entry \<Rightarrow> ingested_message \<Rightarrow> bool" where
  "entry_of P key e m \<longleftrightarrow>
     ae_message e = im_id m \<and> ae_created_ms e = im_created_ms m
     \<and> open_sealed P key (ae_nonce e) (ae_body e) archive_body_aad
         = Inr (utf8 (case im_text m of None \<Rightarrow> [] | Some x \<Rightarrow> x))
     \<and> ae_media e = map media_ref_of (im_media m) \<and> (ae_kind e = EMedia \<longleftrightarrow> im_media m \<noteq> [])"

lemma build_entries_of:
  "aead_ok P \<Longrightarrow> build_entries P key nonce i ms = Inr es \<Longrightarrow> list_all2 (entry_of P key) es ms"
proof (induction ms arbitrary: i es)
  case (Cons m ms)
  then show ?case
    by (auto simp: and_then_Inr build_entry_def entry_of_def sealed_opens)
qed simp

lemma segment_opens:
  assumes "aead_ok P" and "archive_codecs_ok Z"
    and "build_segment P Z i nonce ms conv bucket epoch key = Inr f"
  shows "\<exists>es. open_segment P Z f key = Inr \<lparr>ap_segment = i, ap_conv = conv, ap_bucket = bucket, ap_epoch = epoch, ap_entries = es\<rparr>
    \<and> list_all2 (entry_of P key) es ms"
proof -
  from assms(3) obtain es pt z ct where b: "build_entries P key nonce 0 ms = Inr es"
      "ac_payload_write Z \<lparr>ap_segment = i, ap_conv = conv, ap_bucket = bucket, ap_epoch = epoch, ap_entries = es\<rparr> = Inr pt"
      "ac_compress Z pt = Inr z" "seal P key (nonce (length ms)) z archive_segment_aad = Inr ct"
      "af_nonce f = nonce (length ms)" "af_ciphertext f = ct"
    unfolding build_segment_def by (auto simp: and_then_Inr encode_payload_def compress_def)
  have d: "ac_payload_read Z pt = Inr \<lparr>ap_segment = i, ap_conv = conv, ap_bucket = bucket, ap_epoch = epoch, ap_entries = es\<rparr>"
      "ac_decompress Z z = Inr pt"
    using assms(2) b(2,3) by (auto simp: archive_codecs_ok_def)
  show ?thesis using b(5,6) d sealed_opens [OF assms(1) b(4)] build_entries_of [OF assms(1) b(1)]
    by (simp add: open_segment_def and_then_Inr decompress_def decode_payload_def ciphered_def coded_def)
qed

section \<open>Examples\<close>

text \<open>A gateway that acknowledges everything and has nothing, and codecs that know one payload.\<close>

definition toy_gateway :: "'w gateway" where
  "toy_gateway =
     \<lparr>gw_fetch_messages = (\<lambda>_ _ w. (Inr \<lparr>fr_messages = [], fr_cursor = None\<rparr>, w)),
      gw_upload_archive_segment = (\<lambda>i _ w. (Inr i, w)), gw_download_archive_segment = (\<lambda>_ w. (Inr [], w)),
      gw_fetch_archive_manifests = (\<lambda>_ w. (Inr [], w)), gw_upload_archive_manifest = (\<lambda>_ w. (Inr (), w)),
      gw_upload_backup_manifest = (\<lambda>_ w. (Inr (), w)), gw_fetch_backup_manifests = (\<lambda>_ w. (Inr [], w)),
      gw_upload_media_blob = (\<lambda>i _ w. (Inr i, w)), gw_download_backup_segment = (\<lambda>_ w. (Inr [], w)),
      gw_upload_search_shard = (\<lambda>_ _ w. (Inr (), w)), gw_download_search_shard = (\<lambda>_ w. (Inr [], w)),
      gw_download_media_blob = (\<lambda>_ w. (Inr [], w))\<rparr>"

definition toy_frame :: archive_frame where
  "toy_frame = \<lparr>af_nonce = [], af_ciphertext = 1 # replicate 16 0, af_hash = [1], af_size = 1\<rparr>"

definition toy_payload :: archive_payload where
  "toy_payload = \<lparr>ap_segment = ''s'', ap_conv = ''c'', ap_bucket = ''2024-01'', ap_epoch = 3, ap_entries = []\<rparr>"

definition toy_codecs :: archive_codecs where
  "toy_codecs =
     \<lparr>ac_payload_write = (\<lambda>p. if p = toy_payload then Inr [1] else Inl ''unsupported''),
      ac_payload_read = (\<lambda>_. Inr toy_payload),
      ac_frame_write = (\<lambda>f. if f = toy_frame then Inr [2] else Inl ''unsupported''),
      ac_frame_read = (\<lambda>_. Inr toy_frame), ac_compress = Inr, ac_decompress = Inr\<rparr>"

lemma toy_codecs_ok: "archive_codecs_ok toy_codecs"
  by (simp add: archive_codecs_ok_def toy_codecs_def)

lemma toy_aead_ok: "aead_ok toy_prims"
  by (simp add: aead_ok_def toy_prims_def)

definition sized_prims :: prims where
  "sized_prims = toy_prims\<lparr>pr_expand := \<lambda>prk info n. Inr (take n (info @ replicate n 0))\<rparr>"

section \<open>Properties\<close>

text \<open>
  C8: whatever the gateway answers and in whatever order batches, finalisations, rotations and prunings come,
  the manifests the gateway acknowledged form one chain: they carry the generations 0, 1, 2, \dots without a gap, up
  to the coordinator's next one as an unsigned 64-bit number, and pass the restore's chain check. A failed upload leaves the chain as it was.
\<close>

theorem archive_manifests_chain:
  assumes "archive_new P t wrapping = Inr c0"
    and "archive_run P Z C (recording G) ops (c0, w, []) = (c, w', bs)"
  shows "\<exists>ms. map (cbor_to_vec C) ms = map Inr bs \<and> verify_chain P C ms = Inr ()
    \<and> map bm_generation ms = map word_of_nat [0..<length bs] \<and> co_generation c = word_of_nat (length bs)"
proof -
  have "on_record P C (c0, w, [])"
    using assms(1) by (auto simp: archive_new_def and_then_Inr on_record_def published_start)
  from run_on_record [OF this, of Z G ops] assms(2) have "published P C (length bs) (co_prev_hash c) bs" "co_generation c = word_of_nat (length bs)"
    by (simp_all add: on_record_def)
  with published_chain [OF this(1)] show ?thesis by blast
qed

text \<open>A coordinator with one uploaded segment that is finalised twice.\<close>

definition toy_coordinator :: archive_coordinator where
  "toy_coordinator = projr (archive_new toy_prims 0 [])"

definition toy_manifest :: backup_manifest where
  "toy_manifest = build_manifest ''m0'' 0 (replicate 32 0)
     [\<lparr>sr_segment = ''s'', sr_type = MessageDelta, sr_sha256 = [1], sr_size = 17\<rparr>] []"

definition toy_ops :: "archive_op list" where
  "toy_ops = [DoBatch ''s'' ''s'' (\<lambda>_. []) [] ''c'' ''2024-01'', DoFinalize ''m0'' id, DoFinalize ''m1'' id]"

theorem archive_manifests_chain_witness:
  "\<exists>ms. map (cbor_to_vec (toy_codec toy_manifest)) ms = [Inr [1]]
     \<and> verify_chain toy_prims (toy_codec toy_manifest) ms = Inr () \<and> map bm_generation ms = [0]"
proof -
  let ?Z = "toy_codecs\<lparr>ac_payload_write := \<lambda>_. Inr [1], ac_frame_write := \<lambda>_. Inr [2]\<rparr>"
  have new: "archive_new toy_prims 0 [] = Inr toy_coordinator"
    by (simp add: toy_coordinator_def archive_new_def epochs_new_def derive_archive_root_def hkdf_derive_def toy_prims_def
        ciphered_def)
  have "\<exists>c. archive_run toy_prims ?Z (toy_codec toy_manifest) (recording toy_gateway) toy_ops (toy_coordinator, (), [])
      = (c, (), [[1]]) \<and> co_generation c = 1"
    by (simp add: toy_coordinator_def archive_run_def toy_ops_def archive_new_def epochs_new_def derive_archive_root_def
        hkdf_derive_def toy_prims_def ciphered_def archive_batch_def current_epoch_key_def derive_archive_epoch_def
        hkdf_expand_def build_segment_def encode_payload_def compress_def coded_def toy_codecs_def seal_def
        upload_segment_def as_storage_def recording_def lifted_def toy_gateway_def archive_record_def
        max_pending_segments_def finalize_epoch_def toy_manifest_def pending_ref_def wrapped_refs_def cbor_to_vec_def
        toy_codec_def upload_manifest_def manifest_hash_def content_hash_def Let_def)
  then obtain c where c: "archive_run toy_prims ?Z (toy_codec toy_manifest) (recording toy_gateway) toy_ops
      (toy_coordinator, (), []) = (c, (), [[1]])" and g: "co_generation c = 1" by blast
  from archive_manifests_chain [OF new c] g show ?thesis by simp
qed

text \<open>
  old epochs stay readable: however rotations and prunings alternate, as long as every pruning keeps at
  least \<open>n\<close> entries, the manager still returns the right key of every epoch among the last \<open>n\<close> before the
  current one (since it started), and the current epoch is the first one plus the number of rotations.
\<close>

theorem epoch_keys_retained:
  assumes "\<And>x. derive_archive_epoch P rk x = Inr (key x)" and "\<And>x. \<exists>w. pr_wrap P rk (key x) = Some w"
    and "\<And>x w. pr_wrap P rk (key x) = Some w \<Longrightarrow> length w = 40 \<and> pr_unwrap P rk w = Some (key x)"
    and "list_all (keeps_at_least n) ops"
    and "k = fold (epoch_step P) ops \<lparr>ek_root = rk, ek_current = e0, ek_wrapped = []\<rparr>"
    and "e0 \<le> e" and "ek_current k \<le> e + n" and "e \<le> ek_current k"
  shows "epoch_key P e k = Some (key (word_of_nat e)) \<and> ek_current k = e0 + rotations ops"
proof -
  have w: "holds_window P rk key e0 \<lparr>ek_root = rk, ek_current = e0, ek_wrapped = []\<rparr>" by (simp add: holds_window_def)
  from window_run [OF assms(1,2,4) w, of e0] obtain lo where lo: "holds_window P rk key lo k"
      "ek_current k = e0 + rotations ops" "lo \<le> max e0 (ek_current k - n)"
    unfolding assms(5) [symmetric] by auto
  have "lo \<le> e" using lo(3) assms(6,7) by linarith
  with window_epoch_key [OF lo(1) assms(1,2,3)] lo(2) assms(8) show ?thesis by simp
qed

theorem epoch_keys_retained_witness:
  "epoch_key sized_prims 6 (fold (epoch_step sized_prims) [Rotate, Rotate, Prune 12, Rotate]
      \<lparr>ek_root = [], ek_current = 5, ek_wrapped = []\<rparr>)
   = Some (take 32 (str_bytes ''chat-storage/archive-epoch/v1'' @ be_bytes 8 6 @ replicate 32 0))"
proof -
  define key where "key x = take 32 (str_bytes ''chat-storage/archive-epoch/v1'' @ be_bytes 8 (unat x) @ replicate 32 0)"
    for x :: u64
  let ?k = "fold (epoch_step sized_prims) [Rotate, Rotate, Prune 12, Rotate] \<lparr>ek_root = [], ek_current = 5, ek_wrapped = []\<rparr>"
  have k: "derive_archive_epoch sized_prims [] x = Inr (key x)" for x
    by (simp add: derive_archive_epoch_def hkdf_expand_def sized_prims_def toy_prims_def key_def)
  have l: "length (key x) = 32" for x by (simp add: key_def)
  have w: "pr_wrap sized_prims [] (key x) = Some (key x @ replicate 8 0)" for x
    by (simp add: sized_prims_def toy_prims_def)
  have u: "length v = 40 \<and> pr_unwrap sized_prims [] v = Some (key x)" if "pr_wrap sized_prims [] (key x) = Some v" for x v
    using that l [of x] by (auto simp: sized_prims_def toy_prims_def)
  have c: "ek_current ?k = 8"
    by (simp add: epochs_rotate_def prune_old_epochs_def current_epoch_key_def k wrap_key_def w)
  have "epoch_key sized_prims 6 ?k = Some (key (word_of_nat 6)) \<and> ek_current ?k = 5 + rotations [Rotate, Rotate, Prune 12, Rotate]"
    by (rule epoch_keys_retained [where e = 6 and n = 12 and e0 = 5 and rk = "[]" and ops = "[Rotate, Rotate, Prune 12, Rotate]" and P = sized_prims and key = key, OF k _ u _ refl])
      (use c in \<open>simp_all add: w\<close>)
  then show ?thesis by (simp add: key_def)
qed

text \<open>
  what is archived can be read back: a segment that was built opens under the same epoch key to the same
  identifiers, with one entry per message, in order, whose sealed body opens to the message's text and whose media
  references are the message's.
\<close>

theorem archive_segment_roundtrip:
  assumes "aead_ok P" and "archive_codecs_ok Z"
    and "build_segment P Z i nonce ms conv bucket epoch key = Inr f"
  shows "\<exists>es. open_segment P Z f key = Inr \<lparr>ap_segment = i, ap_conv = conv, ap_bucket = bucket, ap_epoch = epoch, ap_entries = es\<rparr>
    \<and> list_all2 (entry_of P key) es ms"
  by (rule segment_opens [OF assms])

theorem archive_segment_roundtrip_witness:
  "\<exists>f. build_segment toy_prims toy_codecs ''s'' (\<lambda>_. []) [] ''c'' ''2024-01'' 3 [9] = Inr f
     \<and> open_segment toy_prims toy_codecs f [9] = Inr toy_payload"
proof -
  have "\<exists>f. build_segment toy_prims toy_codecs ''s'' (\<lambda>_. []) [] ''c'' ''2024-01'' 3 [9] = Inr f"
    by (simp add: build_segment_def encode_payload_def compress_def coded_def ciphered_def toy_codecs_def toy_payload_def
        seal_def toy_prims_def)
  then obtain f where f: "build_segment toy_prims toy_codecs ''s'' (\<lambda>_. []) [] ''c'' ''2024-01'' 3 [9] = Inr f" by blast
  from archive_segment_roundtrip [OF toy_aead_ok toy_codecs_ok f] f show ?thesis
    by (auto simp: toy_payload_def)
qed

text \<open>
  the cap on pending segments is checked after the upload: with 100 segments pending, a batch whose segment
  is built and stored by the gateway is reported as failed, the journal says it was uploaded, and no manifest will
  name it, since the pending segments stay as they were.
\<close>

theorem full_batch_orphans_segment:
  assumes "100 \<le> length (co_pending c)"
    and "current_epoch_key P (co_epochs c) = Inr key"
    and "build_segment P Z inner nonce ms conv bucket (ek_current (co_epochs c)) key = Inr f"
    and "ac_frame_write Z f = Inr b" and "gw_upload_archive_segment G seg b w = (Inr stored, w')"
  shows "archive_batch P Z G inner seg nonce ms conv bucket c w
    = (Inl (CStorage (Custom (''pending segment cap reached (100) '' @ [CHR 0xE2, CHR 0x80, CHR 0x94]
          @ '' call finalize_epoch first''))),
       archive_record (SegmentUploaded stored (ek_current (co_epochs c)) (length ms)) c, w')"
proof -
  have d: "dec_nat 100 = ''100''" by code_simp
  show ?thesis using assms(1)
    by (simp add: archive_batch_def assms(2-5) ciphered_def upload_segment_def coded_def as_storage_def archive_record_def
        max_pending_segments_def d del: dec_nat.simps)
qed

theorem full_batch_orphans_segment_witness:
  "\<exists>c e. archive_batch toy_prims (toy_codecs\<lparr>ac_frame_write := \<lambda>_. Inr [2]\<rparr>) toy_gateway ''s'' ''s'' (\<lambda>_. []) [] ''c''
      ''2024-01'' (toy_coordinator\<lparr>co_pending := replicate 100 (''x'', toy_frame), co_epochs := \<lparr>ek_root = [], ek_current = 3,
      ek_wrapped = []\<rparr>\<rparr>) () = (Inl e, c, ()) \<and> length (co_pending c) = 100"
proof -
  let ?Z = "toy_codecs\<lparr>ac_frame_write := \<lambda>_. Inr [2]\<rparr>"
  let ?c = "toy_coordinator\<lparr>co_pending := replicate 100 (''x'', toy_frame), co_epochs := \<lparr>ek_root = [], ek_current = 3,
      ek_wrapped = []\<rparr>\<rparr>"
  have k: "\<exists>key. current_epoch_key toy_prims (co_epochs ?c) = Inr key"
    by (simp add: current_epoch_key_def derive_archive_epoch_def hkdf_expand_def toy_prims_def)
  have f: "\<exists>f. build_segment toy_prims ?Z ''s'' (\<lambda>_. []) [] ''c'' ''2024-01'' (ek_current (co_epochs ?c)) key = Inr f" for key
    by (simp add: build_segment_def encode_payload_def compress_def coded_def ciphered_def toy_codecs_def toy_payload_def
        seal_def toy_prims_def)
  from k obtain key where key: "current_epoch_key toy_prims (co_epochs ?c) = Inr key" by blast
  from f [of key] obtain f where f: "build_segment toy_prims ?Z ''s'' (\<lambda>_. []) [] ''c'' ''2024-01''
      (ek_current (co_epochs ?c)) key = Inr f" by blast
  have "100 \<le> length (co_pending ?c)" "ac_frame_write ?Z f = Inr [2]"
    "gw_upload_archive_segment toy_gateway ''s'' [2] () = (Inr ''s'', ())"
    by (simp_all add: toy_gateway_def)
  from full_batch_orphans_segment [OF this(1) key f this(2,3)] show ?thesis
    by (simp add: archive_record_def)
qed

text \<open>
  C36: the epoch follows the clock one step per call: after \<open>n\<close> calls at the same time the current epoch has
  moved by \<open>n\<close> towards the clock's epoch and never past it, so a client that was away for several months goes on
  sealing under a past epoch until it has made one call per month.
\<close>

theorem rotation_catches_up:
  assumes "\<And>x. derive_archive_epoch P rk x = Inr (key x)" and "\<And>x. \<exists>w. pr_wrap P rk (key x) = Some w"
    and "ek_root (co_epochs c) = rk"
  shows "ek_current (co_epochs (((\<lambda>c. snd (maybe_rotate P t c)) ^^ n) c))
    = max (ek_current (co_epochs c)) (min (current_epoch_id t) (ek_current (co_epochs c) + n))"
proof -
  have "ek_root (co_epochs (((\<lambda>c. snd (maybe_rotate P t c)) ^^ n) c)) = rk
    \<and> ek_current (co_epochs (((\<lambda>c. snd (maybe_rotate P t c)) ^^ n) c))
      = max (ek_current (co_epochs c)) (min (current_epoch_id t) (ek_current (co_epochs c) + n))"
  proof (induction n)
    case 0
    then show ?case using assms(3) by simp
  next
    case (Suc n)
    from Suc have r: "ek_root (co_epochs (((\<lambda>c. snd (maybe_rotate P t c)) ^^ n) c)) = rk" by simp
    show ?case unfolding funpow.simps o_apply
      by (simp only: maybe_rotate_current [OF assms(1,2) r, of t] Suc catch_up simp_thms)
  qed
  then show ?thesis by blast
qed

theorem rotation_catches_up_witness:
  "ek_current (co_epochs (((\<lambda>c. snd (maybe_rotate toy_prims (365 * 24 * 3600) c)) ^^ 2)
      (toy_coordinator\<lparr>co_epochs := \<lparr>ek_root = [], ek_current = 0, ek_wrapped = []\<rparr>\<rparr>))) = 2"
proof -
  have k: "derive_archive_epoch toy_prims [] x = Inr (str_bytes ''chat-storage/archive-epoch/v1'' @ be_bytes 8 (unat x))"
    for x by (simp add: derive_archive_epoch_def hkdf_expand_def toy_prims_def)
  have w: "\<exists>w. pr_wrap toy_prims [] key = Some w" for key by (simp add: toy_prims_def)
  let ?c = "toy_coordinator\<lparr>co_epochs := \<lparr>ek_root = [], ek_current = 0, ek_wrapped = []\<rparr>\<rparr>"
  have r: "ek_root (co_epochs ?c) = []" "ek_current (co_epochs ?c) = 0" "current_epoch_id (365 * 24 * 3600) = 12"
    by (simp_all add: current_epoch_id_def)
  show ?thesis unfolding rotation_catches_up [OF k w r(1)] r(2,3) by simp
qed

end
