(* ===== verification/MessageProps.thy ===== *)
theory MessageProps
  imports Messages
begin

text \<open>
  What the message pipeline guarantees: the functional behaviour of every operation, crash
  atomicity under any schedule of driver faults, the synchrony of the full-text index with the
  stored texts, and the store invariant over every public write.
\<close>

section \<open>Evaluation without faults\<close>

lemma skeleton_exists_settled:
  "settled s \<Longrightarrow> skeleton_exists mid s = (Inr (mid \<in> rs_id ` set (t_skel (st_live s))), s)"
  by (auto simp: skeleton_exists_def query_def read_view_settled list_ex_iff)

lemma get_skeleton_settled:
  "settled s \<Longrightarrow> mapE Db (get_message_skeleton mid) s =
     (Inr (map_option skel_of_row (row_of rs_id mid (t_skel (st_live s)))), s)"
  by (simp add: get_message_skeleton_def fetch_skeleton_def mapE_def query_def read_view_settled)

abbreviation both :: "store \<Rightarrow> tables \<Rightarrow> store" where
  "both s t \<equiv> s\<lparr>st_live := t, st_committed := t\<rparr>"

lemma validate_kind: "validate_ingest msg = Inr () \<Longrightarrow> message_kind_of msg \<noteq> None"
  by (auto simp: validate_ingest_def message_kind_of_def split: if_splits)

lemma ingest_eval:
  assumes "settled s" and "quiet s"
  shows "persist_ingested_message lower now1 now2 msg s =
    (case validate_ingest msg of
       Inl e \<Rightarrow> (Inl e, s)
     | Inr _ \<Rightarrow>
         if im_id msg \<in> rs_id ` set (t_skel (st_live s)) then (Inl DuplicateMessage, s)
         else if st_fk s \<and> im_conv msg \<notin> rc_id ` set (t_conv (st_live s)) then (Inl (PStorage FkViolation), s)
         else (Inr (), both s (ingest_tables lower now1 now2 msg (st_live s))))"
  using ingest.quiet_eval [OF assms, of "''persist_ingest''" PStorage lower now1 now2 msg]
    skeleton_exists_settled [OF assms(1), of "im_id msg"] validate_kind [of msg]
  by (auto simp: persist_ingested_message_def bindA_def fail_def ingest_spec_def split: sum.split)

lemma outbox_eval:
  assumes "settled s" and "quiet s"
  shows "persist_outbox_entry lower now e s =
    (if oe_text e = [] \<and> oe_media e = None
     then (Inl (InvalidMessage ''outbox must have text or media''), s)
     else if oe_id e \<in> rs_id ` set (t_skel (st_live s)) then (Inl DuplicateMessage, s)
     else case outbox_spec lower now e (st_fk s) (st_live s) of
            Inl x \<Rightarrow> (Inl x, s)
          | Inr t \<Rightarrow> (Inr (oe_id e), both s t))"
  using outbox.quiet_eval [OF assms, of "''persist_outbox''" PStorage lower now e]
    skeleton_exists_settled [OF assms(1), of "oe_id e"]
  by (auto simp: persist_outbox_entry_def bindA_def thenA_def fail_def ret_def split: sum.split)

definition editable :: "string \<Rightarrow> tables \<Rightarrow> message_skeleton option" where
  "editable mid t = (case map_option skel_of_row (row_of rs_id mid (t_skel t)) of
     Some skel \<Rightarrow> if sk_body skel = LocalPlainAvailable then Some skel else None | None \<Rightarrow> None)"

lemma edit_eval:
  assumes "settled s" and "quiet s" and "editable mid (st_live s) = Some skel" and "new_text \<noteq> []"
  shows "edit_message lower now mid new_text s = (Inr (), both s (edit_tables lower skel new_text now (st_live s)))"
  using edit.quiet_eval [OF assms(1,2), of "''edit_message''" PStorage lower skel new_text now]
    get_skeleton_settled [OF assms(1), of mid] assms(3,4)
  by (auto simp: edit_message_def editable_def bindA_def pureT_def split: option.splits if_splits)

lemma edit_refused:
  assumes "settled s" and "editable mid (st_live s) = None"
  shows "\<exists>e. edit_message lower now mid new_text s = (Inl (InvalidMessage e), s)"
  using get_skeleton_settled [OF assms(1), of mid] assms(2)
  by (auto simp: edit_message_def editable_def bindA_def fail_def split: option.splits if_splits)

lemma delete_eval:
  assumes "settled s" and "quiet s" and "row_of rs_id mid (t_skel (st_live s)) = Some r"
    and "body_try_transition (sk_body (skel_of_row r)) (delete_target scope) = Inr b"
  shows "delete_inner now mid scope s = (Inr (), both s (delete_tables (skel_of_row r) scope now (st_live s)))"
  using delete.quiet_eval [OF assms(1,2), of "''delete_message''" PStorage "skel_of_row r" scope now]
    get_skeleton_settled [OF assms(1), of mid] assms(3,4)
  by (auto simp: delete_inner_def bindA_def pureT_def)

section \<open>The tables after an operation\<close>

lemma row_of_append1:
  "row_of key k (xs @ [r]) = (case row_of key k xs of None \<Rightarrow> if key r = k then Some r else None | Some x \<Rightarrow> Some x)"
  by (simp add: row_of_append) (simp add: row_of_def split: option.split)

lemma ingest_tables_rows:
  "t_skel (ingest_tables lower now1 now2 msg t) =
     upsert rs_id (skel_to_row (ingest_skeleton now1 (if im_media msg \<noteq> [] then KMedia else KText) msg)) (t_skel t)"
  "t_body (ingest_tables lower now1 now2 msg t) =
     (case im_text msg of None \<Rightarrow> t_body t | Some x \<Rightarrow> upsert b_id (plain_body (im_id msg) x) (t_body t))"
  "t_fts (ingest_tables lower now1 now2 msg t) =
     (case im_text msg of None \<Rightarrow> t_fts t
      | Some x \<Rightarrow> t_fts t @ [fts_of (im_id msg) (im_conv msg) (im_sender msg) (im_created_ms msg) x])"
  by (simp_all add: ingest_tables_def Let_def log_event_def upd_conv_def index_all_rest split: option.split)

lemma outbox_tables_rows:
  "t_skel (outbox_tables lower now e t) =
     (if oe_text e = [] then t_skel t else upsert rs_id (skel_to_row (outbox_skeleton e)) (t_skel t))"
  "t_body (outbox_tables lower now e t) =
     (if oe_text e = [] then t_body t else upsert b_id (plain_body (oe_id e) (oe_text e)) (t_body t))"
  "t_fts (outbox_tables lower now e t) =
     (if oe_text e = [] then t_fts t
      else t_fts t @ [fts_of (oe_id e) (oe_conv e) ''self'' (oe_created_ms e) (oe_text e)])"
  by (simp_all add: outbox_tables_def Let_def log_event_def upd_conv_def index_all_rest)

lemma edit_tables_rows:
  "t_skel (edit_tables lower skel x now t) =
     update_where (\<lambda>r. rs_id r = sk_id skel) (\<lambda>r. r\<lparr>rs_edited_ms := Some now\<rparr>) (t_skel t)"
  "t_body (edit_tables lower skel x now t) =
     update_where (\<lambda>r. b_id r = sk_id skel) (\<lambda>r. r\<lparr>b_text := Some x\<rparr>) (t_body t)"
  "t_fts (edit_tables lower skel x now t) =
     delete_where (\<lambda>r. f_id r = sk_id skel) (t_fts t)
       @ [fts_of (sk_id skel) (sk_conv skel) (sk_sender skel) (sk_created_ms skel) x]"
  by (simp_all add: edit_tables_def Let_def log_event_def index_all_rest upd_skel_def upd_body_def del_fts_def
      del_fuzzy_def)

lemma fold_log_rows:
  "t_skel (fold (\<lambda>a. log_event (j a)) xs t) = t_skel t" "t_body (fold (\<lambda>a. log_event (j a)) xs t) = t_body t"
  "t_fts (fold (\<lambda>a. log_event (j a)) xs t) = t_fts t" "t_fuzzy (fold (\<lambda>a. log_event (j a)) xs t) = t_fuzzy t"
  by (induction xs arbitrary: t) (simp_all add: log_event_def)

lemma delete_tables_rows:
  "t_skel (delete_tables skel scope now t) =
     update_where (\<lambda>r. rs_id r = sk_id skel) (set_deleted now (delete_target scope)) (t_skel t)"
  "t_body (delete_tables skel scope now t) =
     (if scope = ForEveryone then delete_where (\<lambda>r. b_id r = sk_id skel) (t_body t) else t_body t)"
  "t_fts (delete_tables skel scope now t) = delete_where (\<lambda>r. f_id r = sk_id skel) (t_fts t)"
  "t_fuzzy (delete_tables skel scope now t) = delete_where (\<lambda>r. snd (snd r) = sk_id skel) (t_fuzzy t)"
  by (simp_all add: delete_tables_def Let_def fold_log_rows) 
    (simp_all add: log_event_def upd_skel_def del_fts_def del_fuzzy_def del_body_def)

lemma index_all_fuzzy:
  "set (t_fuzzy (index_all lower mid x t)) = set (t_fuzzy t) \<union> {(g, sc, mid) |g sc. (g, sc) \<in> set (index_grams lower x)}"
proof -
  have "set (t_fuzzy (fold (\<lambda>(g, sc). add_fuzzy (g, sc, mid)) gs t)) =
      set (t_fuzzy t) \<union> {(g, sc, mid) |g sc. (g, sc) \<in> set gs}" for gs
    by (induction gs arbitrary: t) (auto simp: add_fuzzy_def)
  then show ?thesis by (simp add: index_all_def)
qed

lemma edit_tables_fuzzy:
  "set (t_fuzzy (edit_tables lower skel x now t)) =
     {r \<in> set (t_fuzzy t). snd (snd r) \<noteq> sk_id skel}
       \<union> {(g, sc, sk_id skel) |g sc. (g, sc) \<in> set (index_grams lower x)}"
  by (simp add: edit_tables_def Let_def log_event_def)
    (simp add: index_all_fuzzy del_fuzzy_def del_fts_def upd_skel_def upd_body_def)

section \<open>Index synchrony\<close>

definition plain_row :: "skel_row \<Rightarrow> bool" where
  "plain_row r \<longleftrightarrow> rs_body r = ''local_plain_available''"

text \<open>
  Deleted messages are not in the full-text index, each message has at most one index row, with the conversation, sender and
  date of the message, and the text of every readable local message is indexed as it is stored.
\<close>

definition describes :: "skel_row \<Rightarrow> fts_row \<Rightarrow> bool" where
  "describes r f \<longleftrightarrow> rs_id r = f_id f \<and> rs_conv r = f_conv f \<and> rs_sender r = f_sender f \<and> rs_created_ms r = f_created_ms f"

definition fts_owned :: "tables \<Rightarrow> bool" where
  "fts_owned t \<longleftrightarrow> (\<forall>f \<in> set (t_fts t). \<exists>r \<in> set (t_skel t). describes r f \<and> plain_row r)"

definition fts_complete :: "tables \<Rightarrow> bool" where
  "fts_complete t \<longleftrightarrow> (\<forall>r \<in> set (t_skel t). \<forall>b \<in> set (t_body t). \<forall>x.
     plain_row r \<and> b_id b = rs_id r \<and> b_text b = Some x \<longrightarrow> (\<exists>f \<in> set (t_fts t). f_id f = rs_id r \<and> f_text f = x))"

definition rows_ok :: "tables \<Rightarrow> bool" where
  "rows_ok t \<longleftrightarrow> distinct (map f_id (t_fts t)) \<and> keys_unique rs_id (t_skel t) \<and> keys_unique b_id (t_body t)
     \<and> b_id ` set (t_body t) \<subseteq> rs_id ` set (t_skel t)
     \<and> (\<forall>r \<in> set (t_skel t). plain_row r \<longrightarrow> rs_deleted_ms r = None)"

definition fts_synced :: "tables \<Rightarrow> bool" where
  "fts_synced t \<longleftrightarrow> rows_ok t \<and> fts_owned t \<and> fts_complete t"

lemmas synced_defs = fts_synced_def rows_ok_def fts_owned_def fts_complete_def

lemma described_id: "describes r f \<Longrightarrow> rs_id r = f_id f"
  by (simp add: describes_def)

lemma fts_synced_cong:
  "t_skel t = t_skel t' \<Longrightarrow> t_body t = t_body t' \<Longrightarrow> t_fts t = t_fts t' \<Longrightarrow> fts_synced t = fts_synced t'"
  by (simp only: synced_defs)

lemma fts_synced_durable [simp]: "fts_synced (durable t) = fts_synced t"
  by (rule fts_synced_cong) simp_all

lemma fts_of_sel [simp]:
  "f_id (fts_of a b c d x) = a" "f_text (fts_of a b c d x) = x"
  by (simp_all add: fts_of_def)

text \<open>A new message with its text, as ingest and the outbox store it.\<close>

lemma fts_synced_new:
  assumes s: "fts_synced t" and new: "k \<notin> rs_id ` set (t_skel t)"
    and r: "rs_id r = k" "plain_row r" "rs_deleted_ms r = None" "rs_conv r = c" "rs_sender r = d" "rs_created_ms r = e"
    and skel: "t_skel t' = upsert rs_id r (t_skel t)"
    and rest: "(x = None \<and> t_body t' = t_body t \<and> t_fts t' = t_fts t) \<or>
      (\<exists>y. x = Some y \<and> t_body t' = upsert b_id (plain_body k y) (t_body t)
         \<and> t_fts t' = t_fts t @ [fts_of k c d e y])"
  shows "fts_synced t'"
proof -
  have sk: "set (t_skel t') = insert r (set (t_skel t))"
    using new r(1) by (auto simp: skel set_upsert image_iff)
  have nb: "k \<notin> b_id ` set (t_body t)"
    using s new unfolding synced_defs by blast
  have nf: "k \<notin> f_id ` set (t_fts t)"
  proof
    assume "k \<in> f_id ` set (t_fts t)"
    then obtain f where "f \<in> set (t_fts t)" "f_id f = k" by blast
    moreover from this(1) s obtain q where "q \<in> set (t_skel t)" "describes q f"
      unfolding fts_synced_def fts_owned_def by blast
    ultimately show False using new described_id [of q f] by (metis imageI)
  qed
  have kb: "set (upsert b_id (plain_body k y) (t_body t)) = insert (plain_body k y) (set (t_body t))" for y
    using nb by (auto simp: set_upsert plain_body_def)
  have pb: "b_id (plain_body k y) = k" "b_text (plain_body k y) = Some y" for y
    by (simp_all add: plain_body_def)
  have ku: "keys_unique rs_id (t_skel t')" using s by (simp add: skel synced_defs keys_unique_upsert)
  from rest show ?thesis
  proof (elim disjE exE conjE)
    assume e: "x = None" "t_body t' = t_body t" "t_fts t' = t_fts t"
    show ?thesis unfolding fts_synced_def
    proof (intro conjI)
      show "rows_ok t'" using s r(1-3) ku unfolding rows_ok_def fts_synced_def sk e by auto
      show "fts_owned t'" using s unfolding fts_synced_def fts_owned_def sk e by blast
      show "fts_complete t'" using s nb r(1) unfolding fts_synced_def fts_complete_def sk e by (auto simp: image_iff)
    qed
  next
    fix y assume e: "x = Some y" "t_body t' = upsert b_id (plain_body k y) (t_body t)"
      "t_fts t' = t_fts t @ [fts_of k c d e y]"
    have bu: "keys_unique b_id (t_body t')" and fd: "distinct (map f_id (t_fts t'))"
      using s nf by (auto simp: e synced_defs keys_unique_upsert)
    show ?thesis unfolding fts_synced_def
    proof (intro conjI)
      show "rows_ok t'" using s r(1-3) ku bu fd unfolding rows_ok_def fts_synced_def sk by (auto simp: e kb pb)
      have "describes r (fts_of k c d e y)" using r by (simp add: describes_def fts_of_def)
      then show "fts_owned t'" using s r(2) unfolding fts_synced_def fts_owned_def sk e by auto
      show "fts_complete t'"
        using s nb new r(1) unfolding fts_synced_def fts_complete_def sk by (auto simp: e kb pb image_iff)
    qed
  qed
qed

lemma plain_skeletons:
  "plain_row (skel_to_row (ingest_skeleton now k msg))" "rs_deleted_ms (skel_to_row (ingest_skeleton now k msg)) = None"
  "plain_row (skel_to_row (outbox_skeleton e))" "rs_deleted_ms (skel_to_row (outbox_skeleton e)) = None"
  "rs_sender (skel_to_row (ingest_skeleton now k msg)) = im_sender msg"
  "rs_created_ms (skel_to_row (ingest_skeleton now k msg)) = im_created_ms msg"
  "rs_sender (skel_to_row (outbox_skeleton e)) = ''self''" "rs_created_ms (skel_to_row (outbox_skeleton e)) = oe_created_ms e"
  by (simp_all add: plain_row_def skel_to_row_def ingest_skeleton_def outbox_skeleton_def)

lemma ingest_synced:
  "fts_synced t \<Longrightarrow> im_id msg \<notin> rs_id ` set (t_skel t) \<Longrightarrow> fts_synced (ingest_tables lower now1 now2 msg t)"
  by (rule fts_synced_new [where x = "im_text msg" and c = "im_conv msg" and d = "im_sender msg"
        and e = "im_created_ms msg" and k = "im_id msg" and t = t and
        r = "skel_to_row (ingest_skeleton now1 (if im_media msg \<noteq> [] then KMedia else KText) msg)"])
    (simp_all only: ingest_tables_rows skeleton_rows plain_skeletons, auto split: option.splits)

lemma outbox_synced:
  assumes "fts_synced t" and "oe_id e \<notin> rs_id ` set (t_skel t)"
  shows "fts_synced (outbox_tables lower now e t)"
proof (cases "oe_text e = []")
  case True
  then have "fts_synced (outbox_tables lower now e t) = fts_synced t"
    by (intro fts_synced_cong) (simp_all add: outbox_tables_rows)
  with assms show ?thesis by simp
next
  case False
  show ?thesis
    by (rule fts_synced_new [where x = "Some (oe_text e)" and t = t and k = "oe_id e" and
          r = "skel_to_row (outbox_skeleton e)" and c = "oe_conv e" and d = "''self''" and e = "oe_created_ms e"])
      (use False assms in \<open>simp_all add: outbox_tables_rows skeleton_rows plain_skeletons\<close>)
qed

lemma sk_of_row [simp]: "sk_id (skel_of_row r) = rs_id r" "sk_conv (skel_of_row r) = rs_conv r"
  by (simp_all add: skel_of_row_def)

lemma plain_iff: "sk_body (skel_of_row r) = LocalPlainAvailable \<longleftrightarrow> plain_row r"
proof -
  have "body_from_str (rs_body r) = Inr LocalPlainAvailable \<longleftrightarrow> plain_row r"
    by (simp add: body_col.from_str_iff plain_row_def)
  then show ?thesis by (auto simp: skel_of_row_def from_str_or_def split: sum.splits)
qed

lemma edit_synced:
  assumes s: "fts_synced t" and r: "row_of rs_id k (t_skel t) = Some r" and p: "plain_row r"
  shows "fts_synced (edit_tables lower (skel_of_row r) x now t)"
proof -
  from r have r': "r \<in> set (t_skel t)" "rs_id r = k" by (auto dest: row_of_SomeD)
  let ?u = "\<lambda>q. if rs_id q = k then q\<lparr>rs_edited_ms := Some now\<rparr> else q"
  let ?v = "\<lambda>b. if b_id b = k then b\<lparr>b_text := Some x\<rparr> else b"
  have plain: "plain_row (?u q) = plain_row q" "rs_id (?u q) = rs_id q" "rs_deleted_ms (?u q) = rs_deleted_ms q" for q
    by (simp_all add: plain_row_def)
  have bid: "b_id (?v b) = b_id b" for b by simp
  have sk: "set (t_skel (edit_tables lower (skel_of_row r) x now t)) = ?u ` set (t_skel t)"
    and bd: "set (t_body (edit_tables lower (skel_of_row r) x now t)) = ?v ` set (t_body t)"
    and ft: "set (t_fts (edit_tables lower (skel_of_row r) x now t)) = {f \<in> set (t_fts t). f_id f \<noteq> k}
       \<union> {fts_of k (rs_conv r) (sk_sender (skel_of_row r)) (sk_created_ms (skel_of_row r)) x}"
    by (simp_all add: edit_tables_rows set_update_where r')
  have "distinct (map f_id (filter (\<lambda>f. f_id f \<noteq> k) (t_fts t)))"
    using s by (simp add: synced_defs distinct_map_filter)
  then have "distinct (map f_id (t_fts (edit_tables lower (skel_of_row r) x now t)))"
    by (auto simp: edit_tables_rows delete_where_def r')
  moreover have "keys_unique rs_id (t_skel (edit_tables lower (skel_of_row r) x now t))"
    "keys_unique b_id (t_body (edit_tables lower (skel_of_row r) x now t))"
    using s by (simp_all add: edit_tables_rows keys_unique_update synced_defs)
  ultimately show ?thesis unfolding fts_synced_def
  proof (intro conjI)
    assume d: "distinct (map f_id (t_fts (edit_tables lower (skel_of_row r) x now t)))"
      "keys_unique rs_id (t_skel (edit_tables lower (skel_of_row r) x now t))"
      "keys_unique b_id (t_body (edit_tables lower (skel_of_row r) x now t))"
    show "rows_ok (edit_tables lower (skel_of_row r) x now t)"
      using s d unfolding synced_defs sk bd image_image ball_simps plain bid by simp
    have d: "describes (?u q) f = describes q f" for q f by (simp add: describes_def)
    have "describes (?u r) (fts_of k (rs_conv r) (sk_sender (skel_of_row r)) (sk_created_ms (skel_of_row r)) x)"
      using r' by (simp add: describes_def fts_of_def skel_of_row_def)
    then show "fts_owned (edit_tables lower (skel_of_row r) x now t)"
      using s r' p unfolding fts_synced_def fts_owned_def sk ft bex_simps plain d by blast
    show "fts_complete (edit_tables lower (skel_of_row r) x now t)"
      unfolding fts_complete_def
    proof (intro ballI allI impI, elim conjE)
      fix q b y assume q: "q \<in> set (t_skel (edit_tables lower (skel_of_row r) x now t))"
        and b: "b \<in> set (t_body (edit_tables lower (skel_of_row r) x now t))"
        and pq: "plain_row q" and bq: "b_id b = rs_id q" and y: "b_text b = Some y"
      from q b obtain q0 b0 where q0: "q0 \<in> set (t_skel t)" "q = ?u q0" and b0: "b0 \<in> set (t_body t)" "b = ?v b0"
        unfolding sk bd by auto
      show "\<exists>f \<in> set (t_fts (edit_tables lower (skel_of_row r) x now t)). f_id f = rs_id q \<and> f_text f = y"
      proof (cases "rs_id q = k")
        case True
        with b0 bq y have "y = x" by (auto split: if_splits)
        with True show ?thesis unfolding ft by simp
      next
        case False
        with q0 b0 bq pq y have "plain_row q0" "b_id b0 = rs_id q0" "b_text b0 = Some y" "rs_id q0 = rs_id q"
          by (auto split: if_splits)
        with s q0 b0 obtain f where "f \<in> set (t_fts t)" "f_id f = rs_id q" "f_text f = y"
          unfolding synced_defs by metis
        with False show ?thesis unfolding ft by auto
      qed
    qed
  qed
qed

lemma delete_synced:
  assumes s: "fts_synced t" and r: "row_of rs_id k (t_skel t) = Some r"
  shows "fts_synced (delete_tables (skel_of_row r) scope now t)"
proof -
  from r have r': "r \<in> set (t_skel t)" "rs_id r = k" by (auto dest: row_of_SomeD)
  let ?u = "\<lambda>q. if rs_id q = k then set_deleted now (delete_target scope) q else q"
  have np: "\<not> plain_row (set_deleted now (delete_target scope) q)" for q
    by (cases scope) (simp_all add: plain_row_def set_deleted_def)
  have id: "rs_id (?u q) = rs_id q" for q by (simp add: set_deleted_def)
  have sk: "set (t_skel (delete_tables (skel_of_row r) scope now t)) = ?u ` set (t_skel t)"
    and bd: "set (t_body (delete_tables (skel_of_row r) scope now t)) \<subseteq> set (t_body t)"
    and ft: "set (t_fts (delete_tables (skel_of_row r) scope now t)) = {f \<in> set (t_fts t). f_id f \<noteq> k}"
    by (auto simp: delete_tables_rows set_update_where r')
  have "distinct (map f_id (filter (\<lambda>f. f_id f \<noteq> k) (t_fts t)))"
    using s by (simp add: synced_defs distinct_map_filter)
  then have "distinct (map f_id (t_fts (delete_tables (skel_of_row r) scope now t)))"
    by (auto simp: delete_tables_rows delete_where_def r')
  moreover have "keys_unique rs_id (t_skel (delete_tables (skel_of_row r) scope now t))"
    "keys_unique b_id (t_body (delete_tables (skel_of_row r) scope now t))"
    using s by (simp_all add: delete_tables_rows keys_unique_update keys_unique_delete synced_defs set_deleted_def)
  ultimately show ?thesis unfolding fts_synced_def
  proof (intro conjI)
    assume d: "distinct (map f_id (t_fts (delete_tables (skel_of_row r) scope now t)))"
      "keys_unique rs_id (t_skel (delete_tables (skel_of_row r) scope now t))"
      "keys_unique b_id (t_body (delete_tables (skel_of_row r) scope now t))"
    have "b_id ` set (t_body (delete_tables (skel_of_row r) scope now t)) \<subseteq> rs_id ` set (t_skel t)"
      using s bd by (auto simp: synced_defs)
    with s d np show "rows_ok (delete_tables (skel_of_row r) scope now t)"
      unfolding synced_defs sk image_image id by auto
    have "?u q \<in> ?u ` set (t_skel t) \<and> describes (?u q) f \<and> plain_row (?u q)"
      if "q \<in> set (t_skel t)" "describes q f" "plain_row q" "f_id f \<noteq> k" for q f
      using that by (auto simp: describes_def)
    then show "fts_owned (delete_tables (skel_of_row r) scope now t)"
      using s unfolding fts_synced_def fts_owned_def sk ft by blast
    show "fts_complete (delete_tables (skel_of_row r) scope now t)"
      unfolding fts_complete_def
    proof (intro ballI allI impI, elim conjE)
      fix q b y assume q: "q \<in> set (t_skel (delete_tables (skel_of_row r) scope now t))"
        and b: "b \<in> set (t_body (delete_tables (skel_of_row r) scope now t))"
        and pq: "plain_row q" and bq: "b_id b = rs_id q" and y: "b_text b = Some y"
      from q pq np have "q \<in> set (t_skel t)" "rs_id q \<noteq> k" unfolding sk by (auto split: if_splits)
      moreover from b bd have "b \<in> set (t_body t)" by auto
      ultimately obtain f where "f \<in> set (t_fts t)" "f_id f = rs_id q" "f_text f = y"
        using s pq bq y unfolding synced_defs by metis
      with \<open>rs_id q \<noteq> k\<close> show "\<exists>f \<in> set (t_fts (delete_tables (skel_of_row r) scope now t)). f_id f = rs_id q \<and> f_text f = y"
        unfolding ft by auto
    qed
  qed
qed

section \<open>Runs of the pipeline with faults and crashes\<close>

datatype message_op =
    OpConversation conversation
  | OpIngest int int ingested_message
  | OpSend int outbox_entry
  | OpSent int int string
  | OpEdit int string ustr
  | OpDelete int string delete_scope

fun run_message_op :: "(ustr \<Rightarrow> ustr) \<Rightarrow> message_op \<Rightarrow> store \<Rightarrow> store" where
  "run_message_op lower (OpConversation c) s = snd (insert_conversation c s)"
| "run_message_op lower (OpIngest n1 n2 msg) s = snd (persist_ingested_message lower n1 n2 msg s)"
| "run_message_op lower (OpSend n e) s = snd (persist_outbox_entry lower n e s)"
| "run_message_op lower (OpSent n1 n2 mid) s = snd (mark_sent n1 n2 mid s)"
| "run_message_op lower (OpEdit n mid x) s = snd (edit_message lower n mid x s)"
| "run_message_op lower (OpDelete n mid sc) s = snd (delete_inner n mid sc s)"

text \<open>Reopening the database after a crash: what was not committed is gone.\<close>

definition reopen :: "store \<Rightarrow> store" where
  "reopen s = s\<lparr>st_live := st_committed s, st_saves := []\<rparr>"

text \<open>
  Runs of message operations from a store: each operation runs under an arbitrary schedule of driver faults, also after a
  rollback that failed, and the process may crash and reopen the database at any point. \<open>message_reach\<close> are the stores that
  come about from an empty database in this way.
\<close>

inductive message_run :: "(ustr \<Rightarrow> ustr) \<Rightarrow> store \<Rightarrow> store \<Rightarrow> bool" for lower s where
  here: "message_run lower s s"
| op: "message_run lower s s1 \<Longrightarrow> message_run lower s (run_message_op lower oper (s1\<lparr>st_faults := fs\<rparr>))"
| crash: "message_run lower s s1 \<Longrightarrow> message_run lower s (reopen s1)"

definition message_reach :: "(ustr \<Rightarrow> ustr) \<Rightarrow> store \<Rightarrow> bool" where
  "message_reach lower s \<longleftrightarrow> (\<exists>s0. settled s0 \<and> st_live s0 = empty_tables \<and> message_run lower s0 s)"

lemma exec_settled:
  assumes "settled s" and "exec f s = (r, s')"
  shows "settled s' \<and> (st_live s' = st_live s \<or> f (st_fk s) (st_live s) = Inr (st_live s'))"
  using assms by (auto simp: exec_def settled_def settle_def split: if_splits sum.splits)

lemma synced_committed: "settled s \<Longrightarrow> fts_synced (st_live s) = fts_synced (st_committed s)"
  by (simp add: settled_def)

lemma exec_synced:
  assumes "settled s" and "fts_synced (st_committed s)"
    and "\<And>k t t'. f k t = Inr t' \<Longrightarrow> fts_synced t \<Longrightarrow> fts_synced t'"
  shows "settled (snd (exec f s)) \<and> fts_synced (st_committed (snd (exec f s)))"
proof (cases "exec f s")
  case (Pair r s')
  with exec_settled [OF assms(1) Pair] assms show ?thesis by (auto simp: settled_def)
qed

lemma atomic_synced:
  assumes "case r of Inl e \<Rightarrow> st_committed s' = st_committed s
     | Inr u \<Rightarrow> settled s' \<and> durable (st_committed s') = durable (eff (st_committed s))"
    and "fts_synced (st_committed s)" and "fts_synced (eff (st_committed s))"
  shows "fts_synced (st_committed s')"
proof (cases r)
  case (Inr u)
  with assms have "fts_synced (durable (st_committed s'))" by (simp only: sum.case) simp
  then show ?thesis by simp
qed (use assms in simp)

lemma snd_bind_ret: "snd (thenA m (ret a) s) = snd (m s)"
  by (simp add: thenA_def bindA_def ret_def split: prod.split sum.split)

lemma snd_mapE: "snd (mapE f m s) = snd (m s)"
  by (simp add: mapE_def split: prod.split sum.split)

lemma run_synced:
  assumes s: "settled s" and y: "fts_synced (st_committed s)"
  shows "fts_synced (st_committed (run_message_op lower oper s))"
proof (cases oper)
  case (OpConversation c)
  have "fts_synced (st_committed (snd (exec (put_conv (conv_to_row c)) s)))"
    by (rule exec_synced [OF s y, THEN conjunct2])
      (auto simp: put_conv_def elim: fts_synced_cong [THEN iffD1, rotated 3])
  with OpConversation show ?thesis
    by (simp add: insert_conversation_def db_exec_def snd_mapE)
next
  case (OpIngest n1 n2 msg)
  obtain r s' where w: "with_savepoint ''persist_ingest'' PStorage
      (persist_ingested_message_inner lower n1 n2 msg) s = (r, s')"
    by (cases "with_savepoint ''persist_ingest'' PStorage (persist_ingested_message_inner lower n1 n2 msg) s")
  have "fts_synced (st_committed s')" if "im_id msg \<notin> rs_id ` set (t_skel (st_live s))"
    using that s y by (intro atomic_synced [where eff = "ingest_tables lower n1 n2 msg", OF ingest.atomic_durable [OF s w] y] ingest_synced)
      (simp_all add: settled_def)
  with OpIngest w y show ?thesis
    by (auto simp: persist_ingested_message_def bindA_def fail_def skeleton_exists_settled [OF s] split: sum.split)
next
  case (OpSend n e)
  obtain r s' where w: "with_savepoint ''persist_outbox'' PStorage (persist_outbox_entry_inner lower n e) s = (r, s')"
    by (cases "with_savepoint ''persist_outbox'' PStorage (persist_outbox_entry_inner lower n e) s")
  have "fts_synced (st_committed s')" if "oe_id e \<notin> rs_id ` set (t_skel (st_live s))"
    using that s y by (intro atomic_synced [where eff = "outbox_tables lower n e", OF outbox.atomic_durable [OF s w] y] outbox_synced)
      (simp_all add: settled_def)
  with OpSend w y show ?thesis
    by (auto simp: persist_outbox_entry_def bindA_def fail_def skeleton_exists_settled [OF s] snd_bind_ret)
next
  case (OpSent n1 n2 mid)
  have o: "fts_synced t'" if "pureT (upd_outbox mid f) k t = Inr t'" "fts_synced t" for f k t t'
    using that by (auto simp: pureT_def upd_outbox_def elim: fts_synced_cong [THEN iffD1, rotated 3])
  have j: "fts_synced t'" if "add_journal e k t = Inr t'" "fts_synced t" for e k t t'
    using that by (auto simp: add_journal_def elim: fts_synced_cong [THEN iffD1, rotated 3])
  show ?thesis
  proof (cases "row_of rs_id mid (t_skel (st_live s))")
    case None
    with OpSent y show ?thesis by (simp add: mark_sent_def bind_query_w fail_def)
  next
    case (Some r)
    obtain q s1 where e: "exec (pureT (upd_outbox mid (set_sent n1))) s = (q, s1)"
      by (cases "exec (pureT (upd_outbox mid (set_sent n1))) s")
    have "settled (snd (exec (pureT (upd_outbox mid (set_sent n1))) s))
        \<and> fts_synced (st_committed (snd (exec (pureT (upd_outbox mid (set_sent n1))) s)))"
      by (rule exec_synced [OF s y]) (rule o)
    with e have 1: "settled s1" "fts_synced (st_committed s1)" by simp_all
    have 2: "fts_synced (st_committed (snd (exec (add_journal ev) s1)))" for ev
      by (rule exec_synced [OF 1, THEN conjunct2]) (rule j)
    show ?thesis
      using OpSent Some e 1 2
      by (cases q) (simp_all add: mark_sent_def query_w_def thenA_def bindA_def mapE_def [of PStorage] snd_mapE)
  qed
next
  case (OpEdit n mid x)
  show ?thesis
  proof (cases "x = [] \<or> editable mid (st_live s) = None")
    case True
    then have "st_committed (snd (edit_message lower n mid x s)) = st_committed s"
      using edit_refused [OF s, of mid lower n x] by (auto simp: edit_message_def fail_def)
    with OpEdit y show ?thesis by simp
  next
    case False
    then obtain skel where sk: "editable mid (st_live s) = Some skel" and x: "x \<noteq> []" by auto
    from sk obtain r where r: "row_of rs_id mid (t_skel (st_live s)) = Some r" "skel = skel_of_row r" "plain_row r"
      by (auto simp: editable_def plain_iff split: option.splits if_splits)
    obtain q s' where w: "with_savepoint ''edit_message'' PStorage (edit_message_inner lower skel x n) s = (q, s')"
      by (cases "with_savepoint ''edit_message'' PStorage (edit_message_inner lower skel x n) s")
    have "fts_synced (st_committed s')"

      by (rule atomic_synced [where eff = "edit_tables lower skel x n", OF edit.atomic_durable [OF s w] y])
        (use r s y edit_synced in \<open>auto simp: settled_def\<close>)
    with OpEdit x r w show ?thesis
      by (simp add: edit_message_def bindA_def get_skeleton_settled [OF s] plain_iff)
  qed
next
  case (OpDelete n mid sc)
  show ?thesis
  proof (cases "row_of rs_id mid (t_skel (st_live s))")
    case None
    with OpDelete y show ?thesis
      by (simp add: delete_inner_def bindA_def fail_def get_skeleton_settled [OF s])
  next
    case (Some r)
    obtain q s' where w: "with_savepoint ''delete_message'' PStorage
        (delete_inner_tx (skel_of_row r) sc (delete_target sc) n) s = (q, s')"
      by (cases "with_savepoint ''delete_message'' PStorage
        (delete_inner_tx (skel_of_row r) sc (delete_target sc) n) s")
    have "fts_synced (st_committed s')"
      by (rule atomic_synced [where eff = "delete_tables (skel_of_row r) sc n", OF delete.atomic_durable [OF s w] y])
        (use Some s y delete_synced in \<open>auto simp: settled_def\<close>)
    with OpDelete Some w y show ?thesis
      by (auto simp: delete_inner_def bindA_def fail_def get_skeleton_settled [OF s] split: sum.split)
  qed
qed

lemma empty_synced: "fts_synced empty_tables"
  by (simp add: synced_defs empty_tables_def keys_unique_def)

section \<open>Every public write keeps the store invariant\<close>

context message_relation
begin

lemma sent_update: "good (pureT (upd_outbox k (set_sent n)))"
  by (rule upd_outboxes) (simp add: set_sent_def)

lemma fuzzy_writes: "obeys R (index_fuzzy_grams lower mid x)"
  unfolding index_fuzzy_grams_def by (intro for_all) (auto intro!: write_acts)

lemma message_bodies:
  "obeys R (persist_ingested_message_inner lower now1 now2 msg)"
  "obeys R (persist_outbox_entry_inner lower now e)"
  "obeys R (edit_message_inner lower skel x now)"
  "obeys R (delete_inner_tx skel scope target now)"
  unfolding persist_ingested_message_inner_def persist_outbox_entry_inner_def edit_message_inner_def
    delete_inner_tx_def insert_fts_row_def Let_def
  by (auto intro!: write_acts fuzzy_writes split: option.split)

lemma message_writes:
  "obeys R (persist_ingested_message lower now1 now2 msg)" "obeys R (persist_outbox_entry lower now e)"
  "obeys R (mark_sent now1 now2 mid)" "obeys R (edit_message lower now mid x)" "obeys R (delete_inner now mid scope)"
  unfolding persist_ingested_message_def persist_outbox_entry_def mark_sent_def edit_message_def delete_inner_def
    skeleton_exists_def get_message_skeleton_def fetch_skeleton_def
  by (auto intro!: write_acts sent_update message_bodies split: option.split sum.split)

end

text \<open>The writes of \<open>LocalStoreDb\<close> and of the message pipeline.\<close>

inductive public_write :: "(ustr \<Rightarrow> ustr) \<Rightarrow> (store \<Rightarrow> store) \<Rightarrow> bool" for lower where
  "public_write lower (\<lambda>s. snd (insert_conversation c s))"
| "public_write lower (\<lambda>s. snd (insert_skeleton k s))"
| "public_write lower (\<lambda>s. snd (insert_body b s))"
| "public_write lower (\<lambda>s. snd (index_fts m c d n x s))"
| "public_write lower (\<lambda>s. snd (insert_media_asset a s))"
| "public_write lower (\<lambda>s. snd (update_body_state m st s))"
| "public_write lower (\<lambda>s. snd (update_media_state m st s))"
| "public_write lower (\<lambda>s. snd (index_fuzzy g sc m s))"
| "public_write lower (\<lambda>s. snd (insert_backup_event e s))"
| "public_write lower (\<lambda>s. snd (update_conversation_last_message c m n s))"
| "public_write lower (\<lambda>s. snd (update_message_body_text m x s))"
| "public_write lower (\<lambda>s. snd (update_skeleton_edited m n s))"
| "public_write lower (\<lambda>s. snd (delete_fts_row m s))"
| "public_write lower (\<lambda>s. snd (delete_fuzzy_rows m s))"
| "public_write lower (\<lambda>s. snd (update_skeleton_deleted m n bs s))"
| "public_write lower (\<lambda>s. snd (delete_message_body m s))"
| "public_write lower (\<lambda>s. snd (mark_skeleton_backed_up m s))"
| "public_write lower (\<lambda>s. snd (batch_mark_skeletons_backed_up ids s))"
| "public_write lower (\<lambda>s. snd (reindex_message lower m c d n x s))"
| "public_write lower (\<lambda>s. snd (prune_backup_events n s))"
| "public_write lower (\<lambda>s. snd (save_backup_state g h s))"
| "public_write lower (\<lambda>s. snd (clear_all_message_data s))"
| "public_write lower (\<lambda>s. snd (persist_ingested_message lower n1 n2 msg s))"
| "public_write lower (\<lambda>s. snd (persist_outbox_entry lower n e2 s))"
| "public_write lower (\<lambda>s. snd (mark_sent n1 n2 m s))"
| "public_write lower (\<lambda>s. snd (edit_message lower n m x s))"
| "public_write lower (\<lambda>s. snd (delete_inner n m scope s))"

inductive store_reach :: "(ustr \<Rightarrow> ustr) \<Rightarrow> store \<Rightarrow> bool" for lower where
  start: "st_live s = empty_tables \<Longrightarrow> settled s \<Longrightarrow> store_reach lower s"
| step: "store_reach lower s \<Longrightarrow> public_write lower f \<Longrightarrow> store_reach lower (f (s\<lparr>st_faults := fs\<rparr>))"
| crash: "store_reach lower s \<Longrightarrow> store_reach lower (reopen s)"

context table_relation
begin

lemma message_op_in: "R s (run_message_op lower oper s)"
  using conversation_write message_writes by (cases oper) (simp_all add: obeys_def)

end

context clearing_relation
begin

lemma write_step: "public_write lower f \<Longrightarrow> R s (f s)"
  by (erule public_write.cases)
    (use conversation_write row_writes batch_writes message_writes clear_write in \<open>simp_all add: obeys_def\<close>)

end

section \<open>A savepoint left open\<close>

text \<open>
  The rollback's own errors are dropped, so a failed rollback leaves the savepoint open. From then on nothing that the
  message operations do is committed, although they report success.
\<close>

definition stuck :: "store \<Rightarrow> store \<Rightarrow> bool" where
  "stuck s s' \<longleftrightarrow> (st_saves s \<noteq> [] \<longrightarrow> st_committed s' = st_committed s \<and> st_saves s' \<noteq> [])"

interpretation sticking: action_relation stuck
  by unfold_locales (auto simp: stuck_def)

lemma stuck_kept: "keeps m \<Longrightarrow> obeys stuck m"
  by (auto simp: obeys_def kept_def stuck_def)

lemma stuck_wrapped:
  assumes "keeps inner"
  shows "obeys stuck (with_savepoint n f inner)"
proof (rule obeysI)
  fix s
  let ?o = "(tick s)\<lparr>st_saves := (n, st_live s) # st_saves s\<rparr>"
  obtain q s1 where i: "inner ?o = (q, s1)" by (cases "inner ?o")
  have "st_committed s1 = st_committed s" "st_saves s1 = (n, st_live s) # st_saves s"
    using obeys_run [OF assms i] by (simp_all add: kept_def)
  then show "stuck s (snd (with_savepoint n f inner s))"
    by (auto simp: stuck_def with_savepoint_def bindA_def thenA_def mapE_def savepoint_def release_def rollback_to_def
        pop_saves_def ret_def settle_def i split: sum.split)
qed

lemma stuck_messages: "obeys stuck (persist_ingested_message lower now1 now2 msg)" "obeys stuck (persist_outbox_entry lower now e)"
  "obeys stuck (mark_sent now1 now2 mid)" "obeys stuck (edit_message lower now mid x)" "obeys stuck (delete_inner now mid scope)"
  unfolding persist_ingested_message_def persist_outbox_entry_def mark_sent_def edit_message_def delete_inner_def
    skeleton_exists_def get_message_skeleton_def fetch_skeleton_def
  by (auto intro!: sticking.acts stuck_wrapped inner_keeps stuck_kept [OF keeps_exec] split: option.split sum.split)

lemma stuck_op: "stuck s (run_message_op lower oper s)"
  by (cases oper) (auto simp: insert_conversation_def db_exec_def intro!: obeys_snd stuck_messages stuck_kept keeps_intros)

lemma message_aligned:
  assumes "aligned s"
  shows "aligned (run_message_op lower oper (s\<lparr>st_faults := fs\<rparr>))"
  using aligning.message_op_in [of "s\<lparr>st_faults := fs\<rparr>" lower oper] assms
  by (simp add: stays_aligned_def aligned_def settled_def)

lemma reopen_settled: "settled (reopen s)"
  by (simp add: reopen_def settled_def)

lemma settled_aligned: "settled s \<Longrightarrow> aligned s"
  by (simp add: aligned_def)

lemma message_run_aligned: "message_run lower s s' \<Longrightarrow> aligned s \<Longrightarrow> aligned s'"
  by (induction rule: message_run.induct) (simp_all add: message_aligned settled_aligned reopen_settled)

text \<open>Whether or not a savepoint is open, an operation keeps the committed tables in step.\<close>

lemma op_synced:
  assumes "aligned s" and "fts_synced (st_committed s)"
  shows "fts_synced (st_committed (run_message_op lower oper (s\<lparr>st_faults := fs\<rparr>)))"
proof (cases "st_saves s = []")
  case True
  with assms have "settled (s\<lparr>st_faults := fs\<rparr>)" "fts_synced (st_committed (s\<lparr>st_faults := fs\<rparr>))"
    by (simp_all add: aligned_def settled_def)
  then show ?thesis by (rule run_synced)
next
  case False
  with stuck_op [of "s\<lparr>st_faults := fs\<rparr>" lower oper] assms(2) show ?thesis by (simp add: stuck_def)
qed

lemma public_write_wf: "public_write lower f \<Longrightarrow> store_wf s \<Longrightarrow> store_wf (f s)"
  using preserving.write_step [of lower f s] by (simp add: wf_kept_def)

lemma reopen_wf: "store_wf s \<Longrightarrow> store_wf (reopen s)"
  by (simp add: store_wf_def reopen_def)

lemma faults_wf [simp]: "store_wf (s\<lparr>st_faults := fs\<rparr>) = store_wf s"
  by (simp add: store_wf_def)

section \<open>Properties\<close>

lemma open_facts [simp]:
  "settled (open_db fk)" "quiet (open_db fk)" "settled (open_in_memory fk)" "quiet (open_in_memory fk)"
  "st_live (open_db fk) = empty_tables" "st_live (open_in_memory fk) = empty_tables"
  "settled (s\<lparr>st_faults := fs\<rparr>) = settled s"
  by (simp_all add: open_db_def open_in_memory_def fresh_store_def settled_def quiet_def)

text \<open>A message and a store that holds it, for the witnesses.\<close>

definition sample_message :: "string \<Rightarrow> ingested_message" where
  "sample_message mid =
     \<lparr>im_id = mid, im_conv = ''c1'', im_sender = ''ann'', im_created_ms = 5, im_text = Some (lit ''hello''),
      im_media = [], im_reply_to = None\<rparr>"

definition sample_store :: store where
  "sample_store = both (open_in_memory False)
     (empty_tables\<lparr>t_skel := [skel_to_row (ingest_skeleton 5 KText (sample_message ''m1''))],
                   t_body := [plain_body ''m1'' (lit ''hello'')],
                   t_fts := [fts_of ''m1'' ''c1'' ''ann'' 5 (lit ''hello'')]\<rparr>)"

lemma sample_facts:
  "settled sample_store" "quiet sample_store"
  "row_of rs_id ''m1'' (t_skel (st_live sample_store)) = Some (skel_to_row (ingest_skeleton 5 KText (sample_message ''m1'')))"
  "editable ''m1'' (st_live sample_store) = Some (ingest_skeleton 5 KText (sample_message ''m1''))"
  "validate_ingest (sample_message ''m1'') = Inr ()"
  by (simp_all add: sample_store_def editable_def row_of_def skeleton_rows sample_message_def validate_ingest_def lit_def)
    (simp_all add: ingest_skeleton_def)

text \<open>
  C5: ingest is crash atomic: called on a store with no savepoint open and everything committed, under any schedule of
  driver faults during the call, an error leaves the committed database as it was, and success means that the skeleton,
  media, body, full-text and journal rows of the message are all committed; only the fuzzy index and the conversation's
  last-message columns are best effort. (After an earlier rollback that failed a savepoint is open; nothing is committed
  then, which theory \<open>Durability\<close> shows.)
\<close>

theorem ingest_crash_atomic:
  assumes "settled s"
  shows "case persist_ingested_message lower now1 now2 msg s of
      (Inl e, s') \<Rightarrow> st_committed s' = st_committed s
    | (Inr u, s') \<Rightarrow> settled s' \<and>
        durable (st_committed s') = durable (ingest_tables lower now1 now2 msg (st_committed s))"
proof -
  obtain r s' where w: "with_savepoint ''persist_ingest'' PStorage
      (persist_ingested_message_inner lower now1 now2 msg) s = (r, s')"
    by (cases "with_savepoint ''persist_ingest'' PStorage (persist_ingested_message_inner lower now1 now2 msg) s")
  from ingest.atomic_durable [OF assms w] w show ?thesis
    by (auto simp: persist_ingested_message_def bindA_def fail_def skeleton_exists_settled [OF assms]
        split: sum.splits)
qed

theorem ingest_crash_atomic_witness:
  "case persist_ingested_message id 1 2 (sample_message ''m1'')
       ((open_db True)\<lparr>st_faults := [False, False, True]\<rparr>) of
      (Inl e, s') \<Rightarrow> st_committed s' = empty_tables
    | (Inr u, s') \<Rightarrow> settled s' \<and>
        durable (st_committed s') = durable (ingest_tables id 1 2 (sample_message ''m1'') empty_tables)"
proof -
  have c: "st_committed ((open_db True)\<lparr>st_faults := [False, False, True]\<rparr>) = empty_tables"
    and s: "settled ((open_db True)\<lparr>st_faults := [False, False, True]\<rparr>)"
    by (simp_all add: open_db_def fresh_store_def settled_def)
  from ingest_crash_atomic [OF s, of id 1 2 "sample_message ''m1''"] show ?thesis by (simp only: c)
qed

text \<open>
  the behaviour of ingest on every branch, when the driver does not fail: validation errors and
  duplicates leave the store alone, an unknown conversation is a foreign-key error where SQLite
  enforces them, and otherwise the store moves in one step to the specified tables.
\<close>

theorem ingest_functional:
  assumes "settled s" and "quiet s"
  shows "persist_ingested_message lower now1 now2 msg s =
    (case validate_ingest msg of
       Inl e \<Rightarrow> (Inl e, s)
     | Inr _ \<Rightarrow>
         if im_id msg \<in> rs_id ` set (t_skel (st_live s)) then (Inl DuplicateMessage, s)
         else if st_fk s \<and> im_conv msg \<notin> rc_id ` set (t_conv (st_live s)) then (Inl (PStorage FkViolation), s)
         else (Inr (), both s (ingest_tables lower now1 now2 msg (st_live s))))"
  using assms by (rule ingest_eval)

theorem ingest_functional_witness:
  "persist_ingested_message id 1 2 (sample_message ''m1'') (open_db True) = (Inl (PStorage FkViolation), open_db True)
   \<and> persist_ingested_message id 1 2 (sample_message ''m1'') (open_db False)
     = (Inr (), both (open_db False) (ingest_tables id 1 2 (sample_message ''m1'') empty_tables))"
  using ingest_functional [of "open_db True" id 1 2 "sample_message ''m1''"]
    ingest_functional [of "open_db False" id 1 2 "sample_message ''m1''"] sample_facts(5)
  by (simp add: open_db_def fresh_store_def settled_def quiet_def empty_tables_def)

text \<open>
  ingest is idempotent per message id: once a message is stored, any later message with its id
  is refused as a duplicate and changes nothing, even when its content differs.
\<close>

theorem ingest_idempotent:
  assumes "settled s" and "quiet s"
    and "persist_ingested_message lower now1 now2 msg s = (Inr (), s')"
    and "im_id msg' = im_id msg" and "validate_ingest msg' = Inr ()"
  shows "persist_ingested_message lower now3 now4 msg' s' = (Inl DuplicateMessage, s')"
proof -
  from assms(1-3) have s': "s' = both s (ingest_tables lower now1 now2 msg (st_live s))"
    by (auto simp: ingest_eval split: sum.splits if_splits)
  with assms(1,2) have "settled s'" "quiet s'" by (simp_all add: settled_def quiet_def)
  moreover have "im_id msg' \<in> rs_id ` set (t_skel (st_live s'))"
    by (simp add: s' ingest_tables_rows image_upsert_key skeleton_rows assms(4))
  ultimately show ?thesis by (simp add: ingest_eval assms(5))
qed

theorem ingest_idempotent_witness:
  "\<exists>s'. persist_ingested_message id 1 2 (sample_message ''m1'') (open_db False) = (Inr (), s')
     \<and> persist_ingested_message id 3 4 (sample_message ''m1'') s' = (Inl DuplicateMessage, s')"
proof -
  let ?s' = "both (open_db False) (ingest_tables id 1 2 (sample_message ''m1'') empty_tables)"
  have 1: "persist_ingested_message id 1 2 (sample_message ''m1'') (open_db False) = (Inr (), ?s')"
    using ingest_eval [of "open_db False" id 1 2 "sample_message ''m1''"] sample_facts(5)
    by (simp add: open_db_def fresh_store_def settled_def quiet_def empty_tables_def)
  from ingest_idempotent [OF open_facts(1,2) 1 refl sample_facts(5)] 1 show ?thesis by blast
qed

text \<open>
  C13: an edit keeps both search indexes in step with the body: editing a readable message that has a body row, on a store with
  no savepoint open and without a driver fault, puts the new text into that body, makes it the text of the message's only
  full-text row, makes its n-grams the message's fuzzy rows, and leaves the rows of other messages alone.
\<close>

theorem edit_reindexes:
  assumes "settled s" and "quiet s" and "editable mid (st_live s) = Some skel" and "new_text \<noteq> []"
    and "row_of b_id mid (t_body (st_live s)) = Some b"
  shows "\<exists>t. edit_message lower now mid new_text s = (Inr (), both s t)
    \<and> filter (\<lambda>f. f_id f = mid) (t_fts t) = [fts_of mid (sk_conv skel) (sk_sender skel) (sk_created_ms skel) new_text]
    \<and> filter (\<lambda>f. f_id f \<noteq> mid) (t_fts t) = filter (\<lambda>f. f_id f \<noteq> mid) (t_fts (st_live s))
    \<and> row_of b_id mid (t_body t) = Some (b\<lparr>b_text := Some new_text\<rparr>)
    \<and> (\<forall>k. k \<noteq> mid \<longrightarrow> row_of b_id k (t_body t) = row_of b_id k (t_body (st_live s)))
    \<and> set (t_fuzzy t) = {r \<in> set (t_fuzzy (st_live s)). snd (snd r) \<noteq> mid}
        \<union> {(g, sc, mid) |g sc. (g, sc) \<in> set (index_grams lower new_text)}"
proof -
  from assms(3) have k: "sk_id skel = mid"
    by (auto simp: editable_def dest!: row_of_SomeD split: option.splits if_splits)
  have "map_option (\<lambda>x. if b_id x = mid then x\<lparr>b_text := Some new_text\<rparr> else x) (row_of b_id k (t_body (st_live s)))
      = row_of b_id k (t_body (st_live s))" if "k \<noteq> mid" for k
    using that by (cases "row_of b_id k (t_body (st_live s))") (auto dest: row_of_SomeD)
  with edit_eval [OF assms(1-4)] k assms(5) show ?thesis
    by (auto simp: edit_tables_rows edit_tables_fuzzy delete_where_def row_of_update
        intro!: exI [of _ "edit_tables lower skel new_text now (st_live s)"] dest: row_of_SomeD)
qed

theorem edit_reindexes_witness:
  "\<exists>t. edit_message id 9 ''m1'' (lit ''bye'') sample_store = (Inr (), both sample_store t)
     \<and> filter (\<lambda>f. f_id f = ''m1'') (t_fts t) = [fts_of ''m1'' ''c1'' ''ann'' 5 (lit ''bye'')]
     \<and> row_of b_id ''m1'' (t_body t) = Some (plain_body ''m1'' (lit ''bye''))"
proof -
  have "row_of b_id ''m1'' (t_body (st_live sample_store)) = Some (plain_body ''m1'' (lit ''hello''))"
    by (simp add: sample_store_def row_of_def plain_body_def)
  from edit_reindexes [OF sample_facts(1,2,4) _ this, of "lit ''bye''" id 9] show ?thesis
    by (auto simp: lit_def ingest_skeleton_def sample_message_def plain_body_def)
qed

text \<open>
  C7: no fault and no crash in the message pipeline puts the full-text index out of step with the messages: in every store
  that conversations, ingests, sends, acknowledgements, edits and deletions produce from an empty database, with any
  statements failing, the rollback's included, and crashes at any point, the committed tables have at most one index row
  for a message, with its conversation, sender and date, none for a deleted one, and every readable local text as it is stored. Captions of sent media and a
  restore do not go through the pipeline and do put the index out of step.
\<close>

theorem index_sync_reachable:
  assumes "message_reach lower s"
  shows "fts_synced (st_committed s)"
proof -
  from assms obtain s0 where "settled s0" "st_live s0 = empty_tables" and run: "message_run lower s0 s"
    by (auto simp: message_reach_def)
  then have "aligned s0" "fts_synced (st_committed s0)" by (simp_all add: settled_aligned settled_def empty_synced)
  with run show ?thesis
  proof (induction rule: message_run.induct)
    case (op s1 oper fs)
    then show ?case using message_run_aligned op_synced by blast
  qed (simp_all add: reopen_def)
qed

text \<open>An ingest fails at its second statement and its rollback fails too; a later ingest reports success in the open savepoint.\<close>

theorem index_sync_reachable_witness:
  "fts_synced (st_committed (run_message_op id (OpIngest 3 4 (sample_message ''m2''))
     ((run_message_op id (OpIngest 1 2 (sample_message ''m1'')) ((open_db False)\<lparr>st_faults := [False, True, True]\<rparr>))\<lparr>st_faults := []\<rparr>)))"
proof -
  have "message_reach id (run_message_op id (OpIngest 3 4 (sample_message ''m2''))
     ((run_message_op id (OpIngest 1 2 (sample_message ''m1'')) ((open_db False)\<lparr>st_faults := [False, True, True]\<rparr>))\<lparr>st_faults := []\<rparr>))"
    unfolding message_reach_def
    by (rule exI [of _ "open_db False"]) (simp add: message_run.op [OF message_run.op [OF message_run.here]] del: run_message_op.simps)
  then show ?thesis by (rule index_sync_reachable)
qed

text \<open>
  every reachable store is well formed: after any sequence of the public writes of the database
  and of the message pipeline, under any driver faults and crashes, primary keys are unique, the
  fuzzy index has no duplicates, journal numbers ascend, and enforced references have targets, in
  the live tables, the committed image and every savepoint.
\<close>

theorem store_invariant: "store_reach lower s \<Longrightarrow> store_wf s"
proof (induction rule: store_reach.induct)
  case (start s)
  then show ?case by (auto simp: store_wf_def settled_def empty_tables_wf)
next
  case (step s f fs)
  then show ?case using public_write_wf [OF step.hyps(2), of "s\<lparr>st_faults := fs\<rparr>"] by simp
next
  case (crash s)
  then show ?case by (simp add: reopen_wf)
qed

theorem store_invariant_witness:
  "store_wf (snd (insert_skeleton (ingest_skeleton 1 KText (sample_message ''m1''))
     ((open_db True)\<lparr>st_faults := [True]\<rparr>)))"
proof -
  have "store_reach id (open_db True)" by (rule store_reach.start) simp_all
  from store_reach.step [OF this public_write.intros(2)] show ?thesis by (rule store_invariant)
qed

text \<open>
  a media-only outbox entry is stored without a skeleton, so its own id is not seen as a
  duplicate on a retry and it can never be marked as sent: \<open>mark_sent\<close> reports it as unknown.
\<close>

theorem media_only_outbox_unmarkable:
  assumes "settled s" and "quiet s" and "oe_text e = []" and "oe_media e = Some a"
    and "oe_id e \<notin> rs_id ` set (t_skel (st_live s))"
  shows "\<exists>s'. persist_outbox_entry lower now e s = (Inr (oe_id e), s')
    \<and> outbox_row_of e \<in> set (t_outbox (st_committed s'))
    \<and> (\<exists>s''. persist_outbox_entry lower now e s' = (Inr (oe_id e), s''))
    \<and> mark_sent now1 now2 (oe_id e) s' =
        (Inl (InvalidMessage (''no outbox entry with client_message_id='' @ oe_id e)), s')"
proof -
  let ?s = "both s (outbox_tables lower now e (st_live s))"
  have p: "settled ?s" "quiet ?s" using assms(1,2) by (simp_all add: settled_def quiet_def)
  have n: "oe_id e \<notin> rs_id ` set (t_skel (st_live ?s))"
    using assms(3,5) by (simp add: outbox_tables_rows)
  then have "row_of rs_id (oe_id e) (t_skel (st_live ?s)) = None" by (simp add: row_of_None)
  then have "mark_sent now1 now2 (oe_id e) ?s =
      (Inl (InvalidMessage (''no outbox entry with client_message_id='' @ oe_id e)), ?s)"
    by (simp add: mark_sent_def bind_query_w fail_def)
  moreover have "\<exists>s''. persist_outbox_entry lower now e ?s = (Inr (oe_id e), s'')"
    using outbox_eval [OF p, of lower now e] n assms(3,4) by (simp add: outbox_spec_def)
  moreover have "outbox_row_of e \<in> set (t_outbox (st_committed ?s))"
    using assms(3) by (simp add: outbox_tables_def Let_def upsert_def)
  moreover have "persist_outbox_entry lower now e s = (Inr (oe_id e), ?s)"
    using outbox_eval [OF assms(1,2), of lower now e] assms(3-5) by (simp add: outbox_spec_def)
  ultimately show ?thesis by blast
qed

theorem media_only_outbox_unmarkable_witness:
  "\<exists>s'. persist_outbox_entry id 3 (create_media_outbox_entry ''u1'' 3 ''c1'' ''a1'' None) (open_db True) = (Inr ''u1'', s')
     \<and> mark_sent 4 5 ''u1'' s' = (Inl (InvalidMessage ''no outbox entry with client_message_id=u1''), s')"
proof -
  let ?e = "create_media_outbox_entry ''u1'' 3 ''c1'' ''a1'' None"
  have e: "oe_text ?e = []" "oe_media ?e = Some ''a1''" "oe_id ?e = ''u1''"
    by (simp_all add: create_media_outbox_entry_def)
  have "oe_id ?e \<notin> rs_id ` set (t_skel (st_live (open_db True)))" by (simp add: empty_tables_def)
  from media_only_outbox_unmarkable [OF open_facts(1,2) e(1,2) this, of id 3 4 5] obtain s' where
    "persist_outbox_entry id 3 ?e (open_db True) = (Inr (oe_id ?e), s')"
    "mark_sent 4 5 (oe_id ?e) s' =
        (Inl (InvalidMessage (''no outbox entry with client_message_id='' @ oe_id ?e)), s')"
    by blast
  then show ?thesis unfolding e(3) by auto
qed

text \<open>
  editing a message that has no body row (a media message) succeeds and puts the new text into
  the full-text index, but stores it nowhere: the message is then found by a text it does not have.
\<close>

theorem edit_without_body_indexes_ghost:
  assumes "settled s" and "quiet s" and "editable mid (st_live s) = Some skel" and "new_text \<noteq> []"
    and "row_of b_id mid (t_body (st_live s)) = None"
  shows "\<exists>s'. edit_message lower now mid new_text s = (Inr (), s')
    \<and> row_of b_id mid (t_body (st_committed s')) = None
    \<and> (\<exists>f \<in> set (t_fts (st_committed s')). f_id f = mid \<and> f_text f = new_text)"
proof -
  from assms(3) have k: "sk_id skel = mid"
    by (auto simp: editable_def dest!: row_of_SomeD split: option.splits if_splits)
  with edit_eval [OF assms(1-4)] assms(5) show ?thesis
    by (auto simp: edit_tables_rows row_of_update)
qed

theorem edit_without_body_indexes_ghost_witness:
  "\<exists>s'. edit_message id 9 ''m1'' (lit ''bye'')
       (both (open_in_memory False)
          (empty_tables\<lparr>t_skel := [skel_to_row (ingest_skeleton 5 KMedia (sample_message ''m1''))]\<rparr>)) = (Inr (), s')
     \<and> row_of b_id ''m1'' (t_body (st_committed s')) = None"
proof -
  let ?s = "both (open_in_memory False)
      (empty_tables\<lparr>t_skel := [skel_to_row (ingest_skeleton 5 KMedia (sample_message ''m1''))]\<rparr>)"
  have "settled ?s" "quiet ?s" by simp_all
  moreover have "editable ''m1'' (st_live ?s) = Some (ingest_skeleton 5 KMedia (sample_message ''m1''))"
    by (simp add: editable_def row_of_def skeleton_rows sample_message_def) (simp add: ingest_skeleton_def)
  moreover have "row_of b_id ''m1'' (t_body (st_live ?s)) = None" by (simp add: row_of_def empty_tables_def)
  moreover have "lit ''bye'' \<noteq> []" by (simp add: lit_def)
  ultimately show ?thesis
    using edit_without_body_indexes_ghost [of ?s "''m1''" "ingest_skeleton 5 KMedia (sample_message ''m1'')"
        "lit ''bye''" id 9] by blast
qed

end
