(* ===== verification/Offload.thy ===== *)
theory Offload
  imports Archive MessageProps "HOL-Library.Multiset"
begin

text \<open>
  Storage offload (\<open>offload/\<close>): scoring and cost (\<open>scoring.rs\<close>, \<open>cost_model.rs\<close>), eviction planning
  (\<open>eviction.rs\<close>), the budget (\<open>budget.rs\<close>) and the hydration queue (\<open>hydration.rs\<close>). Scores are \<open>f64\<close> in the code and
  rationals here; the size of the database comes from two PRAGMAs of SQLite and is the argument \<open>db_size\<close>.
\<close>

section \<open>Scores\<close>

definition ms_per_day :: rat where
  "ms_per_day = 1000 * 3600 * 24"

definition score_message :: "int \<Rightarrow> nat \<Rightarrow> bool \<Rightarrow> bool \<Rightarrow> rat" where
  "score_message age_ms access_count has_media pinned =
     (if pinned then 0
      else max (of_int age_ms / ms_per_day - of_nat access_count * 10 + (if has_media then 5 else 0)) 0)"

definition eviction_score :: "int \<Rightarrow> nat \<Rightarrow> bool \<Rightarrow> rat" where
  "eviction_score age_ms access_count pinned =
     (if pinned then 0 else max (of_int age_ms / ms_per_day - of_nat access_count * 10) 0)"

definition eviction_cost :: "int \<Rightarrow> nat \<Rightarrow> nat \<Rightarrow> rat" where
  "eviction_cost age_ms access_count nbytes =
     1 / (1 + max (of_int age_ms / (1000 * 3600)) (1 / 10)) * (1 / (1 + of_nat access_count))
       - of_nat nbytes / (1024 * 1024) * (1 / 100)"

section \<open>Planning\<close>

datatype eviction_tier = MediaOriginals | MediaThumbnails | ColdSearchShards | MessageBodies

record eviction_candidate =
  ec_kind :: eviction_tier
  ec_id :: string
  ec_size :: u64
  ec_score :: rat

text \<open>\<open>as u64\<close> of an \<open>i64\<close> size.\<close>

definition candidate :: "eviction_tier \<Rightarrow> int \<Rightarrow> string \<times> int \<times> int \<Rightarrow> eviction_candidate" where
  "candidate tier now row = (case row of (ident, nbytes, created) \<Rightarrow>
     \<lparr>ec_kind = tier, ec_id = ident, ec_size = i64_as_u64 nbytes, ec_score = eviction_score (now - created) 0 False\<rparr>)"

text \<open>The loop that keeps candidates until the sizes taken so far reach the target; the sum wraps, as in a release build.\<close>

fun take_until :: "u64 \<Rightarrow> u64 \<Rightarrow> eviction_candidate list \<Rightarrow> eviction_candidate list" where
  "take_until target acc [] = []"
| "take_until target acc (c # cs) = (if target \<le> acc then [] else c # take_until target (acc + ec_size c) cs)"

definition plan_eviction :: "int \<Rightarrow> u64 \<Rightarrow> (storage_error, eviction_candidate list) act" where
  "plan_eviction now target =
     bindA (fetch_evictable_media 200) (\<lambda>media.
     bindA (fetch_evictable_bodies 200) (\<lambda>bodies.
     ret (take_until target 0 (sort_key (\<lambda>c. - ec_score c)
       (map (candidate MediaOriginals now) media @ map (candidate MessageBodies now) bodies)))))"

definition plan_eviction_tiers :: "u64 \<Rightarrow> eviction_tier list" where
  "plan_eviction_tiers target = [MediaOriginals, ColdSearchShards, MediaThumbnails, MessageBodies]"

section \<open>Budget\<close>

record budget_config =
  bg_max_db :: u64
  bg_max_cache :: u64

definition default_budget :: budget_config where
  "default_budget = \<lparr>bg_max_db = 512 * 1024 * 1024, bg_max_cache = 256 * 1024 * 1024\<rparr>"

definition is_over_budget :: "budget_config \<Rightarrow> u64 \<Rightarrow> u64 \<Rightarrow> bool" where
  "is_over_budget b db_bytes cache_bytes \<longleftrightarrow> bg_max_db b < db_bytes \<or> bg_max_cache b < cache_bytes"

text \<open>Products of \<open>u64\<close> wrap, as they do in a release build.\<close>

definition eviction_threshold :: "budget_config \<Rightarrow> u64" where
  "eviction_threshold b = bg_max_db b * 90 div 100"

definition critical_threshold :: "budget_config \<Rightarrow> u64" where
  "critical_threshold b = bg_max_db b * 95 div 100"

type_synonym db_size = "store \<Rightarrow> storage_error + u64"

definition check_and_plan_eviction ::
  "db_size \<Rightarrow> int \<Rightarrow> budget_config \<Rightarrow> (core_error, eviction_candidate list) act" where
  "check_and_plan_eviction db_bytes_of now b s =
     (case db_bytes_of s of
        Inl e \<Rightarrow> (Inl (CStorage e), s)
      | Inr db_bytes \<Rightarrow>
          if db_bytes \<le> bg_max_db b then (Inr [], s)
          else mapE CStorage (plan_eviction now (db_bytes - bg_max_db b)) s)"

section \<open>The hydration queue\<close>

datatype hydration_reason = UserTap | ScrollBack | SearchHit

record hydration_request =
  hr_message :: uuid
  hr_reason :: hydration_reason

type_synonym hydration_queue = "hydration_request list"

definition hq_push :: "hydration_request \<Rightarrow> hydration_queue \<Rightarrow> hydration_queue" where
  "hq_push r q = (if list_ex (\<lambda>x. hr_message x = hr_message r) q then q else q @ [r])"

definition hq_drain :: "hydration_queue \<Rightarrow> hydration_request list \<times> hydration_queue" where
  "hq_drain q = (q, [])"

text \<open>The message a fetched one is stored as; descriptors and the reply are dropped.\<close>

definition hydrated_message :: "raw_delivery_message \<Rightarrow> ingested_message" where
  "hydrated_message raw =
     \<lparr>im_id = rd_id raw, im_conv = rd_conv raw, im_sender = rd_sender raw, im_created_ms = rd_created_ms raw,
      im_text = rd_text raw, im_media = [], im_reply_to = None\<rparr>"

text \<open>The clock readings of one message's ingest are the arguments \<open>now1\<close> and \<open>now2\<close>.\<close>

fun hydrate_all ::
  "(ustr \<Rightarrow> ustr) \<Rightarrow> int \<Rightarrow> int \<Rightarrow> raw_delivery_message list \<Rightarrow> nat \<Rightarrow> (core_error, nat) act" where
  "hydrate_all lower now1 now2 [] n = ret n"
| "hydrate_all lower now1 now2 (raw # raws) n =
     bindA (mapE CMessage (persist_ingested_message lower now1 now2 (hydrated_message raw)))
       (\<lambda>_. hydrate_all lower now1 now2 raws (n + 1))"

fun hydrate_requests ::
  "(ustr \<Rightarrow> ustr) \<Rightarrow> int \<Rightarrow> int \<Rightarrow> 'w gateway \<Rightarrow> hydration_request list \<Rightarrow> nat \<Rightarrow> store \<Rightarrow> 'w \<Rightarrow>
     (core_error + nat) \<times> store \<times> 'w" where
  "hydrate_requests lower now1 now2 G [] n s w = (Inr n, s, w)"
| "hydrate_requests lower now1 now2 G (r # rs) n s w =
     (case get_message_skeleton (hr_message r) s of
        (Inr (Some sk), s1) \<Rightarrow>
          (case as_storage (gw_fetch_messages G (sk_conv sk) (Some (str_bytes (hr_message r))) w) of
             (Inl e, w') \<Rightarrow> (Inl e, s1, w')
           | (Inr page, w') \<Rightarrow>
               if fr_messages page = [] then hydrate_requests lower now1 now2 G rs n s1 w'
               else (case hydrate_all lower now1 now2 (fr_messages page) n s1 of
                       (Inl e, s2) \<Rightarrow> (Inl e, s2, w')
                     | (Inr n', s2) \<Rightarrow> hydrate_requests lower now1 now2 G rs n' s2 w'))
      | (_, s1) \<Rightarrow> hydrate_requests lower now1 now2 G rs n s1 w)"

definition hq_process ::
  "(ustr \<Rightarrow> ustr) \<Rightarrow> int \<Rightarrow> int \<Rightarrow> 'w gateway \<Rightarrow> hydration_queue \<Rightarrow> store \<Rightarrow> 'w \<Rightarrow>
     (core_error + nat) \<times> hydration_queue \<times> store \<times> 'w" where
  "hq_process lower now1 now2 G q s w =
     (case hq_drain q of (requests, q') \<Rightarrow>
      case hydrate_requests lower now1 now2 G requests 0 s w of (r, s', w') \<Rightarrow> (r, q', s', w'))"

section \<open>Plans\<close>

definition total_size :: "eviction_candidate list \<Rightarrow> nat" where
  "total_size cs = sum_list (map (\<lambda>c. unat (ec_size c)) cs)"

lemma total_size_simps [simp]:
  "total_size [] = 0" "total_size (c # cs) = unat (ec_size c) + total_size cs" "total_size (cs @ ds) = total_size cs + total_size ds"
  by (simp_all add: total_size_def)

lemma total_size_prefix: "prefix ds cs \<Longrightarrow> total_size ds \<le> total_size cs"
  by (auto simp: prefix_def)

lemma total_size_mset: "mset cs = mset ds \<Longrightarrow> total_size cs = total_size ds"
  by (metis mset_map sum_mset_sum_list total_size_def)

lemma take_until_prefix: "prefix (take_until target acc cs) cs"
  by (induction target acc cs rule: take_until.induct) auto

text \<open>While the sum does not wrap, the loop stops as soon as the target is reached and not before.\<close>

lemma take_until_enough:
  "unat acc + total_size cs < 2 ^ 64 \<Longrightarrow>
     unat target \<le> unat acc + total_size (take_until target acc cs) \<or> take_until target acc cs = cs"
proof (induction target acc cs rule: take_until.induct)
  case (2 target acc c cs)
  have "unat (acc + ec_size c) = unat acc + unat (ec_size c)" using 2(2) by (simp add: unat_word_ariths)
  with 2 show ?case by (auto simp: word_le_nat_alt add.assoc)
qed simp

lemma take_until_least:
  "unat acc + total_size cs < 2 ^ 64 \<Longrightarrow> take_until target acc cs = xs @ [x] \<Longrightarrow> unat acc + total_size xs < unat target"
proof (induction target acc cs arbitrary: xs rule: take_until.induct)
  case (2 target acc c cs)
  have "unat (acc + ec_size c) = unat acc + unat (ec_size c)" using 2(2) by (simp add: unat_word_ariths)
  with 2 show ?case by (cases xs) (auto simp: word_le_nat_alt not_le add.assoc split: if_splits)
qed simp

text \<open>
  What the planner may choose from: the 200 largest local originals, ranked by their bytes, and the 200 oldest readable bodies whose message
  is archived and not deleted.
\<close>

definition eviction_candidates :: "int \<Rightarrow> tables \<Rightarrow> eviction_candidate list" where
  "eviction_candidates now t =
     map (\<lambda>r. candidate MediaOriginals now (rm_asset r, rm_bytes_local r, rm_bytes_total r))
       (take 200 (sort_key (\<lambda>r. - rm_bytes_local r)
         (filter (\<lambda>r. rm_state r = ''original_local'' \<and> 0 < rm_bytes_local r) (t_media t))))
     @ map (\<lambda>(b, r). candidate MessageBodies now (b_id b, int (length (the (b_text b))), rs_created_ms r))
       (take 200 (evictable_rows t))"

definition best_first :: "eviction_candidate list \<Rightarrow> bool" where
  "best_first = sorted_wrt (\<lambda>a b. ec_score b \<le> ec_score a)"

lemma planned:
  assumes "plan_eviction now target s = (Inr cs, s')"
  shows "s' = s \<and> (\<exists>all. mset all = mset (eviction_candidates now (read_view s)) \<and> best_first all \<and> cs = take_until target 0 all)"
proof -
  let ?all = "sort_key (\<lambda>c. - ec_score c) (eviction_candidates now (read_view s))"
  have "sorted (map (\<lambda>c. - ec_score c) ?all)" by simp
  then have "best_first ?all" unfolding sorted_map best_first_def by simp
  moreover have "mset ?all = mset (eviction_candidates now (read_view s))" by simp
  moreover have "s' = s" "cs = take_until target 0 ?all" using assms
    by (auto simp: plan_eviction_def bindA_def fetch_evictable_media_def fetch_evictable_bodies_def query_def ret_def
        fail_def eviction_candidates_def comp_def case_prod_beta' split: if_splits)
  ultimately show ?thesis by blast
qed

section \<open>Properties\<close>

text \<open>
  C24: an eviction plan is a shortest one: the candidates of the store, which are its 200 largest local originals and its 200 oldest
  archived bodies, are put in an order of descending score, and the plan is the shortest front of it whose sizes reach the target, or all
  of it when they do not. Making the plan changes nothing. The sizes of all candidates together are below \<open>2^64\<close>.
\<close>

theorem eviction_plan_minimal:
  assumes "plan_eviction now target s = (Inr cs, s')" and "total_size (eviction_candidates now (read_view s)) < 2 ^ 64"
  shows "s' = s \<and> (\<exists>all. mset all = mset (eviction_candidates now (read_view s)) \<and> best_first all \<and> prefix cs all
    \<and> (unat target \<le> total_size cs \<or> cs = all \<and> total_size all < unat target)
    \<and> (\<forall>ds. prefix ds all \<longrightarrow> unat target \<le> total_size ds \<longrightarrow> length cs \<le> length ds))"
proof -
  from planned [OF assms(1)] obtain all where s: "s' = s" and all: "mset all = mset (eviction_candidates now (read_view s))"
      "best_first all" and cs: "cs = take_until target 0 all" by blast
  have small: "unat (0 :: u64) + total_size all < 2 ^ 64" using assms(2) total_size_mset [OF all(1)] by simp
  have p: "prefix cs all" unfolding cs by (rule take_until_prefix)
  have "length cs \<le> length ds" if ds: "prefix ds all" "unat target \<le> total_size ds" for ds
  proof (rule ccontr)
    assume less: "\<not> length cs \<le> length ds"
    then obtain xs x where x: "cs = xs @ [x]" by (metis le0 list.size(3) rev_exhaust)
    from x less p ds(1) have "prefix ds xs"
      by (metis append_prefixD length_append_singleton less_Suc_eq_le not_le prefix_length_prefix)
    then have "total_size ds \<le> total_size xs" by (rule total_size_prefix)
    moreover have "total_size xs < unat target" using take_until_least [OF small, of target xs x] x cs by simp
    ultimately show False using ds(2) by simp
  qed
  moreover have "unat target \<le> total_size cs \<or> cs = all \<and> total_size all < unat target"
    using take_until_enough [OF small, of target] unfolding cs by auto
  ultimately show ?thesis using s all p by blast
qed

definition media_store :: store where
  "media_store = (open_db True)\<lparr>st_committed := empty_tables\<lparr>t_media :=
     [\<lparr>rm_asset = ''a'', rm_message = ''m'', rm_mime = ''image/png'', rm_bytes_total = 9, rm_bytes_local = 9,
       rm_state = ''original_local'', rm_wrapped_key = [], rm_chunk_count = 1, rm_merkle_root = [], rm_blob = ''b'',
       rm_sink = ''kdrive''\<rparr>]\<rparr>\<rparr>"

lemma media_candidates:
  "eviction_candidates 0 (read_view media_store) = [\<lparr>ec_kind = MediaOriginals, ec_id = ''a'', ec_size = 9, ec_score = 0\<rparr>]"
  by (simp add: eviction_candidates_def evictable_rows_def media_store_def open_db_def fresh_store_def read_view_def
      read_pool_size_def empty_tables_def candidate_def eviction_score_def ms_per_day_def i64_as_u64_def)

lemma media_plan:
  "plan_eviction 0 5 media_store =
     (Inr [\<lparr>ec_kind = MediaOriginals, ec_id = ''a'', ec_size = 9, ec_score = 0\<rparr>], media_store)"
  by (simp add: plan_eviction_def bindA_def fetch_evictable_media_def fetch_evictable_bodies_def query_def ret_def
      evictable_rows_def media_store_def open_db_def fresh_store_def read_view_def read_pool_size_def empty_tables_def
      candidate_def eviction_score_def ms_per_day_def i64_as_u64_def)

theorem eviction_plan_minimal_witness:
  "\<exists>all. mset all = {#\<lparr>ec_kind = MediaOriginals, ec_id = ''a'', ec_size = 9, ec_score = 0\<rparr>#}
     \<and> prefix [\<lparr>ec_kind = MediaOriginals, ec_id = ''a'', ec_size = 9, ec_score = 0\<rparr>] all"
proof -
  have "total_size (eviction_candidates 0 (read_view media_store)) < 2 ^ 64" by (simp add: media_candidates)
  from eviction_plan_minimal [OF media_plan this] show ?thesis by (auto simp: media_candidates)
qed

end
