(* ===== verification/Shards.thy ===== *)
theory Shards
  imports Offload ShardCache
begin

text \<open>
  Encrypted search shards: their payloads and wire format (\<open>formats/search_shard.rs\<close>), the builders
  (\<open>search/shard_builder.rs\<close>), the source of cold shards (\<open>search/cold_shard_source.rs\<close>), prefetching
  (\<open>search/shard_prefetch.rs\<close>), targets (\<open>search/search_target.rs\<close>) and the coordinator's queue
  (\<open>search/coordinator.rs\<close>). \<open>serde_json\<close> is the record \<open>json\<close>; the random nonce is an argument. What the three kinds of
  shard have in common is the locale \<open>shard_kind\<close>.
\<close>

section \<open>Wire format\<close>

definition shard_magic :: string where "shard_magic = ''KCHAT_INDEX_SHARD_V1''"
definition shard_version :: nat where "shard_version = 1"
definition shard_compression :: string where "shard_compression = ''zstd''"
definition shard_encryption :: string where "shard_encryption = ''xchacha20-poly1305''"

definition index_type_all :: "index_type list" where
  "index_type_all = [IxBloom, IxText, IxFuzzy, IxVector, IxMedia]"

record search_index_shard =
  xs_magic :: string
  xs_version :: nat
  xs_id :: uuid
  xs_type :: index_type
  xs_conv_hash :: bytes
  xs_bucket :: string
  xs_docs :: u64
  xs_compression :: string
  xs_encryption :: string
  xs_nonce :: bytes
  xs_aad_hash :: bytes
  xs_ciphertext :: bytes
  xs_sha256 :: bytes

definition shard_valid_header :: "search_index_shard \<Rightarrow> bool" where
  "shard_valid_header x \<longleftrightarrow> xs_magic x = shard_magic \<and> xs_version x = shard_version
     \<and> xs_compression x = shard_compression \<and> xs_encryption x = shard_encryption"

section \<open>Payloads\<close>

record text_shard_entry =
  ts_message :: string
  ts_conv :: string
  ts_sender :: string
  ts_created_ms :: int
  ts_text :: ustr

record text_shard_payload =
  tp_entries :: "text_shard_entry list"

record fuzzy_shard_entry =
  fz_token :: ustr
  fz_script :: string
  fz_message :: string

record fuzzy_shard_payload =
  fp_entries :: "fuzzy_shard_entry list"

record vector_shard_entry =
  ve_message :: string
  ve_embedding :: bytes

record vector_shard_payload =
  vp_model :: string
  vp_entries :: "vector_shard_entry list"

record media_shard_entry =
  me_asset :: string
  me_kind :: string
  me_text :: ustr
  me_language :: "string option"
  me_confidence :: "rat option"

record media_shard_payload =
  mp_entries :: "media_shard_entry list"

record bloom_shard_payload =
  bp_bits :: bytes
  bp_bit_count :: u64
  bp_hash_count :: u8

section \<open>Builders\<close>

record 'a json =
  js_write :: "'a \<Rightarrow> string + bytes"
  js_read :: "bytes \<Rightarrow> string + 'a"

definition json_ok :: "'a json \<Rightarrow> bool" where
  "json_ok J \<longleftrightarrow> (\<forall>v b. js_write J v = Inr b \<longrightarrow> js_read J b = Inr v)"

text \<open>The common steps: \<open>build_shard\<close> and \<open>open_shard\<close> stand for the bodies the three pairs of functions repeat.\<close>

definition build_shard :: "string \<Rightarrow> prims \<Rightarrow> 'a json \<Rightarrow> bytes \<Rightarrow> 'a \<Rightarrow> bytes \<Rightarrow> core_error + shard_frame" where
  "build_shard aad P J nonce payload key =
     (case js_write J payload of
        Inl e \<Rightarrow> Inl (CStorageText (OfCodec e))
      | Inr plaintext \<Rightarrow>
          (case seal P key nonce plaintext (str_bytes aad) of
             Inl e \<Rightarrow> Inl (CCrypto e)
           | Inr ciphertext \<Rightarrow>
               Inr \<lparr>hf_nonce = nonce, hf_ciphertext = ciphertext, hf_plain_hash = pr_hash P plaintext,
                    hf_plain_size = word_of_nat (length plaintext)\<rparr>))"

definition open_shard :: "string \<Rightarrow> prims \<Rightarrow> 'a json \<Rightarrow> shard_frame \<Rightarrow> bytes \<Rightarrow> core_error + 'a" where
  "open_shard aad P J frame key =
     (case open_sealed P key (hf_nonce frame) (hf_ciphertext frame) (str_bytes aad) of
        Inl e \<Rightarrow> Inl (CCrypto e)
      | Inr plaintext \<Rightarrow>
          (case js_read J plaintext of
             Inl e \<Rightarrow> Inl (CStorageText (OfCodec e))
           | Inr payload \<Rightarrow> Inr payload))"

definition text_shard_aad :: string where "text_shard_aad = ''chat-storage/text-shard/v1''"
definition fuzzy_shard_aad :: string where "fuzzy_shard_aad = ''chat-storage/fuzzy-shard/v1''"
definition bloom_shard_aad :: string where "bloom_shard_aad = ''chat-storage/bloom-shard/v1''"

definition build_text_shard ::
  "prims \<Rightarrow> text_shard_payload json \<Rightarrow> bytes \<Rightarrow> text_shard_entry list \<Rightarrow> bytes \<Rightarrow> core_error + shard_frame" where
  "build_text_shard P J nonce entries = build_shard text_shard_aad P J nonce \<lparr>tp_entries = entries\<rparr>"

definition open_text_shard :: "prims \<Rightarrow> text_shard_payload json \<Rightarrow> shard_frame \<Rightarrow> bytes \<Rightarrow> core_error + text_shard_payload" where
  "open_text_shard = open_shard text_shard_aad"

definition build_fuzzy_shard ::
  "prims \<Rightarrow> fuzzy_shard_payload json \<Rightarrow> bytes \<Rightarrow> fuzzy_shard_entry list \<Rightarrow> bytes \<Rightarrow> core_error + shard_frame" where
  "build_fuzzy_shard P J nonce entries = build_shard fuzzy_shard_aad P J nonce \<lparr>fp_entries = entries\<rparr>"

definition open_fuzzy_shard :: "prims \<Rightarrow> fuzzy_shard_payload json \<Rightarrow> shard_frame \<Rightarrow> bytes \<Rightarrow> core_error + fuzzy_shard_payload" where
  "open_fuzzy_shard = open_shard fuzzy_shard_aad"

definition build_bloom_shard ::
  "prims \<Rightarrow> bloom_shard_payload json \<Rightarrow> bytes \<Rightarrow> bloom_shard_payload \<Rightarrow> bytes \<Rightarrow> core_error + shard_frame" where
  "build_bloom_shard = build_shard bloom_shard_aad"

definition open_bloom_shard :: "prims \<Rightarrow> bloom_shard_payload json \<Rightarrow> shard_frame \<Rightarrow> bytes \<Rightarrow> core_error + bloom_shard_payload" where
  "open_bloom_shard = open_shard bloom_shard_aad"

section \<open>Cold shards\<close>

text \<open>The rendered text of an error keeps the error.\<close>

datatype cold_error = ColdTransport transport_error | ColdDecode string

definition fetch_shard :: "'w gateway \<Rightarrow> shard_frame json \<Rightarrow> shard_id \<Rightarrow> 'w \<Rightarrow> (cold_error + shard_frame) \<times> 'w" where
  "fetch_shard G J i w =
     (case gw_download_search_shard G (shard_to_key i) w of
        (Inl e, w') \<Rightarrow> (Inl (ColdTransport e), w')
      | (Inr data, w') \<Rightarrow>
          (case js_read J data of
             Inl e \<Rightarrow> (Inl (ColdDecode e), w')
           | Inr frame \<Rightarrow> (Inr frame, w')))"

definition shard_batch_prefetch :: "string \<Rightarrow> string \<Rightarrow> shard_id list" where
  "shard_batch_prefetch conv_hash bucket =
     [\<lparr>si_conv_hash = conv_hash, si_bucket = bucket, si_type = IxText\<rparr>,
      \<lparr>si_conv_hash = conv_hash, si_bucket = bucket, si_type = IxFuzzy\<rparr>,
      \<lparr>si_conv_hash = conv_hash, si_bucket = bucket, si_type = IxVector\<rparr>,
      \<lparr>si_conv_hash = conv_hash, si_bucket = bucket, si_type = IxMedia\<rparr>,
      \<lparr>si_conv_hash = conv_hash, si_bucket = bucket, si_type = IxBloom\<rparr>]"

datatype search_target = TargetPersonal | TargetTenant string | TargetCommunity string | TargetAll

text \<open>The coordinator's queue, which unlike the one of \<open>offload/\<close> keeps duplicates.\<close>

type_synonym search_coordinator = "hydration_request list"

definition coordinator_new :: search_coordinator where
  "coordinator_new = []"

definition queue_hydration :: "uuid \<Rightarrow> hydration_reason \<Rightarrow> search_coordinator \<Rightarrow> search_coordinator" where
  "queue_hydration mid reason q = q @ [\<lparr>hr_message = mid, hr_reason = reason\<rparr>]"

definition drain_hydration :: "search_coordinator \<Rightarrow> hydration_request list \<times> search_coordinator" where
  "drain_hydration q = (q, [])"

section \<open>What the kinds of shard have in common\<close>

locale shard_kind =
  fixes build :: "prims \<Rightarrow> 'a json \<Rightarrow> bytes \<Rightarrow> 'i \<Rightarrow> bytes \<Rightarrow> core_error + shard_frame"
    and opener :: "prims \<Rightarrow> 'a json \<Rightarrow> shard_frame \<Rightarrow> bytes \<Rightarrow> core_error + 'a"
    and payload :: "'i \<Rightarrow> 'a"
    and aad :: string
  assumes build_sealed: "build P J nonce v key = Inr f \<Longrightarrow> \<exists>pt. js_write J (payload v) = Inr pt
      \<and> pr_seal P key nonce pt (str_bytes aad) = Some (hf_ciphertext f) \<and> hf_nonce f = nonce
      \<and> hf_plain_hash f = pr_hash P pt \<and> hf_plain_size f = word_of_nat (length pt)"
    and opener_opens: "opener P J f key = Inr r \<longleftrightarrow>
      (\<exists>pt. pr_open P key (hf_nonce f) (hf_ciphertext f) (str_bytes aad) = Some pt \<and> js_read J pt = Inr r)"
begin

lemma opens_again:
  assumes "aead_ok P" and "json_ok J" and "build P J nonce v key = Inr f"
  shows "opener P J f key = Inr (payload v)"
proof -
  obtain pt where "js_write J (payload v) = Inr pt" "pr_seal P key nonce pt (str_bytes aad) = Some (hf_ciphertext f)"
      "hf_nonce f = nonce" using build_sealed [OF assms(3)] by blast
  with assms(1,2) show ?thesis unfolding opener_opens aead_ok_def json_ok_def by blast
qed

lemma opens_and_describes:
  assumes "aead_ok P" and "json_ok J" and "build P J nonce v key = Inr f"
  shows "opener P J f key = Inr (payload v)
    \<and> (\<exists>pt. js_write J (payload v) = Inr pt \<and> hf_plain_hash f = pr_hash P pt \<and> hf_plain_size f = word_of_nat (length pt))"
  using opens_again [OF assms] build_sealed [OF assms(3)] by blast

lemma sealed_under_aad:
  assumes "build P J nonce v key = Inr f"
  shows "\<exists>pt. pr_seal P key (hf_nonce f) pt (str_bytes aad) = Some (hf_ciphertext f)"
  using build_sealed [OF assms] by blast

end

lemma build_shard_Inr:
  "build_shard aad P J nonce v key = Inr f \<Longrightarrow> \<exists>pt. js_write J v = Inr pt
      \<and> pr_seal P key nonce pt (str_bytes aad) = Some (hf_ciphertext f) \<and> hf_nonce f = nonce
      \<and> hf_plain_hash f = pr_hash P pt \<and> hf_plain_size f = word_of_nat (length pt)"
  by (auto simp: build_shard_def seal_def split: sum.splits option.splits)

lemma open_shard_Inr:
  "open_shard aad P J f key = Inr r \<longleftrightarrow>
      (\<exists>pt. pr_open P key (hf_nonce f) (hf_ciphertext f) (str_bytes aad) = Some pt \<and> js_read J pt = Inr r)"
  by (auto simp: open_shard_def open_sealed_def split: sum.splits option.splits)

interpretation text_kind: shard_kind build_text_shard open_text_shard "\<lambda>es. \<lparr>tp_entries = es\<rparr>" text_shard_aad
  by unfold_locales (unfold build_text_shard_def open_text_shard_def, erule build_shard_Inr, rule open_shard_Inr)

interpretation fuzzy_kind: shard_kind build_fuzzy_shard open_fuzzy_shard "\<lambda>es. \<lparr>fp_entries = es\<rparr>" fuzzy_shard_aad
  by unfold_locales (unfold build_fuzzy_shard_def open_fuzzy_shard_def, erule build_shard_Inr, rule open_shard_Inr)

interpretation bloom_kind: shard_kind build_bloom_shard open_bloom_shard id bloom_shard_aad
  by unfold_locales (unfold build_bloom_shard_def open_bloom_shard_def id_apply, erule build_shard_Inr, rule open_shard_Inr)

lemma cache_get_inserted: "fst (cache_get k (cache_insert k f c)) = Some f"
  by (simp add: cache_get_def cache_insert_def Let_def)

text \<open>An AEAD that opens a ciphertext under no associated data but those it was sealed with.\<close>

definition aead_binds :: "prims \<Rightarrow> bool" where
  "aead_binds P \<longleftrightarrow> (\<forall>k n p a c a' q. pr_seal P k n p a = Some c \<longrightarrow> pr_open P k n c a' = Some q \<longrightarrow> a' = a)"

lemma shard_aads_differ [simp]:
  "str_bytes fuzzy_shard_aad \<noteq> str_bytes text_shard_aad" "str_bytes text_shard_aad \<noteq> str_bytes fuzzy_shard_aad"
  "str_bytes bloom_shard_aad \<noteq> str_bytes text_shard_aad" "str_bytes text_shard_aad \<noteq> str_bytes bloom_shard_aad"
  "str_bytes bloom_shard_aad \<noteq> str_bytes fuzzy_shard_aad" "str_bytes fuzzy_shard_aad \<noteq> str_bytes bloom_shard_aad"
  by (simp_all add: text_shard_aad_def fuzzy_shard_aad_def bloom_shard_aad_def str_bytes_def)

text \<open>For the witnesses: an AEAD that writes the associated data in front of the text, and a JSON that knows one value.\<close>

definition aad_prefix :: "bytes \<Rightarrow> bytes" where
  "aad_prefix a = concat (map (\<lambda>b. [1, b]) a) @ [0]"

definition labelled_prims :: prims where
  "labelled_prims = toy_prims
     \<lparr>pr_seal := (\<lambda>k n p a. Some (aad_prefix a @ p)),
      pr_open := (\<lambda>k n c a. if take (length (aad_prefix a)) c = aad_prefix a then Some (drop (length (aad_prefix a)) c) else None)\<rparr>"

lemma aad_prefix_free: "aad_prefix a @ p = aad_prefix a' @ q \<Longrightarrow> a = a'"
proof (induction a arbitrary: a')
  case Nil
  then show ?case by (cases a') (simp_all add: aad_prefix_def)
next
  case (Cons b a)
  then show ?case by (cases a') (auto simp: aad_prefix_def)
qed

lemma labelled_ok: "aead_ok labelled_prims" "aead_binds labelled_prims"
proof -
  show "aead_ok labelled_prims" by (simp add: aead_ok_def labelled_prims_def)
  have pf: "a' = a" if "take (length (aad_prefix a')) (aad_prefix a @ p) = aad_prefix a'" for a a' p
    using append_take_drop_id [of "length (aad_prefix a')" "aad_prefix a @ p"] unfolding that by (rule aad_prefix_free)
  show "aead_binds labelled_prims"
    unfolding aead_binds_def labelled_prims_def by (auto split: if_splits intro: pf simp del: take_append)
qed

definition one_json :: "'a \<Rightarrow> bytes \<Rightarrow> 'a json" where
  "one_json v b = \<lparr>js_write = (\<lambda>x. if x = v then Inr b else Inl ''unknown value''), js_read = (\<lambda>_. Inr v)\<rparr>"

lemma one_json_ok: "json_ok (one_json v b)"
  by (simp add: json_ok_def one_json_def)

section \<open>Properties\<close>

text \<open>
  a search shard of any kind that was built with a key opens with that key to what it was built from, and
  records hash and size of its plaintext.
\<close>

theorem shards_open_again:
  assumes "aead_ok P" and "json_ok JT" and "json_ok JF" and "json_ok JB"
  shows "(build_text_shard P JT nonce es key = Inr f \<longrightarrow> open_text_shard P JT f key = Inr \<lparr>tp_entries = es\<rparr>
      \<and> (\<exists>pt. js_write JT \<lparr>tp_entries = es\<rparr> = Inr pt \<and> hf_plain_hash f = pr_hash P pt \<and> hf_plain_size f = word_of_nat (length pt)))
    \<and> (build_fuzzy_shard P JF nonce ts key = Inr f \<longrightarrow> open_fuzzy_shard P JF f key = Inr \<lparr>fp_entries = ts\<rparr>
      \<and> (\<exists>pt. js_write JF \<lparr>fp_entries = ts\<rparr> = Inr pt \<and> hf_plain_hash f = pr_hash P pt \<and> hf_plain_size f = word_of_nat (length pt)))
    \<and> (build_bloom_shard P JB nonce b key = Inr f \<longrightarrow> open_bloom_shard P JB f key = Inr b
      \<and> (\<exists>pt. js_write JB b = Inr pt \<and> hf_plain_hash f = pr_hash P pt \<and> hf_plain_size f = word_of_nat (length pt)))"
  by (intro conjI [OF _ conjI] impI)
    (simp_all add: text_kind.opens_and_describes [OF assms(1,2)] fuzzy_kind.opens_and_describes [OF assms(1,3)]
      bloom_kind.opens_and_describes [OF assms(1,4), unfolded id_apply])

theorem shards_open_again_witness:
  "build_fuzzy_shard labelled_prims (one_json \<lparr>fp_entries = []\<rparr> [9]) [1] [] [2]
      = Inr \<lparr>hf_nonce = [1], hf_ciphertext = aad_prefix (str_bytes fuzzy_shard_aad) @ [9], hf_plain_hash = [9], hf_plain_size = 1\<rparr>
    \<and> open_fuzzy_shard labelled_prims (one_json \<lparr>fp_entries = []\<rparr> [9])
        \<lparr>hf_nonce = [1], hf_ciphertext = aad_prefix (str_bytes fuzzy_shard_aad) @ [9], hf_plain_hash = [9], hf_plain_size = 1\<rparr> [2]
      = Inr \<lparr>fp_entries = []\<rparr>"
proof -
  have "build_fuzzy_shard labelled_prims (one_json \<lparr>fp_entries = []\<rparr> [9]) [1] [] [2]
      = Inr \<lparr>hf_nonce = [1], hf_ciphertext = aad_prefix (str_bytes fuzzy_shard_aad) @ [9], hf_plain_hash = [9], hf_plain_size = 1\<rparr>"
    by (simp add: build_fuzzy_shard_def build_shard_def one_json_def labelled_prims_def seal_def toy_prims_def)
  with shards_open_again [OF labelled_ok(1) one_json_ok one_json_ok one_json_ok, of "\<lparr>tp_entries = []\<rparr>" "[]" "[1]" "[]" "[2]"
      _ "\<lparr>fp_entries = []\<rparr>" "[9]" "[]" "\<lparr>bp_bits = [], bp_bit_count = 0, bp_hash_count = 0\<rparr>" "[]"
      "\<lparr>bp_bits = [], bp_bit_count = 0, bp_hash_count = 0\<rparr>"]
  show ?thesis by blast
qed

text \<open>
  a shard of one kind never opens as one of another kind, even under the same key, if the cipher binds its associated data.
\<close>

theorem shard_kinds_separate:
  assumes "aead_binds P"
  shows "(build_text_shard P JT nonce es key = Inr f \<longrightarrow>
        \<not> (\<exists>r. open_fuzzy_shard P JF f key = Inr r) \<and> \<not> (\<exists>r. open_bloom_shard P JB f key = Inr r))
    \<and> (build_fuzzy_shard P JF nonce ts key = Inr f \<longrightarrow>
        \<not> (\<exists>r. open_text_shard P JT f key = Inr r) \<and> \<not> (\<exists>r. open_bloom_shard P JB f key = Inr r))
    \<and> (build_bloom_shard P JB nonce b key = Inr f \<longrightarrow>
        \<not> (\<exists>r. open_text_shard P JT f key = Inr r) \<and> \<not> (\<exists>r. open_fuzzy_shard P JF f key = Inr r))"
proof -
  have bound: "str_bytes a' = str_bytes a" if "pr_seal P key n pt (str_bytes a) = Some c" "pr_open P key n c (str_bytes a') = Some q"
    for n pt a c a' q using assms that by (simp add: aead_binds_def)
  show ?thesis
    unfolding text_kind.opener_opens fuzzy_kind.opener_opens bloom_kind.opener_opens
    by (auto dest!: text_kind.sealed_under_aad fuzzy_kind.sealed_under_aad bloom_kind.sealed_under_aad dest: bound)
qed

theorem shard_kinds_separate_witness:
  "\<exists>f. build_text_shard labelled_prims (one_json \<lparr>tp_entries = []\<rparr> [9]) [1] [] [2] = Inr f
    \<and> \<not> (\<exists>r. open_fuzzy_shard labelled_prims (one_json \<lparr>fp_entries = []\<rparr> [9]) f [2] = Inr r)"
proof -
  obtain f where f: "build_text_shard labelled_prims (one_json \<lparr>tp_entries = []\<rparr> [9]) [1] [] [2] = Inr f"
    by (simp add: build_text_shard_def build_shard_def one_json_def labelled_prims_def seal_def toy_prims_def)
  with shard_kinds_separate [OF labelled_ok(2)] show ?thesis by blast
qed

text \<open>
  a prefetch plan hides which shard is wanted: it asks for every kind of shard of the conversation and bucket exactly once, for
  nothing else, and under different keys.
\<close>

theorem prefetch_exact:
  "set (shard_batch_prefetch h b) = {i. si_conv_hash i = h \<and> si_bucket i = b}
   \<and> distinct (map shard_to_key (shard_batch_prefetch h b))
   \<and> distinct (map si_type (shard_batch_prefetch h b)) \<and> set (map si_type (shard_batch_prefetch h b)) = set index_type_all"
proof -
  have "i \<in> set (shard_batch_prefetch h b)" if "si_conv_hash i = h" "si_bucket i = b" for i
    using that by (cases i; cases "si_type i") (auto simp: shard_batch_prefetch_def)
  then have "set (shard_batch_prefetch h b) = {i. si_conv_hash i = h \<and> si_bucket i = b}"
    by (auto simp: shard_batch_prefetch_def)
  moreover have "distinct (map shard_to_key (shard_batch_prefetch h b))" "distinct (map si_type (shard_batch_prefetch h b))"
    "set (map si_type (shard_batch_prefetch h b)) = set index_type_all"
    by (auto simp: shard_batch_prefetch_def shard_to_key_def index_type_all_def)
  ultimately show ?thesis by blast
qed

end
