(* ===== verification/Dedup.thy ===== *)
theory Dedup
  imports Transport
begin

text \<open>
  The deduplication bridge (\<open>transport/dedup_bridge.rs\<close>): four POST requests to the gateway and the decoding of their
  answers. The JSON value a request sends is a \<open>json_value\<close>; rendering it, reading an answer, hexadecimal, base64 and
  the text of a status are parameters (\<open>dedup_io\<close>). A status text and a network error are kept as they are rendered.
  \<open>header\<close> appends to the headers of a request; \<open>json\<close> adds a content type only where there is none.
\<close>

section \<open>Requests\<close>

datatype json_value = JStr bytes | JList "json_value list" | JObj "(string \<times> json_value) list"

record dedup_bridge =
  db_base_url :: bytes
  db_tenant :: bytes
  db_user :: bytes

definition dedup_new :: "bytes \<Rightarrow> bytes \<Rightarrow> bytes \<Rightarrow> dedup_bridge" where
  "dedup_new base tenant user = \<lparr>db_base_url = base, db_tenant = tenant, db_user = user\<rparr>"

record dedup_io =
  di_hex :: "bytes \<Rightarrow> bytes"
  di_base64 :: "bytes \<Rightarrow> bytes"
  di_render :: "json_value \<Rightarrow> bytes"
  di_status :: "nat \<Rightarrow> ustr"

definition dedup_url :: "dedup_bridge \<Rightarrow> bytes \<Rightarrow> bytes" where
  "dedup_url d path = db_base_url d @ path"

definition with_header :: "string \<Rightarrow> bytes \<Rightarrow> http_request \<Rightarrow> http_request" where
  "with_header name v rq = rq\<lparr>rq_headers := rq_headers rq @ [(name, v)]\<rparr>"

definition add_demo_headers :: "dedup_bridge \<Rightarrow> http_request \<Rightarrow> http_request" where
  "add_demo_headers d rq =
     with_header ''Content-Type'' (str_bytes ''application/json'')
       (with_header ''X-Demo-User'' (db_user d) (with_header ''X-Demo-Tenant'' (db_tenant d) rq))"

definition dedup_post :: "dedup_bridge \<Rightarrow> bytes \<Rightarrow> bytes \<Rightarrow> http_request" where
  "dedup_post d path body =
     add_demo_headers d \<lparr>rq_method = POST, rq_url = dedup_url d path, rq_headers = [], rq_body = Some body\<rparr>"

section \<open>Answers\<close>

datatype drive_error = InvalidState ustr

text \<open>\<open>send\<close>, the test for success, and what is done with the body.\<close>

definition dedup_call ::
  "dedup_io \<Rightarrow> 'h host \<Rightarrow> http_request \<Rightarrow> (ustr + bytes \<Rightarrow> drive_error + 'a) \<Rightarrow> 'h \<Rightarrow> (drive_error + 'a) \<times> 'h" where
  "dedup_call D io rq f h =
     (case ho_send io rq h of
        (NetErr e, h') \<Rightarrow> (Inl (InvalidState e), h')
      | (Resp status body, h') \<Rightarrow>
          if \<not> is_success status then (Inl (InvalidState (lit ''HTTP '' @ di_status D status)), h')
          else (f body, h'))"

definition decoded :: "(bytes \<Rightarrow> ustr + 'r) \<Rightarrow> ('r \<Rightarrow> 'a) \<Rightarrow> ustr + bytes \<Rightarrow> drive_error + 'a" where
  "decoded decode f body =
     (case (case body of Inl e \<Rightarrow> Inl e | Inr bs \<Rightarrow> decode bs) of
        Inl e \<Rightarrow> Inl (InvalidState (lit ''decode: '' @ e))
      | Inr r \<Rightarrow> Inr (f r))"

record content_check_response =
  cc_exists :: bool
  cc_blob_keys :: "string list option"
  cc_hashes :: "string list option"
  cc_chunks :: "u64 option"
  cc_size :: "u64 option"

record content_check_result =
  cr_exists :: bool
  cr_blob_keys :: "string list"
  cr_hashes :: "string list"
  cr_chunks :: u64
  cr_size :: u64

record dedup_commit_response =
  dc_version :: string
  dc_committed :: "bool option"
  dc_deduped :: "u64 option"
  dc_new :: "u64 option"

record dedup_commit_result =
  dr_version :: string
  dr_committed :: bool
  dr_deduped :: u64
  dr_new :: u64

definition check_result_of :: "content_check_response \<Rightarrow> content_check_result" where
  "check_result_of r =
     \<lparr>cr_exists = cc_exists r, cr_blob_keys = (case cc_blob_keys r of None \<Rightarrow> [] | Some k \<Rightarrow> k),
      cr_hashes = (case cc_hashes r of None \<Rightarrow> [] | Some k \<Rightarrow> k), cr_chunks = (case cc_chunks r of None \<Rightarrow> 0 | Some n \<Rightarrow> n),
      cr_size = (case cc_size r of None \<Rightarrow> 0 | Some n \<Rightarrow> n)\<rparr>"

definition commit_result_of :: "dedup_commit_response \<Rightarrow> dedup_commit_result" where
  "commit_result_of r =
     \<lparr>dr_version = dc_version r, dr_committed = (case dc_committed r of None \<Rightarrow> True | Some b \<Rightarrow> b),
      dr_deduped = (case dc_deduped r of None \<Rightarrow> 0 | Some n \<Rightarrow> n), dr_new = (case dc_new r of None \<Rightarrow> 0 | Some n \<Rightarrow> n)\<rparr>"

section \<open>The four calls\<close>

definition check_content ::
  "dedup_io \<Rightarrow> (bytes \<Rightarrow> ustr + content_check_response) \<Rightarrow> 'h host \<Rightarrow> dedup_bridge \<Rightarrow> bytes \<Rightarrow> 'h \<Rightarrow>
     (drive_error + content_check_result) \<times> 'h" where
  "check_content D decode io d content h =
     dedup_call D io (dedup_post d (str_bytes ''/v1/content:check'')
         (di_render D (JObj [(''content_id'', JStr (di_hex D content))])))
       (decoded decode check_result_of) h"

definition check_chunks ::
  "dedup_io \<Rightarrow> (bytes \<Rightarrow> ustr + 'c list) \<Rightarrow> 'h host \<Rightarrow> dedup_bridge \<Rightarrow> bytes \<Rightarrow> bytes list \<Rightarrow> 'h \<Rightarrow> (drive_error + 'c list) \<times> 'h" where
  "check_chunks D decode io d content hashes h =
     dedup_call D io (dedup_post d (str_bytes ''/v1/content:checkChunks'')
         (di_render D (JObj [(''content_id'', JStr (di_hex D content)),
            (''chunk_hashes'', JList (map (\<lambda>x. JStr (di_hex D x)) hashes))])))
       (decoded decode id) h"

definition upload_content_blob ::
  "dedup_io \<Rightarrow> 'h host \<Rightarrow> dedup_bridge \<Rightarrow> bytes \<Rightarrow> bytes \<Rightarrow> bytes \<Rightarrow> 'h \<Rightarrow> (drive_error + unit) \<times> 'h" where
  "upload_content_blob D io d blob_key ciphertext sha h =
     dedup_call D io (with_header ''Content-Type'' (str_bytes ''application/octet-stream'')
         (dedup_post d (str_bytes ''/v1/content:register?blob_key='' @ url_encode blob_key
            @ str_bytes ''&ciphertext_sha256='' @ di_hex D sha) ciphertext))
       (\<lambda>_. Inr ()) h"

record dedup_commit =
  cm_manifest :: bytes
  cm_manifest_nonce :: bytes
  cm_manifest_sha :: bytes
  cm_header :: bytes
  cm_wrapped_dek :: bytes
  cm_wrap_nonce :: bytes
  cm_content :: bytes
  cm_wrapped_content_key :: bytes
  cm_content_nonce :: bytes
  cm_reused :: "bytes list"
  cm_new :: "bytes list"

definition commit_json :: "dedup_io \<Rightarrow> dedup_commit \<Rightarrow> json_value" where
  "commit_json D c = JObj
     [(''manifest_ciphertext'', JStr (di_base64 D (cm_manifest c))),
      (''manifest_nonce'', JStr (di_base64 D (cm_manifest_nonce c))),
      (''manifest_ciphertext_sha256'', JStr (di_hex D (cm_manifest_sha c))),
      (''header'', JStr (di_base64 D (cm_header c))),
      (''wrapped_dek'', JStr (di_base64 D (cm_wrapped_dek c))),
      (''wrap_nonce'', JStr (di_base64 D (cm_wrap_nonce c))),
      (''content_id'', JStr (di_hex D (cm_content c))),
      (''wrapped_content_key'', JStr (di_base64 D (cm_wrapped_content_key c))),
      (''content_wrap_nonce'', JStr (di_base64 D (cm_content_nonce c))),
      (''reused_blob_keys'', JList (map JStr (cm_reused c))),
      (''new_blob_keys'', JList (map JStr (cm_new c)))]"

definition commit_version_dedup ::
  "dedup_io \<Rightarrow> (bytes \<Rightarrow> ustr + dedup_commit_response) \<Rightarrow> 'h host \<Rightarrow> dedup_bridge \<Rightarrow> dedup_commit \<Rightarrow> 'h \<Rightarrow>
     (drive_error + dedup_commit_result) \<times> 'h" where
  "commit_version_dedup D decode io d c h =
     dedup_call D io (dedup_post d (str_bytes ''/v1/uploads:commitDedup'') (di_render D (commit_json D c)))
       (decoded decode commit_result_of) h"

section \<open>Properties\<close>

lemma dedup_call_cases:
  "dedup_call D io rq f h = (r, h') \<longleftrightarrow>
     (\<exists>e. ho_send io rq h = (NetErr e, h') \<and> r = Inl (InvalidState e))
     \<or> (\<exists>status body. ho_send io rq h = (Resp status body, h')
          \<and> r = (if is_success status then f body else Inl (InvalidState (lit ''HTTP '' @ di_status D status))))"
  by (auto simp: dedup_call_def split: prod.splits http_reply.splits)

text \<open>
  a commit is reported as done only when the gateway said so: a result means that the one request sent, which carries
  exactly the given keys and nonces, was answered with success and a readable body, and it says committed unless that body
  denies it. Every other answer is an error.
\<close>

theorem commit_reported_faithfully:
  "(\<exists>r. fst (commit_version_dedup D decode io d c h) = Inr r) \<longleftrightarrow>
     (\<exists>status data resp h'. ho_send io (dedup_post d (str_bytes ''/v1/uploads:commitDedup'') (di_render D (commit_json D c))) h
          = (Resp status (Inr data), h')
        \<and> is_success status \<and> decode data = Inr resp
        \<and> commit_version_dedup D decode io d c h = (Inr (commit_result_of resp), h')
        \<and> (dr_committed (commit_result_of resp) \<longleftrightarrow> dc_committed resp \<noteq> Some False))"
proof -
  obtain reply h' where s: "ho_send io (dedup_post d (str_bytes ''/v1/uploads:commitDedup'') (di_render D (commit_json D c))) h
      = (reply, h')" by fastforce
  show ?thesis
    by (cases reply) (auto simp: s commit_version_dedup_def dedup_call_def decoded_def commit_result_of_def
        split: sum.splits option.splits if_splits)
qed

text \<open>
  an uploaded content blob is sent under two content types at once: the JSON type all requests of the bridge carry, and the
  binary one, in that order.
\<close>

theorem blob_upload_two_content_types:
  "\<exists>rq. upload_content_blob D io d key data sha h = dedup_call D io rq (\<lambda>_. Inr ()) h
    \<and> map snd (filter (\<lambda>(n, _). n = ''Content-Type'') (rq_headers rq))
      = [str_bytes ''application/json'', str_bytes ''application/octet-stream'']"
  unfolding upload_content_blob_def
  by (intro exI conjI, rule refl) (simp add: dedup_post_def add_demo_headers_def with_header_def)

end
