(* ===== verification/MediaCache.thy ===== *)
theory MediaCache
  imports Prelude "HOL-Library.Multiset"
begin

text \<open>
  The file cache of media originals (\<open>media/cache.rs\<close>). The disk is a list of files in the order \<open>read_dir\<close> visits them,
  each with its Unix path, content and modification time, a clock that every write advances, and a schedule of I/O errors that
  every call consults; a failed write may leave any content behind. Directories themselves, and \<open>..\<close> in a path, are not
  represented: that an asset's identifier contains a slash or is empty, so that the write fails, is only covered as an I/O error. Sizes are natural numbers: a \<open>u64\<close> counts more bytes than a disk holds.
\<close>

section \<open>The disk\<close>

record disk_file =
  df_path :: string
  df_content :: bytes
  df_mtime :: nat

datatype io_fault = IoFault string "bytes option"

record disk =
  dk_files :: "disk_file list"
  dk_now :: nat
  dk_faults :: "io_fault option list"

definition next_io :: "disk \<Rightarrow> io_fault option \<times> disk" where
  "next_io d = (case dk_faults d of [] \<Rightarrow> (None, d) | f # fs \<Rightarrow> (f, d\<lparr>dk_faults := fs\<rparr>))"

definition file_at :: "string \<Rightarrow> disk \<Rightarrow> disk_file option" where
  "file_at p d = find (\<lambda>f. df_path f = p) (dk_files d)"

definition put_file :: "string \<Rightarrow> bytes \<Rightarrow> disk \<Rightarrow> disk" where
  "put_file p content d = d\<lparr>dk_now := dk_now d + 1,
     dk_files := filter (\<lambda>f. df_path f \<noteq> p) (dk_files d) @ [\<lparr>df_path = p, df_content = content, df_mtime = dk_now d\<rparr>]\<rparr>"

text \<open>\<open>fs::write\<close>, \<open>fs::remove_file\<close>, \<open>fs::read\<close> and \<open>fs::create_dir_all\<close>.\<close>

definition fs_write :: "string \<Rightarrow> bytes \<Rightarrow> disk \<Rightarrow> (string + unit) \<times> disk" where
  "fs_write p content d =
     (case next_io d of
        (Some (IoFault e None), d') \<Rightarrow> (Inl e, d')
      | (Some (IoFault e (Some rest)), d') \<Rightarrow> (Inl e, put_file p rest d')
      | (None, d') \<Rightarrow> (Inr (), put_file p content d'))"

definition fs_remove :: "string \<Rightarrow> disk \<Rightarrow> (string + unit) \<times> disk" where
  "fs_remove p d =
     (case next_io d of
        (Some (IoFault e _), d') \<Rightarrow> (Inl e, d')
      | (None, d') \<Rightarrow>
          (case file_at p d' of
             None \<Rightarrow> (Inl ''No such file or directory'', d')
           | Some _ \<Rightarrow> (Inr (), d'\<lparr>dk_files := filter (\<lambda>f. df_path f \<noteq> p) (dk_files d')\<rparr>)))"

definition fs_read :: "string \<Rightarrow> disk \<Rightarrow> (string + bytes) \<times> disk" where
  "fs_read p d =
     (case next_io d of
        (Some (IoFault e _), d') \<Rightarrow> (Inl e, d')
      | (None, d') \<Rightarrow>
          (case file_at p d' of
             None \<Rightarrow> (Inl ''No such file or directory'', d')
           | Some f \<Rightarrow> (Inr (df_content f), d')))"

definition fs_create_dir_all :: "string \<Rightarrow> disk \<Rightarrow> (string + unit) \<times> disk" where
  "fs_create_dir_all dir d =
     (case next_io d of (Some (IoFault e _), d') \<Rightarrow> (Inl e, d') | (None, d') \<Rightarrow> (Inr (), d'))"

text \<open>\<open>PathBuf::join\<close>: an absolute path replaces the directory.\<close>

definition path_join :: "string \<Rightarrow> string \<Rightarrow> string" where
  "path_join dir p =
     (if p \<noteq> [] \<and> hd p = CHR ''/'' then p
      else if dir = [] \<or> last dir = CHR ''/'' then dir @ p else dir @ ''/'' @ p)"

section \<open>The cache\<close>

record media_cache =
  mc_dir :: string
  mc_max :: nat
  mc_current :: nat

definition media_cache_new :: "string \<Rightarrow> nat \<Rightarrow> media_cache" where
  "media_cache_new dir n = \<lparr>mc_dir = dir, mc_max = n, mc_current = 0\<rparr>"

definition cache_path :: "media_cache \<Rightarrow> string \<Rightarrow> string" where
  "cache_path c asset = path_join (mc_dir c) asset"

definition cache_has :: "media_cache \<Rightarrow> string \<Rightarrow> disk \<Rightarrow> bool" where
  "cache_has c asset d \<longleftrightarrow> file_at (cache_path c asset) d \<noteq> None"

text \<open>A file directly in the directory, by its name.\<close>

definition name_in :: "string \<Rightarrow> disk_file \<Rightarrow> string option" where
  "name_in dir f =
     (let p = df_path f; n = rev (takeWhile (\<lambda>c. c \<noteq> CHR ''/'') (rev p)) in
      if n \<noteq> [] \<and> p = path_join dir n then Some n else None)"

definition dir_entries :: "string \<Rightarrow> disk \<Rightarrow> (string \<times> nat \<times> nat) list" where
  "dir_entries dir d =
     List.map_filter (\<lambda>f. map_option (\<lambda>n. (n, length (df_content f), df_mtime f)) (name_in dir f)) (dk_files d)"

text \<open>An unreadable directory counts as empty, and a file that cannot be removed as removed.\<close>

fun evict_loop :: "nat \<Rightarrow> (string \<times> nat \<times> nat) list \<Rightarrow> media_cache \<Rightarrow> disk \<Rightarrow> media_cache \<times> disk" where
  "evict_loop target [] c d = (c, d)"
| "evict_loop target ((name, sz, _) # es) c d =
     (if mc_current c \<le> target then (c, d)
      else evict_loop target es (c\<lparr>mc_current := mc_current c - sz\<rparr>) (snd (fs_remove (path_join (mc_dir c) name) d)))"

definition evict_oldest_until_fit :: "nat \<Rightarrow> media_cache \<Rightarrow> disk \<Rightarrow> media_cache \<times> disk" where
  "evict_oldest_until_fit incoming c d =
     (case next_io d of
        (Some _, d') \<Rightarrow> (c, d')
      | (None, d') \<Rightarrow> evict_loop (mc_max c - incoming) (sort_key (\<lambda>(_, _, t). t) (dir_entries (mc_dir c) d')) c d')"

definition cache_store :: "string \<Rightarrow> bytes \<Rightarrow> media_cache \<Rightarrow> disk \<Rightarrow> (string + unit) \<times> media_cache \<times> disk" where
  "cache_store asset content c d =
     (case fs_create_dir_all (mc_dir c) d of
        (Inl e, d1) \<Rightarrow> (Inl e, c, d1)
      | (Inr _, d1) \<Rightarrow>
          (let n = length content;
               (c2, d2) = (if mc_max c < mc_current c + n then evict_oldest_until_fit n c d1 else (c, d1))
           in case fs_write (cache_path c2 asset) content d2 of
                (Inl e, d3) \<Rightarrow> (Inl e, c2, d3)
              | (Inr _, d3) \<Rightarrow> (Inr (), c2\<lparr>mc_current := mc_current c2 + n\<rparr>, d3)))"

definition cache_load :: "media_cache \<Rightarrow> string \<Rightarrow> disk \<Rightarrow> (string + bytes) \<times> disk" where
  "cache_load c asset d = fs_read (cache_path c asset) d"

definition cache_evict :: "string \<Rightarrow> media_cache \<Rightarrow> disk \<Rightarrow> (string + unit) \<times> media_cache \<times> disk" where
  "cache_evict asset c d =
     (case file_at (cache_path c asset) d of
        None \<Rightarrow> (Inr (), c, d)
      | Some f \<Rightarrow>
          (case next_io d of
             (Some (IoFault e _), d1) \<Rightarrow> (Inl e, c, d1)
           | (None, d1) \<Rightarrow>
               (case fs_remove (cache_path c asset) d1 of
                  (Inl e, d2) \<Rightarrow> (Inl e, c, d2)
                | (Inr _, d2) \<Rightarrow> (Inr (), c\<lparr>mc_current := mc_current c - length (df_content f)\<rparr>, d2))))"

section \<open>What the directory holds\<close>

definition stored_bytes :: "string \<Rightarrow> disk \<Rightarrow> nat" where
  "stored_bytes dir d = (\<Sum>(_, n, _) \<leftarrow> dir_entries dir d. n)"

definition healthy :: "disk \<Rightarrow> bool" where
  "healthy d \<longleftrightarrow> dk_faults d = [] \<and> distinct (map df_path (dk_files d))"

text \<open>The cache counts at least what it holds, and holds no more than its budget.\<close>

definition cache_wf :: "media_cache \<Rightarrow> disk \<Rightarrow> bool" where
  "cache_wf c d \<longleftrightarrow> healthy d \<and> stored_bytes (mc_dir c) d \<le> mc_current c \<and> stored_bytes (mc_dir c) d \<le> mc_max c"

lemma healthy_io [simp]: "healthy d \<Longrightarrow> next_io d = (None, d)"
  by (simp add: healthy_def next_io_def)

lemma healthy_put [simp]: "healthy d \<Longrightarrow> healthy (put_file p b d)"
  by (auto simp: healthy_def put_file_def distinct_map inj_on_def)

lemma healthy_drop [simp]: "healthy d \<Longrightarrow> healthy (d\<lparr>dk_files := filter P (dk_files d)\<rparr>)"
  by (auto simp: healthy_def distinct_map inj_on_def)

lemma file_at_put [simp]: "file_at p (put_file q b d) = (if p = q then Some \<lparr>df_path = q, df_content = b, df_mtime = dk_now d\<rparr> else file_at p d)"
proof -
  have "find (\<lambda>f. df_path f = p) (filter (\<lambda>f. df_path f \<noteq> q) fs @ [x])
      = (if p = q then find (\<lambda>f. df_path f = p) [x] else case find (\<lambda>f. df_path f = p) fs of Some f \<Rightarrow> Some f | None \<Rightarrow> find (\<lambda>f. df_path f = p) [x])"
    for fs :: "disk_file list" and x by (induction fs) auto
  then show ?thesis by (auto simp: file_at_def put_file_def split: option.split)
qed

definition entries_of :: "string \<Rightarrow> disk_file list \<Rightarrow> (string \<times> nat \<times> nat) list" where
  "entries_of dir = List.map_filter (\<lambda>f. map_option (\<lambda>n. (n, length (df_content f), df_mtime f)) (name_in dir f))"

lemma entries_of_simps [simp]:
  "entries_of dir [] = []"
  "entries_of dir (f # fs) =
     (case name_in dir f of None \<Rightarrow> [] | Some n \<Rightarrow> [(n, length (df_content f), df_mtime f)]) @ entries_of dir fs"
  "entries_of dir (fs @ gs) = entries_of dir fs @ entries_of dir gs"
  by (simp_all add: entries_of_def List.map_filter_def split: option.split)

lemma dir_entries_eq: "dir_entries dir d = entries_of dir (dk_files d)"
  by (simp add: dir_entries_def entries_of_def)

abbreviation total :: "(string \<times> nat \<times> nat) list \<Rightarrow> nat" where
  "total es \<equiv> (\<Sum>(_, n, _) \<leftarrow> es. n)"

lemma total_filter: "total (entries_of dir (filter P fs)) \<le> total (entries_of dir fs)"
  by (induction fs) (auto split: option.split)

lemma stored_put: "stored_bytes dir (put_file p b d) \<le> stored_bytes dir d + length b"
  using total_filter [of dir "\<lambda>f. df_path f \<noteq> p" "dk_files d"]
  by (auto simp: stored_bytes_def dir_entries_eq put_file_def split: option.split)

lemma stored_drop: "stored_bytes dir (d\<lparr>dk_files := filter P (dk_files d)\<rparr>) \<le> stored_bytes dir d"
  by (simp add: stored_bytes_def dir_entries_eq total_filter)

lemma name_in_path: "name_in dir f = Some n \<Longrightarrow> df_path f = path_join dir n"
  by (auto simp: name_in_def Let_def split: if_splits)

text \<open>Removing the file of an entry removes the entry.\<close>

lemma entry_removed:
  assumes "healthy d" and "(n, k, t) \<in> set (dir_entries dir d)"
  shows "file_at (path_join dir n) d \<noteq> None"
    and "mset (dir_entries dir d)
      = add_mset (n, k, t) (mset (dir_entries dir (d\<lparr>dk_files := filter (\<lambda>f. df_path f \<noteq> path_join dir n) (dk_files d)\<rparr>)))"
proof -
  obtain f where f: "f \<in> set (dk_files d)" "name_in dir f = Some n" "k = length (df_content f)" "t = df_mtime f"
    using assms(2) by (auto simp: dir_entries_def List.map_filter_def)
  then obtain xs ys where d: "dk_files d = xs @ f # ys" by (meson split_list)
  have p: "df_path f = path_join dir n" using f(2) by (rule name_in_path)
  with d show "file_at (path_join dir n) d \<noteq> None" by (auto simp: file_at_def find_None_iff)
  have "filter (\<lambda>f. df_path f \<noteq> path_join dir n) xs = xs" "filter (\<lambda>f. df_path f \<noteq> path_join dir n) ys = ys"
  proof -
    have "distinct (map df_path (xs @ f # ys))" using assms(1) d by (simp add: healthy_def)
    then have "df_path f \<notin> df_path ` set xs" "df_path f \<notin> df_path ` set ys" by auto
    then show "filter (\<lambda>f. df_path f \<noteq> path_join dir n) xs = xs" "filter (\<lambda>f. df_path f \<noteq> path_join dir n) ys = ys"
      unfolding p by (force simp: filter_id_conv)+
  qed
  then show "mset (dir_entries dir d)
      = add_mset (n, k, t) (mset (dir_entries dir (d\<lparr>dk_files := filter (\<lambda>f. df_path f \<noteq> path_join dir n) (dk_files d)\<rparr>)))"
    using d f p by (simp add: dir_entries_eq)
qed

lemma total_mset: "mset xs = mset ys \<Longrightarrow> total xs = total ys"
  by (metis mset_map sum_mset_sum_list)

lemma total_add: "mset xs = add_mset (n, k, t) (mset ys) \<Longrightarrow> total xs = k + total ys"
  using total_mset [of xs "(n, k, t) # ys"] by simp

lemma evict_loop_wf:
  assumes "evict_loop target es c d = (c', d')" and "healthy d" and "stored_bytes (mc_dir c) d \<le> mc_current c"
    and "mset es = mset (dir_entries (mc_dir c) d)"
  shows "healthy d' \<and> stored_bytes (mc_dir c) d' \<le> mc_current c' \<and> stored_bytes (mc_dir c) d' \<le> stored_bytes (mc_dir c) d
    \<and> (mc_current c' \<le> target \<or> stored_bytes (mc_dir c) d' = 0) \<and> mc_dir c' = mc_dir c \<and> mc_max c' = mc_max c"
  using assms
proof (induction target es c d rule: evict_loop.induct)
  case (1 target c d)
  then show ?case by (simp add: stored_bytes_def)
next
  case (2 target n k t es c d)
  show ?case
  proof (cases "mc_current c \<le> target")
    case True
    with 2 show ?thesis by simp
  next
    case False
    let ?d = "d\<lparr>dk_files := filter (\<lambda>f. df_path f \<noteq> path_join (mc_dir c) n) (dk_files d)\<rparr>"
    let ?c = "c\<lparr>mc_current := mc_current c - k\<rparr>"
    have "(n, k, t) \<in> set (dir_entries (mc_dir c) d)" using 2(5) by (metis list.set_intros(1) set_mset_mset)
    note r = entry_removed [OF 2(3) this]
    have ms: "mset es = mset (dir_entries (mc_dir c) ?d)" using r(2) 2(5) by simp
    have rm: "snd (fs_remove (path_join (mc_dir c) n) d) = ?d" using 2(3) r(1) by (auto simp: fs_remove_def)
    have "stored_bytes (mc_dir c) d = k + stored_bytes (mc_dir c) ?d"
      using total_mset [OF 2(5)] total_mset [OF ms] by (simp add: stored_bytes_def)
    moreover have "evict_loop target es ?c ?d = (c', d')" using 2(2) False by (simp add: rm)
    ultimately have k: "stored_bytes (mc_dir c) d = k + stored_bytes (mc_dir c) ?d" "evict_loop target es ?c ?d = (c', d')" .
    then have "stored_bytes (mc_dir c) ?d \<le> mc_current c - k" using 2(4) by linarith
    with 2(1) [OF False] 2(3) ms k rm show ?thesis by (simp add: trans_le_add2)
  qed
qed

lemma evict_until_fit_wf:
  assumes "evict_oldest_until_fit n c d = (c', d')" and "healthy d" and "stored_bytes (mc_dir c) d \<le> mc_current c"
  shows "healthy d' \<and> stored_bytes (mc_dir c) d' \<le> mc_current c' \<and> stored_bytes (mc_dir c) d' \<le> stored_bytes (mc_dir c) d
    \<and> (mc_current c' \<le> mc_max c - n \<or> stored_bytes (mc_dir c) d' = 0) \<and> mc_dir c' = mc_dir c \<and> mc_max c' = mc_max c"
  by (rule evict_loop_wf [of _ "sort_key (\<lambda>(_, _, t). t) (dir_entries (mc_dir c) d)"])
    (use assms in \<open>simp_all add: evict_oldest_until_fit_def\<close>)

lemma cache_store_wf:
  assumes "cache_wf c d" and "length b \<le> mc_max c"
  shows "\<exists>c' d'. cache_store asset b c d = (Inr (), c', d') \<and> cache_wf c' d' \<and> mc_max c' = mc_max c \<and> mc_dir c' = mc_dir c
    \<and> file_at (cache_path c asset) d' = Some \<lparr>df_path = cache_path c asset, df_content = b, df_mtime = dk_now d' - 1\<rparr>"
proof -
  let ?n = "length b"
  obtain c2 d2 where e: "(if mc_max c < mc_current c + ?n then evict_oldest_until_fit ?n c d else (c, d)) = (c2, d2)" by fastforce
  have h: "healthy d" "stored_bytes (mc_dir c) d \<le> mc_current c" "stored_bytes (mc_dir c) d \<le> mc_max c"
    using assms(1) by (simp_all add: cache_wf_def)
  have 2: "healthy d2" "stored_bytes (mc_dir c) d2 \<le> mc_current c2" "mc_dir c2 = mc_dir c" "mc_max c2 = mc_max c"
      "stored_bytes (mc_dir c) d2 + ?n \<le> mc_max c"
    using e evict_until_fit_wf [of ?n c d c2 d2] h assms(2) by (auto split: if_splits)
  have "stored_bytes (mc_dir c) (put_file p b d2) \<le> stored_bytes (mc_dir c) d2 + ?n" for p by (rule stored_put)
  note p = this [of "cache_path c2 asset"]
  have w: "cache_wf (c2\<lparr>mc_current := mc_current c2 + ?n\<rparr>) (put_file (cache_path c2 asset) b d2)"
    using 2 p by (simp add: cache_wf_def)
  have "cache_path c2 asset = cache_path c asset" using 2 by (simp add: cache_path_def)
  moreover have "cache_store asset b c d = (Inr (), c2\<lparr>mc_current := mc_current c2 + ?n\<rparr>, put_file (cache_path c2 asset) b d2)"
    using e h(1) 2(1) by (simp add: cache_store_def fs_create_dir_all_def fs_write_def Let_def)
  moreover have "df_mtime \<lparr>df_path = q, df_content = b, df_mtime = dk_now d2\<rparr> = dk_now (put_file q b d2) - 1" for q
    by (simp add: put_file_def)
  ultimately show ?thesis using w 2 by simp
qed

text \<open>A name of a file in the directory itself.\<close>

definition plain_name :: "string \<Rightarrow> bool" where
  "plain_name a \<longleftrightarrow> a \<noteq> [] \<and> CHR ''/'' \<notin> set a"

lemma takeWhile_until:
  assumes "x \<notin> set xs"
  shows "takeWhile (\<lambda>c. c \<noteq> x) xs = xs" and "takeWhile (\<lambda>c. c \<noteq> x) (xs @ x # ys) = xs"
  using assms by (induction xs) auto

lemma name_in_plain:
  assumes "plain_name a" and "df_path f = path_join dir a"
  shows "name_in dir f = Some a"
proof -
  have h: "hd a \<noteq> CHR ''/''" using assms(1) hd_in_set unfolding plain_name_def by metis
  have "CHR ''/'' \<notin> set (rev a)" using assms(1) by (simp add: plain_name_def)
  from takeWhile_until [OF this] have "takeWhile (\<lambda>c. c \<noteq> CHR ''/'') (rev a @ rev rest) = rev a"
    if "rest = [] \<or> last rest = CHR ''/''" for rest
    using that by (cases rest rule: rev_cases) auto
  from this [of dir] this [of "dir @ ''/''"] show ?thesis
    using assms h by (auto simp: name_in_def Let_def path_join_def plain_name_def)
qed

lemma cache_evict_wf:
  assumes "cache_wf c d" and "plain_name asset"
  shows "\<exists>c' d'. cache_evict asset c d = (Inr (), c', d') \<and> cache_wf c' d' \<and> mc_max c' = mc_max c \<and> mc_dir c' = mc_dir c
    \<and> \<not> cache_has c' asset d'"
proof (cases "file_at (cache_path c asset) d")
  case None
  then show ?thesis using assms(1) by (auto simp: cache_evict_def cache_has_def)
next
  case (Some f)
  let ?p = "path_join (mc_dir c) asset"
  let ?d = "d\<lparr>dk_files := filter (\<lambda>f. df_path f \<noteq> ?p) (dk_files d)\<rparr>"
  have f: "f \<in> set (dk_files d)" "df_path f = ?p"
    using Some by (auto simp: file_at_def cache_path_def find_Some_iff)
  then have "(asset, length (df_content f), df_mtime f) \<in> set (dir_entries (mc_dir c) d)"
    using name_in_plain [OF assms(2) f(2)] by (force simp: dir_entries_def List.map_filter_def)
  moreover have "healthy d" using assms(1) by (simp add: cache_wf_def)
  ultimately have "stored_bytes (mc_dir c) d = length (df_content f) + stored_bytes (mc_dir c) ?d"
    unfolding stored_bytes_def by (intro total_add [OF entry_removed(2)])
  moreover have "cache_evict asset c d = (Inr (), c\<lparr>mc_current := mc_current c - length (df_content f)\<rparr>, ?d)"
    using assms(1) Some by (simp add: cache_evict_def cache_wf_def fs_remove_def cache_path_def)
  moreover have "\<not> cache_has (c\<lparr>mc_current := mc_current c - length (df_content f)\<rparr>) asset ?d"
    by (auto simp: cache_has_def file_at_def cache_path_def find_Some_iff dest: nth_mem)
  ultimately show ?thesis using assms(1) by (auto simp: cache_wf_def)
qed

section \<open>Runs\<close>

datatype cache_io = CiStore string bytes | CiEvict string | CiLoad string

fun run_cache_io :: "cache_io \<Rightarrow> media_cache \<times> disk \<Rightarrow> media_cache \<times> disk" where
  "run_cache_io (CiStore a b) (c, d) = snd (cache_store a b c d)"
| "run_cache_io (CiEvict a) (c, d) = snd (cache_evict a c d)"
| "run_cache_io (CiLoad a) (c, d) = (c, snd (cache_load c a d))"

fun io_fits :: "nat \<Rightarrow> cache_io \<Rightarrow> bool" where
  "io_fits n (CiStore a b) = (length b \<le> n)"
| "io_fits n (CiEvict a) = plain_name a"
| "io_fits n (CiLoad a) = True"

lemma cache_load_healthy: "healthy d \<Longrightarrow> snd (cache_load c a d) = d"
  by (simp add: cache_load_def fs_read_def split: option.split)

lemma run_cache_io_wf:
  assumes "cache_wf c d" and "io_fits (mc_max c) a"
  shows "\<exists>c' d'. run_cache_io a (c, d) = (c', d') \<and> cache_wf c' d' \<and> mc_max c' = mc_max c \<and> mc_dir c' = mc_dir c"
proof (cases a)
  case (CiStore x b)
  then show ?thesis using cache_store_wf [OF assms(1), of b x] assms(2) by auto
next
  case (CiEvict x)
  then show ?thesis using cache_evict_wf [OF assms(1), of x] assms(2) by auto
next
  case (CiLoad x)
  then show ?thesis using assms by (simp add: cache_load_healthy cache_wf_def)
qed

lemma run_cache_ios_wf:
  assumes "cache_wf c d" and "\<forall>a \<in> set as. io_fits (mc_max c) a"
  shows "\<exists>c' d'. fold run_cache_io as (c, d) = (c', d') \<and> cache_wf c' d' \<and> mc_max c' = mc_max c \<and> mc_dir c' = mc_dir c"
  using assms
proof (induction as arbitrary: c d)
  case (Cons a as)
  obtain c1 d1 where "run_cache_io a (c, d) = (c1, d1)" "cache_wf c1 d1" "mc_max c1 = mc_max c" "mc_dir c1 = mc_dir c"
    using run_cache_io_wf [of c d a] Cons.prems by auto
  with Cons.IH [of c1 d1] Cons.prems(2) show ?case by auto
qed simp

section \<open>Properties\<close>

text \<open>
  C26: the media cache keeps its budget: started on a directory without files and as long as I/O works, after any sequence of
  stores of items within the budget, loads and evictions by plain name the directory holds no more bytes than the budget
  allows, and none the cache has not counted; and an item just stored can be loaded.
\<close>

theorem media_cache_bounded:
  assumes "healthy d" and "dir_entries dir d = []" and "\<forall>a \<in> set as. io_fits n a" and "length b \<le> n"
  shows "\<exists>c d'. fold run_cache_io as (media_cache_new dir n, d) = (c, d')
    \<and> stored_bytes dir d' \<le> n \<and> stored_bytes dir d' \<le> mc_current c
    \<and> (\<exists>c2 d2. cache_store asset b c d' = (Inr (), c2, d2) \<and> fst (cache_load c2 asset d2) = Inr b \<and> stored_bytes dir d2 \<le> n)"
proof -
  have "cache_wf (media_cache_new dir n) d"
    using assms(1,2) by (simp add: cache_wf_def media_cache_new_def stored_bytes_def)
  moreover have "mc_max (media_cache_new dir n) = n" "mc_dir (media_cache_new dir n) = dir" by (simp_all add: media_cache_new_def)
  ultimately obtain c d' where r: "fold run_cache_io as (media_cache_new dir n, d) = (c, d')" "cache_wf c d'" "mc_max c = n" "mc_dir c = dir"
    using run_cache_ios_wf [of "media_cache_new dir n" d as] assms(3) by auto
  then obtain c2 d2 where s: "cache_store asset b c d' = (Inr (), c2, d2)" "cache_wf c2 d2" "mc_max c2 = n" "mc_dir c2 = dir"
      "file_at (cache_path c asset) d2 = Some \<lparr>df_path = cache_path c asset, df_content = b, df_mtime = dk_now d2 - 1\<rparr>"
    using cache_store_wf [of c d' b asset] assms(4) by auto
  have "cache_path c2 asset = cache_path c asset" using r s by (simp add: cache_path_def)
  then have "fst (cache_load c2 asset d2) = Inr b"
    using s by (simp add: cache_load_def fs_read_def cache_wf_def)
  with r s show ?thesis by (auto simp: cache_wf_def)
qed

theorem media_cache_bounded_witness:
  "\<exists>c d'. fold run_cache_io [CiStore ''a'' [1, 2], CiEvict ''a''] (media_cache_new ''/c'' 3, \<lparr>dk_files = [], dk_now = 0, dk_faults = []\<rparr>) = (c, d')
    \<and> stored_bytes ''/c'' d' \<le> 3 \<and> stored_bytes ''/c'' d' \<le> mc_current c
    \<and> (\<exists>c2 d2. cache_store ''b'' [7, 8, 9] c d' = (Inr (), c2, d2) \<and> fst (cache_load c2 ''b'' d2) = Inr [7, 8, 9] \<and> stored_bytes ''/c'' d2 \<le> 3)"
  by (rule media_cache_bounded) (simp_all add: healthy_def dir_entries_def plain_name_def map_filter_simps)

text \<open>
  the budget does not survive a restart: a new cache on a directory that already holds files counts none of them, so
  that it fills the directory beyond the budget without removing anything.
\<close>

theorem media_cache_restart_overflows:
  assumes "healthy d" and "length b \<le> n" and "n < stored_bytes dir d + length b" and "plain_name asset"
    and "file_at (path_join dir asset) d = None"
  shows "\<exists>c d'. cache_store asset b (media_cache_new dir n) d = (Inr (), c, d') \<and> mc_current c \<le> n \<and> n < stored_bytes dir d'"
proof -
  have "filter (\<lambda>f. df_path f \<noteq> path_join dir asset) (dk_files d) = dk_files d"
    using assms(5) by (auto simp: file_at_def find_None_iff filter_id_conv)
  then have "stored_bytes dir (put_file (path_join dir asset) b d) = stored_bytes dir d + length b"
    using name_in_plain [OF assms(4), of "\<lparr>df_path = path_join dir asset, df_content = b, df_mtime = dk_now d\<rparr>" dir]
    by (simp add: stored_bytes_def dir_entries_eq put_file_def)
  moreover have "cache_store asset b (media_cache_new dir n) d
      = (Inr (), (media_cache_new dir n)\<lparr>mc_current := length b\<rparr>, put_file (path_join dir asset) b d)"
    using assms(1,2) by (simp add: cache_store_def fs_create_dir_all_def fs_write_def media_cache_new_def cache_path_def Let_def)
  ultimately show ?thesis using assms(2,3) by auto
qed

theorem media_cache_restart_overflows_witness:
  "\<exists>c d'. cache_store ''new'' [4, 5] (media_cache_new ''/c'' 4)
      \<lparr>dk_files = [\<lparr>df_path = ''/c/old'', df_content = [1, 2, 3], df_mtime = 0\<rparr>], dk_now = 1, dk_faults = []\<rparr> = (Inr (), c, d')
    \<and> mc_current c \<le> 4 \<and> 4 < stored_bytes ''/c'' d'"
  by (rule media_cache_restart_overflows)
    (simp_all add: healthy_def stored_bytes_def dir_entries_def name_in_def path_join_def plain_name_def file_at_def map_filter_simps)

end
