(* ===== verification/Backup.thy ===== *)
theory Backup
  imports Archive
begin

text \<open>
  The backup engine (\<open>backup/\<close>): snapshots of the local store and their paging (\<open>snapshot.rs\<close>), self-contained
  encrypted segments (\<open>segment_builder.rs\<close>), and the coordinator with its three phases, its journal and its
  persisted state (\<open>coordinator.rs\<close>, \<open>event_journal.rs\<close>, \<open>sinks/kdrive_sink.rs\<close>). Random nonces and fresh
  identifiers are arguments.
\<close>

section \<open>Snapshots\<close>

record snapshot =
  sn_conversations :: "conversation list"
  sn_skeletons :: "message_skeleton list"
  sn_bodies :: "message_body list"

type_synonym snapshot_codec = "snapshot codec"

text \<open>The conversion of a store error by \<open>?\<close>.\<close>

definition from_storage :: "(storage_error, 'a) act \<Rightarrow> (core_error, 'a) act" where
  "from_storage = mapE CStorage"

definition snapshot_from_db :: "(core_error, snapshot) act" where
  "snapshot_from_db =
     bindA (from_storage list_all_conversations) (\<lambda>cs.
     bindA (from_storage list_skeletons_for_backup) (\<lambda>ss.
     bindA (from_storage list_all_bodies) (\<lambda>bs.
     ret \<lparr>sn_conversations = cs, sn_skeletons = ss, sn_bodies = bs\<rparr>)))"

definition to_cbor :: "snapshot_codec \<Rightarrow> snapshot \<Rightarrow> core_error + bytes" where
  "to_cbor C sn = coded (cbor_to_vec C sn)"

definition from_cbor :: "snapshot_codec \<Rightarrow> bytes \<Rightarrow> core_error + snapshot" where
  "from_cbor C d = coded (cbor_from_slice C d)"

definition mark_backed_up :: "snapshot \<Rightarrow> (core_error, unit) act" where
  "mark_backed_up sn = from_storage (batch_mark_skeletons_backed_up (map sk_id (sn_skeletons sn)))"

definition batch_size :: nat where
  "batch_size = 200"

definition left_after :: "int \<Rightarrow> 'a list \<Rightarrow> nat" where
  "left_after off xs = nat (int (length xs) - off)"

lemma left_after_step:
  "left_after (if b then off + int batch_size else off) xs \<le> left_after off xs"
  "batch_size \<le> length (take batch_size (drop (nat off) xs)) \<Longrightarrow>
     left_after (off + int batch_size) xs < left_after off xs"
  unfolding left_after_def batch_size_def by auto

text \<open>
  The loop of \<open>stream_backup_batches\<close>. The callback acts on a state \<open>'w\<close> of its own; the offsets are \<open>i64\<close>. The
  conversations stay in the batch from one round to the next.
\<close>

type_synonym 'w callback = "bytes \<Rightarrow> 'w \<Rightarrow> (core_error + unit) \<times> 'w"

function stream_loop ::
  "snapshot_codec \<Rightarrow> 'w callback \<Rightarrow> conversation list \<Rightarrow> store \<Rightarrow> int \<Rightarrow> int \<Rightarrow> nat \<Rightarrow> 'w \<Rightarrow> (core_error + nat) \<times> 'w" where
  "stream_loop C call convs s so bo batches w =
     (case fst (from_storage (list_skeletons_for_backup_batch batch_size so) s) of
        Inl e \<Rightarrow> (Inl e, w)
      | Inr skels \<Rightarrow>
     (case fst (from_storage (list_all_bodies_batch batch_size bo) s) of
        Inl e \<Rightarrow> (Inl e, w)
      | Inr bodies \<Rightarrow>
     if skels = [] \<and> bodies = [] then (Inr batches, w)
     else
       (case to_cbor C \<lparr>sn_conversations = convs, sn_skeletons = skels, sn_bodies = bodies\<rparr> of
          Inl e \<Rightarrow> (Inl e, w)
        | Inr cbor \<Rightarrow>
       (case call cbor w of
          (Inl e, w') \<Rightarrow> (Inl e, w')
        | (Inr _, w') \<Rightarrow>
            let so' = (if 0 < length skels then so + int batch_size else so);
                bo' = (if 0 < length bodies then bo + int batch_size else bo)
            in if length skels < batch_size \<and> length bodies < batch_size then (Inr (batches + 1), w')
               else stream_loop C call convs s so' bo' (batches + 1) w'))))"
  by pat_completeness auto

termination
proof (relation "measure (\<lambda>(C, call, convs, s, so, bo, n, w).
    left_after so (pending_backup (read_view s)) + left_after bo (t_body (read_view s)))", goal_cases)
  case (2 C call convs s so bo n w skels bodies cbor r w' u so' bo')
  let ?p = "pending_backup (read_view s)" and ?b = "t_body (read_view s)"
  have sk: "length skels = length (take batch_size (drop (nat so) ?p))"
    and bd: "length bodies = length (take batch_size (drop (nat bo) ?b))"
    using 2(1,2) by (auto simp: from_storage_def mapE_def list_skeletons_for_backup_batch_def
        list_all_bodies_batch_def query_def)
  have m: "left_after so' ?p \<le> left_after so ?p" "left_after bo' ?b \<le> left_after bo ?b"
    unfolding 2 by (rule left_after_step)+
  from 2 have "batch_size \<le> length skels \<or> batch_size \<le> length bodies" by linarith
  then have "left_after so' ?p < left_after so ?p \<or> left_after bo' ?b < left_after bo ?b"
  proof
    assume l: "batch_size \<le> length skels"
    then have "so' = so + int batch_size" unfolding 2 by (auto simp: batch_size_def)
    with l left_after_step(2) [of so ?p] sk show ?thesis by simp
  next
    assume l: "batch_size \<le> length bodies"
    then have "bo' = bo + int batch_size" unfolding 2 by (auto simp: batch_size_def)
    with l left_after_step(2) [of bo ?b] bd show ?thesis by simp
  qed
  with m show ?case by auto
qed simp

declare stream_loop.simps [simp del]

definition stream_backup_batches ::
  "snapshot_codec \<Rightarrow> 'w callback \<Rightarrow> store \<Rightarrow> 'w \<Rightarrow> (core_error + nat) \<times> 'w" where
  "stream_backup_batches C call s w =
     (case fst (from_storage list_all_conversations s) of
        Inl e \<Rightarrow> (Inl e, w)
      | Inr convs \<Rightarrow>
     (case stream_loop C call convs s 0 0 0 w of
        (Inl e, w') \<Rightarrow> (Inl e, w')
      | (Inr batches, w') \<Rightarrow>
          if batches = 0
          then (case to_cbor C \<lparr>sn_conversations = convs, sn_skeletons = [], sn_bodies = []\<rparr> of
                  Inl e \<Rightarrow> (Inl e, w')
                | Inr cbor \<Rightarrow> (case call cbor w' of (Inl e, w'') \<Rightarrow> (Inl e, w'') | (Inr _, w'') \<Rightarrow> (Inr 1, w'')))
          else (Inr batches, w')))"

section \<open>Segments\<close>

definition backup_nonce_size :: nat where
  "backup_nonce_size = 24"

definition backup_segment_aad :: bytes where
  "backup_segment_aad = str_bytes ''chat-storage/backup-segment/v1''"

definition backup_build_segment ::
  "prims \<Rightarrow> archive_codecs \<Rightarrow> bytes \<Rightarrow> bytes \<Rightarrow> bytes \<Rightarrow> core_error + bytes \<times> bytes \<times> bytes" where
  "backup_build_segment P Z nonce plaintext key =
     and_then (compress Z plaintext) (\<lambda>compressed.
     and_then (ciphered (seal P key nonce compressed backup_segment_aad)) (\<lambda>ct.
     Inr (nonce @ ct, nonce, content_hash P plaintext)))"

definition backup_open_segment :: "prims \<Rightarrow> archive_codecs \<Rightarrow> bytes \<Rightarrow> bytes \<Rightarrow> core_error + bytes" where
  "backup_open_segment P Z frame key =
     (if length frame < backup_nonce_size
      then Inl (CStorage (Custom ''backup segment too short to contain nonce''))
      else and_then (ciphered (open_sealed P key (take backup_nonce_size frame) (drop backup_nonce_size frame)
               backup_segment_aad)) (\<lambda>compressed. decompress Z compressed))"

section \<open>The sink\<close>

definition sink_upload_segment :: "'w gateway \<Rightarrow> string \<Rightarrow> bytes \<Rightarrow> 'w \<Rightarrow> (core_error + string) \<times> 'w" where
  "sink_upload_segment G segment ct w = as_storage (gw_upload_archive_segment G segment ct w)"

definition sink_upload_manifest :: "'w gateway \<Rightarrow> bytes \<Rightarrow> 'w \<Rightarrow> (core_error + unit) \<times> 'w" where
  "sink_upload_manifest G manifest w = as_storage (gw_upload_backup_manifest G manifest w)"

definition sink_download_manifests :: "'w gateway \<Rightarrow> nat \<Rightarrow> 'w \<Rightarrow> (core_error + bytes list) \<times> 'w" where
  "sink_download_manifests G after w = as_storage (gw_fetch_backup_manifests G after w)"

section \<open>The coordinator\<close>

datatype backup_event =
    BSegmentBuilt string u64
  | BSegmentUploaded string nat
  | BManifestPublished u64
  | BSegmentCompacted "string list" string

record backup_coordinator =
  bc_journal :: "backup_event list"
  bc_generation :: u64
  bc_prev_hash :: bytes

record backup_payload =
  pl_segment :: string
  pl_ciphertext :: bytes
  pl_manifest :: bytes
  pl_plain_hash :: bytes
  pl_manifest_hash :: bytes
  pl_generation :: u64

definition backup_new :: backup_coordinator where
  "backup_new = \<lparr>bc_journal = [], bc_generation = 0, bc_prev_hash = replicate 32 0\<rparr>"

definition backup_record :: "backup_event \<Rightarrow> backup_coordinator \<Rightarrow> backup_coordinator" where
  "backup_record e c = c\<lparr>bc_journal := bc_journal c @ [e]\<rparr>"

text \<open>The fresh values of one backup: the segment's identifier, the manifest's, and the nonce.\<close>

record fresh =
  fr_segment :: uuid
  fr_manifest :: uuid
  fr_nonce :: bytes

definition prepare_backup ::
  "prims \<Rightarrow> archive_codecs \<Rightarrow> backup_manifest codec \<Rightarrow> fresh \<Rightarrow> bytes \<Rightarrow> bytes \<Rightarrow> backup_coordinator \<Rightarrow>
     core_error + backup_payload" where
  "prepare_backup P Z C new data key c =
     and_then (backup_build_segment P Z (fr_nonce new) data key) (\<lambda>(ct, _, plain_hash).
     let ref = \<lparr>sr_segment = fr_segment new, sr_type = Events, sr_sha256 = plain_hash,
                sr_size = word_of_nat (length ct)\<rparr>;
         manifest = build_manifest (fr_manifest new) (bc_generation c) (bc_prev_hash c) [ref] []
     in and_then (coded (cbor_to_vec C manifest)) (\<lambda>manifest_bytes.
        and_then (manifest_hash P C manifest) (\<lambda>h.
        Inr \<lparr>pl_segment = fr_segment new, pl_ciphertext = ct, pl_manifest = manifest_bytes, pl_plain_hash = plain_hash,
             pl_manifest_hash = h, pl_generation = bc_generation c\<rparr>)))"

definition finalize_backup :: "string \<Rightarrow> backup_payload \<Rightarrow> backup_coordinator \<Rightarrow> u64 \<times> backup_coordinator" where
  "finalize_backup uploaded p c =
     (let c1 = backup_record (BSegmentUploaded uploaded (length (pl_ciphertext p))) c;
          c2 = backup_record (BManifestPublished (pl_generation p)) (c1\<lparr>bc_prev_hash := pl_manifest_hash p\<rparr>);
          c3 = c2\<lparr>bc_generation := bc_generation c2 + 1\<rparr>
      in (bc_generation c3, c3))"

definition next_generation :: "backup_coordinator \<Rightarrow> u64 \<times> backup_coordinator" where
  "next_generation c = (bc_generation c + 1, c\<lparr>bc_generation := bc_generation c + 1\<rparr>)"

text \<open>The two uploads between the phases.\<close>

definition upload_payload :: "'w gateway \<Rightarrow> backup_payload \<Rightarrow> 'w \<Rightarrow> (core_error + string) \<times> 'w" where
  "upload_payload G p w =
     (case sink_upload_segment G (pl_segment p) (pl_ciphertext p) w of
        (Inl e, w') \<Rightarrow> (Inl e, w')
      | (Inr uploaded, w') \<Rightarrow>
          (case sink_upload_manifest G (pl_manifest p) w' of
             (Inl e, w'') \<Rightarrow> (Inl e, w'')
           | (Inr _, w'') \<Rightarrow> (Inr uploaded, w'')))"

definition run_backup ::
  "prims \<Rightarrow> archive_codecs \<Rightarrow> backup_manifest codec \<Rightarrow> 'w gateway \<Rightarrow> fresh \<Rightarrow> bytes \<Rightarrow> bytes \<Rightarrow> backup_coordinator \<Rightarrow> 'w \<Rightarrow>
     (core_error + u64) \<times> backup_coordinator \<times> 'w" where
  "run_backup P Z C G new data key c w =
     (if data = [] then (Inr (bc_generation c), c, w)
      else case prepare_backup P Z C new data key c of
             Inl e \<Rightarrow> (Inl e, c, w)
           | Inr p \<Rightarrow>
               (case upload_payload G p w of
                  (Inl e, w') \<Rightarrow> (Inl e, c, w')
                | (Inr uploaded, w') \<Rightarrow> (case finalize_backup uploaded p c of (g, c') \<Rightarrow> (Inr g, c', w'))))"

definition save_state :: "backup_coordinator \<Rightarrow> (core_error, unit) act" where
  "save_state c = from_storage (save_backup_state (bc_generation c) (bc_prev_hash c))"

definition load_state :: "(core_error, backup_coordinator) act" where
  "load_state =
     bindA (from_storage load_backup_state) (\<lambda>r. ret
       (case r of None \<Rightarrow> backup_new
        | Some (gen, h) \<Rightarrow> \<lparr>bc_journal = [], bc_generation = gen, bc_prev_hash = h\<rparr>))"

section \<open>Wire, deduplication, compaction\<close>

definition encode_manifest :: "backup_manifest codec \<Rightarrow> backup_manifest \<Rightarrow> core_error + bytes" where
  "encode_manifest C m = coded (cbor_to_vec C m)"

definition decode_manifest :: "backup_manifest codec \<Rightarrow> bytes \<Rightarrow> core_error + backup_manifest" where
  "decode_manifest C d = coded (cbor_from_slice C d)"

definition compute_dedup_key :: "prims \<Rightarrow> bytes \<Rightarrow> bytes" where
  "compute_dedup_key P d = content_hash P d"

definition backup_plan_compaction :: "(string \<times> u64) list \<Rightarrow> int \<Rightarrow> core_error + string list" where
  "backup_plan_compaction segments max_age = Inl (CNotImplemented ''compaction planning not yet implemented'')"

section \<open>Paging covers the tables\<close>

text \<open>The callback that keeps every batch, and the pages that the batches should be.\<close>

definition collect :: "bytes list callback" where
  "collect b w = (Inr (), w @ [b])"

definition pages_of :: "conversation list \<Rightarrow> message_skeleton list \<Rightarrow> message_body list \<Rightarrow> snapshot list \<Rightarrow> bool" where
  "pages_of convs ss bs sns \<longleftrightarrow>
     concat (map sn_skeletons sns) = ss \<and> concat (map sn_bodies sns) = bs
     \<and> list_all (\<lambda>sn. sn_conversations sn = convs \<and> length (sn_skeletons sn) \<le> 200 \<and> length (sn_bodies sn) \<le> 200) sns"

definition page_count :: "nat \<Rightarrow> nat" where
  "page_count n = (n + 199) div 200"

lemma page_count_drop: "page_count (n - 200) = page_count n - 1"
proof (cases "200 \<le> n")
  case True
  then have "n + 199 = (n - 200 + 199) + 200" by simp
  then show ?thesis unfolding page_count_def by (metis add_diff_cancel_right' div_add_self2 zero_neq_numeral)
next
  case False
  then have "n + 199 < 400" by simp
  then have "(n + 199) div 200 \<le> 1" by linarith
  with False show ?thesis by (simp add: page_count_def)
qed

lemma page_count_short: "m < 200 \<Longrightarrow> page_count m = (if m = 0 then 0 else 1)"
proof -
  assume "m < 200"
  then have "m = 0 \<or> m + 199 = (m - 1) + 200 \<and> m - 1 < 200" by linarith
  then show ?thesis by (auto simp: page_count_def)
qed

lemma pages_step:
  assumes "pages_of convs (drop 200 ss) (drop 200 bs) sns"
  shows "pages_of convs ss bs (\<lparr>sn_conversations = convs, sn_skeletons = take 200 ss, sn_bodies = take 200 bs\<rparr> # sns)"
  using assms unfolding pages_of_def
  by simp

lemma reads_at:
  "fst (from_storage (list_skeletons_for_backup_batch batch_size (int so)) s)
     = Inr (take 200 (drop so (map skel_of_row (pending_backup (read_view s)))))"
  "fst (from_storage (list_all_bodies_batch batch_size (int bo)) s) = Inr (take 200 (drop bo (t_body (read_view s))))"
  by (simp_all add: from_storage_def mapE_def list_skeletons_for_backup_batch_def list_all_bodies_batch_def query_def
      batch_size_def take_map drop_map)

lemma stream_loop_step:
  assumes "\<And>sn. to_cbor C sn = Inr (enc sn)"
    and "ss = take 200 (drop so (map skel_of_row (pending_backup (read_view s))))"
    and "bs = take 200 (drop bo (t_body (read_view s)))"
  shows "stream_loop C collect convs s (int so) (int bo) n w =
    (if ss = [] \<and> bs = [] then (Inr n, w)
     else let w' = w @ [enc \<lparr>sn_conversations = convs, sn_skeletons = ss, sn_bodies = bs\<rparr>] in
       if length ss < 200 \<and> length bs < 200 then (Inr (n + 1), w')
       else stream_loop C collect convs s (int (if 0 < length ss then so + 200 else so))
              (int (if 0 < length bs then bo + 200 else bo)) (n + 1) w')"
proof -
  have r: "fst (from_storage (list_skeletons_for_backup_batch batch_size (int so)) s) = Inr ss"
    "fst (from_storage (list_all_bodies_batch batch_size (int bo)) s) = Inr bs"
    by (simp_all only: reads_at assms(2,3))
  show ?thesis
    by (subst stream_loop.simps, unfold r assms(1) sum.case collect_def prod.case Let_def)
      (simp add: batch_size_def)
qed

lemma stream_loop_pages:
  assumes "\<And>sn. to_cbor C sn = Inr (enc sn)"
  shows "\<exists>sns. stream_loop C collect convs s (int so) (int bo) n w = (Inr (n + length sns), w @ map enc sns)
    \<and> pages_of convs (drop so (map skel_of_row (pending_backup (read_view s)))) (drop bo (t_body (read_view s))) sns
    \<and> length sns = max (page_count (length (pending_backup (read_view s)) - so))
        (page_count (length (t_body (read_view s)) - bo))"
proof (induction "(length (pending_backup (read_view s)) - so) + (length (t_body (read_view s)) - bo)"
    arbitrary: so bo n w rule: less_induct)
  case less
  let ?p = "map skel_of_row (pending_backup (read_view s))" and ?b = "t_body (read_view s)"
  let ?ss = "take 200 (drop so ?p)" and ?bs = "take 200 (drop bo ?b)"
  let ?sn = "\<lparr>sn_conversations = convs, sn_skeletons = ?ss, sn_bodies = ?bs\<rparr>"
  have len: "length (pending_backup (read_view s)) = length ?p" by simp
  show ?case unfolding len
  proof (cases "?ss = [] \<and> ?bs = []")
    case True
    then have "length ?p \<le> so" "length ?b \<le> bo" by simp_all
    moreover have "stream_loop C collect convs s (int so) (int bo) n w = (Inr n, w)"
      by (subst stream_loop_step [OF assms refl refl]) (unfold if_P [OF True], rule refl)
    ultimately show "\<exists>sns. stream_loop C collect convs s (int so) (int bo) n w = (Inr (n + length sns), w @ map enc sns)
        \<and> pages_of convs (drop so ?p) (drop bo ?b) sns
        \<and> length sns = max (page_count (length ?p - so)) (page_count (length ?b - bo))"
      by (intro exI [of _ "[]"]) (simp add: pages_of_def page_count_def)
  next
    case False
    show "\<exists>sns. stream_loop C collect convs s (int so) (int bo) n w = (Inr (n + length sns), w @ map enc sns)
        \<and> pages_of convs (drop so ?p) (drop bo ?b) sns
        \<and> length sns = max (page_count (length ?p - so)) (page_count (length ?b - bo))"
    proof (cases "length ?ss < 200 \<and> length ?bs < 200")
      case short: True
      have "pages_of convs (drop so ?p) (drop bo ?b) [?sn]"
        by (rule pages_step) (use short in \<open>auto simp: pages_of_def\<close>)
      moreover have "max (page_count (length ?p - so)) (page_count (length ?b - bo)) = 1"
      proof -
        have "length ?p - so < 200" "length ?b - bo < 200" "length ?p - so \<noteq> 0 \<or> length ?b - bo \<noteq> 0"
          using short False by auto
        then show ?thesis by (auto simp: page_count_short)
      qed
      moreover have "stream_loop C collect convs s (int so) (int bo) n w = (Inr (n + 1), w @ [enc ?sn])"
        by (subst stream_loop_step [OF assms refl refl]) (unfold Let_def if_not_P [OF False] if_P [OF short], rule refl)
      ultimately show ?thesis by (intro exI [of _ "[?sn]"]) simp
    next
      case long: False
      define so' where "so' = (if 0 < length ?ss then so + 200 else so)"
      define bo' where "bo' = (if 0 < length ?bs then bo + 200 else bo)"
      have d: "drop so' ?p = drop 200 (drop so ?p)" "drop bo' ?b = drop 200 (drop bo ?b)"
        "length ?p - so' = length ?p - so - 200" "length ?b - bo' = length ?b - bo - 200"
        by (auto simp: so'_def bo'_def add.commute)
      have "length ?p - so' + (length ?b - bo') < length ?p - so + (length ?b - bo)"
        unfolding d using long by auto
      from less [unfolded len, OF this, of "n + 1" "w @ [enc ?sn]"] obtain sns where
        sns: "stream_loop C collect convs s (int so') (int bo') (n + 1) (w @ [enc ?sn])
            = (Inr (n + 1 + length sns), (w @ [enc ?sn]) @ map enc sns)"
          "pages_of convs (drop so' ?p) (drop bo' ?b) sns"
          "length sns = max (page_count (length ?p - so')) (page_count (length ?b - bo'))" by blast
      have run: "stream_loop C collect convs s (int so) (int bo) n w
          = (Inr (n + length (?sn # sns)), w @ map enc (?sn # sns))"
      proof -
        have "stream_loop C collect convs s (int so) (int bo) n w
            = stream_loop C collect convs s (int so') (int bo') (n + 1) (w @ [enc ?sn])"
          unfolding so'_def bo'_def by (subst stream_loop_step [OF assms refl refl])
            (unfold Let_def if_not_P [OF False] if_not_P [OF long], rule refl)
        then show ?thesis unfolding sns(1) by simp
      qed
      have count: "length (?sn # sns) = max (page_count (length ?p - so)) (page_count (length ?b - bo))"
      proof -
        have "200 \<le> length ?p - so \<or> 200 \<le> length ?b - bo" using long by auto
        then have "1 \<le> page_count (length ?p - so) \<or> 1 \<le> page_count (length ?b - bo)" by (auto simp: page_count_def)
        then show ?thesis using sns(3) unfolding d page_count_drop by (auto simp: max_def)
      qed
      from pages_step [OF sns(2) [unfolded d]] run count show ?thesis by blast
    qed
  qed
qed

lemma stream_covers:
  assumes "\<And>sn. to_cbor C sn = Inr (enc sn)"
  shows "\<exists>sns. stream_backup_batches C collect s [] = (Inr (length sns), map enc sns)
    \<and> pages_of (map conv_of_row (t_conv (read_view s))) (map skel_of_row (pending_backup (read_view s)))
        (t_body (read_view s)) sns
    \<and> length sns = max 1 (max (page_count (length (pending_backup (read_view s)))) (page_count (length (t_body (read_view s)))))"
proof -
  let ?c = "map conv_of_row (t_conv (read_view s))"
  have c: "fst (from_storage list_all_conversations s) = Inr ?c"
    by (simp add: from_storage_def mapE_def list_all_conversations_def query_def)
  from stream_loop_pages [OF assms, where so = 0 and bo = 0 and convs = ?c and n = 0 and w = "[]" and s = s]
  obtain sns where sns: "stream_loop C collect ?c s 0 0 0 [] = (Inr (length sns), map enc sns)"
      "pages_of ?c (map skel_of_row (pending_backup (read_view s))) (t_body (read_view s)) sns"
      "length sns = max (page_count (length (pending_backup (read_view s)))) (page_count (length (t_body (read_view s))))"
    by auto
  show ?thesis
  proof (cases "sns = []")
    case True
    let ?sn = "\<lparr>sn_conversations = ?c, sn_skeletons = [], sn_bodies = []\<rparr>"
    have "stream_backup_batches C collect s [] = (Inr 1, [enc ?sn])"
      using sns(1) True by (simp add: stream_backup_batches_def c assms collect_def)
    moreover have "pages_of ?c (map skel_of_row (pending_backup (read_view s))) (t_body (read_view s)) [?sn]"
      using sns(2) True by (simp add: pages_of_def)
    ultimately show ?thesis using sns(3) True by (intro exI [of _ "[?sn]"]) simp
  next
    case False
    then have "stream_backup_batches C collect s [] = (Inr (length sns), map enc sns)"
      using sns(1) by (simp add: stream_backup_batches_def c)
    moreover have "length sns = max 1 (length sns)" using False by (cases sns) auto
    ultimately show ?thesis using sns(2,3) by (intro exI [of _ sns]) simp
  qed
qed

section \<open>The published chain\<close>

definition recording_backups :: "'w gateway \<Rightarrow> ('w \<times> bytes list) gateway" where
  "recording_backups G = (recording G)
     \<lparr>gw_upload_archive_manifest := (\<lambda>m. lifted (gw_upload_archive_manifest G m)),
      gw_upload_backup_manifest := (\<lambda>m wl. case gw_upload_backup_manifest G m (fst wl) of
          (Inl e, w) \<Rightarrow> (Inl e, w, snd wl) | (Inr u, w) \<Rightarrow> (Inr u, w, snd wl @ [m]))\<rparr>"

text \<open>
  One backup, or a restart of the process that saves the coordinator to the store before and loads it after.
\<close>

datatype backup_op = RunBackup fresh bytes | SaveAndReload

fun backup_step ::
  "prims \<Rightarrow> archive_codecs \<Rightarrow> backup_manifest codec \<Rightarrow> 'w gateway \<Rightarrow> bytes \<Rightarrow> backup_op \<Rightarrow>
     backup_coordinator \<times> store \<times> 'w \<Rightarrow> backup_coordinator \<times> store \<times> 'w" where
  "backup_step P Z C G key (RunBackup new data) (c, s, w) =
     (case run_backup P Z C G new data key c w of (_, c', w') \<Rightarrow> (c', s, w'))"
| "backup_step P Z C G key SaveAndReload (c, s, w) =
     (let s' = snd (save_state c s) in
      case load_state s' of (Inl _, s'') \<Rightarrow> (c, s'', w) | (Inr c', s'') \<Rightarrow> (c', s'', w))"

definition backup_on_record :: "prims \<Rightarrow> backup_manifest codec \<Rightarrow> backup_coordinator \<times> store \<times> 'w \<times> bytes list \<Rightarrow> bool" where
  "backup_on_record P C st = (case st of (c, s, w, bs) \<Rightarrow>
     quiet s \<and> settled s \<and> length (bc_prev_hash c) = 32
     \<and> bc_generation c = word_of_nat (length bs) \<and> published P C (length bs) (bc_prev_hash c) bs)"

lemma saved_state_loads:
  assumes "quiet s" and "settled s" and "length (bc_prev_hash c) = 32"
  shows "load_state (snd (save_state c s)) = (Inr (c\<lparr>bc_journal := []\<rparr>), snd (save_state c s))
    \<and> quiet (snd (save_state c s)) \<and> settled (snd (save_state c s))"
proof -
  have g: "i64_as_u64 (u64_as_i64 x) = x" for x by (simp add: i64_as_u64_def u64_as_i64_def)
  show ?thesis using assms
    by (auto simp: save_state_def load_state_def from_storage_def save_backup_state_def load_backup_state_def db_exec_def
        exec_quiet pureT_def mapE_def bindA_def query_def ret_def read_view_def settled_def quiet_def settle_def g)
qed

lemma prepared_manifest:
  assumes "prepare_backup P Z C new data key c = Inr p"
  shows "\<exists>m. cbor_to_vec C m = Inr (pl_manifest p) \<and> manifest_hash P C m = Inr (pl_manifest_hash p)
    \<and> bm_generation m = bc_generation c \<and> bm_previous m = bc_prev_hash c \<and> pl_generation p = bc_generation c"
  using assms
  by (auto simp: prepare_backup_def and_then_Inr Let_def build_manifest_def)

lemma run_backup_on_record:
  assumes "\<And>d. length (pr_hash P d) = 32" and "backup_on_record P C (c, s, w, bs)"
    and "run_backup P Z C (recording_backups G) new data key c (w, bs) = (r, c', w', bs')"
  shows "backup_on_record P C (c', s, w', bs')"
proof (cases "data = [] \<or> (\<exists>e. prepare_backup P Z C new data key c = Inl e)")
  case True
  then show ?thesis using assms(2,3) by (auto simp: run_backup_def split: if_splits)
next
  case False
  then obtain p where p: "data \<noteq> []" "prepare_backup P Z C new data key c = Inr p"
    by (cases "prepare_backup P Z C new data key c") auto
  from prepared_manifest [OF p(2)] obtain m where m: "cbor_to_vec C m = Inr (pl_manifest p)"
      "manifest_hash P C m = Inr (pl_manifest_hash p)" "bm_generation m = bc_generation c"
      "bm_previous m = bc_prev_hash c" by blast
  have "published P C (Suc (length bs)) (pl_manifest_hash p) (bs @ [pl_manifest p])"
    by (rule published_next [where m = m]) (use assms(2) m in \<open>simp_all add: backup_on_record_def\<close>)
  moreover have "length (pl_manifest_hash p) = 32"
    using m(1,2) assms(1) [of "pl_manifest p"] by (auto simp: manifest_hash_def content_hash_def)
  ultimately show ?thesis using assms(2,3) p
    by (auto simp: run_backup_def upload_payload_def sink_upload_segment_def sink_upload_manifest_def as_storage_def
        recording_backups_def recording_def lifted_def finalize_backup_def backup_record_def backup_on_record_def Let_def
        split: sum.splits prod.splits)
qed

lemma step_backup_on_record:
  assumes "\<And>d. length (pr_hash P d) = 32" and "backup_on_record P C st"
  shows "backup_on_record P C (backup_step P Z C (recording_backups G) key x st)"
proof (cases st)
  case (fields c s w bs)
  show ?thesis
  proof (cases x)
    case (RunBackup new data)
    obtain r c' w' bs' where r: "run_backup P Z C (recording_backups G) new data key c (w, bs) = (r, c', w', bs')"
      by (metis prod_cases4)
    from run_backup_on_record [OF assms(1) _ r, where s = s] assms(2) show ?thesis
      by (simp add: RunBackup fields r)
  next
    case SaveAndReload
    with saved_state_loads [of s c] assms(2) fields show ?thesis
      by (simp add: backup_on_record_def Let_def)
  qed
qed

lemma run_backups_on_record:
  "(\<And>d. length (pr_hash P d) = 32) \<Longrightarrow> backup_on_record P C st \<Longrightarrow>
   backup_on_record P C (fold (backup_step P Z C (recording_backups G) key) ops st)"
  by (induction ops arbitrary: st) (simp_all add: step_backup_on_record)

section \<open>Round trips\<close>

lemma backup_segment_opens:
  assumes "aead_ok P" and "archive_codecs_ok Z" and "length nonce = 24"
    and "backup_build_segment P Z nonce data key = Inr (frame, n, h)"
  shows "backup_open_segment P Z frame key = Inr data \<and> take 24 frame = nonce \<and> n = nonce \<and> h = content_hash P data"
proof -
  from assms(4) obtain z ct where z: "ac_compress Z data = Inr z" "seal P key nonce z backup_segment_aad = Inr ct"
      "frame = nonce @ ct" "n = nonce" "h = content_hash P data"
    by (auto simp: backup_build_segment_def and_then_Inr compress_def)
  have "ac_decompress Z z = Inr data" using assms(2) z(1) by (auto simp: archive_codecs_ok_def)
  with z sealed_opens [OF assms(1) z(2)] assms(3) show ?thesis
    by (simp add: backup_open_segment_def backup_nonce_size_def and_then_Inr ciphered_def decompress_def coded_def)
qed

lemma manifest_of_prepared:
  "prepare_backup P Z C new data key c = Inr p \<Longrightarrow> cbor_to_vec C m = Inr (pl_manifest p) \<Longrightarrow> codec_ok C \<Longrightarrow>
   bm_previous m = bc_prev_hash c \<and> bm_generation m = bc_generation c \<and> manifest_hash P C m = Inr (pl_manifest_hash p)"
  using prepared_manifest [of P Z C new data key c p] codec_write_inj [of C] by blast

section \<open>Examples\<close>

definition padded_prims :: prims where
  "padded_prims = toy_prims\<lparr>pr_hash := \<lambda>d. take 32 (1 # d @ replicate 32 0)\<rparr>"

lemma padded_length: "length (pr_hash padded_prims d) = 32"
  by (simp add: padded_prims_def)

definition toy_fresh :: fresh where
  "toy_fresh = \<lparr>fr_segment = ''s'', fr_manifest = ''m'', fr_nonce = replicate 24 0\<rparr>"

definition first_manifest :: backup_manifest where
  "first_manifest = build_manifest ''m'' 0 (replicate 32 0)
     [\<lparr>sr_segment = ''s'', sr_type = Events, sr_sha256 = 1 # 5 # replicate 30 0, sr_size = 41\<rparr>] []"

definition empty_store :: store where
  "empty_store = \<lparr>st_live = empty_tables, st_committed = empty_tables, st_saves = [], st_faults = [], st_fk = True, st_pool = 4\<rparr>"

definition toy_payload_of :: backup_payload where
  "toy_payload_of = \<lparr>pl_segment = ''s'', pl_ciphertext = replicate 24 0 @ 5 # replicate 16 0, pl_manifest = [1],
     pl_plain_hash = 1 # 5 # replicate 30 0, pl_manifest_hash = 1 # 1 # replicate 30 0, pl_generation = 0\<rparr>"

lemma toy_prepare:
  "prepare_backup padded_prims toy_codecs (toy_codec first_manifest) toy_fresh [5] key backup_new = Inr toy_payload_of"
proof -
  have t: "take 31 (x # replicate 32 0) = x # replicate 30 (0 :: u8)" for x
    by (simp add: eval_nat_numeral)
  show ?thesis
    by (simp add: prepare_backup_def backup_build_segment_def and_then_Inr compress_def coded_def ciphered_def seal_def
        toy_codecs_def padded_prims_def toy_prims_def toy_fresh_def backup_new_def Let_def first_manifest_def
        cbor_to_vec_def toy_codec_def manifest_hash_def content_hash_def toy_payload_of_def t)
qed

section \<open>Properties\<close>

text \<open>
  C20: streaming covers the store: when every batch can be written and is accepted, the batches together hold
  every skeleton that is not backed up and every body exactly once and in table order, each batch holds at most 200
  of each and all conversations, and as many batches are made and reported as the larger table needs, one for an
  empty store. The loop always ends.
\<close>

theorem stream_batches_cover:
  assumes "\<And>sn. to_cbor C sn = Inr (enc sn)"
  shows "\<exists>sns. stream_backup_batches C collect s [] = (Inr (length sns), map enc sns)
    \<and> pages_of (map conv_of_row (t_conv (read_view s))) (map skel_of_row (pending_backup (read_view s)))
        (t_body (read_view s)) sns
    \<and> length sns = max 1 (max (page_count (length (pending_backup (read_view s)))) (page_count (length (t_body (read_view s)))))"
  by (rule stream_covers [OF assms])

text \<open>201 bodies fill one batch and one more.\<close>

definition full_store :: store where
  "full_store = (let t = empty_tables\<lparr>t_body := replicate 201 \<lparr>b_id = ''m'', b_text = None, b_language = None, b_rich_meta = None\<rparr>\<rparr>
     in empty_store\<lparr>st_live := t, st_committed := t\<rparr>)"

theorem stream_batches_cover_witness:
  "stream_backup_batches \<lparr>co_write = (\<lambda>_. Inr [1]), co_read = (\<lambda>_. Inl ''eof'')\<rparr> collect full_store []
     = (Inr 2, [[1], [1]])"
proof -
  let ?C = "\<lparr>co_write = (\<lambda>_. Inr [1]), co_read = (\<lambda>_. Inl ''eof'')\<rparr> :: snapshot_codec"
  have "to_cbor ?C sn = Inr ((\<lambda>_. [1]) sn)" for sn by (simp add: to_cbor_def cbor_to_vec_def coded_def)
  from stream_batches_cover [OF this, where s = full_store] obtain sns :: "snapshot list" where
    sns: "stream_backup_batches ?C collect full_store [] = (Inr (length sns), map (\<lambda>_. [1]) sns)"
    "length sns = max 1 (max (page_count (length (pending_backup (read_view full_store))))
        (page_count (length (t_body (read_view full_store)))))" by blast
  have "length sns = 2" unfolding sns(2)
    by (simp add: read_view_def full_store_def empty_store_def Let_def pending_backup_def empty_tables_def page_count_def)
  then show ?thesis by (simp add: sns(1) map_replicate_const numeral_2_eq_2)
qed

text \<open>
  C21: a backup segment is self-contained: its first 24 bytes are the nonce, it opens under its key to the bytes it was
  built from, and the hash it reports is that of those bytes.
\<close>

theorem backup_segment_roundtrip:
  assumes "aead_ok P" and "archive_codecs_ok Z" and "length nonce = 24"
    and "backup_build_segment P Z nonce data key = Inr (frame, n, h)"
  shows "backup_open_segment P Z frame key = Inr data \<and> take 24 frame = nonce \<and> n = nonce \<and> h = content_hash P data"
  by (rule backup_segment_opens [OF assms])

theorem backup_segment_roundtrip_witness:
  "backup_open_segment toy_prims toy_codecs (replicate 24 0 @ [5] @ replicate 16 0) [9] = Inr [5]"
proof -
  have b: "backup_build_segment toy_prims toy_codecs (replicate 24 0) [5] [9]
      = Inr (replicate 24 0 @ [5] @ replicate 16 0, replicate 24 0, [5])"
    by (simp add: backup_build_segment_def and_then_Inr compress_def coded_def ciphered_def seal_def toy_codecs_def
        toy_prims_def content_hash_def)
  from backup_segment_roundtrip [OF toy_aead_ok toy_codecs_ok _ b] show ?thesis by simp
qed

text \<open>
  C23: backups form one chain: from a fresh coordinator, whatever the gateway answers, however backups alternate with
  restarts that save the coordinator and load it again, the manifests the gateway acknowledged carry the generations
  0, 1, 2, \dots and pass the chain check of the restore, and the coordinator stands at the next generation.
\<close>

theorem backup_manifests_chain:
  assumes "\<And>d. length (pr_hash P d) = 32" and "quiet s" and "settled s"
    and "fold (backup_step P Z C (recording_backups G) key) ops (backup_new, s, w, []) = (c, s', w', bs)"
  shows "\<exists>ms. map (cbor_to_vec C) ms = map Inr bs \<and> verify_chain P C ms = Inr ()
    \<and> map bm_generation ms = map word_of_nat [0..<length bs] \<and> bc_generation c = word_of_nat (length bs)"
proof -
  have "backup_on_record P C (backup_new, s, w, [])"
    using assms(2,3) by (simp add: backup_on_record_def backup_new_def published_start)
  from run_backups_on_record [OF assms(1) this, of Z G key ops] assms(4)
  have "published P C (length bs) (bc_prev_hash c) bs" "bc_generation c = word_of_nat (length bs)"
    by (simp_all add: backup_on_record_def)
  with published_chain [OF this(1)] show ?thesis by blast
qed

theorem backup_manifests_chain_witness:
  "\<exists>ms. map (cbor_to_vec (toy_codec first_manifest)) ms = [Inr [1]]
     \<and> verify_chain padded_prims (toy_codec first_manifest) ms = Inr ()"
proof -
  have q: "quiet empty_store" "settled empty_store" by (simp_all add: quiet_def settled_def empty_store_def)
  have "\<exists>c s. fold (backup_step padded_prims toy_codecs (toy_codec first_manifest) (recording_backups toy_gateway) [])
      [RunBackup toy_fresh [5], SaveAndReload] (backup_new, empty_store, (), []) = (c, s, (), [[1]])"
  proof -
    have r: "run_backup padded_prims toy_codecs (toy_codec first_manifest) (recording_backups toy_gateway) toy_fresh [5] []
        backup_new ((), []) = (Inr 1, snd (finalize_backup ''s'' toy_payload_of backup_new), (), [[1]])"
      by (simp add: run_backup_def toy_prepare upload_payload_def sink_upload_segment_def sink_upload_manifest_def
          as_storage_def recording_backups_def recording_def lifted_def toy_gateway_def finalize_backup_def Let_def
          backup_record_def) (simp add: toy_payload_of_def backup_new_def)
    have l: "load_state (snd (save_state c empty_store)) = (Inr (c\<lparr>bc_journal := []\<rparr>), snd (save_state c empty_store))"
      if "length (bc_prev_hash c) = 32" for c using saved_state_loads [OF q that] by blast
    show ?thesis
      by (simp add: r Let_def l finalize_backup_def backup_record_def toy_payload_of_def)
  qed
  then obtain c s where "fold (backup_step padded_prims toy_codecs (toy_codec first_manifest) (recording_backups toy_gateway) [])
      [RunBackup toy_fresh [5], SaveAndReload] (backup_new, empty_store, (), []) = (c, s, (), [[1]])" by blast
  from backup_manifests_chain [OF padded_length q this] obtain ms where
    "map (cbor_to_vec (toy_codec first_manifest)) ms = map Inr [[1]]"
    "verify_chain padded_prims (toy_codec first_manifest) ms = Inr ()" by blast
  then show ?thesis by (intro exI [of _ ms]) simp
qed

text \<open>
  two backups that are prepared before either is finalised fork the chain: the coordinator's lock is not held
  during the uploads, so both manifests name the same predecessor and generation, and no history that ends with the
  two of them passes the chain check.
\<close>

theorem overlapping_backups_fork:
  assumes "codec_ok C" and "prepare_backup P Z C new1 data1 key c = Inr p1"
    and "prepare_backup P Z C new2 data2 key c = Inr p2"
    and "cbor_to_vec C m1 = Inr (pl_manifest p1)" and "cbor_to_vec C m2 = Inr (pl_manifest p2)"
    and "pl_manifest_hash p1 \<noteq> bc_prev_hash c"
  shows "verify_chain P C (ms @ [m1, m2]) \<noteq> Inr () \<and> bm_generation m1 = bm_generation m2"
proof -
  note m1 = manifest_of_prepared [OF assms(2,4,1)] and m2 = manifest_of_prepared [OF assms(3,5,1)]
  have "check_links P C (ms @ [m1, m2]) \<noteq> Inr ()"
    using m1 m2 assms(6) by (simp add: check_links_snoc)
  with m1 m2 verify_chain_links [of P C "ms @ [m1, m2]"] show ?thesis by auto
qed

theorem overlapping_backups_fork_witness:
  "verify_chain padded_prims (toy_codec first_manifest) ([] @ [first_manifest, first_manifest]) \<noteq> Inr ()"
proof -
  have m: "cbor_to_vec (toy_codec first_manifest) first_manifest = Inr (pl_manifest toy_payload_of)"
    by (simp add: cbor_to_vec_def toy_codec_def toy_payload_of_def)
  have h: "pl_manifest_hash toy_payload_of \<noteq> bc_prev_hash backup_new"
    by (simp add: toy_payload_of_def backup_new_def eval_nat_numeral)
  from overlapping_backups_fork [OF toy_codec_ok toy_prepare toy_prepare m m h, of "[]"] show ?thesis by blast
qed

end
