(* ===== verification/Restore.thy ===== *)
theory Restore
  imports Backup
begin

text \<open>
  The restore engine (\<open>restore/\<close>): key recovery, and the pipeline of \<open>pipeline.rs\<close> over the store, the gateway and
  its own state machine. The parameters of a run are gathered in a record: the cryptographic primitives, the codecs,
  the lowercasing of the tokenizer, the gateway and the clock.
\<close>

section \<open>Keys\<close>

definition recover_epoch_key :: "prims \<Rightarrow> bytes \<Rightarrow> bytes \<Rightarrow> core_error + bytes" where
  "recover_epoch_key P archive_key wrapped = ciphered (unwrap_key P archive_key wrapped)"

text \<open>\<open>Uuid::as_bytes\<close> of a canonical identifier: its hexadecimal digits in pairs.\<close>

definition hex_digit_val :: "char \<Rightarrow> nat" where
  "hex_digit_val c = (if is_digit_char c then digit_val c else of_char c - 87)"

fun byte_pairs :: "nat list \<Rightarrow> bytes" where
  "byte_pairs (h # l # rest) = word_of_nat (16 * h + l) # byte_pairs rest"
| "byte_pairs _ = []"

definition uuid_bytes :: "uuid \<Rightarrow> bytes" where
  "uuid_bytes u = byte_pairs (map hex_digit_val (filter (\<lambda>c. c \<noteq> CHR ''-'') u))"

section \<open>The pipeline\<close>

record restore_result =
  rr_conversations :: nat
  rr_messages :: nat
  rr_media :: nat
  rr_indexes :: nat

definition no_result :: restore_result where
  "no_result = \<lparr>rr_conversations = 0, rr_messages = 0, rr_media = 0, rr_indexes = 0\<rparr>"

record 'w restore_env =
  re_prims :: prims
  re_codecs :: archive_codecs
  re_manifests :: "backup_manifest codec"
  re_snapshots :: snapshot_codec
  re_lower :: "ustr \<Rightarrow> ustr"
  re_gateway :: "'w gateway"
  re_now_secs :: nat

definition pipeline_new :: restore_state where
  "pipeline_new = IdentityRestored"

definition transition :: "restore_state \<Rightarrow> restore_state \<Rightarrow> core_error option \<times> restore_state" where
  "transition to st =
     (case restore_try_transition st to of
        Inl e \<Rightarrow> (Some (CStorageText (OfTransition e)), st)
      | Inr st' \<Rightarrow> (None, st'))"

text \<open>Several \<open>self.transition(\<dots>)?\<close> in a row.\<close>

fun advance :: "restore_state list \<Rightarrow> restore_state \<Rightarrow> core_error option \<times> restore_state" where
  "advance [] st = (None, st)"
| "advance (to # tos) st = (case transition to st of (Some e, st') \<Rightarrow> (Some e, st') | (None, st') \<Rightarrow> advance tos st')"

fun decode_all :: "backup_manifest codec \<Rightarrow> bytes list \<Rightarrow> core_error + backup_manifest list" where
  "decode_all C [] = Inr []"
| "decode_all C (b # bs) =
     and_then (coded (cbor_from_slice C b)) (\<lambda>m. and_then (decode_all C bs) (\<lambda>ms. Inr (m # ms)))"

definition restore_savepoint :: string where
  "restore_savepoint = ''cs_restore''"

definition clear_batch :: "(sql_error, unit) act" where
  "clear_batch = seqA
     [exec (pureT (\<lambda>t. t\<lparr>t_fts := []\<rparr>)),
      exec (pureT (\<lambda>t. t\<lparr>t_fuzzy := []\<rparr>)),
      exec (pureT (\<lambda>t. t\<lparr>t_body := []\<rparr>)),
      exec (pureT (\<lambda>t. t\<lparr>t_media := []\<rparr>)),
      exec clear_skels,
      exec clear_convs,
      exec (pureT (\<lambda>t. t\<lparr>t_journal := []\<rparr>)),
      exec (pureT (\<lambda>t. t\<lparr>t_outbox := []\<rparr>))]"

definition undo_batch :: "(sql_error, unit) act" where
  "undo_batch = seqA [rollback_to restore_savepoint, release restore_savepoint]"

definition recover_snapshot ::
  "'w restore_env \<Rightarrow> epoch_keys \<Rightarrow> segment_ref \<Rightarrow> bytes \<Rightarrow> core_error + snapshot" where
  "recover_snapshot E k seg ct =
     and_then (ciphered (current_epoch_key (re_prims E) k)) (\<lambda>ek.
     and_then (ciphered (derive_archive_segment (re_prims E) ek (uuid_bytes (sr_segment seg)))) (\<lambda>key.
     case backup_open_segment (re_prims E) (re_codecs E) ct key of
       Inl e \<Rightarrow> Inl (CSegmentFailed (sr_segment seg) e)
     | Inr plaintext \<Rightarrow> from_cbor (re_snapshots E) plaintext))"

text \<open>The bodies of a segment; \<open>n\<close> counts the rebuilt index entries.\<close>

fun restore_bodies :: "(ustr \<Rightarrow> ustr) \<Rightarrow> message_body list \<Rightarrow> nat \<Rightarrow> (core_error, nat) act" where
  "restore_bodies lower [] n = ret n"
| "restore_bodies lower (b # bs) n =
     bindA (from_storage (insert_body b)) (\<lambda>_.
     case b_text b of
       None \<Rightarrow> restore_bodies lower bs n
     | Some text \<Rightarrow> (\<lambda>s.
         case get_message_skeleton (b_id b) s of
           (Inr (Some sk), s') \<Rightarrow>
             bindA (from_storage (reindex_message lower (b_id b) (sk_conv sk) (sk_sender sk) (sk_created_ms sk) text))
               (\<lambda>_. restore_bodies lower bs (n + 1)) s'
         | (_, s') \<Rightarrow> restore_bodies lower bs n s'))"

definition restore_snapshot :: "(ustr \<Rightarrow> ustr) \<Rightarrow> snapshot \<Rightarrow> restore_result \<Rightarrow> (core_error, restore_result) act" where
  "restore_snapshot lower sn r =
     thenA (forA (\<lambda>c. from_storage (insert_conversation c)) (sn_conversations sn))
    (thenA (forA (\<lambda>k. from_storage (insert_skeleton k)) (sn_skeletons sn))
    (bindA (restore_bodies lower (sn_bodies sn) 0) (\<lambda>n. ret
       (r\<lparr>rr_conversations := rr_conversations r + length (sn_conversations sn),
          rr_messages := rr_messages r + length (sn_skeletons sn),
          rr_indexes := rr_indexes r + n\<rparr>))))"

text \<open>The two nested loops over the manifests and their segments, as one over the segments in order.\<close>

fun restore_segments ::
  "'w restore_env \<Rightarrow> epoch_keys \<Rightarrow> segment_ref list \<Rightarrow> restore_result \<Rightarrow> store \<Rightarrow> 'w \<Rightarrow>
     (core_error + restore_result) \<times> store \<times> 'w" where
  "restore_segments E k [] r s w = (Inr r, s, w)"
| "restore_segments E k (seg # segs) r s w =
     (case as_storage (gw_download_backup_segment (re_gateway E) (sr_segment seg) w) of
        (Inl e, w') \<Rightarrow> (Inl e, s, w')
      | (Inr ct, w') \<Rightarrow>
     (case recover_snapshot E k seg ct of
        Inl e \<Rightarrow> (Inl e, s, w')
      | Inr sn \<Rightarrow>
     (case restore_snapshot (re_lower E) sn r s of
        (Inl e, s') \<Rightarrow> (Inl e, s', w')
      | (Inr r', s') \<Rightarrow> restore_segments E k segs r' s' w')))"

text \<open>
  The part of \<open>execute\<close> after the chain has been verified: the savepoint, the clearing, the segments, and the release
  or the rollback, whose own errors are dropped.
\<close>

definition replace_data ::
  "'w restore_env \<Rightarrow> epoch_keys \<Rightarrow> backup_manifest list \<Rightarrow> restore_state \<Rightarrow> store \<Rightarrow> 'w \<Rightarrow>
     (core_error + restore_result) \<times> restore_state \<times> store \<times> 'w" where
  "replace_data E k ms st s w =
     (case savepoint restore_savepoint s of
        (Inl e, s1) \<Rightarrow> (Inl (CStorageText (OfSql e)), st, s1, w)
      | (Inr _, s1) \<Rightarrow>
     (case clear_batch s1 of
        (Inl e, s2) \<Rightarrow> (Inl (CStorageText (OfSql e)), st, snd (undo_batch s2), w)
      | (Inr _, s2) \<Rightarrow>
     (case advance [SkeletonRestored] st of
        (Some e, st') \<Rightarrow> (Inl e, st', s2, w)
      | (None, st') \<Rightarrow>
     (case restore_segments E k (concat (map bm_segments ms)) no_result s2 w of
        (Inl e, s3, w') \<Rightarrow> (Inl e, st', snd (undo_batch s3), w')
      | (Inr r, s3, w') \<Rightarrow>
          let s4 = snd (release restore_savepoint s3) in
          (case advance [SearchRestored, RecentMessagesRestored, MediaLazyRestoreEnabled, FullRestoreComplete] st' of
             (Some e, st'') \<Rightarrow> (Inl e, st'', s4, w')
           | (None, st'') \<Rightarrow> (Inr r, st'', s4, w'))))))"

definition execute ::
  "'w restore_env \<Rightarrow> bytes \<Rightarrow> restore_state \<Rightarrow> store \<Rightarrow> 'w \<Rightarrow>
     (core_error + restore_result) \<times> restore_state \<times> store \<times> 'w" where
  "execute E wrapping st s w =
     (case advance [RootKeysUnwrapped] st of
        (Some e, st') \<Rightarrow> (Inl e, st', s, w)
      | (None, st1) \<Rightarrow>
     (case as_storage (gw_fetch_backup_manifests (re_gateway E) 0 w) of
        (Inl e, w') \<Rightarrow> (Inl e, st1, s, w')
      | (Inr bs, w') \<Rightarrow>
     if bs = []
     then (case advance [ManifestVerified, SkeletonRestored, SearchRestored, RecentMessagesRestored,
                  MediaLazyRestoreEnabled, FullRestoreComplete] st1 of
             (Some e, st') \<Rightarrow> (Inl e, st', s, w')
           | (None, st') \<Rightarrow> (Inr no_result, st', s, w'))
     else
     (case decode_all (re_manifests E) bs of
        Inl e \<Rightarrow> (Inl e, st1, s, w')
      | Inr ms \<Rightarrow>
     (case verify_chain (re_prims E) (re_manifests E) ms of
        Inl e \<Rightarrow> (Inl e, st1, s, w')
      | Inr _ \<Rightarrow>
     (case advance [ManifestVerified] st1 of
        (Some e, st') \<Rightarrow> (Inl e, st', s, w')
      | (None, st2) \<Rightarrow>
     (case ciphered (epochs_new (re_prims E) (re_now_secs E) wrapping) of
        Inl e \<Rightarrow> (Inl e, st2, s, w')
      | Inr k \<Rightarrow> replace_data E k ms st2 s w'))))))"

section \<open>Inside the savepoint\<close>

lemma restore_bodies_eq:
  "restore_bodies lower (b # bs) n =
     bindA (from_storage (insert_body b)) (\<lambda>_.
     case b_text b of
       None \<Rightarrow> restore_bodies lower bs n
     | Some text \<Rightarrow>
         bindA (query (\<lambda>t. row_of rs_id (b_id b) (t_skel t))) (\<lambda>row.
         case row of
           Some r \<Rightarrow>
             bindA (from_storage (reindex_message lower (b_id b) (rs_conv r) (rs_sender r) (rs_created_ms r) text))
               (\<lambda>_. restore_bodies lower bs (n + 1))
         | None \<Rightarrow> restore_bodies lower bs n))"
  by (rule ext) (auto simp: bindA_def get_message_skeleton_def fetch_skeleton_def query_def skel_of_row_def
      split: option.split sum.split prod.split)

text \<open>A relation that the four writes of the restore respect is respected by the restore of all segments.\<close>

context action_relation
begin

lemma from_storage_in: "obeys R m \<Longrightarrow> obeys R (from_storage m)"
  by (simp add: from_storage_def map_err)

lemma restore_bodies_in:
  assumes "\<And>b. obeys R (insert_body b)" and "\<And>i cv sd n x. obeys R (reindex_message lower i cv sd n x)"
  shows "obeys R (restore_bodies lower bs n)"
proof (induction bs arbitrary: n)
  case (Cons b bs)
  show ?case unfolding restore_bodies_eq
    by (auto intro!: bind from_storage_in assms basic Cons split: option.split)
qed (simp add: basic)

lemma restore_snapshot_in:
  assumes "\<And>c. obeys R (insert_conversation c)" and "\<And>k. obeys R (insert_skeleton k)"
    and "\<And>b. obeys R (insert_body b)" and "\<And>i cv sd n x. obeys R (reindex_message lower i cv sd n x)"
  shows "obeys R (restore_snapshot lower sn r)"
  unfolding restore_snapshot_def by (intro then_act bind for_all from_storage_in basic restore_bodies_in assms)

lemma restore_segments_in:
  assumes sn: "\<And>sn r. obeys R (restore_snapshot (re_lower E) sn r)"
  shows "restore_segments E k segs r s w = (q, s', w') \<Longrightarrow> R s s'"
proof (induction segs arbitrary: r s w)
  case (Cons seg segs)
  obtain d w1 where d: "as_storage (gw_download_backup_segment (re_gateway E) (sr_segment seg) w) = (d, w1)" by fastforce
  have "R s s1" if "restore_snapshot (re_lower E) x r s = (y, s1)" for x y s1
    using obeys_run [OF sn that] .
  with Cons.prems d show ?case by (auto simp: R_refl split: sum.splits prod.splits) (metis R_trans Cons.IH)+
qed (simp add: R_refl)

end

text \<open>Without driver faults, an action inside a savepoint changes at most the live tables.\<close>

definition live_only :: "store \<Rightarrow> store \<Rightarrow> bool" where
  "live_only s s' \<longleftrightarrow> (quiet s \<longrightarrow> st_saves s \<noteq> [] \<longrightarrow> (\<exists>t. s' = s\<lparr>st_live := t\<rparr>))"

lemma live_update_twice: "s\<lparr>st_live := t\<rparr>\<lparr>st_live := u\<rparr> = s\<lparr>st_live := u\<rparr>"
  by simp

interpretation live_only: action_relation live_only
proof
  show "live_only s s" for s by (simp add: live_only_def live_self)
  show "live_only s v" if "live_only s u" and "live_only u v" for s u v
    using that by (fastforce simp: live_only_def)
qed

lemma live_only_exec: "obeys live_only (exec f)"
proof (rule obeysI)
  fix s
  have "\<exists>t. snd (exec f s) = s\<lparr>st_live := t\<rparr>" if "quiet s" "st_saves s \<noteq> []"
    using that live_self [of s] by (cases "f (st_fk s) (st_live s)") (auto simp: exec_def settle_def)
  then show "live_only s (snd (exec f s))" by (simp add: live_only_def)
qed

lemma with_tx_nested: "st_saves s \<noteq> [] \<Longrightarrow> with_tx b s = (Inl (if next_fault s then DriverFailure else NestedTransaction), tick s)"
  by (simp add: with_tx_def bindA_def begin_tx_def)

lemma nested_tx: "obeys live_only (with_tx b)" "obeys kept (with_tx b)"
  by (auto simp: obeys_def live_only_def kept_def with_tx_nested intro: live_self)

lemmas restore_write_defs = insert_conversation_def insert_skeleton_def insert_body_def reindex_message_def index_fts_def
  db_exec_def

lemma restore_snapshot_inside:
  "obeys live_only (restore_snapshot lower sn r)" "obeys kept (restore_snapshot lower sn r)"
  by (rule live_only.restore_snapshot_in keeping.restore_snapshot_in; unfold restore_write_defs;
      intro live_only.acts keeping.acts live_only_exec keeps_exec nested_tx)+

lemma clear_batch_inside: "keeps clear_batch"
  unfolding clear_batch_def by (auto intro!: keeps_intros)

lemmas restore_segments_keeps = keeping.restore_segments_in [OF restore_snapshot_inside(2), unfolded kept_def, rule_format]
lemmas restore_segments_only_live = live_only.restore_segments_in [OF restore_snapshot_inside(1), unfolded live_only_def, rule_format]

section \<open>What a successful restore writes\<close>

definition cleared :: "tables \<Rightarrow> tables" where
  "cleared t = t\<lparr>t_fts := [], t_fuzzy := [], t_body := [], t_media := [], t_skel := [], t_conv := [], t_journal := [],
     t_outbox := []\<rparr>"

definition put_snapshot :: "snapshot \<Rightarrow> tables \<Rightarrow> tables" where
  "put_snapshot sn t = t
     \<lparr>t_conv := fold (\<lambda>c. upsert rc_id (conv_to_row c)) (sn_conversations sn) (t_conv t),
      t_skel := fold (\<lambda>k. upsert rs_id (skel_to_row k)) (sn_skeletons sn) (t_skel t),
      t_body := fold (upsert b_id) (sn_bodies sn) (t_body t)\<rparr>"

text \<open>Inside a savepoint a successful action applies \<open>g\<close> to the live tables, whatever the driver does later.\<close>

definition writes_inside :: "('e, 'a) act \<Rightarrow> (tables \<Rightarrow> tables) \<Rightarrow> bool" where
  "writes_inside m g \<longleftrightarrow> (\<forall>s u s'. st_saves s \<noteq> [] \<longrightarrow> m s = (Inr u, s') \<longrightarrow>
     st_live s' = g (st_live s) \<and> st_saves s' = st_saves s)"

lemma writes_insideD:
  "writes_inside m g \<Longrightarrow> st_saves s \<noteq> [] \<Longrightarrow> m s = (Inr u, s') \<Longrightarrow> st_live s' = g (st_live s) \<and> st_saves s' = st_saves s"
  unfolding writes_inside_def by blast

lemma exec_inside:
  assumes "\<And>fk t t'. f fk t = Inr t' \<Longrightarrow> t' = g t"
  shows "writes_inside (exec f) g" "writes_inside (from_storage (db_exec f)) g"
proof -
  show x: "writes_inside (exec f) g"
    by (auto simp: writes_inside_def exec_def settle_def tick_def split: sum.splits if_splits dest!: assms)
  have "exec f s = (Inr u, s')" if "from_storage (db_exec f) s = (Inr u, s')" for s u s'
    using that by (auto simp: from_storage_def db_exec_def mapE_def split: prod.splits sum.splits)
  with x show "writes_inside (from_storage (db_exec f)) g" unfolding writes_inside_def by blast
qed

lemma insert_inside:
  "writes_inside (from_storage (insert_conversation c)) (\<lambda>t. t\<lparr>t_conv := upsert rc_id (conv_to_row c) (t_conv t)\<rparr>)"
  "writes_inside (from_storage (insert_skeleton k)) (\<lambda>t. t\<lparr>t_skel := upsert rs_id (skel_to_row k) (t_skel t)\<rparr>)"
  "writes_inside (from_storage (insert_body b)) (\<lambda>t. t\<lparr>t_body := upsert b_id b (t_body t)\<rparr>)"
  unfolding insert_conversation_def insert_skeleton_def insert_body_def
  by (rule exec_inside(2), simp add: put_conv_def put_skel_def put_body_def split: if_splits)+

lemma thenA_inside:
  assumes m: "writes_inside m g" and n: "writes_inside n h"
  shows "writes_inside (thenA m n) (\<lambda>t. h (g t))"
  unfolding writes_inside_def
proof (intro allI impI)
  fix s u s'
  assume a: "st_saves s \<noteq> []" "thenA m n s = (Inr u, s')"
  obtain x s1 where "m s = (x, s1)" by fastforce
  with a(2) obtain v where v: "m s = (Inr v, s1)" "n s1 = (Inr u, s')" by (cases x) (auto simp: thenA_def bindA_def)
  from writes_insideD [OF m a(1) v(1)] have "st_live s1 = g (st_live s)" "st_saves s1 = st_saves s" by simp_all
  with writes_insideD [OF n _ v(2)] a(1) show "st_live s' = h (g (st_live s)) \<and> st_saves s' = st_saves s" by simp
qed

lemma ret_inside: "writes_inside (ret x) (\<lambda>t. t)"
  by (simp add: writes_inside_def ret_def)

lemma forA_inside: "(\<And>x. writes_inside (f x) (g x)) \<Longrightarrow> writes_inside (forA f xs) (fold g xs)"
proof (induction xs)
  case Nil
  then show ?case using ret_inside by (simp add: forA_def id_def)
next
  case (Cons x xs)
  from thenA_inside [OF Cons.prems Cons.IH [OF Cons.prems]] show ?case by (simp add: forA_def comp_def)
qed

text \<open>Rebuilding the index of a message needs a transaction of its own, which the open savepoint refuses.\<close>

lemma reindex_fails_inside:
  assumes "st_saves s \<noteq> []"
  shows "\<exists>e s'. from_storage (reindex_message lower i conv sender created text) s = (Inl e, s')"
proof -
  obtain r s1 where x: "index_fts i conv sender created text s = (r, s1)" by fastforce
  have "keeps (index_fts i conv sender created text)"
    unfolding index_fts_def db_exec_def by (intro keeps_intros)
  then have "st_saves s1 = st_saves s" using x assms unfolding keeps_def by (metis snd_conv)
  then show ?thesis using x assms
    by (cases r) (auto simp: from_storage_def reindex_message_def thenA_def bindA_def mapE_def with_tx_nested)
qed

lemma restore_bodies_success:
  assumes "st_saves s \<noteq> []" and "restore_bodies lower bs n s = (Inr m, s')"
  shows "m = n \<and> st_live s' = (st_live s)\<lparr>t_body := fold (upsert b_id) bs (t_body (st_live s))\<rparr> \<and> st_saves s' = st_saves s"
  using assms
proof (induction bs arbitrary: n s)
  case Nil
  then show ?case by (simp add: ret_def)
next
  case (Cons b bs)
  obtain r1 s1 where i: "from_storage (insert_body b) s = (r1, s1)" by fastforce
  from Cons.prems(2) i obtain u where u: "r1 = Inr u" by (cases r1) (simp_all add: bindA_def)
  from writes_insideD [OF insert_inside(3) Cons.prems(1)] i u
  have s1: "st_live s1 = (st_live s)\<lparr>t_body := upsert b_id b (t_body (st_live s))\<rparr>" "st_saves s1 = st_saves s" by blast+
  have q: "st_saves s1 \<noteq> []" using s1 Cons.prems(1) by simp
  show ?case
  proof (cases "restore_bodies lower bs n s1 = (Inr m, s')")
    case True
    from Cons.IH [OF q True] s1 show ?thesis by simp
  next
    case False
    then obtain x sk where t: "b_text b = Some x" "row_of rs_id (b_id b) (t_skel (read_view s1)) = Some sk"
      using Cons.prems(2) i u by (auto simp: restore_bodies_eq [abs_def] bindA_def query_def split: option.splits)
    then have "\<exists>e s'. restore_bodies lower (b # bs) n s = (Inl e, s')"
      using reindex_fails_inside [OF q, of lower "b_id b" "rs_conv sk" "rs_sender sk" "rs_created_ms sk" x] i u
      by (auto simp: restore_bodies_eq [abs_def] bindA_def query_def)
    then show ?thesis using Cons.prems(2) by auto
  qed
qed

lemma restore_snapshot_success:
  assumes "st_saves s \<noteq> []" and "restore_snapshot lower sn r s = (Inr r', s')"
  shows "st_live s' = put_snapshot sn (st_live s) \<and> st_saves s' = st_saves s
    \<and> r' = r\<lparr>rr_conversations := rr_conversations r + length (sn_conversations sn),
             rr_messages := rr_messages r + length (sn_skeletons sn)\<rparr>"
proof -
  let ?c = "\<lambda>c t. t\<lparr>t_conv := upsert rc_id (conv_to_row c) (t_conv t)\<rparr>"
  let ?k = "\<lambda>k t. t\<lparr>t_skel := upsert rs_id (skel_to_row k) (t_skel t)\<rparr>"
  obtain u1 s1 u2 s2 m where a: "forA (\<lambda>c. from_storage (insert_conversation c)) (sn_conversations sn) s = (Inr u1, s1)"
      "forA (\<lambda>k. from_storage (insert_skeleton k)) (sn_skeletons sn) s1 = (Inr u2, s2)"
      "restore_bodies lower (sn_bodies sn) 0 s2 = (Inr m, s')"
      "r' = r\<lparr>rr_conversations := rr_conversations r + length (sn_conversations sn),
          rr_messages := rr_messages r + length (sn_skeletons sn), rr_indexes := rr_indexes r + m\<rparr>"
    using assms(2) unfolding restore_snapshot_def thenA_def bindA_def ret_def by (auto split: prod.splits sum.splits)
  from writes_insideD [OF forA_inside [OF insert_inside(1)] assms(1) a(1)]
  have s1: "st_live s1 = fold ?c (sn_conversations sn) (st_live s)" "st_saves s1 = st_saves s" by simp_all
  from writes_insideD [OF forA_inside [OF insert_inside(2)] _ a(2)] s1 assms(1)
  have s2: "st_live s2 = fold ?k (sn_skeletons sn) (st_live s1)" "st_saves s2 = st_saves s" by simp_all
  have f: "fold ?c cs t = t\<lparr>t_conv := fold (\<lambda>c. upsert rc_id (conv_to_row c)) cs (t_conv t)\<rparr>"
    "fold ?k ks t = t\<lparr>t_skel := fold (\<lambda>k. upsert rs_id (skel_to_row k)) ks (t_skel t)\<rparr>" for cs ks t
    by (induction cs arbitrary: t; simp) (induction ks arbitrary: t; simp)
  have "st_saves s2 \<noteq> []" using s2 assms(1) by simp
  note b = restore_bodies_success [OF this a(3)]
  then have "m = 0" by simp
  with a(4) have "r' = r\<lparr>rr_conversations := rr_conversations r + length (sn_conversations sn),
             rr_messages := rr_messages r + length (sn_skeletons sn)\<rparr>" by simp
  with b show ?thesis by (simp add: s1 s2 f put_snapshot_def)
qed

lemma clear_batch_quiet:
  assumes "quiet s" and "st_saves s \<noteq> []"
  shows "clear_batch s = (Inr (), s\<lparr>st_live := cleared (st_live s)\<rparr>)"
  using assms by (simp add: clear_batch_def thenA_def bindA_def exec_def pureT_def settle_def ret_def clear_skels_def
      clear_convs_def cleared_def)

definition sum_of :: "('a \<Rightarrow> 'b list) \<Rightarrow> 'a list \<Rightarrow> nat" where
  "sum_of f xs = length (concat (map f xs))"

lemma clear_statements_inside:
  "writes_inside (exec (pureT f)) f"
  "writes_inside (exec clear_skels) (\<lambda>t. t\<lparr>t_skel := []\<rparr>)"
  "writes_inside (exec clear_convs) (\<lambda>t. t\<lparr>t_conv := []\<rparr>)"
  by (rule exec_inside(1), simp add: pureT_def clear_skels_def clear_convs_def split: if_splits)+

lemma clear_batch_success: "writes_inside clear_batch cleared"
proof -
  have eq: "writes_inside clear_batch g \<Longrightarrow> g = cleared \<Longrightarrow> writes_inside clear_batch cleared" for g by simp
  show ?thesis
    by (rule eq, unfold clear_batch_def seqA.simps, (rule thenA_inside clear_statements_inside ret_inside)+)
      (rule ext, simp add: cleared_def)
qed

text \<open>
  What the server holds: the snapshots of the segments of its verified manifests, in order, downloaded and opened; or
  \<open>None\<close> when it has no manifest. Neither the store nor the pipeline is involved.
\<close>

fun fetch_snapshots :: "'w restore_env \<Rightarrow> epoch_keys \<Rightarrow> segment_ref list \<Rightarrow> 'w \<Rightarrow> (core_error + snapshot list) \<times> 'w" where
  "fetch_snapshots E k [] w = (Inr [], w)"
| "fetch_snapshots E k (seg # segs) w =
     (case as_storage (gw_download_backup_segment (re_gateway E) (sr_segment seg) w) of
        (Inl e, w') \<Rightarrow> (Inl e, w')
      | (Inr ct, w') \<Rightarrow>
     (case recover_snapshot E k seg ct of
        Inl e \<Rightarrow> (Inl e, w')
      | Inr sn \<Rightarrow> map_prod (map_sum id ((#) sn)) id (fetch_snapshots E k segs w')))"

definition server_backup :: "'w restore_env \<Rightarrow> bytes \<Rightarrow> 'w \<Rightarrow> (core_error + snapshot list option) \<times> 'w" where
  "server_backup E wrapping w =
     (case as_storage (gw_fetch_backup_manifests (re_gateway E) 0 w) of
        (Inl e, w') \<Rightarrow> (Inl e, w')
      | (Inr bs, w') \<Rightarrow>
          if bs = [] then (Inr None, w')
          else (case and_then (decode_all (re_manifests E) bs) (\<lambda>ms.
                      and_then (verify_chain (re_prims E) (re_manifests E) ms) (\<lambda>_.
                      and_then (ciphered (epochs_new (re_prims E) (re_now_secs E) wrapping)) (\<lambda>k. Inr (ms, k)))) of
                  Inl e \<Rightarrow> (Inl e, w')
                | Inr (ms, k) \<Rightarrow>
                    map_prod (map_sum id Some) id (fetch_snapshots E k (concat (map bm_segments ms)) w')))"

definition counted :: "snapshot list \<Rightarrow> restore_result" where
  "counted sns = \<lparr>rr_conversations = sum_of sn_conversations sns, rr_messages = sum_of sn_skeletons sns, rr_media = 0,
     rr_indexes = 0\<rparr>"

lemma restore_segments_success:
  assumes "st_saves s \<noteq> []" and "restore_segments E k segs r s w = (Inr r', s', w')"
  shows "\<exists>sns. fetch_snapshots E k segs w = (Inr sns, w')
    \<and> st_live s' = fold put_snapshot sns (st_live s) \<and> st_saves s' = st_saves s
    \<and> r' = r\<lparr>rr_conversations := rr_conversations r + sum_of sn_conversations sns,
             rr_messages := rr_messages r + sum_of sn_skeletons sns\<rparr>"
  using assms
proof (induction segs arbitrary: r s w)
  case Nil
  then show ?case by (simp add: sum_of_def)
next
  case (Cons seg segs)
  obtain d w1 where d: "as_storage (gw_download_backup_segment (re_gateway E) (sr_segment seg) w) = (d, w1)" by fastforce
  obtain ct where ct: "d = Inr ct" using Cons.prems(2) d by (cases d) auto
  obtain sn where sn: "recover_snapshot E k seg ct = Inr sn"
    using Cons.prems(2) d ct by (cases "recover_snapshot E k seg ct") auto
  obtain x s1 where x: "restore_snapshot (re_lower E) sn r s = (x, s1)" by fastforce
  obtain r1 where r1: "x = Inr r1" using Cons.prems(2) d ct sn x by (cases x) auto
  have rest: "restore_segments E k segs r1 s1 w1 = (Inr r', s', w')" using Cons.prems(2) by (simp add: d ct sn x r1)
  note s1 = restore_snapshot_success [OF Cons.prems(1) x [unfolded r1]]
  have "st_saves s1 \<noteq> []" using s1 Cons.prems(1) by simp
  from Cons.IH [OF this rest] obtain sns where sns: "fetch_snapshots E k segs w1 = (Inr sns, w')"
      "st_live s' = fold put_snapshot sns (st_live s1)" "st_saves s' = st_saves s1"
      "r' = r1\<lparr>rr_conversations := rr_conversations r1 + sum_of sn_conversations sns,
        rr_messages := rr_messages r1 + sum_of sn_skeletons sns\<rparr>" by blast
  show ?case
    by (rule exI [of _ "sn # sns"]) (simp add: sns s1 d ct sn sum_of_def)
qed

lemma undo_quiet:
  assumes "quiet s" and "settled s"
  shows "snd (undo_batch (s\<lparr>st_saves := [(restore_savepoint, st_live s)], st_live := t\<rparr>)) = s"
proof -
  have "s = s\<lparr>st_live := st_live s, st_saves := [], st_committed := st_live s\<rparr>"
    using assms by (simp add: settled_def)
  with assms show ?thesis
    by (simp add: undo_batch_def thenA_def bindA_def ret_def rollback_to_def release_def pop_saves_def settle_def settled_def)
qed

lemma advance_rest:
  "advance [SkeletonRestored] ManifestVerified = (None, SkeletonRestored)"
  "advance [SearchRestored, RecentMessagesRestored, MediaLazyRestoreEnabled, FullRestoreComplete] SkeletonRestored
     = (None, FullRestoreComplete)"
  "advance [RootKeysUnwrapped] pipeline_new = (None, RootKeysUnwrapped)"
  "advance [ManifestVerified] RootKeysUnwrapped = (None, ManifestVerified)"
  "advance [ManifestVerified, SkeletonRestored, SearchRestored, RecentMessagesRestored, MediaLazyRestoreEnabled,
     FullRestoreComplete] RootKeysUnwrapped = (None, FullRestoreComplete)"
  by (simp_all add: transition_def restore_try_transition_def pipeline_new_def)

lemma undo_committed: "st_saves s = [(n, t)] \<Longrightarrow> n = restore_savepoint \<Longrightarrow>
    st_committed (snd (undo_batch s)) = st_committed s \<or>
    (st_saves (snd (undo_batch s)) = [] \<and> st_committed (snd (undo_batch s)) = t)"
  by (auto simp: undo_batch_def thenA_def bindA_def ret_def rollback_to_def release_def pop_saves_def settle_def)

text \<open>The replacing part, whatever the driver does: on an error nothing new is committed, on success all or nothing is.\<close>

lemma replace_data_result:
  assumes "settled s" and "replace_data E k ms ManifestVerified s w = (r, st', s', w')"
  shows "case r of
      Inl e \<Rightarrow> st_committed s' = st_committed s
    | Inr res \<Rightarrow> st' = FullRestoreComplete \<and> (\<exists>sns. fetch_snapshots E k (concat (map bm_segments ms)) w = (Inr sns, w')
        \<and> res = counted sns \<and> st_live s' = fold put_snapshot sns (cleared (st_live s))
        \<and> (settled s' \<or> st_committed s' = st_committed s \<and> st_saves s' \<noteq> []))"
proof (cases "next_fault s")
  case True
  then show ?thesis using assms(2) by (auto simp: replace_data_def savepoint_def)
next
  case False
  let ?s1 = "(tick s)\<lparr>st_saves := [(restore_savepoint, st_live s)]\<rparr>"
  have sp: "savepoint restore_savepoint s = (Inr (), ?s1)"
    using assms(1) False by (simp add: savepoint_def settled_def)
  obtain c s2 where cl: "clear_batch ?s1 = (c, s2)" by fastforce
  have s2: "st_committed s2 = st_committed s" "st_saves s2 = [(restore_savepoint, st_live s)]"
    using clear_batch_inside cl unfolding keeps_def by (auto dest!: spec [of _ ?s1])
  have old: "st_committed (snd (undo_batch x)) = st_committed s"
    if "st_committed x = st_committed s" "st_saves x = [(restore_savepoint, st_live s)]" for x
    using undo_committed [OF that(2) refl] that(1) assms(1) by (auto simp: settled_def)
  note eq = assms(2) [unfolded replace_data_def sp cl advance_rest prod.case sum.case option.case]
  show ?thesis
  proof (cases c)
    case (Inl e)
    with eq have "r = Inl (CStorageText (OfSql e))" "s' = snd (undo_batch s2)" unfolding cl by simp_all
    with old [OF s2] show ?thesis by simp
  next
    case (Inr u)
    obtain x s3 w3 where run: "restore_segments E k (concat (map bm_segments ms)) no_result s2 w = (x, s3, w3)"
      by (metis prod_cases3)
    have l2: "st_live s2 = cleared (st_live s)"
      using writes_insideD [OF clear_batch_success _ cl [unfolded Inr]] by simp
    have "st_saves s2 \<noteq> []" using s2 by simp
    from restore_segments_keeps [OF run this] s2 have
      s3: "st_committed s3 = st_committed s" "st_saves s3 = [(restore_savepoint, st_live s)]" by simp_all
    show ?thesis
    proof (cases x)
      case (Inl e)
      with eq have "r = Inl e" "s' = snd (undo_batch s3)" unfolding cl \<open>c = Inr u\<close> by (simp_all add: run)
      with old [OF s3] show ?thesis by simp
    next
      case (Inr res)
      with eq have r: "r = Inr res" "st' = FullRestoreComplete" "s' = snd (release restore_savepoint s3)" "w' = w3"
        unfolding cl \<open>c = Inr u\<close> by (simp_all add: run Let_def advance_rest del: advance.simps)
      from restore_segments_success [OF _ run [unfolded Inr]] \<open>st_saves s2 \<noteq> []\<close> l2 obtain sns where
        "fetch_snapshots E k (concat (map bm_segments ms)) w = (Inr sns, w3)" "res = counted sns"
        "st_live s3 = fold put_snapshot sns (cleared (st_live s))"
        by (auto simp: no_result_def counted_def)
      moreover from this(3) r(3) s3 have "st_live s' = fold put_snapshot sns (cleared (st_live s))
          \<and> (settled s' \<or> st_committed s' = st_committed s \<and> st_saves s' \<noteq> [])"
        by (simp add: release_def pop_saves_def settle_def settled_def tick_def)
      ultimately show ?thesis unfolding r sum.case by blast
    qed
  qed
qed

text \<open>Without driver faults an error restores the store itself, and success commits.\<close>

lemma replace_data_quiet:
  assumes "quiet s" and "settled s" and "replace_data E k ms ManifestVerified s w = (r, st', s', w')"
  shows "case r of Inl e \<Rightarrow> s' = s | Inr res \<Rightarrow> \<exists>t. s' = s\<lparr>st_live := t, st_committed := t\<rparr>"
proof -
  let ?s1 = "s\<lparr>st_saves := [(restore_savepoint, st_live s)]\<rparr>"
  let ?s2 = "?s1\<lparr>st_live := cleared (st_live s)\<rparr>"
  have sp: "savepoint restore_savepoint s = (Inr (), ?s1)"
    using assms(1,2) by (simp add: savepoint_def settled_def)
  have q: "quiet ?s1" "st_saves ?s1 \<noteq> []" "quiet ?s2" "st_saves ?s2 \<noteq> []" using assms(1) by simp_all
  have cl: "clear_batch ?s1 = (Inr (), ?s2)" using clear_batch_quiet [OF q(1,2)] by simp
  obtain x s3 w3 where run: "restore_segments E k (concat (map bm_segments ms)) no_result ?s2 w = (x, s3, w3)"
    by (metis prod_cases3)
  note eq = assms(3) [unfolded replace_data_def sp cl advance_rest prod.case sum.case option.case run]
  from restore_segments_only_live [OF run q(3,4)] obtain t where "s3 = ?s2\<lparr>st_live := t\<rparr>" by blast
  then have t: "s3 = s\<lparr>st_saves := [(restore_savepoint, st_live s)], st_live := t\<rparr>" by simp
  show ?thesis
  proof (cases x)
    case (Inl e)
    with eq have "r = Inl e" "s' = snd (undo_batch s3)" by simp_all
    then show ?thesis using undo_quiet [OF assms(1,2), of t] t by simp
  next
    case (Inr res)
    with eq have "r = Inr res" "s' = snd (release restore_savepoint s3)"
      by (simp_all add: Let_def advance_rest del: advance.simps)
    moreover have "snd (release restore_savepoint s3) = s\<lparr>st_live := t, st_committed := t\<rparr>"
      using t assms(1,2) by (simp add: release_def pop_saves_def settle_def settled_def)
    ultimately show ?thesis by auto
  qed
qed

lemma execute_cases:
  assumes "execute E wrapping pipeline_new s w = (r, st', s', w')"
  obtains (stopped) e where "r = Inl e" "s' = s"
    | (empty) "r = Inr no_result" "s' = s" "st' = FullRestoreComplete" "server_backup E wrapping w = (Inr None, w')"
    | (replaced) k ms w1 where "replace_data E k ms ManifestVerified s w1 = (r, st', s', w')"
        "server_backup E wrapping w = map_prod (map_sum id Some) id (fetch_snapshots E k (concat (map bm_segments ms)) w1)"
proof -
  obtain f w1 where f: "as_storage (gw_fetch_backup_manifests (re_gateway E) 0 w) = (f, w1)" by fastforce
  note eq = assms [unfolded execute_def advance_rest prod.case option.case f]
  note held = server_backup_def [of E wrapping w, unfolded f prod.case]
  show ?thesis
  proof (cases f)
    case (Inl e)
    show ?thesis by (rule stopped) (use eq Inl in auto)
  next
    case (Inr bs)
    show ?thesis
    proof (cases "bs = []")
      case True
      show ?thesis by (rule empty) (use eq held Inr True in auto)
    next
      case more: False
      let ?checked = "and_then (decode_all (re_manifests E) bs) (\<lambda>ms.
                      and_then (verify_chain (re_prims E) (re_manifests E) ms) (\<lambda>_.
                      and_then (ciphered (epochs_new (re_prims E) (re_now_secs E) wrapping)) (\<lambda>k. Inr (ms, k))))"
      show ?thesis
      proof (cases ?checked)
        case (Inl e)
        with eq more \<open>f = Inr bs\<close> have "\<exists>e. r = Inl e \<and> s' = s" by (auto split: sum.splits)
        with stopped show ?thesis by blast
      next
        case ok: (Inr x)
        obtain ms k where x: "x = (ms, k)" by fastforce
        from ok [unfolded x] obtain u where c: "decode_all (re_manifests E) bs = Inr ms"
            "verify_chain (re_prims E) (re_manifests E) ms = Inr u"
            "ciphered (epochs_new (re_prims E) (re_now_secs E) wrapping) = Inr k"
          unfolding and_then_Inr by blast
        have "replace_data E k ms ManifestVerified s w1 = (r, st', s', w')"
          using eq by (simp only: Inr more if_False c sum.case)
        moreover have "server_backup E wrapping w
            = map_prod (map_sum id Some) id (fetch_snapshots E k (concat (map bm_segments ms)) w1)"
          unfolding held Inr sum.case if_not_P [OF more] ok x prod.case ..
        ultimately show ?thesis by (rule replaced)
      qed
    qed
  qed
qed

section \<open>Examples\<close>

text \<open>A gateway with one manifest without segments, and one whose only segment was sealed under the backup key.\<close>

definition bare_manifest :: backup_manifest where
  "bare_manifest = build_manifest ''m'' 0 (replicate 32 0) [] []"

definition toy_env :: "backup_manifest \<Rightarrow> bytes \<Rightarrow> prims \<Rightarrow> unit restore_env" where
  "toy_env m frame P = \<lparr>re_prims = P, re_codecs = toy_codecs, re_manifests = toy_codec m,
     re_snapshots = \<lparr>co_write = (\<lambda>_. Inr [1]), co_read = (\<lambda>_. Inl ''eof'')\<rparr>, re_lower = id,
     re_gateway = toy_gateway\<lparr>gw_fetch_backup_manifests := \<lambda>_ w. (Inr [[1]], w),
       gw_download_backup_segment := \<lambda>_ w. (Inr frame, w)\<rparr>, re_now_secs = 0\<rparr>"

lemma toy_run:
  "execute (toy_env bare_manifest [] toy_prims) [] pipeline_new s () =
     replace_data (toy_env bare_manifest [] toy_prims) (projr (epochs_new toy_prims 0 [])) [bare_manifest] ManifestVerified s ()"
proof -
  let ?E = "toy_env bare_manifest [] toy_prims"
  have p: "as_storage (gw_fetch_backup_manifests (re_gateway ?E) 0 ()) = (Inr [[1]], ())"
    "decode_all (re_manifests ?E) [[1]] = Inr [bare_manifest]"
    "verify_chain (re_prims ?E) (re_manifests ?E) [bare_manifest] = Inr ()"
    "ciphered (epochs_new (re_prims ?E) (re_now_secs ?E) []) = Inr (projr (epochs_new toy_prims 0 []))"
    by (simp_all add: toy_env_def as_storage_def coded_def cbor_from_slice_def toy_codec_def verify_chain_def
        bare_manifest_def build_manifest_def epochs_new_def derive_archive_root_def hkdf_derive_def toy_prims_def
        ciphered_def)
  show ?thesis unfolding execute_def advance_rest p prod.case option.case sum.case by simp
qed

lemma quiet_empty: "quiet empty_store" "settled empty_store"
  by (simp_all add: quiet_def settled_def empty_store_def)

section \<open>Properties\<close>

text \<open>
  C4: a restore is all or nothing, whatever statement the database driver fails, the rollback included. When it returns an
  error, nothing new is committed. When it succeeds, the server held either no manifest, and the store is as it was, or
  a verified chain of manifests, all of whose segments opened: then the message tables are replaced by exactly these snapshots,
  in order, the counts are theirs, and on disk is either that or, with the savepoint still open, what was there before.
  Without driver faults an error leaves the store as it was and success is on disk.
\<close>

theorem restore_all_or_nothing:
  assumes "settled s" and "execute E wrapping pipeline_new s w = (r, st', s', w')"
  shows "(case r of
      Inl e \<Rightarrow> st_committed s' = st_committed s
    | Inr res \<Rightarrow> st' = FullRestoreComplete \<and> (\<exists>held. server_backup E wrapping w = (Inr held, w') \<and>
        (case held of
           None \<Rightarrow> s' = s \<and> res = no_result
         | Some sns \<Rightarrow> res = counted sns \<and> st_live s' = fold put_snapshot sns (cleared (st_live s))
             \<and> (settled s' \<or> st_committed s' = st_committed s \<and> st_saves s' \<noteq> []))))
    \<and> (quiet s \<longrightarrow> settled s' \<and> (\<forall>e. r = Inl e \<longrightarrow> s' = s))"
  using assms(2)
proof (cases rule: execute_cases)
  case (replaced k ms w1)
  have q: "settled s' \<and> (\<forall>e. r = Inl e \<longrightarrow> s' = s)" if "quiet s"
    using replace_data_quiet [OF that assms(1) replaced(1)] assms(1) by (auto simp: settled_def split: sum.splits)
  show ?thesis
  proof (cases r)
    case (Inl e)
    with replace_data_result [OF assms(1) replaced(1)] q assms(1) show ?thesis by auto
  next
    case (Inr res)
    with replace_data_result [OF assms(1) replaced(1)] obtain sns where
      r: "st' = FullRestoreComplete" "fetch_snapshots E k (concat (map bm_segments ms)) w1 = (Inr sns, w')" "res = counted sns"
        "st_live s' = fold put_snapshot sns (cleared (st_live s))"
        "settled s' \<or> st_committed s' = st_committed s \<and> st_saves s' \<noteq> []" by auto
    have "server_backup E wrapping w = (Inr (Some sns), w')" by (simp add: replaced(2) r(2))
    with r Inr q show ?thesis by auto
  qed
qed (use assms(1) in simp_all)

text \<open>A server with one segment that holds one conversation; the store has an outbox row, which the restore removes.\<close>

definition held_snapshot :: snapshot where
  "held_snapshot = \<lparr>sn_conversations =
     [\<lparr>c_id = ''c1'', c_title_cipher = None, c_pinned = True, c_muted = False, c_last_message_id = None, c_last_activity_ms = 3,
       c_type = ''dm'', c_scope = ''s'', c_tenant = ''t'', c_community = [], c_domain = []\<rparr>], sn_skeletons = [], sn_bodies = []\<rparr>"

definition held_env :: "unit restore_env" where
  "held_env = (toy_env first_manifest (replicate 24 0 @ [7] @ replicate 16 0) toy_prims)\<lparr>re_snapshots := toy_codec held_snapshot\<rparr>"

definition stale_tables :: tables where
  "stale_tables = empty_tables\<lparr>t_fuzzy := [(lit ''abc'', ''Latn'', ''m0'')]\<rparr>"

definition stale_store :: store where
  "stale_store = empty_store\<lparr>st_live := stale_tables, st_committed := stale_tables\<rparr>"

theorem restore_all_or_nothing_witness:
  "\<exists>s'. execute held_env [] pipeline_new stale_store () = (Inr (counted [held_snapshot]), FullRestoreComplete, s', ())
     \<and> server_backup held_env [] () = (Inr (Some [held_snapshot]), ())
     \<and> settled s' \<and> map rc_id (t_conv (st_live s')) = [''c1''] \<and> t_fuzzy (st_live s') = []"
proof -
  obtain r st' s' w' where x: "execute held_env [] pipeline_new stale_store () = (r, st', s', w')"
    by (metis prod_cases4)
  have s: "settled stale_store" "quiet stale_store"
    by (simp_all add: stale_store_def empty_store_def settled_def quiet_def)
  have b: "server_backup held_env [] () = (Inr (Some [held_snapshot]), ())"
    by (simp add: server_backup_def held_env_def toy_env_def as_storage_def coded_def cbor_from_slice_def toy_codec_def
        verify_chain_def first_manifest_def build_manifest_def epochs_new_def derive_archive_root_def hkdf_derive_def
        toy_prims_def ciphered_def recover_snapshot_def current_epoch_key_def derive_archive_epoch_def
        derive_archive_segment_def hkdf_expand_def backup_open_segment_def open_sealed_def decompress_def toy_codecs_def
        backup_nonce_size_def from_cbor_def)
  let ?k = "projr (epochs_new toy_prims 0 [])" and ?ct = "replicate 24 0 @ [7] @ replicate 16 (0 :: 8 word)"
  have p: "as_storage (gw_fetch_backup_manifests (re_gateway held_env) 0 ()) = (Inr [[1]], ())"
    "decode_all (re_manifests held_env) [[1]] = Inr [first_manifest]"
    "verify_chain (re_prims held_env) (re_manifests held_env) [first_manifest] = Inr ()"
    "ciphered (epochs_new (re_prims held_env) (re_now_secs held_env) []) = Inr ?k"
    by (simp_all add: held_env_def toy_env_def as_storage_def coded_def cbor_from_slice_def toy_codec_def verify_chain_def
        first_manifest_def build_manifest_def epochs_new_def derive_archive_root_def hkdf_derive_def toy_prims_def ciphered_def)
  have run: "execute held_env [] pipeline_new stale_store ()
      = replace_data held_env ?k [first_manifest] ManifestVerified stale_store ()"
    unfolding execute_def advance_rest p prod.case option.case sum.case by simp
  have "as_storage (gw_download_backup_segment (re_gateway held_env) x ()) = (Inr ?ct, ())"
      "recover_snapshot held_env ?k seg ?ct = Inr held_snapshot" "re_lower held_env = id" for x seg
    by (simp_all add: held_env_def toy_env_def as_storage_def coded_def cbor_from_slice_def toy_codec_def
        epochs_new_def derive_archive_root_def hkdf_derive_def toy_prims_def ciphered_def recover_snapshot_def
        current_epoch_key_def derive_archive_epoch_def derive_archive_segment_def hkdf_expand_def
        backup_open_segment_def open_sealed_def decompress_def toy_codecs_def backup_nonce_size_def from_cbor_def)
  moreover obtain s3 where "restore_snapshot id held_snapshot no_result
      \<lparr>st_live = cleared stale_tables, st_committed = stale_tables, st_saves = [(restore_savepoint, stale_tables)],
        st_faults = [], st_fk = True, st_pool = 4\<rparr> = (Inr (counted [held_snapshot]), s3)"
    by (simp add: restore_snapshot_def held_snapshot_def forA_def thenA_def bindA_def ret_def from_storage_def
        insert_conversation_def db_exec_def mapE_def exec_def put_conv_def no_result_def counted_def sum_of_def next_fault_def)
  ultimately have "\<exists>y. fst (replace_data held_env ?k [first_manifest] ManifestVerified stale_store ()) = Inr y"
    by (simp add: replace_data_def savepoint_def stale_store_def empty_store_def next_fault_def clear_batch_quiet quiet_def
        advance_rest Let_def first_manifest_def build_manifest_def del: advance.simps)
  with run x have "\<exists>y. r = Inr y" by (metis fst_conv)
  then obtain y where "r = Inr y" by blast
  then show ?thesis using restore_all_or_nothing [OF s(1) x] b s(2) x
    by (auto simp: put_snapshot_def cleared_def held_snapshot_def conv_to_row_def upsert_def)
qed

text \<open>
  a restore never rebuilds the search index, although it is written to: the rebuilding needs a transaction of its
  own, which SQLite refuses inside the restore's savepoint, and where the row is read through another connection it is
  not yet visible. So after every successful restore of at least one manifest both indexes are empty and the
  reported number of rebuilt entries is 0.
\<close>

theorem restore_leaves_index_empty:
  assumes "settled s" and "gw_fetch_backup_manifests (re_gateway E) 0 w = (Inr (b # bs), w1)"
    and "execute E wrapping pipeline_new s w = (Inr res, st', s', w')"
  shows "rr_indexes res = 0 \<and> t_fts (st_live s') = [] \<and> t_fuzzy (st_live s') = []"
proof -
  have keep: "t_fts (fold put_snapshot sns t) = t_fts t \<and> t_fuzzy (fold put_snapshot sns t) = t_fuzzy t" for sns t
    by (induction sns arbitrary: t) (simp_all add: put_snapshot_def)
  have "\<exists>k ms w2. replace_data E k ms ManifestVerified s w2 = (Inr res, st', s', w')"
    using assms(3) by (auto simp: execute_def advance_rest as_storage_def assms(2) simp del: advance.simps split: sum.splits)
  then obtain k ms w2 where r: "replace_data E k ms ManifestVerified s w2 = (Inr res, st', s', w')" by blast
  from replace_data_result [OF assms(1) r] keep show ?thesis by (auto simp: cleared_def counted_def)
qed

theorem restore_leaves_index_empty_witness:
  "\<exists>res st' s'. execute (toy_env bare_manifest [] toy_prims) [] pipeline_new empty_store () = (Inr res, st', s', ())
     \<and> t_fts (st_live s') = []"
proof -
  obtain r st' s' w' where x: "execute (toy_env bare_manifest [] toy_prims) [] pipeline_new empty_store () = (r, st', s', w')"
    by (metis prod_cases4)
  have r: "r = Inr no_result"
    using x unfolding toy_run by (simp add: replace_data_def savepoint_def empty_store_def next_fault_def bare_manifest_def
        build_manifest_def clear_batch_quiet quiet_def advance_rest Let_def del: advance.simps)
  have g: "gw_fetch_backup_manifests (re_gateway (toy_env bare_manifest [] toy_prims)) 0 () = (Inr ([1] # []), ())"
    by (simp add: toy_env_def)
  from restore_leaves_index_empty [OF quiet_empty(2) g x [unfolded r]] x r show ?thesis by auto
qed

text \<open>
  the restore's last step can fail unnoticed: the error of the final \<open>RELEASE\<close> is dropped, so the restore reports
  success while nothing was committed and the savepoint is still open.
\<close>

theorem restore_success_uncommitted:
  "\<exists>s'. execute (toy_env bare_manifest [] toy_prims) [] pipeline_new
       (empty_store\<lparr>st_live := t, st_committed := t, st_faults := replicate 9 False @ [True]\<rparr>) ()
     = (Inr no_result, FullRestoreComplete, s', ())
   \<and> st_committed s' = t \<and> st_live s' = cleared t \<and> st_saves s' \<noteq> []"
proof -
  have f: "replicate 9 False @ [True] = [False, False, False, False, False, False, False, False, False, True]"
    by (simp add: eval_nat_numeral)
  show ?thesis unfolding toy_run f
    by (simp add: replace_data_def savepoint_def empty_store_def next_fault_def tick_def clear_batch_def thenA_def bindA_def
        exec_def pureT_def settle_def ret_def clear_skels_def clear_convs_def bare_manifest_def build_manifest_def Let_def
        release_def cleared_def advance_rest del: advance.simps)
qed

text \<open>
  C39: restore cannot read what backup wrote: backup seals a segment under the backup root itself, restore opens it
  under the archive segment key of the current archive epoch. With an AEAD that rejects a text under any other key,
  the first segment of every backup makes the restore fail, with the store unchanged.
\<close>

theorem restore_rejects_own_backups:
  assumes "derive_backup_root P wrapping = Inr bk" and "length nonce = 24"
    and "backup_build_segment P Z nonce data bk = Inr (frame, n, h)"
    and "epochs_new P (re_now_secs E) wrapping = Inr k" and "current_epoch_key P k = Inr ek"
    and "derive_archive_segment P ek (uuid_bytes (sr_segment seg)) = Inr rk" and "rk \<noteq> bk"
    and "\<And>x p c. pr_seal P bk x p backup_segment_aad = Some c \<Longrightarrow> pr_open P rk x c backup_segment_aad = None"
    and "re_prims E = P" and "gw_fetch_backup_manifests (re_gateway E) 0 w = (Inr bs, w1)"
    and "decode_all (re_manifests E) bs = Inr ms" and "verify_chain P (re_manifests E) ms = Inr ()"
    and "concat (map bm_segments ms) = seg # segs"
    and "gw_download_backup_segment (re_gateway E) (sr_segment seg) w1 = (Inr frame, w2)"
    and "quiet s" and "settled s"
  shows "execute E wrapping pipeline_new s w =
    (Inl (CSegmentFailed (sr_segment seg) (CCrypto (Aead ''xchacha20-poly1305 open failed''))), SkeletonRestored, s, w2)"
proof -
  let ?s1 = "s\<lparr>st_saves := [(restore_savepoint, st_live s)]\<rparr>"
  let ?s2 = "?s1\<lparr>st_live := cleared (st_live s)\<rparr>"
  from assms(3) obtain z ct where z: "pr_seal P bk nonce z backup_segment_aad = Some ct" "frame = nonce @ ct"
    by (auto simp: backup_build_segment_def and_then_Inr seal_def split: option.splits)
  have o: "backup_open_segment P (re_codecs E) frame rk = Inl (CCrypto (Aead ''xchacha20-poly1305 open failed''))"
    using z assms(2) assms(8) [OF z(1)]
    by (simp add: backup_open_segment_def backup_nonce_size_def open_sealed_def ciphered_def)
  have rec: "recover_snapshot E k seg frame = Inl (CSegmentFailed (sr_segment seg) (CCrypto (Aead ''xchacha20-poly1305 open failed'')))"
    by (simp add: recover_snapshot_def assms(5,6,9) ciphered_def o)
  have run: "restore_segments E k (concat (map bm_segments ms)) no_result ?s2 w1
      = (Inl (CSegmentFailed (sr_segment seg) (CCrypto (Aead ''xchacha20-poly1305 open failed''))), ?s2, w2)"
    unfolding assms(13) by (simp add: assms(14) as_storage_def rec)
  have sp: "savepoint restore_savepoint s = (Inr (), ?s1)"
    using assms(15,16) by (simp add: savepoint_def settled_def)
  have cl: "clear_batch ?s1 = (Inr (), ?s2)" using clear_batch_quiet [of ?s1] assms(15) by simp
  have rep: "replace_data E k ms ManifestVerified s w1
      = (Inl (CSegmentFailed (sr_segment seg) (CCrypto (Aead ''xchacha20-poly1305 open failed''))), SkeletonRestored, s, w2)"
    unfolding replace_data_def sp cl advance_rest prod.case sum.case option.case run
    using undo_quiet [OF assms(15,16), of "cleared (st_live s)"] by simp
  have f: "as_storage (gw_fetch_backup_manifests (re_gateway E) 0 w) = (Inr bs, w1)" by (simp add: as_storage_def assms(10))
  have e: "ciphered (epochs_new (re_prims E) (re_now_secs E) wrapping) = Inr k" by (simp add: assms(4,9) ciphered_def)
  have "bs \<noteq> []" using assms(11,13) by auto
  then show ?thesis
    unfolding execute_def advance_rest prod.case option.case sum.case f if_False assms(11)
    by (simp add: e [unfolded assms(9)] e assms(9,12) rep)
qed

text \<open>An AEAD that puts the key in front of the text, and the manifest of a backup sealed with it.\<close>

definition keyed_prims :: prims where
  "keyed_prims = toy_prims\<lparr>pr_seal := \<lambda>k n p a. Some (k @ p),
     pr_open := \<lambda>k n c a. if take (length k) c = k then Some (drop (length k) c) else None,
     pr_expand := \<lambda>prk info n. Inr info\<rparr>"

theorem restore_rejects_own_backups_witness:
  "\<exists>frame e. backup_build_segment keyed_prims toy_codecs (replicate 24 0) [1, 2] (str_bytes ''chat-storage/backup-root/v1'')
       = Inr (frame, replicate 24 0, [1, 2])
     \<and> execute (toy_env first_manifest frame keyed_prims) [] pipeline_new empty_store () = (Inl e, SkeletonRestored, empty_store, ())"
proof -
  let ?bk = "str_bytes ''chat-storage/backup-root/v1''"
  let ?frame = "replicate 24 0 @ ?bk @ [1, 2]"
  let ?E = "toy_env first_manifest ?frame keyed_prims"
  let ?k = "\<lparr>ek_root = str_bytes ''chat-storage/archive-root/v1'', ek_current = 0, ek_wrapped = []\<rparr>"
  let ?ek = "str_bytes ''chat-storage/archive-epoch/v1'' @ be_bytes 8 0"
  let ?rk = "str_bytes ''chat-storage/archive-segment/v1'' @ uuid_bytes ''s''"
  let ?seg = "\<lparr>sr_segment = ''s'', sr_type = Events, sr_sha256 = 1 # 5 # replicate 30 0, sr_size = 41\<rparr>"
  have ne: "take (length ?rk) (?bk @ p) \<noteq> ?rk" for p
    by (simp add: str_bytes_def)
  have b: "backup_build_segment keyed_prims toy_codecs (replicate 24 0) [1, 2] ?bk = Inr (?frame, replicate 24 0, [1, 2])"
    by (simp add: backup_build_segment_def compress_def coded_def ciphered_def seal_def toy_codecs_def keyed_prims_def
        toy_prims_def content_hash_def)
  have "execute ?E [] pipeline_new empty_store () =
    (Inl (CSegmentFailed (sr_segment ?seg) (CCrypto (Aead ''xchacha20-poly1305 open failed''))), SkeletonRestored, empty_store, ())"
  proof (rule restore_rejects_own_backups [OF _ _ b, where k = ?k and ek = ?ek and rk = ?rk and bs = "[[1]]" and ?w1.0 = "()"
        and ms = "[first_manifest]" and segs = "[]"])
    show "?rk \<noteq> ?bk" using ne [of "[]"] by (metis append.right_neutral take_all_iff order_refl)
    show "pr_open keyed_prims ?rk x c backup_segment_aad = None"
      if "pr_seal keyed_prims ?bk x p backup_segment_aad = Some c" for x p c
      using that ne [of p] by (auto simp: keyed_prims_def simp del: append_assoc length_append)
  qed (simp_all add: derive_backup_root_def hkdf_derive_def keyed_prims_def toy_prims_def epochs_new_def
      derive_archive_root_def current_epoch_id_def toy_env_def current_epoch_key_def derive_archive_epoch_def
      hkdf_expand_def derive_archive_segment_def coded_def cbor_from_slice_def toy_codec_def verify_chain_def
      first_manifest_def build_manifest_def quiet_empty)
  with b show ?thesis by blast
qed

end
