(* ===== verification/Core.thy ===== *)
theory Core
  imports Offload Restore
begin

text \<open>
  \<open>CoreImpl\<close> of \<open>core_impl.rs\<close>: the facade that composes the store, the message pipeline, the gateway, the backup and
  restore engines and the offload. An environment gathers what the facade owns and never changes, and the parameters;
  \<open>core_state\<close> is what it changes. Clock readings, fresh identifiers and nonces are arguments of the operations.
  The registration of devices, which keeps a file of its own, is in theory \<open>Device\<close>.
\<close>

section \<open>State\<close>

text \<open>\<open>ce_db_size\<close> is SQLite's page arithmetic, \<open>ce_chunk_size\<close> the SDK's \<open>select_chunk_size\<close>, \<open>ce_parse_uuid\<close> the parser of
  identifiers.\<close>

record 'w core_env =
  ce_prims :: prims
  ce_codecs :: archive_codecs
  ce_manifests :: "backup_manifest codec"
  ce_snapshots :: snapshot_codec
  ce_lower :: "ustr \<Rightarrow> ustr"
  ce_gateway :: "'w gateway"
  ce_wrapping :: bytes
  ce_budget :: "budget_config option"
  ce_db_size :: db_size
  ce_chunk_size :: "nat \<Rightarrow> nat"
  ce_parse_uuid :: "string \<Rightarrow> uuid option"

record core_state =
  cr_backup :: backup_coordinator
  cr_last_enforcement :: "int option"

definition core_new :: "'w core_env \<Rightarrow> core_error + core_state" where
  "core_new E =
     and_then (ciphered (derive_local_db_key (ce_prims E) (ce_wrapping E)))
       (\<lambda>_. Inr \<lparr>cr_backup = backup_new, cr_last_enforcement = None\<rparr>)"

section \<open>Sending text\<close>

definition send_text ::
  "'w core_env \<Rightarrow> uuid \<Rightarrow> int \<Rightarrow> int \<Rightarrow> uuid \<Rightarrow> ustr \<Rightarrow> uuid option \<Rightarrow> (core_error, uuid) act" where
  "send_text E new_id created now conv text reply_to =
     (let entry = create_outbox_entry new_id created conv text reply_to in
      thenA (mapE CMessage (persist_outbox_entry (ce_lower E) now entry)) (ret (oe_id entry)))"

section \<open>Storage budget\<close>

record offload_result =
  or_messages :: nat
  or_media :: nat
  or_bytes :: u64

definition no_offload :: offload_result where
  "no_offload = \<lparr>or_messages = 0, or_media = 0, or_bytes = 0\<rparr>"

fun offload_all :: "eviction_candidate list \<Rightarrow> offload_result \<Rightarrow> (core_error, offload_result) act" where
  "offload_all [] r = ret r"
| "offload_all (c # cs) r =
     (let r1 = r\<lparr>or_bytes := or_bytes r + ec_size c\<rparr> in
      case ec_kind c of
        MessageBodies \<Rightarrow>
          bindA (from_storage (update_body_state (ec_id c) ''remote_archive_only''))
            (\<lambda>_. offload_all cs (r1\<lparr>or_messages := or_messages r + 1\<rparr>))
      | MediaOriginals \<Rightarrow>
          bindA (from_storage (update_media_state (ec_id c) ''evicted''))
            (\<lambda>_. offload_all cs (r1\<lparr>or_media := or_media r + 1\<rparr>))
      | MediaThumbnails \<Rightarrow>
          bindA (from_storage (update_media_state (ec_id c) ''evicted''))
            (\<lambda>_. offload_all cs (r1\<lparr>or_media := or_media r + 1\<rparr>))
      | ColdSearchShards \<Rightarrow> offload_all cs r1)"

definition enforce_storage_budget :: "'w core_env \<Rightarrow> int \<Rightarrow> (core_error, offload_result) act" where
  "enforce_storage_budget E now =
     (let budget = (case ce_budget E of None \<Rightarrow> default_budget | Some b \<Rightarrow> b) in
      bindA (check_and_plan_eviction (ce_db_size E) now budget) (\<lambda>cs. offload_all cs no_offload))"

text \<open>The automatic enforcement after an ingest: above 80 percent of the budget, at most once in 60 seconds.\<close>

definition auto_enforce :: "'w core_env \<Rightarrow> int \<Rightarrow> core_state \<Rightarrow> store \<Rightarrow> core_state \<times> store" where
  "auto_enforce E now c s =
     (case ce_budget E of
        None \<Rightarrow> (c, s)
      | Some b \<Rightarrow>
          if 0 < bg_max_db b
          then (case ce_db_size E s of
                  Inl _ \<Rightarrow> (c, s)
                | Inr db_bytes \<Rightarrow>
                    if bg_max_db b * 80 div 100 < db_bytes
                       \<and> (case cr_last_enforcement c of None \<Rightarrow> True | Some prev \<Rightarrow> 60000 < now - prev)
                    then (c\<lparr>cr_last_enforcement := Some now\<rparr>, snd (enforce_storage_budget E now s))
                    else (c, s))
          else (c, s))"

section \<open>Receiving\<close>

record ingest_result =
  ig_new :: nat
  ig_updated :: nat
  ig_duplicate :: nat
  ig_cursor :: "bytes option"

definition ingested_of :: "raw_delivery_message \<Rightarrow> ingested_message" where
  "ingested_of raw =
     \<lparr>im_id = rd_id raw, im_conv = rd_conv raw, im_sender = rd_sender raw, im_created_ms = rd_created_ms raw,
      im_text = rd_text raw, im_media = rd_media raw, im_reply_to = rd_reply_to raw\<rparr>"

fun ingest_page ::
  "(ustr \<Rightarrow> ustr) \<Rightarrow> int \<Rightarrow> int \<Rightarrow> raw_delivery_message list \<Rightarrow> ingest_result \<Rightarrow> (core_error, ingest_result) act" where
  "ingest_page lower now1 now2 [] r s = (Inr r, s)"
| "ingest_page lower now1 now2 (raw # raws) r s =
     (case validate_ingest (ingested_of raw) of
        Inl e \<Rightarrow> (Inl (CMessage e), s)
      | Inr _ \<Rightarrow>
          (case persist_ingested_message lower now1 now2 (ingested_of raw) s of
             (Inr _, s') \<Rightarrow> ingest_page lower now1 now2 raws (r\<lparr>ig_new := ig_new r + 1\<rparr>) s'
           | (Inl e, s') \<Rightarrow>
               if e = DuplicateMessage
               then ingest_page lower now1 now2 raws (r\<lparr>ig_duplicate := ig_duplicate r + 1\<rparr>) s'
               else (Inl (CMessage e), s')))"

definition empty_ingest :: "bytes option \<Rightarrow> ingest_result" where
  "empty_ingest cursor = \<lparr>ig_new = 0, ig_updated = 0, ig_duplicate = 0, ig_cursor = cursor\<rparr>"

definition ingest_remote_messages ::
  "'w core_env \<Rightarrow> int \<Rightarrow> int \<Rightarrow> int \<Rightarrow> uuid \<Rightarrow> bytes option \<Rightarrow> core_state \<Rightarrow> store \<Rightarrow> 'w \<Rightarrow>
     (core_error + ingest_result) \<times> core_state \<times> store \<times> 'w" where
  "ingest_remote_messages E now1 now2 now3 conv cursor c s w =
     (case gw_fetch_messages (ce_gateway E) conv cursor w of
        (Inl e, w') \<Rightarrow> (Inl (CTransport e), c, s, w')
      | (Inr page, w') \<Rightarrow>
          (case ingest_page (ce_lower E) now1 now2 (fr_messages page) (empty_ingest (fr_cursor page)) s of
             (Inl e, s') \<Rightarrow> (Inl e, c, s', w')
           | (Inr r, s') \<Rightarrow> (case auto_enforce E now3 c s' of (c', s'') \<Rightarrow> (Inr r, c', s'', w'))))"

section \<open>Hydration\<close>

record hydrated =
  hy_message :: uuid
  hy_conv :: uuid
  hy_sender :: string
  hy_created_ms :: int
  hy_text :: "ustr option"

definition nil_uuid :: uuid where
  "nil_uuid = ''00000000-0000-0000-0000-000000000000''"

definition local_message :: "'w core_env \<Rightarrow> uuid \<Rightarrow> store \<Rightarrow> hydrated option" where
  "local_message E mid s =
     (case fst (fetch_skeleton mid s) of
        Inr (Some sk) \<Rightarrow> Some
          \<lparr>hy_message = mid, hy_conv = (case ce_parse_uuid E (sk_conv sk) of None \<Rightarrow> nil_uuid | Some u \<Rightarrow> u),
           hy_sender = sk_sender sk, hy_created_ms = sk_created_ms sk,
           hy_text = (case fst (fetch_body mid s) of Inr (Some b) \<Rightarrow> b_text b | _ \<Rightarrow> None)\<rparr>
      | _ \<Rightarrow> None)"

definition hydrate_message ::
  "'w core_env \<Rightarrow> int \<Rightarrow> int \<Rightarrow> uuid \<Rightarrow> hydration_reason \<Rightarrow> store \<Rightarrow> 'w \<Rightarrow> (core_error + hydrated) \<times> store \<times> 'w" where
  "hydrate_message E now1 now2 mid reason s w =
     (case local_message E mid s of
        Some m \<Rightarrow> (Inr m, s, w)
      | None \<Rightarrow>
          (case hq_process (ce_lower E) now1 now2 (ce_gateway E) (hq_push \<lparr>hr_message = mid, hr_reason = reason\<rparr> []) s w of
             (Inl e, _, s', w') \<Rightarrow> (Inl e, s', w')
           | (Inr n, _, s', w') \<Rightarrow>
               if n = 0 then (Inl (CStorage (Custom (''message not found: '' @ mid))), s', w')
               else (case local_message E mid s' of
                       Some m \<Rightarrow> (Inr m, s', w')
                     | None \<Rightarrow> (Inl (CStorage (Custom (''hydration failed: '' @ mid))), s', w'))))"

section \<open>Backup and restore\<close>

record backup_result =
  br_built :: nat
  br_uploaded :: nat
  br_generation :: u64
  br_bytes :: nat

definition no_backup :: backup_result where
  "no_backup = \<lparr>br_built = 0, br_uploaded = 0, br_generation = 0, br_bytes = 0\<rparr>"

definition journal_retention_ms :: int where
  "journal_retention_ms = 30 * 24 * 60 * 60 * 1000"

text \<open>The work after the uploads: the coordinator, the marks and the pruning, whose error is dropped.\<close>

definition finish_backup ::
  "int \<Rightarrow> snapshot \<Rightarrow> bytes \<Rightarrow> string \<Rightarrow> backup_payload \<Rightarrow> core_state \<Rightarrow> store \<Rightarrow>
     (core_error + backup_result) \<times> core_state \<times> store" where
  "finish_backup now sn data uploaded p c s =
     (case finalize_backup uploaded p (cr_backup c) of (gen, bc) \<Rightarrow>
      let c' = c\<lparr>cr_backup := bc\<rparr> in
      case mark_backed_up sn s of
        (Inl e, s') \<Rightarrow> (Inl e, c', s')
      | (Inr _, s') \<Rightarrow>
          (Inr \<lparr>br_built = 1, br_uploaded = 1, br_generation = gen, br_bytes = length data\<rparr>, c',
           snd (prune_backup_events (now - journal_retention_ms) s')))"

definition run_incremental_backup ::
  "'w core_env \<Rightarrow> fresh \<Rightarrow> int \<Rightarrow> core_state \<Rightarrow> store \<Rightarrow> 'w \<Rightarrow> (core_error + backup_result) \<times> core_state \<times> store \<times> 'w" where
  "run_incremental_backup E new now c s w =
     (case ciphered (derive_backup_root (ce_prims E) (ce_wrapping E)) of
        Inl e \<Rightarrow> (Inl e, c, s, w)
      | Inr key \<Rightarrow>
     (case snapshot_from_db s of
        (Inl e, s1) \<Rightarrow> (Inl e, c, s1, w)
      | (Inr sn, s1) \<Rightarrow>
     (case to_cbor (ce_snapshots E) sn of
        Inl e \<Rightarrow> (Inl e, c, s1, w)
      | Inr data \<Rightarrow>
     if data = [] then (Inr no_backup, c, s1, w)
     else
     (case prepare_backup (ce_prims E) (ce_codecs E) (ce_manifests E) new data key (cr_backup c) of
        Inl e \<Rightarrow> (Inl e, c, s1, w)
      | Inr p \<Rightarrow>
     (case upload_payload (ce_gateway E) p w of
        (Inl e, w') \<Rightarrow> (Inl e, c, s1, w')
      | (Inr uploaded, w') \<Rightarrow>
          (case finish_backup now sn data uploaded p c s1 of (r, c', s2) \<Rightarrow> (r, c', s2, w')))))))"

definition restore_from_backup ::
  "'w core_env \<Rightarrow> nat \<Rightarrow> store \<Rightarrow> 'w \<Rightarrow> (core_error + restore_result) \<times> restore_state \<times> store \<times> 'w" where
  "restore_from_backup E now_secs s w =
     execute \<lparr>re_prims = ce_prims E, re_codecs = ce_codecs E, re_manifests = ce_manifests E,
         re_snapshots = ce_snapshots E, re_lower = ce_lower E, re_gateway = ce_gateway E, re_now_secs = now_secs\<rparr>
       (ce_wrapping E) pipeline_new s w"

section \<open>Sending media\<close>

text \<open>\<open>slice::chunks\<close>.\<close>

function chunks_of :: "nat \<Rightarrow> 'a list \<Rightarrow> 'a list list" where
  "chunks_of n [] = []"
| "chunks_of n (x # xs) = take (max n 1) (x # xs) # chunks_of n (drop (max n 1) (x # xs))"
  by pat_completeness auto
termination by (relation "measure (length \<circ> snd)") auto

definition chunk :: "(nat \<Rightarrow> nat) \<Rightarrow> bytes \<Rightarrow> bytes list" where
  "chunk select plaintext = chunks_of (select (length plaintext)) plaintext"

definition process_media ::
  "prims \<Rightarrow> (nat \<Rightarrow> nat) \<Rightarrow> uuid \<Rightarrow> string \<Rightarrow> bytes \<Rightarrow> uuid \<Rightarrow> string \<Rightarrow> string \<Rightarrow> core_error + media_descriptor" where
  "process_media P select asset mime plaintext blob node version =
     Inr \<lparr>md_asset = asset, md_mime = mime, md_bytes_total = word_of_nat (length plaintext),
          md_chunk_count = word_of_nat (length (chunk select plaintext)), md_merkle_root = content_hash P plaintext,
          md_blob = blob, md_wrapped_key = [], md_sink = None, md_width = 0, md_height = 0, md_duration_ms = 0,
          md_thumbnail = None, md_node = node, md_version = version\<rparr>"

record media_ids =
  mi_asset :: uuid
  mi_message :: uuid
  mi_blob :: uuid

record media_sent =
  ms_message :: uuid
  ms_asset :: string
  ms_node :: string
  ms_version :: string

definition media_skeleton :: "media_ids \<Rightarrow> int \<Rightarrow> uuid \<Rightarrow> message_skeleton" where
  "media_skeleton ids now conv =
     \<lparr>sk_id = mi_message ids, sk_conv = conv, sk_sender = ''local'', sk_created_ms = now, sk_received_ms = now,
      sk_kind = KMedia, sk_body = LocalPlainAvailable, sk_media = Some RemoteOriginal, sk_archive = NotArchived,
      sk_backup = NotBackedUp, sk_reply_to = None, sk_edited_ms = None, sk_deleted_ms = None\<rparr>"

definition media_asset_row :: "media_ids \<Rightarrow> string \<Rightarrow> media_descriptor \<Rightarrow> media_row" where
  "media_asset_row ids mime d =
     \<lparr>rm_asset = mi_asset ids, rm_message = mi_message ids, rm_mime = mime, rm_bytes_total = u64_as_i64 (md_bytes_total d),
      rm_bytes_local = 0, rm_state = media_to_string RemoteOriginal, rm_wrapped_key = replicate 40 0,
      rm_chunk_count = u32_as_i32 (md_chunk_count d), rm_merkle_root = md_merkle_root d, rm_blob = mi_blob ids,
      rm_sink = ''kdrive''\<rparr>"

definition sql_text :: "sql_error \<Rightarrow> core_error" where
  "sql_text e = CStorageText (OfSql e)"

definition media_rows :: "media_ids \<Rightarrow> int \<Rightarrow> uuid \<Rightarrow> string \<Rightarrow> ustr option \<Rightarrow> media_descriptor \<Rightarrow> (core_error, unit) act" where
  "media_rows ids now conv mime caption d = mapE sql_text (seqA
     [exec (put_skel (skel_to_row (media_skeleton ids now conv))),
      exec (put_body \<lparr>b_id = mi_message ids, b_text = caption, b_language = None, b_rich_meta = None\<rparr>),
      exec (put_media (media_asset_row ids mime d))])"

definition media_blob_aad :: bytes where
  "media_blob_aad = str_bytes ''chat-storage/media-blob/v1''"

definition send_media_inner ::
  "'w core_env \<Rightarrow> media_ids \<Rightarrow> bytes \<Rightarrow> int \<Rightarrow> uuid \<Rightarrow> bytes \<Rightarrow> string \<Rightarrow> ustr option \<Rightarrow> store \<Rightarrow> 'w \<Rightarrow>
     (core_error + media_sent) \<times> store \<times> 'w" where
  "send_media_inner E ids nonce now conv plaintext mime caption s w =
     (case process_media (ce_prims E) (ce_chunk_size E) (mi_asset ids) mime plaintext (mi_blob ids) (mi_blob ids) (mi_blob ids) of
        Inl e \<Rightarrow> (Inl e, s, w)
      | Inr d \<Rightarrow>
     (case and_then (ciphered (derive_media_root (ce_prims E) (ce_wrapping E))) (\<lambda>media_key.
            and_then (ciphered (derive_media_blob (ce_prims E) media_key (str_bytes (mi_asset ids)))) (\<lambda>key.
            ciphered (seal (ce_prims E) key nonce plaintext media_blob_aad))) of
        Inl e \<Rightarrow> (Inl e, s, w)
      | Inr ct \<Rightarrow>
     (case with_savepoint ''send_media'' sql_text (media_rows ids now conv mime caption d) s of
        (Inl e, s') \<Rightarrow> (Inl e, s', w)
      | (Inr _, s') \<Rightarrow>
     (case gw_upload_media_blob (ce_gateway E) (mi_blob ids) ct w of
        (Inl e, w') \<Rightarrow> (Inl (CTransport e), s', w')
      | (Inr uploaded, w') \<Rightarrow>
          (Inr \<lparr>ms_message = mi_message ids, ms_asset = mi_asset ids, ms_node = uploaded, ms_version = uploaded\<rparr>, s', w')))))"

definition send_media_bytes ::
  "'w core_env \<Rightarrow> media_ids \<Rightarrow> bytes \<Rightarrow> int \<Rightarrow> uuid \<Rightarrow> bytes \<Rightarrow> string \<Rightarrow> ustr option \<Rightarrow> store \<Rightarrow> 'w \<Rightarrow>
     (core_error + media_sent) \<times> store \<times> 'w" where
  "send_media_bytes = send_media_inner"

definition max_media_size :: nat where
  "max_media_size = 200 * 1024 * 1024"

definition mime_from_extension :: "string option \<Rightarrow> string" where
  "mime_from_extension ext =
     (case ext of
        None \<Rightarrow> ''application/octet-stream''
      | Some e \<Rightarrow>
          if e = ''jpg'' \<or> e = ''jpeg'' then ''image/jpeg''
          else if e = ''png'' then ''image/png''
          else if e = ''gif'' then ''image/gif''
          else if e = ''webp'' then ''image/webp''
          else if e = ''mp4'' then ''video/mp4''
          else if e = ''webm'' then ''video/webm''
          else if e = ''mp3'' then ''audio/mpeg''
          else if e = ''ogg'' then ''audio/ogg''
          else if e = ''wav'' then ''audio/wav''
          else if e = ''pdf'' then ''application/pdf''
          else ''application/octet-stream'')"

text \<open>A file is its size according to the metadata, its extension, and what reading it gives.\<close>

record media_file =
  mf_size :: nat
  mf_extension :: "string option"
  mf_content :: bytes

definition send_media ::
  "'w core_env \<Rightarrow> media_ids \<Rightarrow> bytes \<Rightarrow> int \<Rightarrow> uuid \<Rightarrow> media_file \<Rightarrow> ustr option \<Rightarrow> store \<Rightarrow> 'w \<Rightarrow>
     (core_error + media_sent) \<times> store \<times> 'w" where
  "send_media E ids nonce now conv file caption s w =
     (if max_media_size < mf_size file
      then (Inl (CStorage (Custom (''media file too large: '' @ dec_nat (mf_size file) @ '' bytes (max ''
              @ dec_nat max_media_size @ '' bytes / 200MB)''))), s, w)
      else send_media_inner E ids nonce now conv (mf_content file) (mime_from_extension (mf_extension file)) caption s w)"

end
