(* ===== verification/Facade.thy ===== *)
theory Facade
  imports Core
begin

text \<open>
  The language bindings around \<open>CoreImpl\<close>: \<open>cs-core-uniffi\<close> (\<open>facade.rs\<close>, \<open>types.rs\<close>, \<open>error.rs\<close>: Swift and Kotlin) and
  \<open>cs-core-napi\<close> (\<open>lib.rs\<close>, \<open>types.rs\<close>, \<open>error.rs\<close>: Node). Both parse identifiers, call the core and convert its results.
  What they share is written once, over the two ways of making an error: one from a text, for a bad argument, one from an
  error of the core. The names of one binding start with \<open>ffi\<close>, those of the other with \<open>js\<close>. The rendered text of an error
  keeps the error itself. Registration of devices is in theory \<open>Device\<close>.
\<close>

section \<open>Configuration\<close>

text \<open>\<open>config.rs\<close>. The privacy mode \<open>'p\<close> and its codes are those of the drive library.\<close>

datatype media_blob_sink = KchatBackendSink | ICloudSink string | GoogleDriveSink string | ZkObjectFabricSink string string
datatype epoch_cadence = CadenceMonthly | CadenceQuarterly | CadenceYearly
datatype privacy_level = PrivacyStandard | PrivacyHigh

record search_config =
  sc_semantic :: bool
  sc_xlmr_path :: "string option"
  sc_int4 :: bool
  sc_max_shards :: nat

record 'p chat_storage_config =
  cf_data_dir :: string
  cf_gateway_url :: string
  cf_privacy_mode :: 'p
  cf_archive_backend :: archive_backend
  cf_media_sink :: media_blob_sink
  cf_search :: search_config
  cf_budget :: "budget_config option"
  cf_tenant :: "string option"
  cf_rotation :: epoch_cadence
  cf_privacy_level :: privacy_level

definition privacy_serialize :: "('p \<Rightarrow> u8) \<Rightarrow> 'p \<Rightarrow> u8" where
  "privacy_serialize as_u8 m = as_u8 m"

definition privacy_deserialize :: "(u8 \<Rightarrow> 'p option) \<Rightarrow> u8 \<Rightarrow> string + 'p" where
  "privacy_deserialize from_u8 v =
     (case from_u8 v of
        None \<Rightarrow> Inl (''invalid PrivacyMode value: '' @ dec_nat (unat v))
      | Some m \<Rightarrow> Inr m)"

definition default_search_config :: search_config where
  "default_search_config = \<lparr>sc_semantic = False, sc_xlmr_path = None, sc_int4 = True, sc_max_shards = 64\<rparr>"

definition default_config :: "'p \<Rightarrow> 'p chat_storage_config" where
  "default_config secured =
     \<lparr>cf_data_dir = ''./data'', cf_gateway_url = ''http://localhost:8080'', cf_privacy_mode = secured,
      cf_archive_backend = archive_backend.Kdrive, cf_media_sink = KchatBackendSink, cf_search = default_search_config,
      cf_budget = None, cf_tenant = None, cf_rotation = CadenceMonthly, cf_privacy_level = PrivacyStandard\<rparr>"

text \<open>The configuration each binding receives. The privacy mode that Node passes is not looked at.\<close>

record ffi_config =
  fc_data_dir :: string
  fc_gateway_url :: string
  fc_tenant :: "string option"
  fc_max_db :: "u64 option"
  fc_max_cache :: "u64 option"

definition ffi_config_into_rust :: "'p \<Rightarrow> ffi_config \<Rightarrow> 'p chat_storage_config" where
  "ffi_config_into_rust secured c =
     \<lparr>cf_data_dir = fc_data_dir c, cf_gateway_url = fc_gateway_url c, cf_privacy_mode = secured,
      cf_archive_backend = archive_backend.Kdrive, cf_media_sink = KchatBackendSink, cf_search = default_search_config,
      cf_budget = Some \<lparr>bg_max_db = (case fc_max_db c of None \<Rightarrow> 512 * 1024 * 1024 | Some n \<Rightarrow> n),
        bg_max_cache = (case fc_max_cache c of None \<Rightarrow> 256 * 1024 * 1024 | Some n \<Rightarrow> n)\<rparr>,
      cf_tenant = fc_tenant c, cf_rotation = CadenceMonthly, cf_privacy_level = PrivacyStandard\<rparr>"

record js_config =
  jc_data_dir :: string
  jc_gateway_url :: string
  jc_tenant :: "string option"
  jc_privacy_mode :: "int option"
  jc_max_db :: "int option"
  jc_max_cache :: "int option"

definition js_config_into_rust :: "'p \<Rightarrow> js_config \<Rightarrow> 'p chat_storage_config" where
  "js_config_into_rust secured c =
     \<lparr>cf_data_dir = jc_data_dir c, cf_gateway_url = jc_gateway_url c, cf_privacy_mode = secured,
      cf_archive_backend = archive_backend.Kdrive, cf_media_sink = KchatBackendSink, cf_search = default_search_config,
      cf_budget = Some \<lparr>bg_max_db = i64_as_u64 (case jc_max_db c of None \<Rightarrow> 512 * 1024 * 1024 | Some n \<Rightarrow> n),
        bg_max_cache = i64_as_u64 (case jc_max_cache c of None \<Rightarrow> 256 * 1024 * 1024 | Some n \<Rightarrow> n)\<rparr>,
      cf_tenant = jc_tenant c, cf_rotation = CadenceMonthly, cf_privacy_level = PrivacyStandard\<rparr>"

section \<open>Errors\<close>

datatype ffi_error =
    FfiCrypto core_error | FfiStorage core_error | FfiSearch core_error | FfiMessage core_error
  | FfiTransport core_error | FfiInvalidInput string

text \<open>\<open>From<cs_core::Error>\<close>; the variants of models, tenants and quotas are raised nowhere in the core.\<close>

fun ffi_of_core :: "core_error \<Rightarrow> ffi_error" where
  "ffi_of_core (CCrypto e) = FfiCrypto (CCrypto e)"
| "ffi_of_core (CStorage e) = FfiStorage (CStorage e)"
| "ffi_of_core (CStorageText e) = FfiStorage (CStorageText e)"
| "ffi_of_core (CSegmentFailed i e) = FfiStorage (CSegmentFailed i e)"
| "ffi_of_core (CSearch e) = FfiSearch (CSearch e)"
| "ffi_of_core (CMessage e) = FfiMessage (CMessage e)"
| "ffi_of_core (CTransport e) = FfiTransport (CTransport e)"
| "ffi_of_core (CNotImplemented s) = FfiInvalidInput s"

datatype napi_status = InvalidArg | GenericFailure
datatype napi_reason = ReasonText string | ReasonOf core_error

record napi_error =
  ne_status :: napi_status
  ne_reason :: napi_reason

definition js_invalid :: "string \<Rightarrow> napi_error" where
  "js_invalid msg = \<lparr>ne_status = InvalidArg, ne_reason = ReasonText msg\<rparr>"

text \<open>
  An error of the message pipeline reaches the core as \<open>MessageError::Custom\<close>, never as \<open>MessageError::Validation\<close>, so that its case
  is the last one.
\<close>

definition to_napi_error :: "core_error \<Rightarrow> napi_error" where
  "to_napi_error e =
     \<lparr>ne_status = (case e of CSearch (QueryParse _) \<Rightarrow> InvalidArg | _ \<Rightarrow> GenericFailure), ne_reason = ReasonOf e\<rparr>"

section \<open>Arguments\<close>

text \<open>The core and the rendered error of \<open>Uuid::parse_str\<close>.\<close>

record 'w facade_env =
  fa_core :: "'w core_env"
  fa_uuid_error :: "string \<Rightarrow> string"

definition uuid_arg :: "(string \<Rightarrow> 'e) \<Rightarrow> 'w facade_env \<Rightarrow> string \<Rightarrow> string \<Rightarrow> 'e + uuid" where
  "uuid_arg bad F what s =
     (case ce_parse_uuid (fa_core F) s of
        None \<Rightarrow> Inl (bad (''invalid '' @ what @ '': '' @ fa_uuid_error F s))
      | Some u \<Rightarrow> Inr u)"

definition opt_uuid_arg :: "(string \<Rightarrow> 'e) \<Rightarrow> 'w facade_env \<Rightarrow> string \<Rightarrow> string option \<Rightarrow> 'e + uuid option" where
  "opt_uuid_arg bad F what s =
     (case s of None \<Rightarrow> Inr None | Some x \<Rightarrow> map_sum id Some (uuid_arg bad F what x))"

definition with_arg :: "'e + 'b \<Rightarrow> ('b \<Rightarrow> ('e, 'a) act) \<Rightarrow> ('e, 'a) act" where
  "with_arg r f = (case r of Inl e \<Rightarrow> fail e | Inr x \<Rightarrow> f x)"

section \<open>Construction\<close>

text \<open>\<open>hex\<close> is \<open>hex::decode\<close>. The environment holds everything else the core is built from.\<close>

definition facade_new ::
  "(string \<Rightarrow> 'e) \<Rightarrow> (core_error \<Rightarrow> 'e) \<Rightarrow> (string \<Rightarrow> string + bytes) \<Rightarrow> 'w core_env \<Rightarrow> 'p chat_storage_config \<Rightarrow> string \<Rightarrow>
     'e + ('w core_env \<times> core_state)" where
  "facade_new bad conv hex base cfg key_hex =
     (case hex key_hex of
        Inl e \<Rightarrow> Inl (bad (''invalid wrapping_key hex: '' @ e))
      | Inr key \<Rightarrow>
          if length key \<noteq> 32
          then Inl (bad (''wrapping_key must be 32 bytes (64 hex chars), got '' @ dec_nat (length key) @ '' bytes''))
          else let E = base\<lparr>ce_wrapping := key, ce_budget := cf_budget cfg\<rparr> in
            map_sum conv (Pair E) (core_new E))"

definition ffi_new ::
  "'p \<Rightarrow> (string \<Rightarrow> string + bytes) \<Rightarrow> 'w core_env \<Rightarrow> ffi_config \<Rightarrow> string \<Rightarrow> ffi_error + ('w core_env \<times> core_state)" where
  "ffi_new secured hex base c = facade_new FfiInvalidInput ffi_of_core hex base (ffi_config_into_rust secured c)"

definition js_new ::
  "'p \<Rightarrow> (string \<Rightarrow> string + bytes) \<Rightarrow> 'w core_env \<Rightarrow> js_config \<Rightarrow> string \<Rightarrow> napi_error + ('w core_env \<times> core_state)" where
  "js_new secured hex base c = facade_new js_invalid to_napi_error hex base (js_config_into_rust secured c)"

section \<open>Sending and receiving\<close>

definition facade_send_text ::
  "(string \<Rightarrow> 'e) \<Rightarrow> (core_error \<Rightarrow> 'e) \<Rightarrow> 'w facade_env \<Rightarrow> uuid \<Rightarrow> int \<Rightarrow> int \<Rightarrow> string \<Rightarrow> ustr \<Rightarrow> string option \<Rightarrow> ('e, uuid) act" where
  "facade_send_text bad conv F new_id created now cid text reply_to =
     with_arg (uuid_arg bad F ''conversation_id'' cid) (\<lambda>c.
     with_arg (opt_uuid_arg bad F ''reply_to'' reply_to) (\<lambda>r.
     mapE conv (send_text (fa_core F) new_id created now c text r)))"

definition ffi_send_text ::
  "'w facade_env \<Rightarrow> uuid \<Rightarrow> int \<Rightarrow> int \<Rightarrow> string \<Rightarrow> ustr \<Rightarrow> string option \<Rightarrow> (ffi_error, uuid) act" where
  "ffi_send_text = facade_send_text FfiInvalidInput ffi_of_core"

definition js_send_text ::
  "'w facade_env \<Rightarrow> uuid \<Rightarrow> int \<Rightarrow> int \<Rightarrow> string \<Rightarrow> ustr \<Rightarrow> string option \<Rightarrow> (napi_error, uuid) act" where
  "js_send_text = facade_send_text js_invalid to_napi_error"

text \<open>Counters are \<open>u64\<close> in one binding and \<open>i64\<close> in the other.\<close>

definition js_count :: "nat \<Rightarrow> int" where
  "js_count n = u64_as_i64 (word_of_nat n)"

record 'n ingest_out =
  io_new :: 'n
  io_updated :: 'n
  io_duplicate :: 'n
  io_cursor :: "bytes option"

definition facade_ingest_remote ::
  "(string \<Rightarrow> 'e) \<Rightarrow> (core_error \<Rightarrow> 'e) \<Rightarrow> (nat \<Rightarrow> 'n) \<Rightarrow> 'w facade_env \<Rightarrow> int \<Rightarrow> int \<Rightarrow> int \<Rightarrow> string \<Rightarrow> bytes option \<Rightarrow>
     core_state \<Rightarrow> store \<Rightarrow> 'w \<Rightarrow> ('e + 'n ingest_out) \<times> core_state \<times> store \<times> 'w" where
  "facade_ingest_remote bad conv num F now1 now2 now3 cid cursor c s w =
     (case uuid_arg bad F ''conversation_id'' cid of
        Inl e \<Rightarrow> (Inl e, c, s, w)
      | Inr u \<Rightarrow>
          (case ingest_remote_messages (fa_core F) now1 now2 now3 u cursor c s w of
             (r, c', s', w') \<Rightarrow>
               (map_sum conv (\<lambda>r. \<lparr>io_new = num (ig_new r), io_updated = num (ig_updated r),
                  io_duplicate = num (ig_duplicate r), io_cursor = ig_cursor r\<rparr>) r, c', s', w')))"

definition ffi_ingest_remote ::
  "'w facade_env \<Rightarrow> int \<Rightarrow> int \<Rightarrow> int \<Rightarrow> string \<Rightarrow> bytes option \<Rightarrow> core_state \<Rightarrow> store \<Rightarrow> 'w \<Rightarrow>
     (ffi_error + u64 ingest_out) \<times> core_state \<times> store \<times> 'w" where
  "ffi_ingest_remote = facade_ingest_remote FfiInvalidInput ffi_of_core word_of_nat"

definition js_ingest_remote ::
  "'w facade_env \<Rightarrow> int \<Rightarrow> int \<Rightarrow> int \<Rightarrow> string \<Rightarrow> bytes option \<Rightarrow> core_state \<Rightarrow> store \<Rightarrow> 'w \<Rightarrow>
     (napi_error + int ingest_out) \<times> core_state \<times> store \<times> 'w" where
  "js_ingest_remote = facade_ingest_remote js_invalid to_napi_error js_count"

definition ffi_send_media_bytes ::
  "'w facade_env \<Rightarrow> media_ids \<Rightarrow> bytes \<Rightarrow> int \<Rightarrow> string \<Rightarrow> bytes \<Rightarrow> string \<Rightarrow> ustr option \<Rightarrow> store \<Rightarrow> 'w \<Rightarrow>
     (ffi_error + media_sent) \<times> store \<times> 'w" where
  "ffi_send_media_bytes F ids nonce now cid data mime caption s w =
     (case uuid_arg FfiInvalidInput F ''conversation_id'' cid of
        Inl e \<Rightarrow> (Inl e, s, w)
      | Inr u \<Rightarrow>
          (case send_media_bytes (fa_core F) ids nonce now u data mime caption s w of
             (r, s', w') \<Rightarrow> (map_sum ffi_of_core id r, s', w')))"

definition js_send_media ::
  "'w facade_env \<Rightarrow> media_ids \<Rightarrow> bytes \<Rightarrow> int \<Rightarrow> string \<Rightarrow> media_file \<Rightarrow> ustr option \<Rightarrow> store \<Rightarrow> 'w \<Rightarrow>
     (napi_error + media_sent) \<times> store \<times> 'w" where
  "js_send_media F ids nonce now cid file caption s w =
     (case uuid_arg js_invalid F ''conversation_id'' cid of
        Inl e \<Rightarrow> (Inl e, s, w)
      | Inr u \<Rightarrow>
          (case send_media (fa_core F) ids nonce now u file caption s w of
             (r, s', w') \<Rightarrow> (map_sum to_napi_error id r, s', w')))"

section \<open>Searching\<close>

record query_in =
  qi_query :: ustr
  qi_sender :: "string option"
  qi_conv :: "string option"
  qi_from_ms :: "int option"
  qi_to_ms :: "int option"
  qi_kind :: "string option"

definition kind_of_name :: "string \<Rightarrow> content_kind option" where
  "kind_of_name k =
     (if k = ''text'' then Some CkText else if k = ''media'' then Some CkMedia
      else if k = ''document'' then Some CkDocument else if k = ''link'' then Some CkLink else None)"

definition query_of :: "query_in \<Rightarrow> uuid option \<Rightarrow> content_kind option \<Rightarrow> search_query" where
  "query_of q conv kind =
     \<lparr>sq_query = qi_query q, sq_sender = qi_sender q, sq_conv = conv, sq_from_ms = qi_from_ms q,
      sq_to_ms = qi_to_ms q, sq_kind = kind\<rparr>"

definition ffi_query_into_rust :: "'w facade_env \<Rightarrow> query_in \<Rightarrow> ffi_error + search_query" where
  "ffi_query_into_rust F q =
     (case opt_uuid_arg FfiInvalidInput F ''conversation_id'' (qi_conv q) of
        Inl e \<Rightarrow> Inl e
      | Inr conv \<Rightarrow>
          (case qi_kind q of
             None \<Rightarrow> Inr (query_of q conv None)
           | Some k \<Rightarrow>
               (case kind_of_name k of
                  None \<Rightarrow> Inl (FfiInvalidInput (''unknown content_kind: '' @ [CHR 0x22] @ k @ [CHR 0x22]
                    @ '' (expected text/media/document/link)''))
                | Some c \<Rightarrow> Inr (query_of q conv (Some c)))))"

text \<open>Node takes a kind it does not know for text.\<close>

definition js_query_into_rust :: "'w facade_env \<Rightarrow> query_in \<Rightarrow> napi_error + search_query" where
  "js_query_into_rust F q =
     (case opt_uuid_arg js_invalid F ''conversation_id'' (qi_conv q) of
        Inl e \<Rightarrow> Inl e
      | Inr conv \<Rightarrow>
          Inr (query_of q conv (map_option (\<lambda>k. case kind_of_name k of None \<Rightarrow> CkText | Some c \<Rightarrow> c) (qi_kind q))))"

text \<open>\<open>CoreImpl::search\<close>; the engine has no source of cold shards. The results pass through unchanged.\<close>

definition core_search ::
  "rat fts_engine \<Rightarrow> (fuzzy_row list \<Rightarrow> fuzzy_row list) \<Rightarrow> (fuzzy_candidate list \<Rightarrow> fuzzy_candidate list) \<Rightarrow>
     (string \<Rightarrow> string) \<Rightarrow> 'w core_env \<Rightarrow> search_query \<Rightarrow> search_scope \<Rightarrow> store \<Rightarrow> (core_error + search_result list) option" where
  "core_search fts scan ord parse_id E q scope s =
     map_option (map_sum CSearch id) (execute_search fts scan ord (ce_lower E) parse_id False q scope s)"

definition ffi_search ::
  "rat fts_engine \<Rightarrow> (fuzzy_row list \<Rightarrow> fuzzy_row list) \<Rightarrow> (fuzzy_candidate list \<Rightarrow> fuzzy_candidate list) \<Rightarrow>
     (string \<Rightarrow> string) \<Rightarrow> 'w facade_env \<Rightarrow> query_in \<Rightarrow> search_scope \<Rightarrow> store \<Rightarrow> (ffi_error + search_result list) option" where
  "ffi_search fts scan ord parse_id F q scope s =
     (case ffi_query_into_rust F q of
        Inl e \<Rightarrow> Some (Inl e)
      | Inr sq \<Rightarrow> map_option (map_sum ffi_of_core id) (core_search fts scan ord parse_id (fa_core F) sq scope s))"

definition js_search ::
  "rat fts_engine \<Rightarrow> (fuzzy_row list \<Rightarrow> fuzzy_row list) \<Rightarrow> (fuzzy_candidate list \<Rightarrow> fuzzy_candidate list) \<Rightarrow>
     (string \<Rightarrow> string) \<Rightarrow> 'w facade_env \<Rightarrow> query_in \<Rightarrow> search_scope \<Rightarrow> store \<Rightarrow> (napi_error + search_result list) option" where
  "js_search fts scan ord parse_id F q scope s =
     (case js_query_into_rust F q of
        Inl e \<Rightarrow> Some (Inl e)
      | Inr sq \<Rightarrow> map_option (map_sum to_napi_error id) (core_search fts scan ord parse_id (fa_core F) sq scope s))"

section \<open>Hydration, backup, budget and restore\<close>

definition facade_hydrate ::
  "(string \<Rightarrow> 'e) \<Rightarrow> (core_error \<Rightarrow> 'e) \<Rightarrow> 'w facade_env \<Rightarrow> int \<Rightarrow> int \<Rightarrow> string \<Rightarrow> hydration_reason \<Rightarrow> store \<Rightarrow> 'w \<Rightarrow>
     ('e + hydrated) \<times> store \<times> 'w" where
  "facade_hydrate bad conv F now1 now2 mid reason s w =
     (case uuid_arg bad F ''message_id'' mid of
        Inl e \<Rightarrow> (Inl e, s, w)
      | Inr u \<Rightarrow>
          (case hydrate_message (fa_core F) now1 now2 u reason s w of
             (r, s', w') \<Rightarrow> (map_sum conv id r, s', w')))"

definition ffi_hydrate_message ::
  "'w facade_env \<Rightarrow> int \<Rightarrow> int \<Rightarrow> string \<Rightarrow> hydration_reason \<Rightarrow> store \<Rightarrow> 'w \<Rightarrow> (ffi_error + hydrated) \<times> store \<times> 'w" where
  "ffi_hydrate_message = facade_hydrate FfiInvalidInput ffi_of_core"

definition js_hydrate_message ::
  "'w facade_env \<Rightarrow> int \<Rightarrow> int \<Rightarrow> string \<Rightarrow> hydration_reason \<Rightarrow> store \<Rightarrow> 'w \<Rightarrow> (napi_error + hydrated) \<times> store \<times> 'w" where
  "js_hydrate_message = facade_hydrate js_invalid to_napi_error"

record 'n backup_out =
  bo_built :: 'n
  bo_uploaded :: 'n
  bo_generation :: 'n
  bo_bytes :: 'n

definition backup_out_of :: "(u64 \<Rightarrow> 'n) \<Rightarrow> backup_result \<Rightarrow> 'n backup_out" where
  "backup_out_of num r =
     \<lparr>bo_built = num (word_of_nat (br_built r)), bo_uploaded = num (word_of_nat (br_uploaded r)),
      bo_generation = num (br_generation r), bo_bytes = num (word_of_nat (br_bytes r))\<rparr>"

definition facade_run_backup ::
  "(core_error \<Rightarrow> 'e) \<Rightarrow> (u64 \<Rightarrow> 'n) \<Rightarrow> 'w facade_env \<Rightarrow> fresh \<Rightarrow> int \<Rightarrow> core_state \<Rightarrow> store \<Rightarrow> 'w \<Rightarrow>
     ('e + 'n backup_out) \<times> core_state \<times> store \<times> 'w" where
  "facade_run_backup conv num F new now c s w =
     (case run_incremental_backup (fa_core F) new now c s w of
        (r, c', s', w') \<Rightarrow> (map_sum conv (backup_out_of num) r, c', s', w'))"

definition ffi_run_backup ::
  "'w facade_env \<Rightarrow> fresh \<Rightarrow> int \<Rightarrow> core_state \<Rightarrow> store \<Rightarrow> 'w \<Rightarrow> (ffi_error + u64 backup_out) \<times> core_state \<times> store \<times> 'w" where
  "ffi_run_backup = facade_run_backup ffi_of_core id"

definition js_run_backup ::
  "'w facade_env \<Rightarrow> fresh \<Rightarrow> int \<Rightarrow> core_state \<Rightarrow> store \<Rightarrow> 'w \<Rightarrow> (napi_error + int backup_out) \<times> core_state \<times> store \<times> 'w" where
  "js_run_backup = facade_run_backup to_napi_error u64_as_i64"

record 'n offload_out =
  oo_messages :: 'n
  oo_media :: 'n
  oo_bytes :: 'n

definition facade_enforce ::
  "(core_error \<Rightarrow> 'e) \<Rightarrow> (nat \<Rightarrow> 'n) \<Rightarrow> 'w facade_env \<Rightarrow> int \<Rightarrow> ('e, 'n offload_out) act" where
  "facade_enforce conv num F now =
     bindA (mapE conv (enforce_storage_budget (fa_core F) now)) (\<lambda>r.
     ret \<lparr>oo_messages = num (or_messages r), oo_media = num (or_media r), oo_bytes = num (unat (or_bytes r))\<rparr>)"

definition ffi_enforce_budget :: "'w facade_env \<Rightarrow> int \<Rightarrow> (ffi_error, u64 offload_out) act" where
  "ffi_enforce_budget = facade_enforce ffi_of_core word_of_nat"

definition js_enforce_budget :: "'w facade_env \<Rightarrow> int \<Rightarrow> (napi_error, int offload_out) act" where
  "js_enforce_budget = facade_enforce to_napi_error js_count"

record 'n restore_out =
  ro_conversations :: 'n
  ro_messages :: 'n
  ro_media :: 'n
  ro_indexes :: 'n

definition facade_restore ::
  "(core_error \<Rightarrow> 'e) \<Rightarrow> (nat \<Rightarrow> 'n) \<Rightarrow> 'w facade_env \<Rightarrow> nat \<Rightarrow> store \<Rightarrow> 'w \<Rightarrow>
     ('e + 'n restore_out) \<times> restore_state \<times> store \<times> 'w" where
  "facade_restore conv num F now_secs s w =
     (case restore_from_backup (fa_core F) now_secs s w of
        (r, st, s', w') \<Rightarrow>
          (map_sum conv (\<lambda>r. \<lparr>ro_conversations = num (rr_conversations r), ro_messages = num (rr_messages r),
             ro_media = num (rr_media r), ro_indexes = num (rr_indexes r)\<rparr>) r, st, s', w'))"

definition ffi_restore_from_backup ::
  "'w facade_env \<Rightarrow> nat \<Rightarrow> store \<Rightarrow> 'w \<Rightarrow> (ffi_error + u64 restore_out) \<times> restore_state \<times> store \<times> 'w" where
  "ffi_restore_from_backup = facade_restore ffi_of_core word_of_nat"

definition js_restore_from_backup ::
  "'w facade_env \<Rightarrow> nat \<Rightarrow> store \<Rightarrow> 'w \<Rightarrow> (napi_error + int restore_out) \<times> restore_state \<times> store \<times> 'w" where
  "js_restore_from_backup = facade_restore to_napi_error js_count"

section \<open>Conversations and timelines\<close>

definition storage_as :: "(core_error \<Rightarrow> 'e) \<Rightarrow> (storage_error, 'a) act \<Rightarrow> ('e, 'a) act" where
  "storage_as conv m = mapE (\<lambda>e. conv (CStorage e)) m"

text \<open>The canonical form of an identifier that parses, any other text as it is.\<close>

definition normalized :: "'w facade_env \<Rightarrow> string \<Rightarrow> string" where
  "normalized F cid = (case ce_parse_uuid (fa_core F) cid of None \<Rightarrow> cid | Some u \<Rightarrow> u)"

definition seeded_conversation :: "int \<Rightarrow> string \<Rightarrow> ustr option \<Rightarrow> string option \<Rightarrow> conversation" where
  "seeded_conversation now cid title scope =
     (let c = conversation_legacy cid (map_option utf8 title) False False None now in
      case scope of None \<Rightarrow> c | Some x \<Rightarrow> c\<lparr>c_scope := x\<rparr>)"

definition ffi_seed_conversation ::
  "'w facade_env \<Rightarrow> int \<Rightarrow> string \<Rightarrow> ustr option \<Rightarrow> string option \<Rightarrow> (ffi_error, unit) act" where
  "ffi_seed_conversation F now cid title scope =
     storage_as ffi_of_core (insert_conversation (seeded_conversation now (normalized F cid) title scope))"

definition js_seed_conversation ::
  "'w facade_env \<Rightarrow> int \<Rightarrow> string \<Rightarrow> ustr option \<Rightarrow> string option \<Rightarrow> (napi_error, unit) act" where
  "js_seed_conversation F now cid title scope =
     storage_as to_napi_error (insert_conversation (seeded_conversation now cid title scope))"

record timeline_entry =
  te_id :: string
  te_conv :: string
  te_sender :: string
  te_created_ms :: int
  te_kind :: string
  te_text :: "ustr option"
  te_reply_to :: "string option"
  te_edited_ms :: "int option"
  te_deleted_ms :: "int option"

definition timeline_entry_of :: "store \<Rightarrow> timeline_row \<Rightarrow> timeline_entry" where
  "timeline_entry_of s r =
     \<lparr>te_id = tl_id r, te_conv = tl_conv r, te_sender = tl_sender r, te_created_ms = tl_created_ms r,
      te_kind = kind_as_str (tl_kind r),
      te_text = (case fst (fetch_body (tl_id r) s) of Inr (Some b) \<Rightarrow> b_text b | _ \<Rightarrow> None),
      te_reply_to = tl_reply_to r, te_edited_ms = tl_edited_ms r, te_deleted_ms = tl_deleted_ms r\<rparr>"

definition facade_timeline ::
  "(core_error \<Rightarrow> 'e) \<Rightarrow> string \<Rightarrow> nat \<Rightarrow> int option \<Rightarrow> ('e, timeline_entry list) act" where
  "facade_timeline conv cid limit before s =
     (case storage_as conv (fetch_timeline cid limit before) s of
        (Inl e, s') \<Rightarrow> (Inl e, s')
      | (Inr rows, s') \<Rightarrow> (Inr (map (timeline_entry_of s') rows), s'))"

definition ffi_get_timeline ::
  "'w facade_env \<Rightarrow> string \<Rightarrow> u64 option \<Rightarrow> int option \<Rightarrow> (ffi_error, timeline_entry list) act" where
  "ffi_get_timeline F cid limit before =
     facade_timeline ffi_of_core (normalized F cid) (case limit of None \<Rightarrow> 50 | Some n \<Rightarrow> unat n) before"

text \<open>A negative limit becomes a huge \<open>usize\<close>.\<close>

definition js_get_timeline ::
  "'w facade_env \<Rightarrow> string \<Rightarrow> int option \<Rightarrow> int option \<Rightarrow> (napi_error, timeline_entry list) act" where
  "js_get_timeline F cid limit before =
     facade_timeline to_napi_error cid (case limit of None \<Rightarrow> 50 | Some n \<Rightarrow> unat (i64_as_u64 n)) before"

record 'n storage_stats =
  ss_db_size :: 'n
  ss_messages :: int
  ss_media :: int
  ss_conversations :: int
  ss_evictable :: int

definition facade_stats :: "(core_error \<Rightarrow> 'e) \<Rightarrow> (u64 \<Rightarrow> 'n) \<Rightarrow> 'w facade_env \<Rightarrow> ('e, 'n storage_stats) act" where
  "facade_stats conv num F s =
     (case ce_db_size (fa_core F) s of
        Inl e \<Rightarrow> (Inl (conv (CStorage e)), s)
      | Inr db_size \<Rightarrow>
          bindA (query (\<lambda>t. (length (filter (\<lambda>r. rs_deleted_ms r = None) (t_skel t)), length (t_media t), length (t_conv t))))
            (\<lambda>(messages, media, conversations).
          bindA (storage_as conv (fetch_evictable_bodies 1000)) (\<lambda>bodies.
          bindA (storage_as conv (fetch_evictable_media 1000)) (\<lambda>assets.
          ret \<lparr>ss_db_size = num db_size, ss_messages = int messages, ss_media = int media,
               ss_conversations = int conversations, ss_evictable = int (length bodies + length assets)\<rparr>))) s)"

definition ffi_get_storage_stats :: "'w facade_env \<Rightarrow> (ffi_error, u64 storage_stats) act" where
  "ffi_get_storage_stats = facade_stats ffi_of_core id"

definition js_get_storage_stats :: "'w facade_env \<Rightarrow> (napi_error, int storage_stats) act" where
  "js_get_storage_stats = facade_stats to_napi_error u64_as_i64"

record conversation_out =
  co_id :: string
  co_pinned :: bool
  co_muted :: bool
  co_last_message_id :: "string option"
  co_last_activity_ms :: int
  co_type :: string
  co_scope :: string
  co_tenant :: string

definition conversation_out_of :: "conversation \<Rightarrow> conversation_out" where
  "conversation_out_of c =
     \<lparr>co_id = c_id c, co_pinned = c_pinned c, co_muted = c_muted c, co_last_message_id = c_last_message_id c,
      co_last_activity_ms = c_last_activity_ms c, co_type = c_type c, co_scope = c_scope c, co_tenant = c_tenant c\<rparr>"

definition facade_conversations :: "(core_error \<Rightarrow> 'e) \<Rightarrow> ('e, conversation_out list) act" where
  "facade_conversations conv =
     bindA (storage_as conv list_all_conversations) (\<lambda>cs. ret (map conversation_out_of cs))"

definition ffi_list_conversations :: "(ffi_error, conversation_out list) act" where
  "ffi_list_conversations = facade_conversations ffi_of_core"

definition js_list_conversations :: "(napi_error, conversation_out list) act" where
  "js_list_conversations = facade_conversations to_napi_error"

definition ffi_count_messages :: "'w facade_env \<Rightarrow> string \<Rightarrow> (ffi_error, int) act" where
  "ffi_count_messages F cid = storage_as ffi_of_core (count_messages (normalized F cid))"

definition js_count_messages :: "string \<Rightarrow> (napi_error, int) act" where
  "js_count_messages cid = storage_as to_napi_error (count_messages cid)"

definition ffi_clear_all_data :: "(ffi_error, unit) act" where
  "ffi_clear_all_data = storage_as ffi_of_core clear_all_message_data"

definition js_clear_all_data :: "(napi_error, unit) act" where
  "js_clear_all_data = storage_as to_napi_error clear_all_message_data"

end
