(* ===== verification/Device.thy ===== *)
theory Device
  imports MediaCache Shards Facade
begin

text \<open>
  Registration of a device (\<open>CoreImpl::register_device\<close> and the two bindings): a key pair is made, the user enrolled, and
  the private key kept in a vault file under the data directory. The identity library \<open>kchat_drive_identity\<close> is the record
  \<open>identity\<close>: parsing of user ids, random device ids and keys, enrolment with result \<open>'n\<close>, and the vault \<open>'v\<close> with its
  exported entries \<open>'e\<close>. What is relied on is \<open>vault_ok\<close>. The disk is the one of theory \<open>MediaCache\<close>.
\<close>

section \<open>The identity library\<close>

record ('u, 'n, 'v, 'e) identity =
  id_parse_user :: "string \<Rightarrow> 'u option"
  id_new_user :: 'u
  id_device :: bytes
  id_private_key :: bytes
  id_show_device :: "bytes \<Rightarrow> string"
  id_hex :: "bytes \<Rightarrow> string"
  id_enroll :: "'u \<Rightarrow> string option \<Rightarrow> string + 'n"
  vl_from_master :: "bytes \<Rightarrow> 'v"
  vl_import :: "'v \<Rightarrow> 'e \<Rightarrow> 'v"
  vl_store :: "'v \<Rightarrow> string \<Rightarrow> bytes \<Rightarrow> string + 'v"
  vl_export :: "'v \<Rightarrow> 'e"

record device_registration =
  dv_id :: string
  dv_registered :: bool

text \<open>An error of another library reaches the caller as the text of a storage error.\<close>

datatype device_error = DeviceCore core_error | DeviceText string

definition vault_path :: "string \<Rightarrow> string" where
  "vault_path data_dir = path_join data_dir ''device_vault.bin''"

section \<open>Registration\<close>

text \<open>A vault file that cannot be read or decoded counts as absent.\<close>

definition load_vault ::
  "('u, 'n, 'v, 'e) identity \<Rightarrow> 'e json \<Rightarrow> string \<Rightarrow> bytes \<Rightarrow> disk \<Rightarrow> 'v \<times> disk" where
  "load_vault I J data_dir key d =
     (let v = vl_from_master I key; p = vault_path data_dir in
      if file_at p d = None then (v, d)
      else case fs_read p d of
          (Inl _, d1) \<Rightarrow> (v, d1)
        | (Inr data, d1) \<Rightarrow> ((case js_read J data of Inl _ \<Rightarrow> v | Inr es \<Rightarrow> vl_import I v es), d1))"

definition device_key_id :: "('u, 'n, 'v, 'e) identity \<Rightarrow> string" where
  "device_key_id I = ''device:'' @ id_hex I (id_device I)"

definition register_device ::
  "prims \<Rightarrow> ('u, 'n, 'v, 'e) identity \<Rightarrow> 'e json \<Rightarrow> bytes \<Rightarrow> string \<Rightarrow> string \<Rightarrow> disk \<Rightarrow> (device_error + device_registration) \<times> disk" where
  "register_device P I J wrapping data_dir token d =
     (let user = (case id_parse_user I token of Some u \<Rightarrow> u | None \<Rightarrow> id_new_user I) in
      case id_enroll I user (Some (''device-'' @ id_show_device I (id_device I))) of
        Inl e \<Rightarrow> (Inl (DeviceText e), d)
      | Inr enrolment \<Rightarrow>
     (case derive_local_db_key P wrapping of
        Inl e \<Rightarrow> (Inl (DeviceCore (CCrypto e)), d)
      | Inr key \<Rightarrow>
     (case load_vault I J data_dir key d of (v, d1) \<Rightarrow>
      case vl_store I v (device_key_id I) (id_private_key I) of
        Inl e \<Rightarrow> (Inl (DeviceText e), d1)
      | Inr v' \<Rightarrow>
     (case js_write J (vl_export I v') of
        Inl e \<Rightarrow> (Inl (DeviceText e), d1)
      | Inr data \<Rightarrow>
     (case fs_write (vault_path data_dir) data d1 of
        (Inl e, d2) \<Rightarrow> (Inl (DeviceText e), d2)
      | (Inr _, d2) \<Rightarrow> (Inr \<lparr>dv_id = id_hex I (id_device I), dv_registered = True\<rparr>, d2))))))"

text \<open>The bindings pass the result through and convert the error, whose text they keep.\<close>

fun core_of_device :: "device_error \<Rightarrow> core_error" where
  "core_of_device (DeviceCore e) = e"
| "core_of_device (DeviceText e) = CStorageText (OfCodec e)"

definition ffi_register_device ::
  "prims \<Rightarrow> ('u, 'n, 'v, 'e) identity \<Rightarrow> 'e json \<Rightarrow> bytes \<Rightarrow> string \<Rightarrow> string \<Rightarrow> disk \<Rightarrow> (ffi_error + device_registration) \<times> disk" where
  "ffi_register_device P I J wrapping data_dir token d =
     (case register_device P I J wrapping data_dir token d of
        (r, d') \<Rightarrow> (map_sum (ffi_of_core \<circ> core_of_device) id r, d'))"

definition js_register_device ::
  "prims \<Rightarrow> ('u, 'n, 'v, 'e) identity \<Rightarrow> 'e json \<Rightarrow> bytes \<Rightarrow> string \<Rightarrow> string \<Rightarrow> disk \<Rightarrow> (napi_error + device_registration) \<times> disk" where
  "js_register_device P I J wrapping data_dir token d =
     (case register_device P I J wrapping data_dir token d of
        (r, d') \<Rightarrow> (map_sum (to_napi_error \<circ> core_of_device) id r, d'))"

section \<open>What is relied on\<close>

text \<open>
  \<open>vl_keys v\<close> are the keys a vault holds: none at first, one more after a store, and again those of an exported vault when its
  entries are imported under the same master key.
\<close>

definition vault_ok :: "('u, 'n, 'v, 'e) identity \<Rightarrow> ('v \<Rightarrow> string \<Rightarrow> bytes option) \<Rightarrow> ('v \<Rightarrow> bytes) \<Rightarrow> bool" where
  "vault_ok I vl_keys master \<longleftrightarrow>
     (\<forall>m. vl_keys (vl_from_master I m) = Map.empty \<and> master (vl_from_master I m) = m)
     \<and> (\<forall>v i k v'. vl_store I v i k = Inr v' \<longrightarrow> vl_keys v' = (vl_keys v)(i \<mapsto> k) \<and> master v' = master v)
     \<and> (\<forall>v es. master (vl_import I v es) = master v)
     \<and> (\<forall>v. vl_keys (vl_import I (vl_from_master I (master v)) (vl_export I v)) = vl_keys v)"

lemma load_vault_master: "vault_ok I vl_keys master \<Longrightarrow> master (fst (load_vault I J dir key d)) = key"
  by (auto simp: load_vault_def vault_ok_def Let_def split: prod.split sum.split)

lemma load_vault_read:
  assumes "healthy d" and "file_at (vault_path dir) d = Some f" and "js_read J (df_content f) = Inr es"
  shows "load_vault I J dir key d = (vl_import I (vl_from_master I key) es, d)"
  using assms by (simp add: load_vault_def fs_read_def Let_def)

text \<open>What registration leaves behind, whatever the vault it started from.\<close>

lemma stored_vault:
  assumes "vault_ok I vl_keys master" and "json_ok J" and "derive_local_db_key P w = Inr key"
    and "register_device P I J w dir token d = (Inr r, d')"
    and "load_vault I J dir key d = (v, d1)" and "healthy d1"
  shows "vl_keys (fst (load_vault I J dir key d')) = (vl_keys v)(device_key_id I \<mapsto> id_private_key I) \<and> healthy d'"
proof -
  obtain v' data where v': "vl_store I v (device_key_id I) (id_private_key I) = Inr v'" "js_write J (vl_export I v') = Inr data"
      and d': "d' = put_file (vault_path dir) data d1"
    using assms(3-6) by (auto simp: register_device_def fs_write_def Let_def split: sum.splits)
  have m: "master v = key" using load_vault_master [OF assms(1), of J dir key d] assms(5) by simp
  have "js_read J data = Inr (vl_export I v')" using assms(2) v'(2) by (simp add: json_ok_def)
  then have "fst (load_vault I J dir key d') = vl_import I (vl_from_master I key) (vl_export I v')"
    using assms(6) by (simp add: d' load_vault_def fs_read_def Let_def)
  moreover have "vl_keys v' = (vl_keys v)(device_key_id I \<mapsto> id_private_key I)" "master v' = key"
    using assms(1) v'(1) m by (simp_all add: vault_ok_def)
  then have "vl_keys (vl_import I (vl_from_master I key) (vl_export I v')) = (vl_keys v)(device_key_id I \<mapsto> id_private_key I)"
    using assms(1) unfolding vault_ok_def by metis
  ultimately show ?thesis using assms(6) by (simp add: d')
qed

text \<open>A vault that keeps its entries in the clear, for the witnesses.\<close>

definition toy_identity :: "(unit, unit, bytes \<times> (string \<times> bytes) list, (string \<times> bytes) list) identity" where
  "toy_identity =
     \<lparr>id_parse_user = (\<lambda>_. None), id_new_user = (), id_device = [1], id_private_key = [42], id_show_device = (\<lambda>_. ''d1''),
      id_hex = (\<lambda>_. ''01''), id_enroll = (\<lambda>_ _. Inr ()), vl_from_master = (\<lambda>m. (m, [])), vl_import = (\<lambda>(m, _) es. (m, es)),
      vl_store = (\<lambda>(m, es) i k. Inr (m, (i, k) # es)), vl_export = snd\<rparr>"

lemma toy_vault_ok: "vault_ok toy_identity (\<lambda>(_, es). map_of es) fst"
  by (auto simp: vault_ok_def toy_identity_def)

section \<open>Properties\<close>

text \<open>
  C34: registering a device adds its private key to the vault and keeps every key that was there, as long as the vault file
  can be read; the registration reports the device whose key it stored.
\<close>

theorem registration_keeps_keys:
  assumes "vault_ok I vl_keys master" and "json_ok J" and "derive_local_db_key P w = Inr key" and "healthy d"
    and "register_device P I J w dir token d = (Inr r, d')"
  shows "vl_keys (fst (load_vault I J dir key d'))
      = (vl_keys (fst (load_vault I J dir key d)))(device_key_id I \<mapsto> id_private_key I)
    \<and> dv_id r = id_hex I (id_device I) \<and> dv_registered r"
proof -
  have "snd (load_vault I J dir key d) = d"
    using assms(4) by (simp add: load_vault_def fs_read_def Let_def split: option.split)
  then have l: "load_vault I J dir key d = (fst (load_vault I J dir key d), d)" by (metis prod.collapse)
  have "dv_id r = id_hex I (id_device I) \<and> dv_registered r"
    using assms(5) by (auto simp: register_device_def Let_def split: prod.splits sum.splits)
  with stored_vault [OF assms(1-3) assms(5) l assms(4)] show ?thesis by blast
qed

theorem registration_keeps_keys_witness:
  "\<exists>r d'. register_device toy_prims toy_identity (one_json [(''device:01'', [42])] [7]) [] ''/d'' ''u''
      \<lparr>dk_files = [], dk_now = 0, dk_faults = []\<rparr> = (Inr r, d') \<and> dv_id r = ''01''
    \<and> map_of (snd (fst (load_vault toy_identity (one_json [(''device:01'', [42])] [7]) ''/d'' (str_bytes ''chat-storage/local-db/v1'') d')))
      = [''device:01'' \<mapsto> [42]]"
proof -
  let ?J = "one_json [(''device:01'', [42])] [7] :: (string \<times> bytes) list json"
  let ?d = "\<lparr>dk_files = [], dk_now = 0, dk_faults = []\<rparr> :: disk"
  have k: "derive_local_db_key toy_prims [] = Inr (str_bytes ''chat-storage/local-db/v1'')"
    by (simp add: derive_local_db_key_def hkdf_derive_def toy_prims_def)
  have h: "healthy ?d" by (simp add: healthy_def)
  obtain r d' where run: "register_device toy_prims toy_identity ?J [] ''/d'' ''u'' ?d = (Inr r, d')"
    by (simp add: register_device_def k load_vault_def file_at_def toy_identity_def one_json_def device_key_id_def fs_write_def next_io_def Let_def)
  from registration_keeps_keys [OF toy_vault_ok one_json_ok k h run] run
  show ?thesis
    by (auto simp: load_vault_def [of _ _ _ _ ?d] file_at_def [of _ ?d] toy_identity_def device_key_id_def Let_def split_def)
qed

text \<open>
  a single failed read of the vault file costs every key in it: the registration still succeeds, and writes a vault with the
  new key alone over the old one.
\<close>

theorem unreadable_vault_overwritten:
  assumes "vault_ok I vl_keys master" and "json_ok J" and "derive_local_db_key P w = Inr key"
    and "file_at (vault_path dir) d = Some f" and "dk_faults d = [Some (IoFault e rest)]" and "distinct (map df_path (dk_files d))"
    and "register_device P I J w dir token d = (Inr r, d')"
  shows "vl_keys (fst (load_vault I J dir key d')) = [device_key_id I \<mapsto> id_private_key I]"
proof -
  have "load_vault I J dir key d = (vl_from_master I key, d\<lparr>dk_faults := []\<rparr>)"
    using assms(4,5) by (simp add: load_vault_def fs_read_def next_io_def Let_def)
  moreover have "healthy (d\<lparr>dk_faults := []\<rparr>)" using assms(6) by (simp add: healthy_def)
  ultimately have "vl_keys (fst (load_vault I J dir key d')) = (vl_keys (vl_from_master I key))(device_key_id I \<mapsto> id_private_key I)"
    using stored_vault [OF assms(1-3,7)] by blast
  then show ?thesis using assms(1) by (simp add: vault_ok_def)
qed

theorem unreadable_vault_overwritten_witness:
  "\<exists>r d'. register_device toy_prims toy_identity (one_json [(''device:01'', [42])] [7]) [] ''/d'' ''u''
      \<lparr>dk_files = [\<lparr>df_path = ''/d/device_vault.bin'', df_content = [9], df_mtime = 0\<rparr>], dk_now = 1,
       dk_faults = [Some (IoFault ''EIO'' None)]\<rparr> = (Inr r, d')
    \<and> map_of (snd (fst (load_vault toy_identity (one_json [(''device:01'', [42])] [7]) ''/d'' (str_bytes ''chat-storage/local-db/v1'') d')))
      = [''device:01'' \<mapsto> [42]]"
proof -
  let ?J = "one_json [(''device:01'', [42])] [7] :: (string \<times> bytes) list json"
  let ?f = "\<lparr>df_path = ''/d/device_vault.bin'', df_content = [9], df_mtime = 0\<rparr> :: disk_file"
  let ?d = "\<lparr>dk_files = [?f], dk_now = 1, dk_faults = [Some (IoFault ''EIO'' None)]\<rparr> :: disk"
  have k: "derive_local_db_key toy_prims [] = Inr (str_bytes ''chat-storage/local-db/v1'')"
    by (simp add: derive_local_db_key_def hkdf_derive_def toy_prims_def)
  have f: "file_at (vault_path ''/d'') ?d = Some ?f" by (simp add: file_at_def vault_path_def path_join_def)
  obtain r d' where run: "register_device toy_prims toy_identity ?J [] ''/d'' ''u'' ?d = (Inr r, d')"
    using f by (simp add: register_device_def k load_vault_def fs_read_def toy_identity_def one_json_def device_key_id_def fs_write_def next_io_def Let_def)
  from unreadable_vault_overwritten [OF toy_vault_ok one_json_ok k f _ _ run] run
  show ?thesis by (auto simp: toy_identity_def device_key_id_def split_def)
qed

end
