(* ===== verification/Formats.thy ===== *)
theory Formats
  imports Archive Convergent
begin

text \<open>
  What is left of \<open>crypto/\<close>, \<open>formats/\<close> and the small modules: the AEADs of \<open>crypto/aead.rs\<close> as callers name them,
  streaming hashes (\<open>crypto/content_hash.rs\<close>), the encodings of ML-DSA keys
  (\<open>crypto/signing.rs\<close>), signatures over encoded manifests (\<open>formats/manifest.rs\<close>), fixed-size byte strings
  (\<open>formats/mod.rs\<close>), kinds of media (\<open>formats/media_descriptor.rs\<close>), tenants and quotas (\<open>tenant/\<close>), the stubs
  of \<open>media/\<close>, the scheduler's jobs, the timer of \<open>perf.rs\<close> and the sizes of \<open>util.rs\<close>. AES-GCM, the incremental hasher, key encodings and readers are parameters.
\<close>

section \<open>AEADs\<close>

record aes =
  ae_seal :: "bytes \<Rightarrow> bytes \<Rightarrow> bytes \<Rightarrow> bytes \<Rightarrow> bytes option"
  ae_open :: "bytes \<Rightarrow> bytes \<Rightarrow> bytes \<Rightarrow> bytes \<Rightarrow> bytes option"

definition seal_aes :: "aes \<Rightarrow> bytes \<Rightarrow> bytes \<Rightarrow> bytes \<Rightarrow> bytes \<Rightarrow> crypto_error + bytes" where
  "seal_aes A key nonce plaintext aad =
     (case ae_seal A key nonce plaintext aad of
        None \<Rightarrow> Inl (Aead ''aes-256-gcm seal failed'') | Some ct \<Rightarrow> Inr ct)"

definition open_aes :: "aes \<Rightarrow> bytes \<Rightarrow> bytes \<Rightarrow> bytes \<Rightarrow> bytes \<Rightarrow> crypto_error + bytes" where
  "open_aes A key nonce ciphertext aad =
     (case ae_open A key nonce ciphertext aad of
        None \<Rightarrow> Inl (Aead ''aes-256-gcm open failed'') | Some pt \<Rightarrow> Inr pt)"

definition seal_in_place :: "prims \<Rightarrow> bytes \<Rightarrow> bytes \<Rightarrow> bytes \<Rightarrow> bytes \<Rightarrow> crypto_error + bytes" where
  "seal_in_place P key nonce plaintext aad = seal P key nonce plaintext aad"

definition open_in_place :: "prims \<Rightarrow> bytes \<Rightarrow> bytes \<Rightarrow> bytes \<Rightarrow> bytes \<Rightarrow> crypto_error + bytes" where
  "open_in_place P key nonce ciphertext aad = open_sealed P key nonce ciphertext aad"

text \<open>An AEAD as its callers see it, over the primitive it wraps.\<close>

locale aead =
  fixes raw_seal raw_open :: "'p \<Rightarrow> bytes \<Rightarrow> bytes \<Rightarrow> bytes \<Rightarrow> bytes \<Rightarrow> bytes option"
    and sealed opened :: "'p \<Rightarrow> bytes \<Rightarrow> bytes \<Rightarrow> bytes \<Rightarrow> bytes \<Rightarrow> crypto_error + bytes"
  assumes sealed_iff: "sealed P k n p a = Inr c \<longleftrightarrow> raw_seal P k n p a = Some c"
    and opened_iff: "opened P k n c a = Inr p \<longleftrightarrow> raw_open P k n c a = Some p"
    and sealed_error: "sealed P k n p a = Inl e \<Longrightarrow> \<exists>m. e = Aead m"
    and opened_error: "opened P k n c a = Inl e \<Longrightarrow> \<exists>m. e = Aead m"
begin

definition sound :: "'p \<Rightarrow> bool" where
  "sound P \<longleftrightarrow> (\<forall>k n p a c. raw_seal P k n p a = Some c \<longrightarrow> raw_open P k n c a = Some p)"

lemma opens_sealed: "sound P \<Longrightarrow> sealed P k n p a = Inr c \<Longrightarrow> opened P k n c a = Inr p"
  by (simp add: sound_def sealed_iff opened_iff)

lemma sealed_inj: "sound P \<Longrightarrow> sealed P k n p a = Inr c \<Longrightarrow> sealed P k n q a = Inr c \<Longrightarrow> p = q"
  by (metis Inr_inject opens_sealed)

end

interpretation xchacha: aead pr_seal pr_open seal open_sealed
  by unfold_locales (auto simp: seal_def open_sealed_def split: option.splits)

interpretation aes_gcm: aead ae_seal ae_open seal_aes open_aes
  by unfold_locales (auto simp: seal_aes_def open_aes_def split: option.splits)

section \<open>Streaming hashes\<close>

text \<open>A reader yields its chunks or an error, each of at most 64 KiB, and nothing at its end.\<close>

record 'c hasher =
  hs_new :: 'c
  hs_update :: "'c \<Rightarrow> bytes \<Rightarrow> 'c"
  hs_finalize :: "'c \<Rightarrow> bytes"

fun hash_loop :: "'c hasher \<Rightarrow> (string + bytes) list \<Rightarrow> 'c \<Rightarrow> string + bytes" where
  "hash_loop H [] c = Inr (hs_finalize H c)"
| "hash_loop H (Inl e # rs) c = Inl e"
| "hash_loop H (Inr chunk # rs) c =
     (if length chunk = 0 then Inr (hs_finalize H c) else hash_loop H rs (hs_update H c chunk))"

definition content_hash_streaming :: "'c hasher \<Rightarrow> (string + bytes) list \<Rightarrow> string + bytes" where
  "content_hash_streaming H rs = hash_loop H rs (hs_new H)"

definition content_hash_hex :: "prims \<Rightarrow> (bytes \<Rightarrow> string) \<Rightarrow> bytes \<Rightarrow> string" where
  "content_hash_hex P hex d = hex (content_hash P d)"

text \<open>The incremental hasher computes the hash of what it was fed.\<close>

definition hasher_ok :: "prims \<Rightarrow> 'c hasher \<Rightarrow> bool" where
  "hasher_ok P H \<longleftrightarrow> (\<forall>chunks. hs_finalize H (foldl (hs_update H) (hs_new H) chunks) = pr_hash P (concat chunks))"

text \<open>What a reader delivers: the chunks before the first error or the first empty read, and that error.\<close>

fun delivered :: "(string + bytes) list \<Rightarrow> bytes list \<times> string option" where
  "delivered [] = ([], None)"
| "delivered (Inl e # rs) = ([], Some e)"
| "delivered (Inr chunk # rs) = (if chunk = [] then ([], None) else case delivered rs of (cs, e) \<Rightarrow> (chunk # cs, e))"

lemma hash_loop_delivered:
  "hash_loop H rs c =
     (case delivered rs of (cs, Some e) \<Rightarrow> Inl e | (cs, None) \<Rightarrow> Inr (hs_finalize H (foldl (hs_update H) c cs)))"
  by (induction H rs c rule: hash_loop.induct) (auto split: prod.splits option.splits)

section \<open>Hybrid keys\<close>

definition ml_dsa_signing_key_len :: nat where "ml_dsa_signing_key_len = 4032"
definition ml_dsa_verifying_key_len :: nat where "ml_dsa_verifying_key_len = 1952"

text \<open>The encoding of a key and its decoding from an array of the right length.\<close>

record 'k key_codec =
  kc_encode :: "'k \<Rightarrow> bytes"
  kc_decode :: "bytes \<Rightarrow> 'k"

definition length_error :: "string \<Rightarrow> nat \<Rightarrow> nat \<Rightarrow> crypto_error" where
  "length_error what expected actual = Frame (what @ '' must be '' @ dec_nat expected @ '' bytes, got '' @ dec_nat actual)"

definition encode_ml_dsa_signing_key :: "'k key_codec \<Rightarrow> 'k \<Rightarrow> bytes" where
  "encode_ml_dsa_signing_key K sk = kc_encode K sk"

definition decode_ml_dsa_signing_key :: "'k key_codec \<Rightarrow> bytes \<Rightarrow> crypto_error + 'k" where
  "decode_ml_dsa_signing_key K bs =
     (if length bs \<noteq> ml_dsa_signing_key_len
      then Inl (length_error ''ml-dsa-65 signing key'' ml_dsa_signing_key_len (length bs))
      else Inr (kc_decode K bs))"

definition encode_ml_dsa_verifying_key :: "'k key_codec \<Rightarrow> 'k \<Rightarrow> bytes" where
  "encode_ml_dsa_verifying_key K vk = kc_encode K vk"

definition decode_ml_dsa_verifying_key :: "'k key_codec \<Rightarrow> bytes \<Rightarrow> crypto_error + 'k" where
  "decode_ml_dsa_verifying_key K bs =
     (if length bs \<noteq> ml_dsa_verifying_key_len
      then Inl (length_error ''ml-dsa-65 verifying key'' ml_dsa_verifying_key_len (length bs))
      else Inr (kc_decode K bs))"

text \<open>A key whose bytes cross a storage boundary: what is decoded, and from how many bytes.\<close>

locale sized_key =
  fixes len :: nat and enc :: "'k key_codec \<Rightarrow> 'k \<Rightarrow> bytes" and dec :: "'k key_codec \<Rightarrow> bytes \<Rightarrow> crypto_error + 'k"
  assumes enc_is: "enc K k = kc_encode K k"
    and dec_exact: "length bs = len \<Longrightarrow> dec K bs = Inr (kc_decode K bs)"
    and dec_sized: "dec K bs = Inr k \<Longrightarrow> length bs = len"
begin

lemma dec_enc:
  assumes "length (kc_encode K k) = len" and "kc_decode K (kc_encode K k) = k"
  shows "dec K (enc K k) = Inr k"
  using assms by (simp add: enc_is dec_exact)

end

interpretation sk_codec: sized_key ml_dsa_signing_key_len encode_ml_dsa_signing_key decode_ml_dsa_signing_key
  by unfold_locales (auto simp: encode_ml_dsa_signing_key_def decode_ml_dsa_signing_key_def split: if_splits)

interpretation vk_codec: sized_key ml_dsa_verifying_key_len encode_ml_dsa_verifying_key decode_ml_dsa_verifying_key
  by unfold_locales (auto simp: encode_ml_dsa_verifying_key_def decode_ml_dsa_verifying_key_def split: if_splits)

section \<open>Encoded manifests\<close>

definition sign_manifest :: "signing_key \<Rightarrow> bytes \<Rightarrow> crypto_error + bytes \<times> bytes" where
  "sign_manifest k manifest_bytes = sign_payload k manifest_bytes"

definition verify_manifest :: "verifying_key \<Rightarrow> bytes \<Rightarrow> bytes \<Rightarrow> bytes \<Rightarrow> crypto_error + unit" where
  "verify_manifest k manifest_bytes edsig pqc =
     (case verify_payload k manifest_bytes edsig pqc of
        Inl FailEd25519 \<Rightarrow> Inl (Signature ''verify_manifest: ed25519 verify failed'')
      | Inl FailMlDsa \<Rightarrow> Inl (Signature ''verify_manifest: ml-dsa-65 verify failed'')
      | Inr _ \<Rightarrow> Inr ())"

definition hash_encoded :: "prims \<Rightarrow> 'm codec \<Rightarrow> 'm \<Rightarrow> crypto_error + bytes" where
  "hash_encoded P C m =
     (case cbor_to_vec C m of
        Inl _ \<Rightarrow> Inl (Frame ''manifest: hash CBOR encode failed'')
      | Inr bs \<Rightarrow> Inr (pr_hash P bs))"

definition compute_manifest_hash :: "prims \<Rightarrow> backup_manifest codec \<Rightarrow> backup_manifest \<Rightarrow> crypto_error + bytes" where
  "compute_manifest_hash = hash_encoded"

definition compute_archive_manifest_hash :: "prims \<Rightarrow> archive_manifest codec \<Rightarrow> archive_manifest \<Rightarrow> crypto_error + bytes" where
  "compute_archive_manifest_hash = hash_encoded"

text \<open>\<open>archive/manifest_builder.rs\<close> repeats the builder of the backups.\<close>

definition archive_build_manifest ::
  "uuid \<Rightarrow> u64 \<Rightarrow> bytes \<Rightarrow> segment_ref list \<Rightarrow> wrapped_epoch_key list \<Rightarrow> backup_manifest" where
  "archive_build_manifest fresh_id generation previous segments wrapped =
     \<lparr>bm_magic = backup_manifest_magic, bm_version = manifest_version, bm_id = fresh_id, bm_generation = generation,
      bm_previous = previous, bm_segments = segments, bm_shards = [], bm_media = [], bm_tombstones = [],
      bm_merkle_root = replicate 32 0, bm_signature = [], bm_pqc_signature = []\<rparr>"

definition archive_manifest_hash :: "prims \<Rightarrow> backup_manifest codec \<Rightarrow> backup_manifest \<Rightarrow> core_error + bytes" where
  "archive_manifest_hash P C m =
     (case cbor_to_vec C m of Inl e \<Rightarrow> Inl (CStorageText (OfCodec e)) | Inr d \<Rightarrow> Inr (content_hash P d))"

text \<open>The three ways to hash a backup manifest agree, so that a chain may be built with one and checked with another.\<close>

lemma manifest_hashes_agree:
  "archive_build_manifest = build_manifest" "archive_manifest_hash = manifest_hash"
  "compute_manifest_hash P C m = Inr h \<longleftrightarrow> manifest_hash P C m = Inr h"
  by (auto simp: fun_eq_iff archive_build_manifest_def build_manifest_def archive_manifest_hash_def manifest_hash_def
      compute_manifest_hash_def hash_encoded_def content_hash_def split: sum.splits)

definition encode_cbor_payload :: "'a codec \<Rightarrow> 'a \<Rightarrow> core_error + bytes" where
  "encode_cbor_payload C v = map_sum (\<lambda>e. CStorageText (OfCodec e)) id (cbor_to_vec C v)"

definition decode_cbor_payload :: "'a codec \<Rightarrow> bytes \<Rightarrow> core_error + 'a" where
  "decode_cbor_payload C bs = map_sum (\<lambda>e. CStorageText (OfCodec e)) id (cbor_from_slice C bs)"

text \<open>\<open>serde_bytes_array\<close>: a byte string of exactly the array's length.\<close>

definition serialize_array :: "bytes \<Rightarrow> bytes" where
  "serialize_array bs = bs"

definition deserialize_array :: "nat \<Rightarrow> bytes \<Rightarrow> string + bytes" where
  "deserialize_array n bs =
     (if length bs \<noteq> n then Inl (''expected '' @ dec_nat n @ '' bytes, got '' @ dec_nat (length bs)) else Inr bs)"

section \<open>Kinds of media\<close>

datatype media_kind = KindImage | KindVideo | KindAudio | KindDocument | KindSticker | KindGif

definition has_infix :: "string \<Rightarrow> string \<Rightarrow> bool" where
  "has_infix s p \<longleftrightarrow> list_ex (\<lambda>n. take (length p) (drop n s) = p) [0..<Suc (length s)]"

definition media_kind_of :: "media_descriptor \<Rightarrow> media_kind" where
  "media_kind_of d =
     (let top = takeWhile (\<lambda>c. c \<noteq> CHR ''/'') (md_mime d) in
      if top = ''image'' then (if has_infix (md_mime d) ''gif'' then KindGif else KindImage)
      else if top = ''video'' then KindVideo
      else if top = ''audio'' then KindAudio
      else KindDocument)"

section \<open>Tenants\<close>

datatype tenant_error = TenantQuotaExceeded string | TenantNotFound string | TenantCustom string

datatype plan_tier = TierFree | TierPro | TierEnterprise

record tenant_quota =
  tq_tier :: plan_tier
  tq_storage :: u64
  tq_egress :: u64
  tq_messages :: u64

definition default_quota :: tenant_quota where
  "default_quota = \<lparr>tq_tier = TierFree, tq_storage = 1024 * 1024 * 1024, tq_egress = 10 * 1024 * 1024 * 1024, tq_messages = 10000\<rparr>"

fun quota_for_tier :: "plan_tier \<Rightarrow> tenant_quota" where
  "quota_for_tier TierFree = default_quota"
| "quota_for_tier TierPro = \<lparr>tq_tier = TierPro, tq_storage = 100 * 1024 * 1024 * 1024,
     tq_egress = 1024 * 1024 * 1024 * 1024, tq_messages = 100000\<rparr>"
| "quota_for_tier TierEnterprise = \<lparr>tq_tier = TierEnterprise, tq_storage = -1, tq_egress = -1, tq_messages = -1\<rparr>"

section \<open>Stubs and plain data\<close>

definition generate_caption :: "bytes \<Rightarrow> string \<Rightarrow> core_error + string" where
  "generate_caption plaintext mime = Inl (CNotImplemented ''media::caption::generate_caption'')"

definition generate_thumbnail :: "bytes \<Rightarrow> string \<Rightarrow> core_error + bytes" where
  "generate_thumbnail plaintext mime = Inl (CNotImplemented ''media::thumbnail::generate_thumbnail'')"

definition media_download :: "string \<Rightarrow> core_error + bytes" where
  "media_download version = Inl (CNotImplemented ''media::download'')"

definition media_upload :: "bytes \<Rightarrow> core_error + unit" where
  "media_upload plaintext = Inl (CNotImplemented ''media::upload'')"

definition media_sink_upload_blob :: "string \<Rightarrow> bytes \<Rightarrow> core_error + unit" where
  "media_sink_upload_blob key ct = Inl (CNotImplemented ''media::sinks::kdrive_sink::upload_blob'')"

definition media_sink_download_blob :: "string \<Rightarrow> core_error + bytes" where
  "media_sink_download_blob key = Inl (CNotImplemented ''media::sinks::kdrive_sink::download_blob'')"

datatype job_type = JobArchiveFlush | JobBackupIncrement | JobSearchShardBuild | JobEvictionCheck | JobEpochRotation

record scheduled_job =
  jb_type :: job_type
  jb_interval_ms :: u64

text \<open>The scheduler of the desktop does nothing.\<close>

definition noop_schedule :: "scheduled_job \<Rightarrow> unit" where
  "noop_schedule job = ()"

definition zeroize :: "bytes \<Rightarrow> bytes" where
  "zeroize buf = map (\<lambda>_. 0) buf"

text \<open>
  \<open>PerfTimer\<close> of \<open>perf.rs\<close>: the readings of the monotonic clock, in milliseconds, are arguments.
\<close>

record perf_timer =
  pt_start :: nat
  pt_label :: string

definition perf_start :: "nat \<Rightarrow> string \<Rightarrow> perf_timer" where
  "perf_start now label = \<lparr>pt_start = now, pt_label = label\<rparr>"

definition perf_elapsed_ms :: "nat \<Rightarrow> perf_timer \<Rightarrow> nat" where
  "perf_elapsed_ms now t = now - pt_start t"

definition perf_show :: "nat \<Rightarrow> perf_timer \<Rightarrow> string" where
  "perf_show now t = pt_label t @ '': '' @ dec_nat (perf_elapsed_ms now t) @ ''ms''"

text \<open>
  \<open>format_bytes\<close> of \<open>util.rs\<close>. \<open>two\<close> renders the nearest \<open>f64\<close> of a number with two decimals; rounding to \<open>f64\<close> commutes with the
  division by a power of two.
\<close>

definition size_unit :: "nat \<Rightarrow> (nat \<times> string) option" where
  "size_unit n =
     (if 1024 ^ 4 \<le> n then Some (1024 ^ 4, '' TB'')
      else if 1024 ^ 3 \<le> n then Some (1024 ^ 3, '' GB'')
      else if 1024 ^ 2 \<le> n then Some (1024 ^ 2, '' MB'')
      else if 1024 \<le> n then Some (1024, '' KB'') else None)"

definition format_bytes :: "(rat \<Rightarrow> string) \<Rightarrow> u64 \<Rightarrow> string" where
  "format_bytes two b =
     (case size_unit (unat b) of
        Some (u, name) \<Rightarrow> two (of_nat (unat b) / of_nat u) @ name
      | None \<Rightarrow> dec_nat (unat b) @ '' B'')"

text \<open>The number in front of the unit is at least 1, and below 1024 except in the largest unit.\<close>

lemma size_unit_scales:
  assumes "size_unit n = Some (u, name)"
  shows "1 \<le> (of_nat n / of_nat u :: rat) \<and> (name \<noteq> '' TB'' \<longrightarrow> (of_nat n / of_nat u :: rat) < 1024)"
proof -
  have u: "0 < u" "u \<le> n" "name \<noteq> '' TB'' \<longrightarrow> n < 1024 * u"
    using assms by (auto simp: size_unit_def split: if_splits)
  have "(of_nat n :: rat) < of_nat (1024 * u)" if "name \<noteq> '' TB''" unfolding of_nat_less_iff using u(3) that by blast
  then show ?thesis using u(1,2) by (simp add: divide_simps)
qed

lemma format_bytes_small: "b < 1024 \<Longrightarrow> format_bytes two b = dec_nat (unat b) @ '' B''"
proof -
  assume "b < 1024"
  then have "unat b < 1024" by (simp add: word_less_nat_alt)
  then show ?thesis by (simp add: format_bytes_def size_unit_def)
qed

section \<open>The connection\<close>

text \<open>
  The codes of a failed statement that \<open>classify_rusqlite\<close> tells apart (\<open>local_store/mod.rs\<close>), and the size of the database
  (\<open>db_size_bytes\<close> of \<open>local_store/db.rs\<close>) from the answers to its two pragmas. SQLCipher answers the second with a text. A product
  beyond \<open>i64\<close> is a panic.
\<close>

datatype sqlite_code = CodeBusy | CodeLocked | CodeDiskFull | CodeOther

definition classify_rusqlite :: "sqlite_code option \<Rightarrow> sql_error \<Rightarrow> storage_error" where
  "classify_rusqlite code e =
     (case code of
        Some CodeBusy \<Rightarrow> DatabaseLocked
      | Some CodeLocked \<Rightarrow> DatabaseLocked
      | Some CodeDiskFull \<Rightarrow> DiskFull
      | _ \<Rightarrow> Sqlite e)"

datatype sqlite_value = ValInteger int | ValText string | ValOther

definition parse_i64 :: "string \<Rightarrow> int option" where
  "parse_i64 s =
     (let neg = (s \<noteq> [] \<and> hd s = CHR ''-'');
          ds = (if s \<noteq> [] \<and> (hd s = CHR ''-'' \<or> hd s = CHR ''+'') then tl s else s);
          v = (if neg then - int (digits_val ds) else int (digits_val ds))
      in if ds \<noteq> [] \<and> list_all is_digit_char ds \<and> - (2 ^ 63) \<le> v \<and> v < 2 ^ 63 then Some v else None)"

fun page_size_of :: "sqlite_value \<Rightarrow> int" where
  "page_size_of (ValInteger n) = n"
| "page_size_of (ValText s) = (case parse_i64 s of None \<Rightarrow> 4096 | Some n \<Rightarrow> n)"
| "page_size_of ValOther = 4096"

definition db_size_bytes :: "sql_error + int \<Rightarrow> sql_error + sqlite_value \<Rightarrow> (storage_error + u64) option" where
  "db_size_bytes page_count page_size =
     (case page_count of
        Inl e \<Rightarrow> Some (Inl (Sqlite e))
      | Inr n \<Rightarrow>
          (case page_size of
             Inl e \<Rightarrow> Some (Inl (Sqlite e))
           | Inr v \<Rightarrow>
               let total = n * page_size_of v in
               if - (2 ^ 63) \<le> total \<and> total < 2 ^ 63 then Some (Inr (word_of_int total)) else None))"

lemma parse_i64_dec_nat:
  assumes "n < 2 ^ 63"
  shows "parse_i64 (dec_nat n) = Some (int n)"
proof -
  note d = dec_nat_digits [of n]
  then have "hd (dec_nat n) \<noteq> CHR ''-'' \<and> hd (dec_nat n) \<noteq> CHR ''+''"
    by (cases "dec_nat n") (auto simp: is_digit_char_def)
  with d assms show ?thesis by (simp add: parse_i64_def Let_def)
qed

section \<open>Properties\<close>

text \<open>
  hashing a stream agrees with hashing its bytes at once: if no read fails, the digest is that of everything the reader
  delivered before its end, however it was cut into chunks; and if a read fails first, that error is the result and no digest is.
\<close>

theorem streaming_hash_agrees:
  assumes "hasher_ok P H"
  shows "content_hash_streaming H rs =
    (case delivered rs of (cs, None) \<Rightarrow> Inr (content_hash P (concat cs)) | (cs, Some e) \<Rightarrow> Inl e)
    \<and> content_hash_streaming H (map Inr [d]) = Inr (content_hash P d)"
proof -
  have "hs_finalize H (foldl (hs_update H) (hs_new H) cs) = pr_hash P (concat cs)" for cs
    using assms by (simp add: hasher_ok_def)
  from this this [of "[]"] this [of "[d]"] show ?thesis
    by (auto simp: content_hash_streaming_def hash_loop_delivered content_hash_def split: prod.split option.split)
qed

theorem streaming_hash_agrees_witness:
  "content_hash_streaming \<lparr>hs_new = [], hs_update = (@), hs_finalize = id\<rparr> [Inr [1, 2], Inr [3], Inr []] = Inr (content_hash toy_prims [1, 2, 3])"
proof -
  have fold: "foldl (@) xs cs = xs @ concat cs" for xs :: bytes and cs by (induction cs arbitrary: xs) auto
  have "hasher_ok toy_prims \<lparr>hs_new = [], hs_update = (@), hs_finalize = id\<rparr>"
    by (simp add: hasher_ok_def fold toy_prims_def)
  from streaming_hash_agrees [OF this, of "[Inr [1, 2], Inr [3], Inr []]" "[]"] show ?thesis by simp
qed

text \<open>
  what the hybrid key signs over encoded bytes verifies under the matching key, and only if both signatures do.
\<close>

theorem encoded_manifest_signed:
  assumes "key_pair sk vk" and "sign_manifest sk bs = Inr (es, ml)"
  shows "verify_manifest vk bs es ml = Inr ()
    \<and> (\<forall>es' ml' bs'. verify_manifest vk bs' es' ml' = Inr () \<longleftrightarrow>
         length es' = signature_length \<and> vk_ed25519 vk bs' es'
         \<and> length ml' = ml_dsa_signature_len \<and> vk_ml_decodes vk ml' \<and> vk_ml_dsa vk bs' ml')"
proof -
  have iff: "verify_manifest vk bs' es' ml' = Inr () \<longleftrightarrow> length es' = signature_length \<and> vk_ed25519 vk bs' es'
      \<and> length ml' = ml_dsa_signature_len \<and> vk_ml_decodes vk ml' \<and> vk_ml_dsa vk bs' ml'" for es' ml' bs'
    by (simp add: verify_manifest_def verify_payload_def verify_ed25519_def verify_ml_dsa_def decode_ml_dsa_signature_def)
  moreover have "length es = signature_length \<and> vk_ed25519 vk bs es" "length ml = ml_dsa_signature_len \<and> vk_ml_decodes vk ml \<and> vk_ml_dsa vk bs ml"
    using assms by (auto simp: key_pair_def sign_manifest_def sign_payload_def split: option.splits)
  ultimately show ?thesis by blast
qed

theorem encoded_manifest_signed_witness:
  "\<exists>es ml. sign_manifest toy_signer [1] = Inr (es, ml) \<and> verify_manifest open_verifier [1] es ml = Inr ()"
proof -
  obtain es ml where s: "sign_manifest toy_signer [1] = Inr (es, ml)" by (auto simp: sign_manifest_def sign_payload_def toy_signer_def)
  have "key_pair toy_signer open_verifier" by (rule toy_pair)
  from encoded_manifest_signed [OF this s] s show ?thesis by blast
qed

text \<open>
  the size of the database is exact for every size SQLite allows (fewer than \<open>2^32\<close> pages of at most 64 KiB), whether the size of a page
  is answered as a number or as a text: nothing overflows, and the result is the number of pages times the size of a page.
\<close>

theorem db_size_exact:
  assumes "pages < 2 ^ 32" and "page \<le> 2 ^ 16"
  shows "\<exists>w. db_size_bytes (Inr (int pages)) (Inr (ValInteger (int page))) = Some (Inr w)
    \<and> db_size_bytes (Inr (int pages)) (Inr (ValText (dec_nat page))) = Some (Inr w) \<and> unat w = pages * page"
proof -
  have "pages * page \<le> 2 ^ 32 * 2 ^ 16" using assms by (intro mult_le_mono) simp_all
  then have small: "pages * page < 2 ^ 63" by simp
  then have i: "int pages * int page < 2 ^ 63" by (metis of_nat_less_iff of_nat_mult of_nat_numeral of_nat_power)
  have "parse_i64 (dec_nat page) = Some (int page)" using assms(2) by (intro parse_i64_dec_nat) simp
  moreover have "unat (word_of_int (int pages * int page) :: u64) = pages * page"
    using small by (simp only: of_nat_mult [symmetric] of_int_of_nat_eq) (simp add: unat_of_nat del: of_nat_mult)
  ultimately show ?thesis using i by (auto simp: db_size_bytes_def Let_def intro: order_trans [of _ 0])
qed

theorem db_size_exact_witness:
  "\<exists>w. db_size_bytes (Inr 300) (Inr (ValText ''4096'')) = Some (Inr w) \<and> unat w = 1228800"
proof -
  have "dec_nat 4096 = ''4096''" by (simp add: dec_nat.simps digit_def, code_simp)
  with db_size_exact [of 300 4096] show ?thesis by auto
qed

end
