(* ===== verification/Kdrive.thy ===== *)
theory Kdrive
  imports Backup Restore
begin

text \<open>
  \<open>impl ChatStorageTransport for KdriveTransport\<close> (\<open>transport/kdrive_bridge.rs\<close>): the HTTP endpoints of theory
  \<open>Transport\<close> as a gateway, over the state of the circuit breaker and of the HTTP host. A retry loop that panics (a
  delay that overflows \<open>Duration\<close>) would end the program; lemma \<open>send_returns\<close> shows that it does not for any base delay
  below \<open>2^32\<close> seconds. What a server must do for the endpoints to make sense is \<open>serves_blobs\<close>.
\<close>

section \<open>The gateway of the HTTP endpoints\<close>

text \<open>JSON decoding of pages and of manifest lists, and the text of a status, are parameters of the endpoints.\<close>

record 'h kdrive_io =
  ki_host :: "'h host"
  ki_status :: "nat \<Rightarrow> ustr"
  ki_page :: "bytes \<Rightarrow> ustr + fetch_result"
  ki_manifests :: "bytes \<Rightarrow> ustr + bytes list"

fun landed :: "('h, 'a) http_outcome \<Rightarrow> breaker \<times> 'h \<Rightarrow> (transport_error + 'a) \<times> breaker \<times> 'h" where
  "landed (Some r) s = r"
| "landed None s = (Inl (TCustom (lit ''panicked'')), s)"

text \<open>The identifier an upload returns is the string it was given.\<close>

definition with_id :: "string \<Rightarrow> (transport_error + bytes) \<times> 's \<Rightarrow> (transport_error + string) \<times> 's" where
  "with_id i r = (case r of (Inl e, s) \<Rightarrow> (Inl e, s) | (Inr _, s) \<Rightarrow> (Inr i, s))"

definition kdrive_gateway :: "'h kdrive_io \<Rightarrow> kdrive \<Rightarrow> (breaker \<times> 'h) gateway" where
  "kdrive_gateway I k =
     (let ss = ki_status I; io = ki_host I in
     \<lparr>gw_fetch_messages = (\<lambda>c a (b, h). landed (kd_fetch_messages ss io (ki_page I) k (str_bytes c) a b h) (b, h)),
      gw_upload_archive_segment = (\<lambda>i p (b, h). with_id i (landed (kd_upload_archive_segment ss io k (str_bytes i) p b h) (b, h))),
      gw_download_archive_segment = (\<lambda>i (b, h). landed (kd_download_archive_segment ss io k (str_bytes i) b h) (b, h)),
      gw_fetch_archive_manifests = (\<lambda>n (b, h). landed (kd_fetch_archive_manifests ss io (ki_manifests I) k n b h) (b, h)),
      gw_upload_archive_manifest = (\<lambda>m (b, h). landed (kd_upload_archive_manifest ss io k m b h) (b, h)),
      gw_upload_backup_manifest = (\<lambda>m (b, h). landed (kd_upload_backup_manifest ss io k m b h) (b, h)),
      gw_fetch_backup_manifests = (\<lambda>n (b, h). landed (kd_fetch_backup_manifests ss io (ki_manifests I) k n b h) (b, h)),
      gw_upload_media_blob = (\<lambda>i p (b, h). with_id i (landed (kd_upload_media_blob ss io k (str_bytes i) p b h) (b, h))),
      gw_download_backup_segment = (\<lambda>i (b, h). landed (kd_download_backup_segment ss io k (str_bytes i) b h) (b, h)),
      gw_upload_search_shard = (\<lambda>i p (b, h). landed (kd_upload_search_shard ss io k (str_bytes i) p b h) (b, h)),
      gw_download_search_shard = (\<lambda>i (b, h). landed (kd_download_search_shard ss io k (str_bytes i) b h) (b, h)),
      gw_download_media_blob = (\<lambda>i (b, h). landed (kd_download_media_blob ss io k (str_bytes i) b h) (b, h))\<rparr>)"

definition auto_select_transport :: "bytes \<Rightarrow> bytes \<Rightarrow> bytes \<Rightarrow> bytes \<Rightarrow> kdrive \<times> breaker" where
  "auto_select_transport base_url auth_token tenant user = kdrive_new base_url auth_token tenant user"

section \<open>The loop returns\<close>

lemma send_loop_returns:
  assumes "kd_base_delay k < from_secs (2 ^ 32)"
  shows "\<exists>r. send_loop ss io k rq left attempt e b h = Some r"
proof (induction left arbitrary: attempt e b h)
  case (Suc left)
  have "kd_base_delay k * (2 ^ 32 - 1) < duration_limit" using assms by (simp add: from_secs_def duration_limit_def)
  then have d: "retry_delay k n = Some (backoff k n)" for n by (rule retry_delay_backoff)
  show ?case using Suc.IH by (auto simp: d Let_def split: prod.split http_reply.split)
qed simp

lemma send_returns:
  "kd_base_delay k < from_secs (2 ^ 32) \<Longrightarrow> \<exists>r. send_with_retry ss io k rq b h = Some r"
  unfolding send_with_retry_def by (rule send_loop_returns)

section \<open>A server of blobs\<close>

text \<open>
  A server that answers a POST by storing the body under the URL and a GET with what is stored there, or with 404; reading
  the clock and sleeping do not change what is stored.
\<close>

definition serves_blobs :: "('h \<Rightarrow> bytes \<Rightarrow> bytes option) \<Rightarrow> 'h host \<Rightarrow> bool" where
  "serves_blobs files io \<longleftrightarrow>
     (\<forall>rq d h. rq_method rq = POST \<longrightarrow> rq_body rq = Some d \<longrightarrow>
        fst (ho_send io rq h) = Resp 200 (Inr []) \<and> files (snd (ho_send io rq h)) = (files h)(rq_url rq \<mapsto> d))
     \<and> (\<forall>rq h. rq_method rq = GET \<longrightarrow>
        fst (ho_send io rq h) = (case files h (rq_url rq) of Some d \<Rightarrow> Resp 200 (Inr d) | None \<Rightarrow> Resp 404 (Inr []))
        \<and> files (snd (ho_send io rq h)) = files h)
     \<and> (\<forall>h. files (snd (ho_now io h)) = files h) \<and> (\<forall>n h. files (ho_sleep io n h) = files h)"

lemma serves_now: "serves_blobs files io \<Longrightarrow> ho_now io h = (now, h') \<Longrightarrow> files h' = files h"
  unfolding serves_blobs_def by (metis snd_conv)

lemma serves_post:
  "serves_blobs files io \<Longrightarrow> rq_method rq = POST \<Longrightarrow> rq_body rq = Some d \<Longrightarrow>
     \<exists>h'. ho_send io rq h = (Resp 200 (Inr []), h') \<and> files h' = (files h)(rq_url rq \<mapsto> d)"
  unfolding serves_blobs_def by (metis prod.collapse)

lemma serves_get:
  "serves_blobs files io \<Longrightarrow> rq_method rq = GET \<Longrightarrow>
     \<exists>h'. ho_send io rq h = (case files h (rq_url rq) of Some d \<Rightarrow> Resp 200 (Inr d) | None \<Rightarrow> Resp 404 (Inr []), h') \<and> files h' = files h"
  unfolding serves_blobs_def by (metis prod.collapse)

text \<open>A breaker that has seen no failure since its last success.\<close>

definition calm_breaker :: "breaker \<Rightarrow> bool" where
  "calm_breaker b \<longleftrightarrow> br_failures b = 0 \<and> 0 < br_threshold b"

lemma calm_allows: "calm_breaker b \<Longrightarrow> allow_request now b"
  by (simp add: calm_breaker_def allow_request_def is_open_def)

lemma calm_success: "calm_breaker b \<Longrightarrow> calm_breaker (record_success b)"
  by (simp add: calm_breaker_def record_success_def)

lemma added_headers [simp]:
  "rq_method (add_headers k rq) = rq_method rq" "rq_body (add_headers k rq) = rq_body rq" "rq_url (add_headers k rq) = rq_url rq"
  by (simp_all add: add_headers_def)

lemma post_stores:
  assumes "serves_blobs files io" and "calm_breaker b" and "rq_method rq = POST" and "rq_body rq = Some d"
  shows "\<exists>h'. send_with_retry ss io k rq b h = Some (Inr (Inr []), record_success b, h') \<and> files h' = (files h)(rq_url rq \<mapsto> d)"
proof -
  obtain now h1 where n: "ho_now io h = (now, h1)" by fastforce
  then have "files h1 = files h" using serves_now [OF assms(1)] by blast
  moreover obtain h2 where "ho_send io (add_headers k rq) h1 = (Resp 200 (Inr []), h2)" "files h2 = (files h1)(rq_url rq \<mapsto> d)"
    using serves_post [OF assms(1), of "add_headers k rq" d h1] assms(3,4) by auto
  ultimately show ?thesis using n calm_allows [OF assms(2)] by (simp add: send_with_retry_def is_success_def)
qed

lemma get_fetches:
  assumes "serves_blobs files io" and "calm_breaker b" and "rq_method rq = GET" and "files h (rq_url rq) = Some d"
  shows "\<exists>h'. send_with_retry ss io k rq b h = Some (Inr (Inr d), record_success b, h') \<and> files h' = files h"
proof -
  obtain now h1 where n: "ho_now io h = (now, h1)" by fastforce
  then have "files h1 = files h" using serves_now [OF assms(1)] by blast
  moreover obtain h2 where "ho_send io (add_headers k rq) h1 = (Resp 200 (Inr d), h2)" "files h2 = files h1"
    using serves_get [OF assms(1), of "add_headers k rq" h1] assms(3,4) \<open>files h1 = files h\<close> by auto
  ultimately show ?thesis using n calm_allows [OF assms(2)] by (simp add: send_with_retry_def is_success_def)
qed

lemma get_missing:
  assumes "serves_blobs files io" and "calm_breaker b" and "rq_method rq = GET" and "files h (rq_url rq) = None"
  shows "\<exists>b' h'. send_with_retry ss io k rq b h = Some (Inl (Server (http_text ss 404 ''not found'')), b', h') \<and> files h' = files h"
proof -
  obtain now h1 where n: "ho_now io h = (now, h1)" by fastforce
  then have f1: "files h1 = files h" using serves_now [OF assms(1)] by blast
  then obtain h2 where g: "ho_send io (add_headers k rq) h1 = (Resp 404 (Inr []), h2)" "files h2 = files h1"
    using serves_get [OF assms(1), of "add_headers k rq" h1] assms(3,4) by auto
  obtain now2 h3 where n2: "ho_now io h2 = (now2, h3)" by fastforce
  then have "files h3 = files h2" using serves_now [OF assms(1)] by blast
  then show ?thesis using n n2 g f1 calm_allows [OF assms(2)]
    by (auto simp: send_with_retry_def is_success_def is_retryable_status_def map_http_error_def Let_def)
qed

text \<open>A server that keeps the blobs in a map.\<close>

definition map_host :: "(bytes \<Rightarrow> bytes option) host" where
  "map_host =
     \<lparr>ho_now = (\<lambda>m. (1, m)),
      ho_send = (\<lambda>rq m. case rq_method rq of
          POST \<Rightarrow> (case rq_body rq of Some d \<Rightarrow> (Resp 200 (Inr []), m(rq_url rq \<mapsto> d)) | None \<Rightarrow> (Resp 400 (Inr []), m))
        | GET \<Rightarrow> (case m (rq_url rq) of Some d \<Rightarrow> (Resp 200 (Inr d), m) | None \<Rightarrow> (Resp 404 (Inr []), m))),
      ho_sleep = (\<lambda>_ m. m)\<rparr>"

lemma map_host_serves: "serves_blobs (\<lambda>m. m) map_host"
  by (simp add: serves_blobs_def map_host_def split: option.split)

lemma on_response_returns:
  "kd_base_delay k < from_secs (2 ^ 32) \<Longrightarrow> \<exists>r. on_response f (send_with_retry ss io k rq b h) = Some r"
  using send_returns [of k ss io rq b h] by (auto simp: on_response_def)

lemma requests [simp]:
  "rq_method (post_request k u d) = POST" "rq_body (post_request k u d) = Some d" "rq_url (post_request k u d) = kd_base_url k @ u"
  "rq_method (get_request k u) = GET" "rq_url (get_request k u) = kd_base_url k @ u"
  by (simp_all add: post_request_def get_request_def)

lemma kd_upload_stores:
  assumes "serves_blobs files io" and "calm_breaker b"
  shows "\<exists>h'. kd_upload ss io k path i p b h = Some (Inr i, record_success b, h')
    \<and> files h' = (files h)(kd_base_url k @ str_bytes path @ i \<mapsto> p)"
  using post_stores [OF assms, of "post_request k (str_bytes path @ i) p" p ss k h] by (auto simp: kd_upload_def on_response_def)

lemma kd_download_fetches:
  assumes "serves_blobs files io" and "calm_breaker b" and "files h (kd_base_url k @ str_bytes path @ i) = Some p"
  shows "\<exists>h'. kd_download ss io k path i b h = Some (Inr p, record_success b, h') \<and> files h' = files h"
  using get_fetches [OF assms(1,2), of "get_request k (str_bytes path @ i)" h p ss k] assms(3)
  by (auto simp: kd_download_def on_response_def get_bytes_def)

lemma kd_download_missing:
  assumes "serves_blobs files io" and "calm_breaker b" and "files h (kd_base_url k @ str_bytes path @ i) = None"
  shows "\<exists>b' h'. kd_download ss io k path i b h = Some (Inl (Server (http_text ss 404 ''not found'')), b', h') \<and> files h' = files h"
  using get_missing [OF assms(1,2), of "get_request k (str_bytes path @ i)" h ss k] assms(3)
  by (auto simp: kd_download_def on_response_def)

definition map_io :: "(bytes \<Rightarrow> bytes option) kdrive_io" where
  "map_io = \<lparr>ki_host = map_host, ki_status = (\<lambda>_. []), ki_page = (\<lambda>_. Inl []), ki_manifests = (\<lambda>_. Inl [])\<rparr>"

definition map_restore_env :: "(breaker \<times> (bytes \<Rightarrow> bytes option)) restore_env" where
  "map_restore_env = \<lparr>re_prims = toy_prims, re_codecs = toy_codecs, re_manifests = toy_codec bare_manifest,
     re_snapshots = \<lparr>co_write = (\<lambda>_. Inr [1]), co_read = (\<lambda>_. Inl ''eof'')\<rparr>, re_lower = id,
     re_gateway = kdrive_gateway map_io (fst (auto_select_transport [] [] [] [])), re_now_secs = 0\<rparr>"

lemma map_io_serves: "serves_blobs (\<lambda>m. m) (ki_host map_io)"
  by (simp add: map_io_def map_host_serves)

lemma fresh_breaker_calm: "calm_breaker (snd (auto_select_transport [] [] [] []))"
  by (simp add: auto_select_transport_def kdrive_new_def calm_breaker_def breaker_new_def with_recovery_timeout_def)

section \<open>Properties\<close>

text \<open>
  C27: every call of the transport returns: with a base delay below \<open>2^32\<close> seconds (the code's is 100 ms) no number of retries makes
  the computation of a delay overflow, so that no endpoint ends in a panic, whatever the server does.
\<close>

theorem endpoints_return:
  assumes "kd_base_delay k < from_secs (2 ^ 32)"
  shows "(\<exists>r. kd_fetch_messages ss io page k c a b h = Some r) \<and> (\<exists>r. kd_upload_archive_segment ss io k i p b h = Some r)
    \<and> (\<exists>r. kd_download_archive_segment ss io k i b h = Some r) \<and> (\<exists>r. kd_fetch_archive_manifests ss io list k n b h = Some r)
    \<and> (\<exists>r. kd_upload_archive_manifest ss io k p b h = Some r) \<and> (\<exists>r. kd_upload_search_shard ss io k i p b h = Some r)
    \<and> (\<exists>r. kd_download_search_shard ss io k i b h = Some r) \<and> (\<exists>r. kd_upload_backup_manifest ss io k p b h = Some r)
    \<and> (\<exists>r. kd_fetch_backup_manifests ss io list k n b h = Some r) \<and> (\<exists>r. kd_upload_media_blob ss io k i p b h = Some r)
    \<and> (\<exists>r. kd_download_media_blob ss io k i b h = Some r) \<and> (\<exists>r. kd_download_backup_segment ss io k i b h = Some r)"
proof -
  note r = on_response_returns [OF assms]
  show ?thesis
    unfolding kd_upload_def kd_download_def kd_manifests_def kd_fetch_messages_def kd_upload_archive_segment_def
      kd_download_archive_segment_def kd_fetch_archive_manifests_def kd_upload_archive_manifest_def kd_upload_search_shard_def
      kd_download_search_shard_def kd_upload_backup_manifest_def kd_fetch_backup_manifests_def kd_upload_media_blob_def
      kd_download_media_blob_def kd_download_backup_segment_def
    by (intro conjI r)
qed

theorem endpoints_return_witness:
  "\<exists>r. kd_upload_media_blob (\<lambda>_. []) map_host (fst (auto_select_transport [] [] [] [])) [1] [2] (snd (auto_select_transport [] [] [] [])) Map.empty = Some r"
proof -
  have "kd_base_delay (fst (auto_select_transport [] [] [] [])) < from_secs (2 ^ 32)"
    by (simp add: auto_select_transport_def kdrive_new_def from_millis_def from_secs_def)
  note all = endpoints_return [OF this]
  show ?thesis
    by (rule all [THEN conjunct2, THEN conjunct2, THEN conjunct2, THEN conjunct2, THEN conjunct2, THEN conjunct2, THEN conjunct2,
          THEN conjunct2, THEN conjunct2, THEN conjunct1])
qed

text \<open>
  what is uploaded through the HTTP gateway is what is downloaded again under the same identifier: archive segments,
  search shards and media blobs, on a server that stores what is posted to a URL, with a breaker that has seen no failure.
\<close>

theorem http_blobs_roundtrip:
  assumes "serves_blobs files (ki_host I)" and "calm_breaker b"
  shows "(\<exists>s1 s2. gw_upload_archive_segment (kdrive_gateway I k) i p (b, h) = (Inr i, s1)
        \<and> gw_download_archive_segment (kdrive_gateway I k) i s1 = (Inr p, s2))
    \<and> (\<exists>s1 s2. gw_upload_search_shard (kdrive_gateway I k) i p (b, h) = (Inr (), s1)
        \<and> gw_download_search_shard (kdrive_gateway I k) i s1 = (Inr p, s2))
    \<and> (\<exists>s1 s2. gw_upload_media_blob (kdrive_gateway I k) i p (b, h) = (Inr i, s1)
        \<and> gw_download_media_blob (kdrive_gateway I k) i s1 = (Inr p, s2))"
proof -
  have fetched: "\<exists>h2. kd_download (ki_status I) (ki_host I) k path (str_bytes i) (record_success b) h1 = Some (Inr p, record_success (record_success b), h2)"
    if "files h1 = (files h)(kd_base_url k @ str_bytes path @ str_bytes i \<mapsto> p)" for path h1
    using kd_download_fetches [OF assms(1) calm_success [OF assms(2)], of h1 k path "str_bytes i" p] that by auto
  have there: "\<exists>h1. kd_upload (ki_status I) (ki_host I) k path (str_bytes i) p b h = Some (Inr (str_bytes i), record_success b, h1)
      \<and> files h1 = (files h)(kd_base_url k @ str_bytes path @ str_bytes i \<mapsto> p)" for path
    by (rule kd_upload_stores [OF assms])
  have shard: "\<exists>h1. kd_upload_search_shard (ki_status I) (ki_host I) k (str_bytes i) p b h = Some (Inr (), record_success b, h1)
      \<and> files h1 = (files h)(kd_base_url k @ str_bytes ''/v1/chat/search/shards/'' @ str_bytes i \<mapsto> p)"
    using post_stores [OF assms, of "post_request k (str_bytes ''/v1/chat/search/shards/'' @ str_bytes i) p" p "ki_status I" k h]
    by (auto simp: kd_upload_search_shard_def on_response_def)
  have 1: "\<exists>h1 h2. kd_upload (ki_status I) (ki_host I) k path (str_bytes i) p b h = Some (Inr (str_bytes i), record_success b, h1)
      \<and> kd_download (ki_status I) (ki_host I) k path (str_bytes i) (record_success b) h1 = Some (Inr p, record_success (record_success b), h2)" for path
    using there fetched by blast
  have 2: "\<exists>h1 h2. kd_upload_search_shard (ki_status I) (ki_host I) k (str_bytes i) p b h = Some (Inr (), record_success b, h1)
      \<and> kd_download (ki_status I) (ki_host I) k ''/v1/chat/search/shards/'' (str_bytes i) (record_success b) h1
        = Some (Inr p, record_success (record_success b), h2)"
    using shard fetched by blast
  show ?thesis
    using 1 [of "''/v1/chat/archive/segments/''"] 1 [of "''/v1/chat/media/''"] 2
    by (fastforce simp: kdrive_gateway_def Let_def with_id_def kd_upload_archive_segment_def kd_download_archive_segment_def
        kd_download_search_shard_def kd_upload_media_blob_def kd_download_media_blob_def)
qed

theorem http_blobs_roundtrip_witness:
  "\<exists>s1 s2. gw_upload_media_blob (kdrive_gateway map_io (fst (auto_select_transport [] [] [] []))) ''b1'' [7]
        (snd (auto_select_transport [] [] [] []), Map.empty) = (Inr ''b1'', s1)
    \<and> gw_download_media_blob (kdrive_gateway map_io (fst (auto_select_transport [] [] [] []))) ''b1'' s1 = (Inr [7], s2)"
  by (rule http_blobs_roundtrip [OF map_io_serves fresh_breaker_calm, THEN conjunct2, THEN conjunct2])

text \<open>
  C40: a backup segment is posted under the path of archive segments but fetched under a path of its own: on a server
  that keeps what is posted to a URL, and nothing else, the segment a backup has just uploaded is not found by the restore.
\<close>

theorem backup_segment_not_found:
  assumes "serves_blobs files (ki_host I)" and "calm_breaker b"
    and "files h (kd_base_url k @ str_bytes ''/v1/chat/backup/segment/'' @ str_bytes (sr_segment seg)) = None"
    and "re_gateway E = kdrive_gateway I k"
  shows "\<exists>s1 s2 st. sink_upload_segment (kdrive_gateway I k) (sr_segment seg) p (b, h) = (Inr (sr_segment seg), s1)
    \<and> restore_segments E keys (seg # segs) r st0 s1
      = (Inl (CStorageText (OfTransport (Server (http_text (ki_status I) 404 ''not found'')))), st, s2)"
proof -
  let ?i = "str_bytes (sr_segment seg)"
  obtain h1 where up: "kd_upload (ki_status I) (ki_host I) k ''/v1/chat/archive/segments/'' ?i p b h = Some (Inr ?i, record_success b, h1)"
      and f: "files h1 = (files h)(kd_base_url k @ str_bytes ''/v1/chat/archive/segments/'' @ ?i \<mapsto> p)"
    using kd_upload_stores [OF assms(1,2)] by blast
  have "str_bytes ''/v1/chat/backup/segment/'' @ ?i \<noteq> str_bytes ''/v1/chat/archive/segments/'' @ ?i"
    by (simp add: str_bytes_def)
  then have "files h1 (kd_base_url k @ str_bytes ''/v1/chat/backup/segment/'' @ ?i) = None"
    unfolding f fun_upd_def using assms(3) by (simp del: append_same_eq)
  then obtain b2 h2 where "kd_download (ki_status I) (ki_host I) k ''/v1/chat/backup/segment/'' ?i (record_success b) h1
      = Some (Inl (Server (http_text (ki_status I) 404 ''not found'')), b2, h2)"
    using kd_download_missing [OF assms(1) calm_success [OF assms(2)]] by blast
  with up assms(4) show ?thesis
    by (simp add: sink_upload_segment_def as_storage_def kdrive_gateway_def Let_def with_id_def kd_upload_archive_segment_def
        kd_download_backup_segment_def)
qed

theorem backup_segment_not_found_witness:
  "\<exists>s1 s2 st. sink_upload_segment (kdrive_gateway map_io (fst (auto_select_transport [] [] [] []))) (sr_segment sample_ref) [7]
        (snd (auto_select_transport [] [] [] []), Map.empty) = (Inr (sr_segment sample_ref), s1)
    \<and> restore_segments map_restore_env (projr (epochs_new toy_prims 0 [])) [sample_ref] no_result (open_db False) s1
      = (Inl (CStorageText (OfTransport (Server (http_text (ki_status map_io) 404 ''not found'')))), st, s2)"
  by (rule backup_segment_not_found [OF map_io_serves fresh_breaker_calm]) (simp_all add: map_restore_env_def)

end
