(* ===== verification/EndToEnd.thy ===== *)
theory EndToEnd
  imports Kdrive Shards
begin

text \<open>
  What components guarantee together. An archived batch passes the segment builder, the coordinator, the HTTP endpoints,
  a server, the download and the opening of the segment, while the epoch keys are rotated and pruned in between. A search
  shard is posted among others, fetched under its key, opened and cached.
\<close>

section \<open>Archiving over HTTP\<close>

definition segment_url :: "kdrive \<Rightarrow> string \<Rightarrow> bytes" where
  "segment_url k i = kd_base_url k @ str_bytes ''/v1/chat/archive/segments/'' @ str_bytes i"

lemma gateway_stores_segment:
  assumes "serves_blobs files (ki_host I)" and "calm_breaker b"
  shows "\<exists>h'. gw_upload_archive_segment (kdrive_gateway I k) i p (b, h) = (Inr i, record_success b, h')
    \<and> files h' = (files h)(segment_url k i \<mapsto> p)"
  using kd_upload_stores [OF assms, of "ki_status I" k "''/v1/chat/archive/segments/''" "str_bytes i" p h]
  by (auto simp: kdrive_gateway_def Let_def with_id_def kd_upload_archive_segment_def landed.simps segment_url_def)

lemma gateway_fetches_segment:
  assumes "serves_blobs files (ki_host I)" and "calm_breaker b" and "files h (segment_url k i) = Some p"
  shows "\<exists>h'. gw_download_archive_segment (kdrive_gateway I k) i (b, h) = (Inr p, record_success b, h') \<and> files h' = files h"
  using kd_download_fetches [OF assms(1,2), of h k "''/v1/chat/archive/segments/''" "str_bytes i" p "ki_status I"] assms(3)
  by (auto simp: kdrive_gateway_def Let_def kd_download_archive_segment_def landed.simps segment_url_def)

text \<open>What a successful batch leaves behind.\<close>

lemma archive_batch_stored:
  assumes "serves_blobs files (ki_host I)" and "calm_breaker b"
    and "archive_batch P Z (kdrive_gateway I k) i seg nonce ms conv bucket c (b, h) = (Inr ident, c', b1, h1)"
  obtains key f data where "current_epoch_key P (co_epochs c) = Inr key"
    and "build_segment P Z i nonce ms conv bucket (ek_current (co_epochs c)) key = Inr f"
    and "ac_frame_write Z f = Inr data" and "files h1 = (files h)(segment_url k seg \<mapsto> data)" and "ident = seg"
    and "co_epochs c' = co_epochs c"
proof -
  obtain key f where kf: "current_epoch_key P (co_epochs c) = Inr key"
      "build_segment P Z i nonce ms conv bucket (ek_current (co_epochs c)) key = Inr f"
    using assms(3) by (auto simp: archive_batch_def and_then.simps ciphered_def Let_def split: sum.splits)
  obtain data where d: "ac_frame_write Z f = Inr data"
    using assms(3) kf by (auto simp: archive_batch_def and_then.simps ciphered_def upload_segment_def coded_def Let_def split: sum.splits)
  obtain h' where h': "gw_upload_archive_segment (kdrive_gateway I k) seg data (b, h) = (Inr seg, record_success b, h')"
      "files h' = (files h)(segment_url k seg \<mapsto> data)"
    using gateway_stores_segment [OF assms(1,2), of k seg data h] by blast
  have "ident = seg \<and> h1 = h' \<and> co_epochs c' = co_epochs c"
    using assms(3) kf d h'(1)
    by (auto simp: archive_batch_def and_then.simps ciphered_def upload_segment_def coded_def as_storage_def archive_record_def Let_def
        split: if_splits)
  with kf d h' show ?thesis by (auto intro: that)
qed

section \<open>Search shards over HTTP\<close>

text \<open>The key of a shard determines it when neither the conversation's hash nor the bucket has an underscore.\<close>

definition plain_id :: "shard_id \<Rightarrow> bool" where
  "plain_id i \<longleftrightarrow> CHR ''_'' \<notin> set (si_conv_hash i) \<and> CHR ''_'' \<notin> set (si_bucket i)"

lemma split_underscore:
  "CHR ''_'' \<notin> set x \<Longrightarrow> CHR ''_'' \<notin> set y \<Longrightarrow> x @ CHR ''_'' # u = y @ CHR ''_'' # v \<Longrightarrow> x = y \<and> u = v"
proof (induction x arbitrary: y)
  case Nil
  then show ?case by (cases y) auto
next
  case (Cons a x)
  then show ?case by (cases y) auto
qed

lemma shard_type_inj: "shard_type_as_str a = shard_type_as_str b \<Longrightarrow> a = b"
  by (cases a; cases b) simp_all

lemma shard_key_determines:
  assumes "plain_id i" and "plain_id j" and "shard_to_key i = shard_to_key j"
  shows "i = j"
proof -
  have 1: "si_conv_hash i = si_conv_hash j \<and> CHR ''_'' # si_bucket i @ ''__'' @ shard_type_as_str (si_type i)
      = CHR ''_'' # si_bucket j @ ''__'' @ shard_type_as_str (si_type j)"
    by (rule split_underscore) (use assms in \<open>simp_all add: plain_id_def shard_to_key_def\<close>)
  then have 2: "si_bucket i = si_bucket j \<and> CHR ''_'' # shard_type_as_str (si_type i) = CHR ''_'' # shard_type_as_str (si_type j)"
    by (intro split_underscore) (use assms in \<open>simp_all add: plain_id_def\<close>)
  with 1 shard_type_inj show ?thesis by (simp add: shard_id.equality)
qed

definition shard_url :: "kdrive \<Rightarrow> shard_id \<Rightarrow> bytes" where
  "shard_url k i = kd_base_url k @ str_bytes ''/v1/chat/search/shards/'' @ str_bytes (shard_to_key i)"

lemma shard_urls_differ: "plain_id i \<Longrightarrow> plain_id j \<Longrightarrow> shard_url k i = shard_url k j \<longleftrightarrow> i = j"
  using shard_key_determines by (auto simp: shard_url_def str_bytes_inj)

text \<open>Frames posted one after the other, each under its key.\<close>

definition post_shards :: "'w gateway \<Rightarrow> (shard_id \<times> bytes) list \<Rightarrow> 'w \<Rightarrow> 'w" where
  "post_shards G = fold (\<lambda>(i, d) w. snd (gw_upload_search_shard G (shard_to_key i) d w))"

lemma shards_posted:
  assumes "serves_blobs files (ki_host I)" and "calm_breaker b"
  shows "\<exists>b' h'. post_shards (kdrive_gateway I k) xs (b, h) = (b', h') \<and> calm_breaker b'
    \<and> files h' = fold (\<lambda>(i, d) m. m(shard_url k i \<mapsto> d)) xs (files h)"
  using assms(2)
proof (induction xs arbitrary: b h)
  case (Cons x xs)
  obtain i d where x: "x = (i, d)" by fastforce
  have "\<exists>h1. gw_upload_search_shard (kdrive_gateway I k) (shard_to_key i) d (b, h) = (Inr (), record_success b, h1)
      \<and> files h1 = (files h)(shard_url k i \<mapsto> d)"
    using post_stores [OF assms(1) Cons.prems, of "post_request k (str_bytes ''/v1/chat/search/shards/'' @ str_bytes (shard_to_key i)) d" d
        "ki_status I" k h]
    by (auto simp: kdrive_gateway_def Let_def kd_upload_search_shard_def on_response_def landed.simps shard_url_def)
  then obtain h1 where h1: "gw_upload_search_shard (kdrive_gateway I k) (shard_to_key i) d (b, h) = (Inr (), record_success b, h1)"
      "files h1 = (files h)(shard_url k i \<mapsto> d)" by blast
  with Cons.IH [OF calm_success [OF Cons.prems], of h1] show ?case by (simp add: post_shards_def x)
qed (simp add: post_shards_def)

lemma shard_fetched:
  assumes "serves_blobs files (ki_host I)" and "calm_breaker b" and "files h (shard_url k i) = Some d" and "js_read JF d = Inr f"
  shows "\<exists>w. fetch_shard (kdrive_gateway I k) JF i (b, h) = (Inr f, w)"
proof -
  obtain h' where "kd_download (ki_status I) (ki_host I) k ''/v1/chat/search/shards/'' (str_bytes (shard_to_key i)) b h
      = Some (Inr d, record_success b, h')"
    using kd_download_fetches [OF assms(1,2), of h k "''/v1/chat/search/shards/''" "str_bytes (shard_to_key i)" d "ki_status I"] assms(3)
    by (auto simp: shard_url_def)
  then show ?thesis
    using assms(4) by (simp add: fetch_shard_def kdrive_gateway_def Let_def kd_download_search_shard_def landed.simps)
qed

lemma kept_posts:
  "i \<notin> fst ` set xs \<Longrightarrow> plain_id i \<Longrightarrow> list_all (plain_id \<circ> fst) xs \<Longrightarrow>
     fold (\<lambda>(i, d) m. m(shard_url k i \<mapsto> d)) xs m (shard_url k i) = m (shard_url k i)"
  by (induction xs arbitrary: m) (auto simp: shard_urls_differ)

section \<open>A sample batch\<close>

definition sized_key :: "u64 \<Rightarrow> bytes" where
  "sized_key x = take 32 (str_bytes ''chat-storage/archive-epoch/v1'' @ be_bytes 8 (unat x) @ replicate 32 0)"

lemma length_sized_key: "length (sized_key x) = 32"
  by (simp add: sized_key_def)

lemma sized_wrap:
  "pr_wrap sized_prims r x = Some (x @ replicate 8 0)" "pr_unwrap sized_prims r y = Some (take 32 y)"
  by (simp_all add: sized_prims_def toy_prims_def)

lemma sized_keys:
  "derive_archive_epoch sized_prims [] x = Inr (sized_key x)"
  "\<exists>w. pr_wrap sized_prims [] (sized_key x) = Some w"
  "pr_wrap sized_prims [] (sized_key x) = Some w \<Longrightarrow> length w = 40 \<and> pr_unwrap sized_prims [] w = Some (sized_key x)"
  using length_sized_key [of x]
  by (auto simp: derive_archive_epoch_def hkdf_expand_def sized_wrap) (simp add: sized_prims_def toy_prims_def sized_key_def)

lemma sized_aead_ok: "aead_ok sized_prims"
  using toy_aead_ok by (simp add: aead_ok_def sized_prims_def)

text \<open>Codecs that know one payload and one frame.\<close>

definition one_codecs :: "archive_payload \<Rightarrow> archive_frame \<Rightarrow> archive_codecs" where
  "one_codecs p f =
     \<lparr>ac_payload_write = (\<lambda>x. if x = p then Inr [1] else Inl ''unsupported''), ac_payload_read = (\<lambda>_. Inr p),
      ac_frame_write = (\<lambda>x. if x = f then Inr [2] else Inl ''unsupported''), ac_frame_read = (\<lambda>_. Inr f),
      ac_compress = Inr, ac_decompress = Inr\<rparr>"

lemma one_codecs_ok: "archive_codecs_ok (one_codecs p f)"
  by (simp add: archive_codecs_ok_def one_codecs_def)

definition hi_message :: ingested_message where
  "hi_message = \<lparr>im_id = ''m1'', im_conv = ''c'', im_sender = ''ann'', im_created_ms = 5, im_text = Some (lit ''hi''), im_media = [],
     im_reply_to = None\<rparr>"

definition hi_payload :: archive_payload where
  "hi_payload = \<lparr>ap_segment = ''p'', ap_conv = ''c'', ap_bucket = ''2024-01'', ap_epoch = 6,
     ap_entries = [\<lparr>ae_message = ''m1'', ae_created_ms = 5, ae_kind = EText, ae_body = utf8 (lit ''hi'') @ replicate 16 0, ae_nonce = [],
       ae_media = []\<rparr>]\<rparr>"

definition hi_frame :: archive_frame where
  "hi_frame = \<lparr>af_nonce = [], af_ciphertext = 1 # replicate 16 0, af_hash = [1], af_size = 1\<rparr>"

lemma hi_segment:
  "build_segment sized_prims (one_codecs hi_payload hi_frame) ''p'' (\<lambda>_. []) [hi_message] ''c'' ''2024-01'' 6 key = Inr hi_frame"
  by (simp add: build_segment_def build_entry_def encode_payload_def compress_def coded_def ciphered_def one_codecs_def hi_payload_def
      hi_frame_def hi_message_def seal_def sized_prims_def toy_prims_def content_hash_def)

section \<open>Properties\<close>

text \<open>
  C11: what is archived over HTTP stays readable: a batch the coordinator reports as archived can be downloaded and opened at a
  later time, although the epoch keys are rotated and pruned before and after, provided every pruning keeps \<open>n\<close> epochs and no
  more than \<open>n\<close> rotations follow. It opens under the key the manager returns for the batch's epoch, to one entry per message, whose
  body opens to the message's text. This is under these conditions: the server answers every request, stores what is posted and
  still has it under the segment's URL; the circuit breaker has seen no failure since its last success, both when the batch is
  uploaded and when it is downloaded; the AEAD, the codecs and the key wrapping invert what they do, and the derivation and the
  wrapping of epoch keys succeed.
\<close>

theorem archived_batch_readable:
  assumes "aead_ok P" and "archive_codecs_ok Z"
    and "\<And>x. derive_archive_epoch P rk x = Inr (key x)" and "\<And>x. \<exists>w. pr_wrap P rk (key x) = Some w"
    and "\<And>x w. pr_wrap P rk (key x) = Some w \<Longrightarrow> length w = 40 \<and> pr_unwrap P rk w = Some (key x)"
    and "list_all (keeps_at_least n) (before @ after)" and "rotations after \<le> n"
    and "co_epochs c = fold (epoch_step P) before \<lparr>ek_root = rk, ek_current = e0, ek_wrapped = []\<rparr>"
    and "serves_blobs files (ki_host I)" and "calm_breaker b"
    and "archive_batch P Z (kdrive_gateway I k) i seg nonce ms conv bucket c (b, h) = (Inr ident, c', b1, h1)"
    and "calm_breaker b2" and "files h2 (segment_url k seg) = files h1 (segment_url k seg)"
  shows "\<exists>f s2 ekey es. download_segment Z (kdrive_gateway I k) ident (b2, h2) = (Inr f, s2)
    \<and> epoch_key P (ek_current (co_epochs c)) (fold (epoch_step P) after (co_epochs c')) = Some ekey
    \<and> open_segment P Z f ekey = Inr \<lparr>ap_segment = i, ap_conv = conv, ap_bucket = bucket, ap_epoch = ek_current (co_epochs c), ap_entries = es\<rparr>
    \<and> list_all2 (entry_of P ekey) es ms"
proof -
  let ?start = "\<lparr>ek_root = rk, ek_current = e0, ek_wrapped = []\<rparr>" and ?e = "ek_current (co_epochs c)"
  from assms(6) have kept: "list_all (keeps_at_least n) before" "list_all (keeps_at_least n) (before @ after)" by simp_all
  have w: "holds_window P rk key e0 ?start" by (simp add: holds_window_def)
  from window_run [OF assms(3,4) kept(1) w, of e0] have now: "?e = e0 + rotations before" "ek_root (co_epochs c) = rk"
    by (auto simp: assms(8) holds_window_def)
  obtain ekey f data where s: "current_epoch_key P (co_epochs c) = Inr ekey"
      "build_segment P Z i nonce ms conv bucket ?e ekey = Inr f" "ac_frame_write Z f = Inr data"
      "files h1 = (files h)(segment_url k seg \<mapsto> data)" "ident = seg" "co_epochs c' = co_epochs c"
    by (rule archive_batch_stored [OF assms(9,10,11)])
  have ek: "ekey = key (word_of_nat ?e)" using s(1) assms(3) now(2) by (simp add: current_epoch_key_def)
  have all: "fold (epoch_step P) after (co_epochs c') = fold (epoch_step P) (before @ after) ?start" by (simp add: s(6) assms(8))
  from window_run [OF assms(3,4) kept(2) w, of e0]
  have "ek_current (fold (epoch_step P) after (co_epochs c')) = ?e + rotations after" unfolding all by (auto simp: now(1) rotations_def)
  with epoch_keys_retained [OF assms(3,4,5) kept(2) all, of ?e] assms(7) now(1)
  have k: "epoch_key P ?e (fold (epoch_step P) after (co_epochs c')) = Some ekey" by (simp add: ek)
  have "files h2 (segment_url k seg) = Some data" using assms(13) s(4) by simp
  from gateway_fetches_segment [OF assms(9,12) this]
  have d: "\<exists>s2. download_segment Z (kdrive_gateway I k) ident (b2, h2) = (Inr f, s2)"
    using assms(2) s(3,5) by (auto simp: download_segment_def as_storage_def coded_def archive_codecs_ok_def)
  from segment_opens [OF assms(1,2) s(2)] d k show ?thesis by blast
qed

theorem archived_batch_readable_witness:
  "\<exists>f s2 ekey es. download_segment (one_codecs hi_payload hi_frame) (kdrive_gateway map_io (fst (auto_select_transport [] [] [] []))) ''s''
      (snd (auto_select_transport [] [] [] []), [segment_url (fst (auto_select_transport [] [] [] [])) ''s'' \<mapsto> [2]]) = (Inr f, s2)
    \<and> epoch_key sized_prims 6 (fold (epoch_step sized_prims) [Rotate, Prune 12, Rotate] \<lparr>ek_root = [], ek_current = 6,
        ek_wrapped = [(5, sized_key 5 @ replicate 8 0)]\<rparr>) = Some ekey
    \<and> open_segment sized_prims (one_codecs hi_payload hi_frame) f ekey
        = Inr \<lparr>ap_segment = ''p'', ap_conv = ''c'', ap_bucket = ''2024-01'', ap_epoch = 6, ap_entries = es\<rparr>
    \<and> list_all2 (entry_of sized_prims ekey) es [hi_message]"
proof -
  let ?k = "fst (auto_select_transport [] [] [] [])" and ?b = "snd (auto_select_transport [] [] [] [])"
  let ?Z = "one_codecs hi_payload hi_frame" and ?G = "kdrive_gateway map_io ?k"
  define ks where "ks = \<lparr>ek_root = [], ek_current = 6, ek_wrapped = [(5, sized_key 5 @ replicate 8 0)]\<rparr>"
  define c where "c = \<lparr>co_epochs = ks, co_journal = [], co_pending = [], co_generation = 0, co_prev_hash = []\<rparr>"
  have c: "co_epochs c = fold (epoch_step sized_prims) [Rotate] \<lparr>ek_root = [], ek_current = 5, ek_wrapped = []\<rparr>"
    by (simp add: c_def ks_def epochs_rotate_def current_epoch_key_def sized_keys(1) wrap_key_def sized_wrap)
  obtain h1 where h1: "gw_upload_archive_segment ?G ''s'' [2] (?b, Map.empty) = (Inr ''s'', record_success ?b, h1)"
      "h1 = Map.empty(segment_url ?k ''s'' \<mapsto> [2])"
    using gateway_stores_segment [OF map_io_serves fresh_breaker_calm, of ?k "''s''" "[2]" Map.empty] by auto
  have w: "ac_frame_write ?Z hi_frame = Inr [2]" by (simp add: one_codecs_def)
  obtain c' where a: "archive_batch sized_prims ?Z ?G ''p'' ''s'' (\<lambda>_. []) [hi_message] ''c'' ''2024-01'' c (?b, Map.empty)
      = (Inr ''s'', c', record_success ?b, h1)" "co_epochs c' = ks"
    using h1(1)
    by (simp add: archive_batch_def c_def ks_def current_epoch_key_def sized_keys(1) ciphered_def hi_segment upload_segment_def coded_def w
        as_storage_def archive_record_def max_pending_segments_def)
  have "list_all (keeps_at_least 12) ([Rotate] @ [Rotate, Prune 12, Rotate])" "rotations [Rotate, Prune 12, Rotate] \<le> 12"
    by (simp_all add: rotations_def)
  from archived_batch_readable [OF sized_aead_ok one_codecs_ok sized_keys this c map_io_serves fresh_breaker_calm a(1)
      fresh_breaker_calm, of h1] a(2) h1(2)
  show ?thesis by (simp add: c_def ks_def)
qed

text \<open>
  C22: a cold shard is found again: a text shard that was built from entries and posted over HTTP under its key, before and after
  any other shards of other conversations, buckets or kinds, is what a fetch of its identifier returns; it opens to the entries
  it was built from and is what the shard cache returns next, whatever was in the cache. This is when hashes and
  buckets have no underscore, the server answers and stores what is posted, the circuit breaker has seen no failure since its last
  success, and the AEAD and JSON invert what they do.
\<close>

theorem cold_shard_found:
  assumes "aead_ok P" and "json_ok J" and "json_ok JF"
    and "serves_blobs files (ki_host I)" and "calm_breaker b"
    and "build_text_shard P J nonce es key = Inr f" and "js_write JF f = Inr data"
    and "list_all (plain_id \<circ> fst) (before @ (i, data) # later)" and "i \<notin> fst ` set later"
  shows "(\<exists>w. fetch_shard (kdrive_gateway I k) JF i (post_shards (kdrive_gateway I k) (before @ (i, data) # later) (b, h)) = (Inr f, w))
    \<and> open_text_shard P J f key = Inr \<lparr>tp_entries = es\<rparr> \<and> fst (cache_get i (cache_insert i f c)) = Some f"
proof -
  obtain b' h' where p: "post_shards (kdrive_gateway I k) (before @ (i, data) # later) (b, h) = (b', h')" "calm_breaker b'"
      "files h' = fold (\<lambda>(i, d) m. m(shard_url k i \<mapsto> d)) (before @ (i, data) # later) (files h)"
    using shards_posted [OF assms(4,5)] by blast
  have "files h' (shard_url k i) = Some data" using assms(8,9) kept_posts [of i later] by (simp add: p(3))
  moreover have "js_read JF data = Inr f" using assms(3,7) by (simp add: json_ok_def)
  ultimately have "\<exists>w. fetch_shard (kdrive_gateway I k) JF i (b', h') = (Inr f, w)" by (rule shard_fetched [OF assms(4) p(2)])
  with p(1) text_kind.opens_again [OF assms(1,2,6)] show ?thesis by (simp add: cache_get_inserted)
qed

text \<open>The shards of two months of one conversation.\<close>

theorem cold_shard_found_witness:
  "\<exists>f w. fetch_shard (kdrive_gateway map_io (fst (auto_select_transport [] [] [] []))) (one_json f [7])
      \<lparr>si_conv_hash = ''h'', si_bucket = ''2024-01'', si_type = IxText\<rparr>
      (post_shards (kdrive_gateway map_io (fst (auto_select_transport [] [] [] [])))
         [(\<lparr>si_conv_hash = ''h'', si_bucket = ''2024-01'', si_type = IxText\<rparr>, [7]),
          (\<lparr>si_conv_hash = ''h'', si_bucket = ''2024-02'', si_type = IxText\<rparr>, [8])]
         (snd (auto_select_transport [] [] [] []), Map.empty)) = (Inr f, w)
    \<and> open_text_shard labelled_prims (one_json \<lparr>tp_entries = []\<rparr> [9]) f [2] = Inr \<lparr>tp_entries = []\<rparr>"
proof -
  let ?i = "\<lparr>si_conv_hash = ''h'', si_bucket = ''2024-01'', si_type = IxText\<rparr>"
  let ?j = "\<lparr>si_conv_hash = ''h'', si_bucket = ''2024-02'', si_type = IxText\<rparr>"
  obtain f where f: "build_text_shard labelled_prims (one_json \<lparr>tp_entries = []\<rparr> [9]) [1] [] [2] = Inr f"
    by (simp add: build_text_shard_def build_shard_def one_json_def labelled_prims_def seal_def toy_prims_def)
  have w: "js_write (one_json f [7]) f = Inr [7]" by (simp add: one_json_def)
  have p: "list_all (plain_id \<circ> fst) ([] @ (?i, [7]) # [(?j, [8])])" "?i \<notin> fst ` set [(?j, [8])]"
    by (simp_all add: plain_id_def)
  from cold_shard_found [OF labelled_ok(1) one_json_ok one_json_ok map_io_serves fresh_breaker_calm f w p,
      of "fst (auto_select_transport [] [] [] [])" Map.empty] show ?thesis unfolding append_Nil by blast
qed

end
