(* ===== verification/SearchProps.thy ===== *)
theory SearchProps
  imports Search MessageProps "HOL-Library.Multiset"
begin

text \<open>
  Messages and search together: what the message pipeline indexes, the fuzzy search finds. The candidates of a query
  are characterised as a set, independent of the order in which the index and the hash map are visited.
\<close>

section \<open>Candidates\<close>

definition query_grams :: "(ustr \<Rightarrow> ustr) \<Rightarrow> ustr \<Rightarrow> ustr list" where
  "query_grams lower q = concat (map (grams_of lower) (tokenize q))"

text \<open>The messages that share an indexed n-gram with the query, and the candidate a message gives rise to.\<close>

definition sharers :: "(ustr \<Rightarrow> ustr) \<Rightarrow> ustr \<Rightarrow> tables \<Rightarrow> string set" where
  "sharers lower q t = {mid. \<exists>g sc. g \<in> set (query_grams lower q) \<and> (g, sc, mid) \<in> set (t_fuzzy t)}"

definition candidate_of :: "tables \<Rightarrow> string \<Rightarrow> fuzzy_candidate option" where
  "candidate_of t mid =
     (case row_of rs_id mid (t_skel t) of
        None \<Rightarrow> None
      | Some r \<Rightarrow>
          if rs_deleted_ms r \<noteq> None then None
          else Some \<lparr>fc_message = mid, fc_conv = rs_conv r, fc_sender = rs_sender r, fc_created_ms = rs_created_ms r,
                 fc_text = Option.bind (row_of b_id mid (t_body t)) b_text\<rparr>)"

lemma finite_sharers: "finite (sharers lower q t)"
proof (rule finite_subset)
  show "sharers lower q t \<subseteq> (\<lambda>(_, _, mid). mid) ` set (t_fuzzy t)" by (force simp: sharers_def)
qed simp

lemma candidate_message: "candidate_of t mid = Some c \<Longrightarrow> fc_message c = mid"
  by (auto simp: candidate_of_def split: option.splits if_splits)

lemma candidates_for_all:
  assumes "\<And>xs. set (scan xs) = set xs" and "g \<in> set (query_grams lower q)" and "card (sharers lower q t) \<le> max_candidates"
  shows "set (candidates_for scan g t) = {c. \<exists>sc mid. (g, sc, mid) \<in> set (t_fuzzy t) \<and> candidate_of t mid = Some c}"
proof -
  define found where "found = concat (map (\<lambda>(_, _, mid). case candidate_of t mid of None \<Rightarrow> [] | Some c \<Rightarrow> [c])
      (scan (filter (\<lambda>(g', _). g' = g) (t_fuzzy t))))"
  have f: "candidates_for scan g t = take max_candidates (remdups found)"
    unfolding candidates_for_def found_def candidate_of_def
    by (rule arg_cong [of _ _ "\<lambda>f. take max_candidates (remdups (concat (map f _)))"]) (auto split: option.split)
  have s: "set found = {c. \<exists>sc mid. (g, sc, mid) \<in> set (t_fuzzy t) \<and> candidate_of t mid = Some c}"
    using assms(1) by (force simp: found_def split: option.splits)
  have "inj_on fc_message (set found)" unfolding s by (auto intro!: inj_onI) (metis candidate_message option.inject)
  moreover have "fc_message ` set found \<subseteq> sharers lower q t"
    using assms(2) unfolding s by (auto simp: sharers_def dest: candidate_message)
  ultimately have "card (set found) \<le> card (sharers lower q t)" by (metis card_image card_mono finite_sharers)
  then have "length (remdups found) \<le> max_candidates" using assms(3) by (simp add: length_remdups_card_conv)
  then show ?thesis using f s by simp
qed

lemma collected_all:
  assumes "\<And>xs. set (scan xs) = set xs" and "card (sharers lower q t) \<le> max_candidates"
  shows "set (collect_candidates scan lower q t) = {c. \<exists>mid \<in> sharers lower q t. candidate_of t mid = Some c}"
    and "length (collect_candidates scan lower q t) \<le> card (sharers lower q t)"
proof -
  let ?all = "concat (map (\<lambda>g. candidates_for scan g t) (query_grams lower q))"
  let ?kept = "collect_candidates scan lower q t"
  have a: "set ?all = {c. \<exists>mid \<in> sharers lower q t. candidate_of t mid = Some c}"
    by (simp add: candidates_for_all [OF assms(1) _ assms(2)] sharers_def) blast
  have k: "distinct (map fc_message ?kept)" "set ?kept \<subseteq> set ?all" "fc_message ` set ?kept = fc_message ` set ?all"
    using keep_first_spec [of fc_message "[]" ?all] by (simp_all add: collect_candidates_def query_grams_def)
  have "c \<in> set ?kept" if "c \<in> set ?all" for c
  proof -
    from k(3) that obtain c' where c': "c' \<in> set ?kept" "fc_message c' = fc_message c" by (metis imageE imageI)
    then have "c' \<in> set ?all" using k(2) by blast
    with that obtain m m' where "candidate_of t m = Some c" "candidate_of t m' = Some c'" unfolding a by blast
    with c' show ?thesis by (metis candidate_message option.inject)
  qed
  with k(2) a show 1: "set ?kept = {c. \<exists>mid \<in> sharers lower q t. candidate_of t mid = Some c}" by blast
  then have "fc_message ` set ?kept \<subseteq> sharers lower q t" by (auto dest: candidate_message)
  then have "card (set (map fc_message ?kept)) \<le> card (sharers lower q t)" by (simp add: card_mono finite_sharers)
  then show "length ?kept \<le> card (sharers lower q t)" using distinct_card [OF k(1)] by simp
qed

section \<open>Scores\<close>

lemma levenshtein_inside: "levenshtein q (x @ q @ y) \<le> length x + length y"
proof -
  have "edits ([] @ q @ []) (x @ q @ y) (length x + (0 + length y))"
    by (intro edits_append edits_ins edits_refl)
  then show ?thesis using ed_minimal [of q "x @ q @ y"] by (simp add: levenshtein_ed)
qed

lemma length_byte_len: "length s \<le> byte_len s"
  by (induction s) (auto simp: byte_len_def utf8_len_def)

lemma similarity_inside:
  assumes "q \<noteq> []"
  shows "0 < similarity q (x @ q @ y)"
proof -
  let ?t = "x @ q @ y"
  have "levenshtein q ?t < length ?t" using levenshtein_inside [of q x y] assms by (cases q) auto
  also have "\<dots> \<le> max (byte_len q) (byte_len ?t)" using length_byte_len [of ?t] by simp
  finally have less: "levenshtein q ?t < max (byte_len q) (byte_len ?t)" .
  then have nz: "max (byte_len q) (byte_len ?t) \<noteq> 0" by linarith
  have "0 < (1::rat) - of_nat n / of_nat m" if "n < m" for n m :: nat using that by (simp add: divide_less_eq)
  from this [OF less] show ?thesis by (simp only: similarity_def Let_def nz if_False)
qed

section \<open>Properties\<close>

text \<open>
  C14: a message that was ingested is found by any of its words: after a successful ingest the fuzzy search for a query, one of whose
  words occurs inside a word of the message's text and is long enough for one n-gram, returns the message with a positive score, if
  the lower-cased text contains the lower-cased query and no more messages share an n-gram with the query than results are asked for
  (at most 200), in whatever order the index and the hash map are visited.
\<close>

theorem ingested_message_found:
  assumes "settled s" and "quiet s" and "persist_ingested_message lower now1 now2 msg s = (Inr (), s')"
    and "im_text msg = Some content" and "(a @ w @ b, sc) \<in> set (tokenize content)" and "(w, sc) \<in> set (tokenize q)"
    and "(if sc \<in> {Hani, Hira, Kana, Hang} then 2 else 3) \<le> length w"
    and "lower content = x @ lower q @ y" and "lower q \<noteq> []"
    and "\<And>xs. set (scan xs) = set xs" and "\<And>xs. mset (ord xs) = mset xs"
    and "card (sharers lower q (st_live s')) \<le> limit" and "limit \<le> 200"
  shows "\<exists>rs r. fuzzy_search scan ord lower parse_id q limit s' = Inr rs \<and> r \<in> set rs
    \<and> sr_message r = parse_id (im_id msg) \<and> sr_created_ms r = im_created_ms msg \<and> 0 < sr_score r"
proof -
  let ?t = "st_live s'" and ?cs = "collect_candidates scan lower q (st_live s')"
  let ?hits = "List.map_filter (score_candidate lower parse_id q) (ord ?cs)"
  from assms(1-3) have s': "s' = both s (ingest_tables lower now1 now2 msg (st_live s))"
    by (auto simp: ingest_eval split: sum.splits if_splits)
  have view: "read_view s' = ?t" using assms(1) by (simp add: s' read_view_settled settled_def)
  have t: "?t = ingest_tables lower now1 now2 msg (st_live s)" by (simp add: s')
  have nonempty: "content \<noteq> []" using assms(5) by (auto simp: tokenize_def)
  have "grams_of lower (w, sc) \<noteq> []" using length_grams(1) [of lower w] length_grams(2) [of w] by (auto simp: grams_of_def split: if_splits)
  then obtain g where g: "g \<in> set (grams_of lower (w, sc))" by (cases "grams_of lower (w, sc)") auto
  then have "g \<in> set (grams_of lower (a @ w @ b, sc))" using fuzzy_substring_complete [OF assms(7), of lower a b] by blast
  then have "(g, script_code sc) \<in> set (index_grams lower content)" using assms(5) by (force simp: index_grams_def)
  then have "(g, script_code sc, im_id msg) \<in> set (t_fuzzy ?t)"
    unfolding t by (simp add: ingest_tables_def assms(4) Let_def log_event_def upd_conv_def index_all_fuzzy)
  moreover have "g \<in> set (query_grams lower q)" using g assms(6) by (force simp: query_grams_def)
  ultimately have m: "im_id msg \<in> sharers lower q ?t" by (auto simp: sharers_def)
  define c where "c = \<lparr>fc_message = im_id msg, fc_conv = im_conv msg, fc_sender = im_sender msg, fc_created_ms = im_created_ms msg,
    fc_text = Some content\<rparr>"
  have c: "candidate_of ?t (im_id msg) = Some c"
    by (simp add: t candidate_of_def ingest_tables_rows assms(4) row_of_upsert skel_to_row_def ingest_skeleton_def plain_body_def c_def)
  define r where "r = \<lparr>sr_message = parse_id (im_id msg), sr_conv = parse_id (im_conv msg), sr_sender = im_sender msg,
    sr_created_ms = im_created_ms msg, sr_snippet = [], sr_score = similarity (lower q) (lower content), sr_cold = False\<rparr>"
  have pos: "0 < similarity (lower q) (lower content)" unfolding assms(8) by (rule similarity_inside [OF assms(9)])
  then have r: "score_candidate lower parse_id q c = Some r" using nonempty by (simp add: score_candidate_def c_def r_def)
  have few: "card (sharers lower q ?t) \<le> max_candidates" using assms(12,13) by (simp add: max_candidates_def)
  note all = collected_all [where scan = scan, OF assms(10) few]
  have "set_mset (mset (ord ?cs)) = set_mset (mset ?cs)" "size (mset (ord ?cs)) = size (mset ?cs)" by (simp_all only: assms(11))
  then have o: "set (ord ?cs) = set ?cs" "length (ord ?cs) = length ?cs" by simp_all
  then have "r \<in> set ?hits" using all(1) m c r by (force simp: map_filter_def)
  moreover have "length ?hits \<le> limit"
    using all(2) o(2) assms(12) length_filter_le [of "\<lambda>x. score_candidate lower parse_id q x \<noteq> None" "ord ?cs"]
    by (simp add: map_filter_def o_def)
  moreover have "tokenize q \<noteq> []" using assms(6) by auto
  ultimately have "fuzzy_search scan ord lower parse_id q limit s' = Inr (sort_key rank_key ?hits)" "r \<in> set (sort_key rank_key ?hits)"
    by (simp_all add: fuzzy_search_def view)
  moreover have "sr_message r = parse_id (im_id msg)" "sr_created_ms r = im_created_ms msg" "0 < sr_score r"
    using pos by (simp_all add: r_def)
  ultimately show ?thesis by blast
qed

theorem ingested_message_found_witness:
  "\<exists>rs r. fuzzy_search id rev id id (lit ''ell'') 50
      (snd (persist_ingested_message id 1 2 (sample_message ''m1'') (open_db False))) = Inr rs \<and> r \<in> set rs
    \<and> sr_message r = ''m1'' \<and> sr_created_ms r = 5 \<and> 0 < sr_score r"
proof -
  let ?m = "sample_message ''m1''" and ?s = "open_db False"
  let ?t = "ingest_tables id 1 2 ?m (st_live ?s)"
  have s: "settled ?s" "quiet ?s" by (simp_all add: open_db_def fresh_store_def settled_def quiet_def)
  have p: "persist_ingested_message id 1 2 ?m ?s = (Inr (), both ?s ?t)"
    using ingest_eval [OF s, of id 1 2 ?m] sample_facts(5) by (simp add: open_db_def fresh_store_def empty_tables_def)
  have tok: "(lit ''h'' @ lit ''ell'' @ lit ''o'', Latn) \<in> set (tokenize (lit ''hello''))" "(lit ''ell'', Latn) \<in> set (tokenize (lit ''ell''))"
    by (simp_all add: tokenize_def lit_def is_whitespace_def in_range_def detect_script_def Let_def)
  have "t_fuzzy (st_live ?s) = []" by (simp add: open_db_def fresh_store_def empty_tables_def)
  then have "sharers id (lit ''ell'') (st_live (both ?s ?t)) \<subseteq> {''m1''}"
    by (auto simp: sharers_def ingest_tables_def sample_message_def Let_def log_event_def upd_conv_def index_all_fuzzy)
  from card_mono [OF _ this] have "card (sharers id (lit ''ell'') (st_live (both ?s ?t))) \<le> 50" by simp
  with ingested_message_found [OF s p _ tok, of "lit ''h''" "lit ''o''" id rev 50 id] p
  show ?thesis by (simp add: sample_message_def lit_def)
qed

section \<open>Results of the query engine\<close>

text \<open>A result shows a message of the store.\<close>

definition shows_message :: "(string \<Rightarrow> string) \<Rightarrow> skel_row \<Rightarrow> search_result \<Rightarrow> bool" where
  "shows_message parse_id row r \<longleftrightarrow> sr_message r = parse_id (rs_id row) \<and> sr_conv r = parse_id (rs_conv row)
     \<and> sr_sender r = rs_sender row \<and> sr_created_ms r = rs_created_ms row \<and> rs_deleted_ms row = None"

lemma shows_snippet [simp]: "shows_message parse_id row (r\<lparr>sr_snippet := sn\<rparr>) = shows_message parse_id row r"
  by (simp add: shows_message_def)

text \<open>Snippets are all that is added to what was gathered; only the link filter looks at them.\<close>

lemma snippets_added:
  assumes "with_snippets lower x found s = Some (Inr shown)"
  shows "list_all2 (\<lambda>a b. \<exists>sn. b = a\<lparr>sr_snippet := sn\<rparr>) found shown"
proof -
  have same: "\<exists>sn. a = a\<lparr>sr_snippet := sn\<rparr>" for a :: search_result by (rule exI [of _ "sr_snippet a"]) simp
  have add: "\<exists>sn. b = a\<lparr>sr_snippet := sn\<rparr>" if "add_snippet lower x bodies a = Some b" for bodies a b
    using that same [of a] by (auto simp: add_snippet_def split: if_splits option.splits)
  have "list_all2 (\<lambda>a b. \<exists>sn. b = a\<lparr>sr_snippet := sn\<rparr>) rs ys" if "map_panic (add_snippet lower x bodies) rs = Some ys" for bodies rs ys
    using that by (induction rs arbitrary: ys) (auto simp: bind_eq_Some_conv dest: add)
  moreover have "list_all2 (\<lambda>a b. \<exists>sn. b = a\<lparr>sr_snippet := sn\<rparr>) found found" using same by (simp add: list_all2_same)
  ultimately show ?thesis using assms by (auto simp: with_snippets_def Let_def split: if_splits sum.splits)
qed

lemma paired:
  assumes "list_all2 P xs ys"
  shows "x \<in> set xs \<Longrightarrow> \<exists>y \<in> set ys. P x y" "y \<in> set ys \<Longrightarrow> \<exists>x \<in> set xs. P x y"
  using assms by (induction rule: list_all2_induct) auto

lemma filters_snippet: "sq_kind q \<noteq> Some CkLink \<Longrightarrow> passes_filters q s (r\<lparr>sr_snippet := sn\<rparr>) = passes_filters q s r"
  by (auto simp: passes_filters_def split: option.split) (metis (full_types) content_kind.exhaust matches_content_kind.simps(1-3)
      search_result.select_convs(1) search_result.update_convs(5) search_result.surjective)+

text \<open>The matcher returns rows of the index.\<close>

definition draws_rows :: "rat fts_engine \<Rightarrow> bool" where
  "draws_rows fts \<longleftrightarrow> (\<forall>x rows hits. fts x rows = Inr hits \<longrightarrow> fst ` set hits \<subseteq> set rows)"

lemma map_sum_Inr: "map_sum f g z = Inr b \<longleftrightarrow> (\<exists>a. z = Inr a \<and> b = g a)"
  by (cases z) auto

text \<open>Full-text hits show messages when the index is in step with them.\<close>

lemma text_hits_show:
  assumes "fts_synced (read_view s)" and "draws_rows fts"
    and "text_search fts parse_id x conv n s = Inr hits" and "h \<in> set hits"
  shows "\<exists>row \<in> set (t_skel (read_view s)). shows_message parse_id row h"
proof -
  obtain f k raw where f: "fts (sanitize_fts_query x) (t_fts (read_view s)) = Inr raw" "(f, k) \<in> set raw"
      "h = hit_of_row parse_id (fts_hit (f, k))"
    using assms(3,4)
    by (auto simp: text_search_def Let_def search_fts_def search_fts_filtered_def act_simps split: if_splits option.splits sum.splits
        dest!: in_set_takeD)
  from f(2) have "f \<in> fst ` set raw" by force
  with assms(2) f(1) have "f \<in> set (t_fts (read_view s))" unfolding draws_rows_def by blast
  with assms(1) obtain row where "row \<in> set (t_skel (read_view s))" "describes row f" "plain_row row"
    unfolding fts_synced_def fts_owned_def by blast
  moreover from this assms(1) have "rs_deleted_ms row = None" unfolding fts_synced_def rows_ok_def by blast
  moreover have "shows_message parse_id row h" if "describes row f" "rs_deleted_ms row = None" for row
    using that by (simp add: shows_message_def describes_def f(3) hit_of_row_def fts_hit_def)
  ultimately show ?thesis by blast
qed

lemma gathered_show:
  assumes "fts_synced (read_view s)" and "draws_rows fts"
    and "\<And>xs. set (scan xs) \<subseteq> set xs" and "\<And>xs. set (ord xs) = set xs"
    and "gather fts scan ord lower parse_id has_cold q scope s = Inr found" and "r \<in> set found"
  shows "\<exists>row \<in> set (t_skel (read_view s)). shows_message parse_id row r"
proof -
  obtain r1 r2 where g: "text_search fts parse_id (sq_query q) (sq_conv q) 50 s = Inr r1"
      "r2 = [] \<or> fuzzy_search scan ord lower parse_id (sq_query q) 50 s = Inr r2" "found = r1 @ r2"
    using assms(5) by (auto simp: gather_def semantic_search_def search_cold_shards_def result_limit_def split: sum.splits if_splits)
  with assms(6) consider "r \<in> set r1" | "fuzzy_search scan ord lower parse_id (sq_query q) 50 s = Inr r2" "r \<in> set r2" by auto
  then show ?thesis
  proof cases
    case 1
    then show ?thesis using text_hits_show [OF assms(1,2) g(1)] by blast
  next
    case 2
    with fuzzy_hits_live [OF assms(3,4) 2(1)] show ?thesis by (fastforce simp: shows_message_def dest: row_of_SomeD)
  qed
qed



end
