(* ===== verification/Semantic.thy ===== *)
theory Semantic
  imports Search
begin

text \<open>
  Semantic search (\<open>search/semantic_search.rs\<close>) and the functions of \<open>models/\<close> as they are without the \<open>ml\<close> feature. An
  embedder is a record of its two methods; \<open>f32\<close> and \<open>f64\<close> values are rationals, the square root \<open>rt\<close> and the order \<open>scan\<close> in
  which SQLite visits the table are parameters. No operation of the library writes \<open>search_vector\<close>, so its rows are an argument.
\<close>

section \<open>Models\<close>

datatype model_error =
    NotAvailable string | Inference string | ModelLoad string | Ort string string | TokenizerErr string string
  | MediaDecode string string | NotCached string | LockPoisoned string | ModelCustom string

fun model_error_text :: "model_error \<Rightarrow> string" where
  "model_error_text (NotAvailable s) = ''model not available: '' @ s"
| "model_error_text (Inference s) = ''inference: '' @ s"
| "model_error_text (ModelLoad s) = ''model load: '' @ s"
| "model_error_text (Ort op s) = ''ORT ('' @ op @ ''): '' @ s"
| "model_error_text (TokenizerErr op s) = ''tokenizer ('' @ op @ ''): '' @ s"
| "model_error_text (MediaDecode op s) = ''audio decode ('' @ op @ ''): '' @ s"
| "model_error_text (NotCached s) = ''model `'' @ s @ ''` not cached''"
| "model_error_text (LockPoisoned s) = ''`'' @ s @ ''` lock poisoned''"
| "model_error_text (ModelCustom s) = s"

definition transcribe :: "rat list \<Rightarrow> nat \<Rightarrow> model_error + ustr" where
  "transcribe samples rate =
     Inl (NotAvailable ''whisper not available without ml feature; with ml, use KchatWhisperTranscriber instead'')"

definition transcribe_bytes :: "bytes \<Rightarrow> string \<Rightarrow> model_error + ustr" where
  "transcribe_bytes audio mime = Inl (NotAvailable ''whisper not available without ml feature'')"

definition log_mel_spectrogram :: "rat list \<Rightarrow> nat \<Rightarrow> rat list" where
  "log_mel_spectrogram samples rate = []"

definition extract_text :: "bytes \<Rightarrow> string \<Rightarrow> model_error + ustr" where
  "extract_text picture mime = Inl (NotAvailable ''ocr not available'')"

definition embed_document :: "ustr \<Rightarrow> model_error + rat list" where
  "embed_document doc = Inl (NotAvailable ''document embedding not available without ml feature'')"

definition extract_keyframes :: "bytes \<Rightarrow> model_error + bytes list" where
  "extract_keyframes video = Inl (NotAvailable (''video keyframe extraction requires a video decoder not present ''
     @ ''in kchat-ai-runtime; decode frames externally and pass them to kchat::VisionImageClassifier instead''))"

record embedder =
  em_embed :: "ustr \<Rightarrow> model_error + rat list"
  em_version :: string

definition embedding_dim :: nat where
  "embedding_dim = 768"

definition stub_embedder :: embedder where
  "stub_embedder = \<lparr>em_embed = (\<lambda>_. Inr (replicate embedding_dim 0)), em_version = ''stub@v0''\<rparr>"

section \<open>Similarity\<close>

definition decode_embedding :: "bytes \<Rightarrow> rat list" where
  "decode_embedding blob = map (\<lambda>b. of_int (sint b) / 128) blob"

fun add_products :: "rat \<times> rat \<times> rat \<Rightarrow> rat \<times> rat \<Rightarrow> rat \<times> rat \<times> rat" where
  "add_products (dot, na, nb) (x, y) = (dot + x * y, na + x * x, nb + y * y)"

definition cosine_similarity :: "(rat \<Rightarrow> rat) \<Rightarrow> rat list \<Rightarrow> rat list \<Rightarrow> rat" where
  "cosine_similarity rt a b =
     (if length a \<noteq> length b \<or> a = [] then 0
      else case foldl add_products (0, 0, 0) (zip a b) of
        (dot, na, nb) \<Rightarrow> let denom = rt (na * nb) in if denom = 0 then 0 else dot / denom)"

section \<open>The search\<close>

record vector_row =
  vr_message :: string
  vr_embedding :: bytes
  vr_model :: string

record stored_embedding =
  sd_message :: string
  sd_embedding :: "rat list"
  sd_created_ms :: int

definition fetch_embeddings ::
  "(stored_embedding list \<Rightarrow> stored_embedding list) \<Rightarrow> vector_row list \<Rightarrow> string \<Rightarrow> store \<Rightarrow> stored_embedding list" where
  "fetch_embeddings scan vectors version s =
     scan (concat (map (\<lambda>v. map (\<lambda>r. \<lparr>sd_message = vr_message v, sd_embedding = decode_embedding (vr_embedding v),
                                   sd_created_ms = rs_created_ms r\<rparr>)
            (filter (\<lambda>r. rs_id r = vr_message v \<and> rs_deleted_ms r = None) (t_skel (read_view s))))
          (filter (\<lambda>v. vr_model v = version) vectors)))"

definition score_embedding ::
  "(rat \<Rightarrow> rat) \<Rightarrow> (string \<Rightarrow> string) \<Rightarrow> rat list \<Rightarrow> stored_embedding \<Rightarrow> search_result option" where
  "score_embedding rt parse_id qv e =
     (let sim = cosine_similarity rt qv (sd_embedding e) in
      if sim \<le> 0 then None
      else Some \<lparr>sr_message = parse_id (sd_message e), sr_conv = ''00000000-0000-0000-0000-000000000000'', sr_sender = [],
                 sr_created_ms = sd_created_ms e, sr_snippet = [], sr_score = sim, sr_cold = False\<rparr>)"

definition semantic_search_with_embedder ::
  "(rat \<Rightarrow> rat) \<Rightarrow> (stored_embedding list \<Rightarrow> stored_embedding list) \<Rightarrow> (string \<Rightarrow> string) \<Rightarrow> vector_row list \<Rightarrow>
     ustr \<Rightarrow> nat \<Rightarrow> embedder option \<Rightarrow> store \<Rightarrow> search_error + search_result list" where
  "semantic_search_with_embedder rt scan parse_id vectors q limit embedder s =
     (case embedder of
        None \<Rightarrow> Inr []
      | Some e \<Rightarrow>
          (case em_embed e q of
             Inl err \<Rightarrow> Inl (SemanticErr (model_error_text err))
           | Inr qv \<Rightarrow>
               if qv = [] \<or> list_all (\<lambda>v. v = 0) qv then Inr []
               else Inr (take limit (sort_key rank_key
                      (List.map_filter (score_embedding rt parse_id qv)
                        (fetch_embeddings scan vectors (em_version e) s))))))"

lemma semantic_search_disabled:
  "semantic_search q limit s = semantic_search_with_embedder rt scan parse_id vectors q limit None s"
  by (simp add: semantic_search_def semantic_search_with_embedder_def)

section \<open>Products\<close>

lemma products_fold:
  "foldl add_products (d, na, nb) ps
     = (d + (\<Sum>(x, y)\<leftarrow>ps. x * y), na + (\<Sum>(x, y)\<leftarrow>ps. x * x), nb + (\<Sum>(x, y)\<leftarrow>ps. y * y))"
  by (induction ps arbitrary: d na nb) (auto simp: algebra_simps)

lemma cauchy_schwarz_list:
  "(\<Sum>(x, y)\<leftarrow>ps. x * y :: rat)\<^sup>2 \<le> (\<Sum>(x, y)\<leftarrow>ps. x * x) * (\<Sum>(x, y)\<leftarrow>ps. y * y)"
proof (induction ps)
  case (Cons p ps)
  obtain x y where p: "p = (x, y)" by (cases p)
  let ?d = "\<Sum>(x, y)\<leftarrow>ps. x * y" and ?a = "\<Sum>(x, y)\<leftarrow>ps. x * x" and ?b = "\<Sum>(x, y)\<leftarrow>ps. y * y"
  have nonneg: "0 \<le> ?a" "0 \<le> ?b" by (auto intro!: sum_list_nonneg)
  have "(2 * (x * y) * ?d)\<^sup>2 = 4 * (x\<^sup>2 * y\<^sup>2) * ?d\<^sup>2" by (simp add: power2_eq_square)
  also have "\<dots> \<le> 4 * (x\<^sup>2 * y\<^sup>2) * (?a * ?b)" by (rule mult_left_mono [OF Cons.IH]) simp
  also have "\<dots> \<le> (x\<^sup>2 * ?b + y\<^sup>2 * ?a)\<^sup>2"
  proof -
    have "0 \<le> (x\<^sup>2 * ?b - y\<^sup>2 * ?a)\<^sup>2" by simp
    then show ?thesis by (simp add: power2_eq_square algebra_simps)
  qed
  finally have "2 * (x * y) * ?d \<le> x\<^sup>2 * ?b + y\<^sup>2 * ?a"
    by (rule power2_le_imp_le) (simp add: nonneg)
  then have "(x * y + ?d)\<^sup>2 \<le> (x * x + ?a) * (y * y + ?b)"
    using Cons.IH by (simp add: power2_eq_square algebra_simps)
  then show ?case by (simp add: p)
qed simp

lemma similarity_squared:
  assumes "length a = length b" and "a \<noteq> []"
  shows "\<exists>d na nb. cosine_similarity rt a b = (if rt (na * nb) = 0 then 0 else d / rt (na * nb))
    \<and> cosine_similarity rt b a = (if rt (na * nb) = 0 then 0 else d / rt (na * nb))
    \<and> d\<^sup>2 \<le> na * nb \<and> 0 \<le> na * nb"
proof -
  have swap: "zip b a = map (\<lambda>(x, y). (y, x)) (zip a b)" by (rule zip_commute)
  have "0 \<le> (\<Sum>(x, y)\<leftarrow>zip a b. x * x)" "0 \<le> (\<Sum>(x, y)\<leftarrow>zip a b. y * y)" by (auto intro!: sum_list_nonneg)
  moreover have "b \<noteq> []" using assms by auto
  ultimately show ?thesis
    using assms cauchy_schwarz_list [of "zip a b"]
    by (intro exI [of _ "\<Sum>(x, y)\<leftarrow>zip a b. x * y"] exI [of _ "\<Sum>(x, y)\<leftarrow>zip a b. x * x"]
          exI [of _ "\<Sum>(x, y)\<leftarrow>zip a b. y * y"])
      (simp add: cosine_similarity_def products_fold Let_def swap comp_def split_def mult.commute)
qed

definition semantic_hit :: "(rat \<Rightarrow> rat) \<Rightarrow> (string \<Rightarrow> string) \<Rightarrow> rat list \<Rightarrow> stored_embedding \<Rightarrow> search_result" where
  "semantic_hit rt parse_id qv e =
     \<lparr>sr_message = parse_id (sd_message e), sr_conv = ''00000000-0000-0000-0000-000000000000'', sr_sender = [],
      sr_created_ms = sd_created_ms e, sr_snippet = [], sr_score = cosine_similarity rt qv (sd_embedding e), sr_cold = False\<rparr>"

lemma bex_built: "(\<exists>x \<in> {f v k | v k. P v k}. Q x) \<longleftrightarrow> (\<exists>v k. P v k \<and> Q (f v k))"
  by blast

lemma score_embedding_Some:
  "score_embedding rt parse_id qv e = Some r
     \<longleftrightarrow> 0 < cosine_similarity rt qv (sd_embedding e) \<and> r = semantic_hit rt parse_id qv e"
  by (auto simp: score_embedding_def semantic_hit_def Let_def)

lemma set_fetch_embeddings:
  assumes "\<And>xs. set (scan xs) = set xs"
  shows "set (fetch_embeddings scan vectors version s) =
    {\<lparr>sd_message = rs_id k, sd_embedding = decode_embedding (vr_embedding v), sd_created_ms = rs_created_ms k\<rparr> | v k.
       v \<in> set vectors \<and> k \<in> set (t_skel (read_view s)) \<and> vr_model v = version \<and> rs_id k = vr_message v \<and> rs_deleted_ms k = None}"
  by (auto simp: fetch_embeddings_def assms) metis

lemma set_map_filter [simp]: "set (List.map_filter f xs) = {y. \<exists>x \<in> set xs. f x = Some y}"
  by (induction xs) (auto simp: map_filter_simps split: option.splits)

section \<open>Properties\<close>

text \<open>
  C37: the similarity of two embeddings does not depend on their order and is at most 1 in size, up to the error of
  the square root: if squaring a root loses at most a factor \<open>c\<close>, the square of the similarity is at most \<open>c\<close>. Embeddings of
  different length or without entries have similarity 0.
\<close>

theorem similarity_bounded:
  assumes "\<And>x. 0 \<le> x \<Longrightarrow> x \<le> c * (rt x)\<^sup>2" and "0 \<le> c"
  shows "cosine_similarity rt a b = cosine_similarity rt b a \<and> (cosine_similarity rt a b)\<^sup>2 \<le> c
    \<and> (length a \<noteq> length b \<or> a = [] \<longrightarrow> cosine_similarity rt a b = 0)"
proof (cases "length a = length b \<and> a \<noteq> []")
  case True
  then obtain d na nb where eq: "cosine_similarity rt a b = (if rt (na * nb) = 0 then 0 else d / rt (na * nb))"
      "cosine_similarity rt b a = (if rt (na * nb) = 0 then 0 else d / rt (na * nb))"
    and d: "d\<^sup>2 \<le> na * nb" "0 \<le> na * nb"
    using similarity_squared by metis
  have "d\<^sup>2 \<le> c * (rt (na * nb))\<^sup>2" using d(1) assms(1) [OF d(2)] by (rule order_trans)
  then have "(d / rt (na * nb))\<^sup>2 \<le> c" if "rt (na * nb) \<noteq> 0"
    using that by (simp add: power_divide divide_le_eq)
  with eq True assms(2) show ?thesis by simp
next
  case False
  then have "cosine_similarity rt a b = 0" "cosine_similarity rt b a = 0" by (auto simp: cosine_similarity_def)
  with False assms(2) show ?thesis by simp
qed

theorem similarity_bounded_witness:
  "cosine_similarity (\<lambda>x. x + 1) [1, 0] [1, 1] = cosine_similarity (\<lambda>x. x + 1) [1, 1] [1, 0]
    \<and> (cosine_similarity (\<lambda>x. x + 1) [1, 0] [1, 1])\<^sup>2 \<le> 1 \<and> cosine_similarity (\<lambda>x. x + 1) [1, 0] [1, 1] = 1 / 3"
proof -
  have "x \<le> 1 * (x + 1)\<^sup>2" if "0 \<le> x" for x :: rat using that by (simp add: power2_eq_square algebra_simps)
  from similarity_bounded [of 1 "\<lambda>x. x + 1" "[1, 0]" "[1, 1]", OF this] show ?thesis
    by (simp add: cosine_similarity_def)
qed

text \<open>
  C30: a semantic search returns what it should: at most \<open>limit\<close> results, best first and newer ones first among equals, each one
  an undeleted message with an embedding of the embedder's own version and a positive similarity, which is its score; and
  when there is room, all of them. Nothing is returned for a query without an embedding, as for the embedder that stands
  in for a missing model.
\<close>

theorem semantic_results_sound:
  assumes "em_embed e q = Inr qv" and "\<And>xs. set (scan xs) = set xs"
  shows "\<exists>rs. semantic_search_with_embedder rt scan parse_id vectors q limit (Some e) s = Inr rs
    \<and> length rs \<le> limit \<and> sorted (map rank_key rs)
    \<and> (\<forall>r \<in> set rs. 0 < sr_score r \<and> (\<exists>v \<in> set vectors. \<exists>k \<in> set (t_skel (read_view s)).
          vr_model v = em_version e \<and> rs_id k = vr_message v \<and> rs_deleted_ms k = None
          \<and> sr_message r = parse_id (rs_id k) \<and> sr_created_ms r = rs_created_ms k
          \<and> sr_score r = cosine_similarity rt qv (decode_embedding (vr_embedding v))))
    \<and> (length rs < limit \<and> (\<exists>x \<in> set qv. x \<noteq> 0) \<longrightarrow>
        (\<forall>v \<in> set vectors. \<forall>k \<in> set (t_skel (read_view s)).
          vr_model v = em_version e \<and> rs_id k = vr_message v \<and> rs_deleted_ms k = None
          \<and> 0 < cosine_similarity rt qv (decode_embedding (vr_embedding v)) \<longrightarrow> parse_id (rs_id k) \<in> sr_message ` set rs))
    \<and> ((\<forall>x \<in> set qv. x = 0) \<longrightarrow> rs = [])"
proof (cases "\<forall>x \<in> set qv. x = 0")
  case True
  then have "semantic_search_with_embedder rt scan parse_id vectors q limit (Some e) s = Inr []"
    using assms(1) by (simp add: semantic_search_with_embedder_def list_all_iff)
  then show ?thesis using True by (intro exI [of _ "[]"]) auto
next
  case False
  let ?es = "fetch_embeddings scan vectors (em_version e) s"
  let ?all = "List.map_filter (score_embedding rt parse_id qv) ?es"
  have run: "semantic_search_with_embedder rt scan parse_id vectors q limit (Some e) s = Inr (take limit (sort_key rank_key ?all))"
    using assms(1) False by (auto simp: semantic_search_with_embedder_def list_all_iff)
  have all: "r \<in> set ?all \<longleftrightarrow> (\<exists>v k. v \<in> set vectors \<and> k \<in> set (t_skel (read_view s))
      \<and> vr_model v = em_version e \<and> rs_id k = vr_message v \<and> rs_deleted_ms k = None
      \<and> 0 < cosine_similarity rt qv (decode_embedding (vr_embedding v))
      \<and> r = semantic_hit rt parse_id qv \<lparr>sd_message = rs_id k, sd_embedding = decode_embedding (vr_embedding v),
               sd_created_ms = rs_created_ms k\<rparr>)" for r
    by (simp only: set_map_filter set_fetch_embeddings [OF assms(2)] mem_Collect_eq bex_built score_embedding_Some
        stored_embedding.select_convs conj_assoc)
  have sub: "set (take limit (sort_key rank_key ?all)) \<subseteq> set ?all" by (auto dest: in_set_takeD)
  have room: "set (take limit (sort_key rank_key ?all)) = set ?all" if "length (take limit (sort_key rank_key ?all)) < limit"
    using that by (simp add: min_def split: if_splits)
  show ?thesis
  proof (intro exI conjI)
    show "sorted (map rank_key (take limit (sort_key rank_key ?all)))" by (simp add: take_map [symmetric] sorted_take)
    show "\<forall>r \<in> set (take limit (sort_key rank_key ?all)). 0 < sr_score r \<and> (\<exists>v \<in> set vectors. \<exists>k \<in> set (t_skel (read_view s)).
          vr_model v = em_version e \<and> rs_id k = vr_message v \<and> rs_deleted_ms k = None
          \<and> sr_message r = parse_id (rs_id k) \<and> sr_created_ms r = rs_created_ms k
          \<and> sr_score r = cosine_similarity rt qv (decode_embedding (vr_embedding v)))" (is "\<forall>r \<in> _. ?good r")
    proof
      fix r assume "r \<in> set (take limit (sort_key rank_key ?all))"
      then have "r \<in> set ?all" using sub by blast
      then obtain v k where "v \<in> set vectors" "k \<in> set (t_skel (read_view s))" and vk: "vr_model v = em_version e"
          "rs_id k = vr_message v" "rs_deleted_ms k = None" "0 < cosine_similarity rt qv (decode_embedding (vr_embedding v))"
        and r: "r = semantic_hit rt parse_id qv \<lparr>sd_message = rs_id k, sd_embedding = decode_embedding (vr_embedding v),
               sd_created_ms = rs_created_ms k\<rparr>"
        unfolding all by blast
      then show "?good r" by (intro conjI bexI [of _ v] bexI [of _ k]) (simp_all add: semantic_hit_def)
    qed
    show "length (take limit (sort_key rank_key ?all)) < limit \<and> (\<exists>x \<in> set qv. x \<noteq> 0) \<longrightarrow>
        (\<forall>v \<in> set vectors. \<forall>k \<in> set (t_skel (read_view s)).
          vr_model v = em_version e \<and> rs_id k = vr_message v \<and> rs_deleted_ms k = None
          \<and> 0 < cosine_similarity rt qv (decode_embedding (vr_embedding v))
          \<longrightarrow> parse_id (rs_id k) \<in> sr_message ` set (take limit (sort_key rank_key ?all)))"
    proof (intro impI ballI, elim conjE)
      fix v k
      assume "length (take limit (sort_key rank_key ?all)) < limit" "v \<in> set vectors" "k \<in> set (t_skel (read_view s))"
        "vr_model v = em_version e" "rs_id k = vr_message v" "rs_deleted_ms k = None"
        "0 < cosine_similarity rt qv (decode_embedding (vr_embedding v))"
      then show "parse_id (rs_id k) \<in> sr_message ` set (take limit (sort_key rank_key ?all))"
        unfolding room [OF \<open>length _ < limit\<close>]
        by (intro image_eqI [of _ _ "semantic_hit rt parse_id qv \<lparr>sd_message = rs_id k,
              sd_embedding = decode_embedding (vr_embedding v), sd_created_ms = rs_created_ms k\<rparr>"])
          (simp add: semantic_hit_def, unfold all, blast)
    qed
  qed (use False run in auto)
qed

theorem semantic_results_sound_witness:
  "\<exists>r. semantic_search_with_embedder (\<lambda>x. x + 1) id id [\<lparr>vr_message = ''m2'', vr_embedding = [64, 0], vr_model = ''v1''\<rparr>] (lit ''hi'') 5
      (Some \<lparr>em_embed = (\<lambda>_. Inr [1, 0]), em_version = ''v1''\<rparr>) leak_store = Inr [r]
    \<and> sr_message r = ''m2'' \<and> sr_score r = 2 / 5"
proof -
  let ?e = "\<lparr>em_embed = (\<lambda>_. Inr [1, 0]), em_version = ''v1''\<rparr> :: embedder"
  let ?v = "\<lparr>vr_message = ''m2'', vr_embedding = [64, 0], vr_model = ''v1''\<rparr> :: vector_row"
  have "em_embed ?e (lit ''hi'') = Inr [1, 0]" by simp
  from semantic_results_sound [OF this, of id "\<lambda>x. x + 1" id "[?v]" 5 leak_store]
  obtain rs where "semantic_search_with_embedder (\<lambda>x. x + 1) id id [?v] (lit ''hi'') 5 (Some ?e) leak_store = Inr rs" by auto
  moreover have "\<exists>r. semantic_search_with_embedder (\<lambda>x. x + 1) id id [?v] (lit ''hi'') 5 (Some ?e) leak_store = Inr [r]
      \<and> sr_message r = ''m2'' \<and> sr_score r = 2 / 5"
    by (simp add: semantic_search_with_embedder_def fetch_embeddings_def leak_view score_embedding_def decode_embedding_def
        cosine_similarity_def map_filter_simps leak_row_def)
  ultimately show ?thesis by simp
qed

end
