(* ===== verification/Models.thy ===== *)
theory Models
  imports Semantic
begin

text \<open>
  The adapters of \<open>models/\<close> that exist with the features \<open>ml\<close> and \<open>ml-vision\<close>: conversions of the runtime's errors into
  \<open>ModelError\<close>, the embedders, the transcriber, and recognition of text through a platform's bridge. The runtime itself (sessions, inference,
  audio processing) is a parameter; of its error types the constructors named by the conversions are modelled, and a \<open>string\<close> is
  their rendered content.
\<close>

section \<open>Errors of the runtime\<close>

datatype encoder_error =
    EncInference string | EncTokenizer string | EncSession string | EncDimension nat nat

fun model_of_encoder :: "encoder_error \<Rightarrow> model_error" where
  "model_of_encoder (EncInference d) = Inference d"
| "model_of_encoder (EncTokenizer d) = TokenizerErr ''encoder'' d"
| "model_of_encoder (EncSession d) = ModelLoad d"
| "model_of_encoder (EncDimension expected actual) =
     Inference (''dim mismatch: expected '' @ dec_nat expected @ '', got '' @ dec_nat actual)"

datatype asr_error =
    AsrAudioDecode string string | AsrOrt string string | AsrTokenizer string string | AsrNotCached string
  | AsrLockPoisoned string | AsrCustom string

fun model_of_asr :: "asr_error \<Rightarrow> model_error" where
  "model_of_asr (AsrAudioDecode op d) = MediaDecode op d"
| "model_of_asr (AsrOrt op d) = Ort op d"
| "model_of_asr (AsrTokenizer op d) = TokenizerErr op d"
| "model_of_asr (AsrNotCached s) = NotCached s"
| "model_of_asr (AsrLockPoisoned s) = LockPoisoned s"
| "model_of_asr (AsrCustom s) = ModelCustom s"

text \<open>The shape of the last one is rendered with \<open>Debug\<close>.\<close>

datatype clip_error =
    ClipLoadFailed string | ClipInvalidGraph string | ClipTensorBuild string | ClipInference string | ClipShape string

fun model_of_clip :: "clip_error \<Rightarrow> model_error" where
  "model_of_clip (ClipLoadFailed r) = ModelLoad r"
| "model_of_clip (ClipInvalidGraph r) = ModelLoad r"
| "model_of_clip (ClipTensorBuild r) = Ort ''mobileclip_tensor_build'' r"
| "model_of_clip (ClipInference r) = Inference r"
| "model_of_clip (ClipShape got) = Inference (''unexpected output shape: '' @ got)"

text \<open>The others are known by their text alone.\<close>

definition model_of_core :: "string \<Rightarrow> model_error" where "model_of_core e = ModelCustom e"
definition model_of_vision :: "string \<Rightarrow> model_error" where "model_of_vision e = Inference e"
definition model_of_preprocess :: "string \<Rightarrow> model_error" where "model_of_preprocess e = MediaDecode ''vision_preprocess'' e"
definition model_of_frames :: "string \<Rightarrow> model_error" where "model_of_frames e = Inference e"

section \<open>Embedders\<close>

text \<open>\<open>open_session\<close> loads a model; \<open>head\<close> embeds a text with a session.\<close>

definition kchat_embedder_new ::
  "(string \<Rightarrow> string \<Rightarrow> 'q \<Rightarrow> nat \<Rightarrow> encoder_error + 's) \<Rightarrow> string \<Rightarrow> string \<Rightarrow> 'q \<Rightarrow> nat \<Rightarrow> model_error + 's" where
  "kchat_embedder_new open_session model_path tokenizer_path quantization threads =
     map_sum model_of_encoder id (open_session model_path tokenizer_path quantization threads)"

definition kchat_embedder :: "('s \<Rightarrow> ustr \<Rightarrow> encoder_error + rat list) \<Rightarrow> 's \<Rightarrow> embedder" where
  "kchat_embedder head session =
     \<lparr>em_embed = (\<lambda>t. map_sum model_of_encoder id (head session t)), em_version = ''kchat-encoder-xlmr@v1''\<rparr>"

definition mock_kchat_embedder :: "(nat \<Rightarrow> ustr \<Rightarrow> encoder_error + rat list) \<Rightarrow> embedder" where
  "mock_kchat_embedder head =
     \<lparr>em_embed = (\<lambda>t. map_sum model_of_encoder id (head embedding_dim t)), em_version = ''kchat-encoder-mock@v0''\<rparr>"

section \<open>Recognition of text and speech\<close>

definition extract_text_with_bridge :: "(bytes \<Rightarrow> string \<Rightarrow> string + ustr list) \<Rightarrow> bytes \<Rightarrow> string \<Rightarrow> model_error + ustr" where
  "extract_text_with_bridge bridge picture mime =
     (case bridge picture mime of
        Inl e \<Rightarrow> Inl (model_of_core e)
      | Inr results \<Rightarrow> Inr (join_with [10] results))"

definition transcriber_new_from_dir :: "('p \<Rightarrow> nat \<Rightarrow> asr_error + 't) \<Rightarrow> 'p \<Rightarrow> nat \<Rightarrow> model_error + 't" where
  "transcriber_new_from_dir load dir threads = map_sum model_of_asr id (load dir threads)"

definition transcriber_new :: "('p \<Rightarrow> 'p \<Rightarrow> 'p \<Rightarrow> nat \<Rightarrow> asr_error + 't) \<Rightarrow> 'p \<Rightarrow> 'p \<Rightarrow> 'p \<Rightarrow> nat \<Rightarrow> model_error + 't" where
  "transcriber_new load encoder decoder tokenizer threads = map_sum model_of_asr id (load encoder decoder tokenizer threads)"

definition kchat_transcribe :: "('t \<Rightarrow> bytes \<Rightarrow> string \<Rightarrow> asr_error + 'r) \<Rightarrow> 't \<Rightarrow> bytes \<Rightarrow> string \<Rightarrow> model_error + 'r" where
  "kchat_transcribe run inner audio mime = map_sum model_of_asr id (run inner audio mime)"

text \<open>
  The free functions as they are with \<open>ml\<close>: recognition through the bridge that recognises nothing, two refusals, and the
  spectrogram, whose length a debug assertion checks.
\<close>

definition extract_text_ml :: "(bytes \<Rightarrow> string \<Rightarrow> string + ustr list) \<Rightarrow> bytes \<Rightarrow> string \<Rightarrow> model_error + ustr" where
  "extract_text_ml skip_bridge picture mime =
     (case skip_bridge picture mime of
        Inl e \<Rightarrow> Inl (ModelCustom e)
      | Inr results \<Rightarrow> Inr (join_with [10] results))"

definition transcribe_bytes_ml :: "bytes \<Rightarrow> string \<Rightarrow> model_error + ustr" where
  "transcribe_bytes_ml audio mime =
     Inl (NotAvailable (''transcribe_bytes cannot run Whisper inference without model paths; ''
       @ ''construct a kchat::KchatWhisperTranscriber with encoder/decoder/tokenizer paths instead''))"

definition embed_document_ml :: "ustr \<Rightarrow> model_error + rat list" where
  "embed_document_ml doc =
     Inl (NotAvailable (''embed_document cannot run ONNX inference without model paths; ''
       @ ''construct a crate::models::embeddings::kchat::KchatEmbedder with model/tokenizer paths instead''))"

record mel_runtime =
  ml_to_mono_16k :: "rat list \<Rightarrow> nat \<Rightarrow> nat \<Rightarrow> rat list"
  ml_pad_or_truncate :: "rat list \<Rightarrow> rat list"
  ml_log_mel :: "rat list \<Rightarrow> string + rat list"
  ml_values :: nat

definition log_mel_spectrogram_ml :: "mel_runtime \<Rightarrow> rat list \<Rightarrow> nat \<Rightarrow> rat list option" where
  "log_mel_spectrogram_ml R samples rate =
     (case ml_log_mel R (ml_pad_or_truncate R (ml_to_mono_16k R samples rate 1)) of
        Inl e \<Rightarrow> Some []
      | Inr mel \<Rightarrow> if length mel = ml_values R then Some mel else None)"

section \<open>What the adapters keep\<close>

text \<open>No two errors of speech recognition are confused.\<close>

lemma model_of_asr_inj: "inj model_of_asr"
proof (rule injI)
  fix a b assume "model_of_asr a = model_of_asr b"
  then show "a = b" by (cases a; cases b) simp_all
qed

text \<open>The text of a failed encoding ends with what the runtime said.\<close>

fun encoder_detail :: "encoder_error \<Rightarrow> string" where
  "encoder_detail (EncInference d) = d"
| "encoder_detail (EncTokenizer d) = d"
| "encoder_detail (EncSession d) = d"
| "encoder_detail (EncDimension expected actual) = dec_nat actual"

lemma encoder_text: "\<exists>p. model_error_text (model_of_encoder e) = p @ encoder_detail e"
proof -
  let ?at = "\<lambda>p. model_error_text (model_of_encoder e) = p @ encoder_detail e"
  show ?thesis
  proof (cases e)
    case (EncInference d)
    then have "?at ''inference: ''" by simp
    then show ?thesis ..
  next
    case (EncTokenizer d)
    then have "?at ''tokenizer (encoder): ''" by simp
    then show ?thesis ..
  next
    case (EncSession d)
    then have "?at ''model load: ''" by simp
    then show ?thesis ..
  next
    case (EncDimension n m)
    then have "?at (''inference: dim mismatch: expected '' @ dec_nat n @ '', got '')" by simp
    then show ?thesis ..
  qed
qed

lemma fetch_own_version:
  "fetch_embeddings scan (filter (\<lambda>v. vr_model v = version) vectors) version s = fetch_embeddings scan vectors version s"
  by (simp add: fetch_embeddings_def)

section \<open>Properties\<close>

text \<open>
  a failing encoder is not hidden: semantic search with the real embedder returns an error whose text ends with what the
  runtime said, for every query, table of embeddings and limit; and when the encoder answers, only embeddings of its own
  version are searched: rows of any other version can be added to the table or removed from it without any effect.
\<close>

theorem embedder_failures_reported:
  shows "head session q = Inl e \<Longrightarrow> \<exists>p. semantic_search_with_embedder rt scan parse_id vectors q limit (Some (kchat_embedder head session)) s
      = Inl (SemanticErr (p @ encoder_detail e))"
    and "semantic_search_with_embedder rt scan parse_id (filter (\<lambda>v. vr_model v = ''kchat-encoder-xlmr@v1'') vectors) q limit
        (Some (kchat_embedder head session)) s
      = semantic_search_with_embedder rt scan parse_id vectors q limit (Some (kchat_embedder head session)) s"
  using encoder_text [of e]
  by (auto simp: semantic_search_with_embedder_def kchat_embedder_def fetch_own_version split: sum.split)

theorem embedder_failures_reported_witness:
  "\<exists>p. semantic_search_with_embedder id id id [] [] 5 (Some (kchat_embedder (\<lambda>_ _. Inl (EncSession ''no file'')) ())) (open_db True)
      = Inl (SemanticErr (p @ ''no file''))"
  using embedder_failures_reported(1) [of "\<lambda>_ _. Inl (EncSession ''no file'')" "()" "[]" "EncSession ''no file''"] by simp

end
