(* ===== verification/CoreProps.thy ===== *)
theory CoreProps
  imports Core
begin

text \<open>
  What the composition in theory \<open>Core\<close> guarantees and where it falls short: hydration, redelivery and poison
  messages, storage enforcement, backups over restarts, and media.
\<close>

section \<open>Examples\<close>

text \<open>An environment over a given gateway, codecs and primitives, with a budget of 10 bytes for a database of 100.\<close>

definition start_state :: core_state where
  "start_state = \<lparr>cr_backup = backup_new, cr_last_enforcement = None\<rparr>"

definition sample_env :: "prims \<Rightarrow> backup_manifest \<Rightarrow> 'w gateway \<Rightarrow> 'w core_env" where
  "sample_env P m G = \<lparr>ce_prims = P, ce_codecs = toy_codecs, ce_manifests = toy_codec m,
     ce_snapshots = \<lparr>co_write = (\<lambda>_. Inr [5]), co_read = (\<lambda>_. Inl ''eof'')\<rparr>, ce_lower = id, ce_gateway = G,
     ce_wrapping = [], ce_budget = None, ce_db_size = (\<lambda>_. Inr 100), ce_chunk_size = (\<lambda>n. n), ce_parse_uuid = Some\<rparr>"

definition sample_raw :: "string \<Rightarrow> raw_delivery_message" where
  "sample_raw mid = \<lparr>rd_id = mid, rd_conv = ''c1'', rd_sender = ''ann'', rd_created_ms = 5, rd_text = Some (lit ''hello''),
     rd_media = [], rd_reply_to = None\<rparr>"

lemma sample_raw_ok: "ingested_of (sample_raw mid) = sample_message mid"
  by (simp add: ingested_of_def sample_raw_def sample_message_def)

section \<open>Hydration\<close>

lemma process_unknown:
  assumes "local_message E mid s = None"
  shows "hq_process lower now1 now2 G (hq_push \<lparr>hr_message = mid, hr_reason = reason\<rparr> []) s w = (Inr 0, [], s, w)"
proof -
  have "get_message_skeleton mid s = (Inr None, s)"
    using assms by (auto simp: local_message_def get_message_skeleton_def fetch_skeleton_def query_def split: option.splits)
  then show ?thesis by (simp add: hq_process_def hq_push_def hq_drain_def)
qed

text \<open>
  hydrating a message never asks the gateway: it returns the local skeleton with whatever body is left, or, for
  a message without a skeleton, fails as not found, because the queue looks the conversation up in the same missing
  skeleton. So a body that was evicted cannot come back this way.
\<close>

theorem hydration_is_local:
  "hydrate_message E now1 now2 mid reason s w =
     (case local_message E mid s of
        Some m \<Rightarrow> (Inr m, s, w)
      | None \<Rightarrow> (Inl (CStorage (Custom (''message not found: '' @ mid))), s, w))"
  by (cases "local_message E mid s") (simp_all add: hydrate_message_def process_unknown)

section \<open>Receiving pages\<close>

definition skel_ids :: "store \<Rightarrow> string set" where
  "skel_ids s = rs_id ` set (t_skel (st_live s))"

definition calm :: "store \<Rightarrow> bool" where
  "calm s \<longleftrightarrow> settled s \<and> quiet s"

lemma calm_both [simp]: "calm s \<Longrightarrow> calm (both s t)"
  by (simp add: calm_def)

lemma persist_calm:
  assumes "calm s" and "validate_ingest msg = Inr ()" and "persist_ingested_message lower now1 now2 msg s = (q, s')"
    and "q = Inr () \<or> q = Inl DuplicateMessage"
  shows "calm s' \<and> im_id msg \<in> skel_ids s' \<and> skel_ids s \<subseteq> skel_ids s'"
  using assms
  by (auto simp: calm_def ingest_eval skel_ids_def ingest_tables_rows set_upsert skeleton_rows split: if_splits)

lemma duplicate_calm:
  "calm s \<Longrightarrow> validate_ingest msg = Inr () \<Longrightarrow> im_id msg \<in> skel_ids s \<Longrightarrow>
   persist_ingested_message lower now1 now2 msg s = (Inl DuplicateMessage, s)"
  by (simp add: calm_def ingest_eval skel_ids_def)

lemma ingest_page_stored:
  assumes "calm s" and "ingest_page lower now1 now2 raws r s = (Inr r', s')"
  shows "calm s' \<and> skel_ids s \<subseteq> skel_ids s' \<and> ig_cursor r' = ig_cursor r
    \<and> ig_new r' + ig_duplicate r' = ig_new r + ig_duplicate r + length raws
    \<and> list_all (\<lambda>m. validate_ingest (ingested_of m) = Inr () \<and> rd_id m \<in> skel_ids s') raws"
  using assms
proof (induction raws arbitrary: r s)
  case (Cons m raws)
  have v: "validate_ingest (ingested_of m) = Inr ()" using Cons.prems(2) by (auto split: sum.splits)
  obtain q s1 where p: "persist_ingested_message lower now1 now2 (ingested_of m) s = (q, s1)" by fastforce
  with Cons.prems(2) v have q: "q = Inr () \<or> q = Inl DuplicateMessage" by (auto split: sum.splits if_splits)
  define r1 where "r1 = (if q = Inr () then r\<lparr>ig_new := ig_new r + 1\<rparr> else r\<lparr>ig_duplicate := ig_duplicate r + 1\<rparr>)"
  have run: "ingest_page lower now1 now2 raws r1 s1 = (Inr r', s')"
    using Cons.prems(2) v p q by (auto simp: r1_def)
  note s1 = persist_calm [OF Cons.prems(1) v p q]
  from Cons.IH [OF conjunct1 [OF s1] run] have ih: "calm s'" "skel_ids s1 \<subseteq> skel_ids s'" "ig_cursor r' = ig_cursor r1"
      "ig_new r' + ig_duplicate r' = ig_new r1 + ig_duplicate r1 + length raws"
      "list_all (\<lambda>m. validate_ingest (ingested_of m) = Inr () \<and> rd_id m \<in> skel_ids s') raws" by blast+
  have "rd_id m \<in> skel_ids s'" using s1 ih(2) by (auto simp: ingested_of_def)
  moreover have "skel_ids s \<subseteq> skel_ids s'" using s1 ih(2) by blast
  moreover have "ig_cursor r' = ig_cursor r" "ig_new r' + ig_duplicate r' = ig_new r + ig_duplicate r + length (m # raws)"
    using ih(3,4) by (simp_all add: r1_def split: if_splits)
  ultimately show ?case using ih(1,5) v by simp
qed simp

lemma ingest_page_again:
  assumes "calm s" and "list_all (\<lambda>m. validate_ingest (ingested_of m) = Inr () \<and> rd_id m \<in> skel_ids s) raws"
  shows "ingest_page lower now1 now2 raws r s = (Inr (r\<lparr>ig_duplicate := ig_duplicate r + length raws\<rparr>), s)"
  using assms(2)
proof (induction raws arbitrary: r)
  case (Cons m raws)
  then have "persist_ingested_message lower now1 now2 (ingested_of m) s = (Inl DuplicateMessage, s)"
    by (intro duplicate_calm [OF assms(1)]) (simp_all add: ingested_of_def)
  with Cons show ?case by simp
qed simp

lemma ingest_page_append:
  "ingest_page lower now1 now2 (xs @ ys) r s =
     (case ingest_page lower now1 now2 xs r s of (Inl e, s') \<Rightarrow> (Inl e, s') | (Inr r', s') \<Rightarrow> ingest_page lower now1 now2 ys r' s')"
  by (induction xs arbitrary: r s) (auto split: sum.split prod.split)

definition page_gateway :: "raw_delivery_message list \<Rightarrow> 'w gateway" where
  "page_gateway ms = toy_gateway\<lparr>gw_fetch_messages := \<lambda>_ _ w. (Inr \<lparr>fr_messages = ms, fr_cursor = None\<rparr>, w)\<rparr>"

text \<open>
  one invalid message blocks its conversation: a page fails at the first message that does not validate, what
  came before it is stored, what comes after it is never stored, no cursor is returned, and every further attempt
  with the same page ends at the same message with the store unchanged.
\<close>

theorem poison_message_blocks:
  assumes "settled s" and "quiet s"
    and "ingest_page (ce_lower E) now1 now2 good (empty_ingest cur) s = (Inr r, s1)"
    and "validate_ingest (ingested_of bad) = Inl e"
    and "\<And>cursor w. gw_fetch_messages (ce_gateway E) conv cursor w = (Inr \<lparr>fr_messages = good @ bad # rest, fr_cursor = cur\<rparr>, w)"
  shows "ingest_remote_messages E now1 now2 now3 conv cursor c s w = (Inl (CMessage e), c, s1, w)
    \<and> ingest_remote_messages E now4 now5 now6 conv cursor' c s1 w = (Inl (CMessage e), c, s1, w)"
proof -
  have "calm s" using assms(1,2) by (simp add: calm_def)
  from ingest_page_stored [OF this assms(3)] have "calm s1"
      "list_all (\<lambda>m. validate_ingest (ingested_of m) = Inr () \<and> rd_id m \<in> skel_ids s1) good" by blast+
  from ingest_page_again [OF this] have
    "ingest_page (ce_lower E) now4 now5 good (empty_ingest cur) s1
       = (Inr ((empty_ingest cur)\<lparr>ig_duplicate := ig_duplicate (empty_ingest cur) + length good\<rparr>), s1)" .
  then show ?thesis
    by (simp add: ingest_remote_messages_def assms(3-5) ingest_page_append)
qed

theorem poison_message_blocks_witness:
  "ingest_remote_messages (sample_env toy_prims bare_manifest (page_gateway [sample_raw [], sample_raw ''m1''])) 1 2 3 ''c1'' None start_state
     (open_db False) () = (Inl (CMessage (InvalidMessage ''message_id must not be empty'')), start_state, open_db False, ())"
proof -
  let ?E = "sample_env toy_prims bare_manifest (page_gateway [sample_raw [], sample_raw ''m1'']) :: unit core_env"
  have g: "ingest_page (ce_lower ?E) 1 2 [] (empty_ingest None) (open_db False) = (Inr (empty_ingest None), open_db False)"
    by simp
  have b: "validate_ingest (ingested_of (sample_raw [])) = Inl (InvalidMessage ''message_id must not be empty'')"
    by (simp add: sample_raw_ok validate_ingest_def sample_message_def)
  have f: "gw_fetch_messages (ce_gateway ?E) ''c1'' cursor w
      = (Inr \<lparr>fr_messages = [] @ sample_raw [] # [sample_raw ''m1''], fr_cursor = None\<rparr>, w)" for cursor w
    by (simp add: sample_env_def page_gateway_def)
  from poison_message_blocks [OF open_facts(1,2) g b f, of 3 None start_state] show ?thesis by blast
qed

section \<open>Enforcement\<close>

lemma insort_map: "(\<And>x. k (f x) = k x) \<Longrightarrow> insort_key k (f x) (map f xs) = map f (insort_key k x xs)"
  by (induction xs) simp_all

lemma sort_map: "(\<And>x. k (f x) = k x) \<Longrightarrow> sort_key k (map f xs) = map f (sort_key k xs)"
  by (induction xs) (simp_all add: insort_map)

text \<open>The columns of a skeleton that decide about eviction.\<close>

definition evict_view :: "skel_row \<Rightarrow> string \<times> string \<times> int \<times> int option" where
  "evict_view r = (rs_id r, rs_archive r, rs_created_ms r, rs_deleted_ms r)"

definition body_candidates :: "tables \<Rightarrow> (string \<times> int \<times> ustr option) list" where
  "body_candidates t = map (\<lambda>(b, r). (b_id b, rs_created_ms r, b_text b)) (evictable_rows t)"

lemma evictable_rows_update:
  assumes "\<And>r. evict_view (f r) = evict_view r"
  shows "evictable_rows (t\<lparr>t_skel := map f (t_skel t)\<rparr>) = map (\<lambda>(b, r). (b, f r)) (evictable_rows t)"
proof -
  have id: "rs_id (f r) = rs_id r" "rs_created_ms (f r) = rs_created_ms r" "rs_archive (f r) = rs_archive r"
    "rs_deleted_ms (f r) = rs_deleted_ms r" for r using assms [of r] by (simp_all add: evict_view_def)
  have row: "row_of rs_id k (map f xs) = map_option f (row_of rs_id k xs)" for k xs
    by (induction xs) (simp_all add: row_of_def id)
  let ?g = "\<lambda>t b. case row_of rs_id (b_id b) (t_skel t) of
      Some r \<Rightarrow> if rs_archive r = ''archive_verified'' \<and> rs_deleted_ms r = None then [(b, r)] else [] | None \<Rightarrow> []"
  have g: "?g (t\<lparr>t_skel := map f (t_skel t)\<rparr>) b = map (\<lambda>(b, r). (b, f r)) (?g t b)" for b
    by (auto simp: row id split: option.split)
  have "concat (map (?g (t\<lparr>t_skel := map f (t_skel t)\<rparr>)) (t_body t))
      = map (\<lambda>(b, r). (b, f r)) (concat (map (?g t) (t_body t)))"
    unfolding g map_concat by (simp add: comp_def)
  then show ?thesis unfolding evictable_rows_def
    by (simp add: sort_map [where k = "\<lambda>(_, r). rs_created_ms r" and f = "\<lambda>(b, r). (b, f r)"] id split: prod.split)
qed

lemma body_candidates_updates:
  "body_candidates (t\<lparr>t_skel := map (\<lambda>x. if rs_id x = i then x\<lparr>rs_body := st\<rparr> else x) (t_skel t)\<rparr>) = body_candidates t"
  "body_candidates (t\<lparr>t_media := ms\<rparr>) = body_candidates t"
proof -
  let ?f = "\<lambda>x :: skel_row. if rs_id x = i then x\<lparr>rs_body := st\<rparr> else x"
  have v: "evict_view (?f r) = evict_view r" for r by (simp add: evict_view_def)
  have c: "rs_created_ms (?f r) = rs_created_ms r" for r by simp
  show "body_candidates (t\<lparr>t_skel := map ?f (t_skel t)\<rparr>) = body_candidates t"
    unfolding body_candidates_def evictable_rows_update [of ?f, OF v] map_map
    by (rule map_cong [OF refl]) (simp add: c split: prod.split)
qed (simp add: body_candidates_def evictable_rows_def)

text \<open>What an eviction should shrink, the rows the planner looks at for bodies, and the skeletons but for their body state.\<close>

definition stored_content ::
  "tables \<Rightarrow> message_body list \<times> int list \<times> fts_row list \<times> fuzzy_row list \<times> (string \<times> int \<times> ustr option) list \<times> skel_row list" where
  "stored_content t = (t_body t, map rm_bytes_local (t_media t), t_fts t, t_fuzzy t, body_candidates t,
     map (\<lambda>r. r\<lparr>rs_body := ''''\<rparr>) (t_skel t))"

definition same_content :: "('e, 'a) act \<Rightarrow> bool" where
  "same_content m \<longleftrightarrow> (\<forall>s. stored_content (st_live (snd (m s))) = stored_content (st_live s))"

lemma same_content_exec: "(\<And>t. stored_content (f t) = stored_content t) \<Longrightarrow> same_content (from_storage (db_exec (pureT f)))"
  by (simp add: same_content_def from_storage_def db_exec_def mapE_def exec_def pureT_def split: prod.split sum.split)

lemma same_content_bind: "same_content m \<Longrightarrow> (\<And>a. same_content (f a)) \<Longrightarrow> same_content (bindA m f)"
  unfolding same_content_def bindA_def by (auto split: prod.splits sum.splits; metis snd_conv)

lemma same_content_updates:
  "same_content (from_storage (update_body_state i st))" "same_content (from_storage (update_media_state i st))"
  unfolding update_body_state_def update_media_state_def
  by (rule same_content_exec, simp add: stored_content_def body_candidates_updates upd_skel_def upd_media_def
      update_where_def comp_def if_distrib)+

lemma offload_all_content: "same_content (offload_all cs r)"
proof (induction cs arbitrary: r)
  case Nil
  show ?case by (simp add: same_content_def ret_def)
next
  case (Cons c cs)
  then show ?case
    by (auto simp: Let_def intro!: same_content_bind same_content_updates split: eviction_tier.split)
qed

lemma check_plan_same: "check_and_plan_eviction sz now b s = (q, s') \<Longrightarrow> s' = s"
  by (auto simp: check_and_plan_eviction_def plan_eviction_def mapE_def bindA_def fetch_evictable_media_def
      fetch_evictable_bodies_def query_def ret_def fail_def split: sum.splits prod.splits if_splits)

lemma enforcement_content: "same_content (enforce_storage_budget E now)"
proof -
  have "snd (check_and_plan_eviction sz now b s) = s" for sz b s
    using check_plan_same [of sz now b s] by (cases "check_and_plan_eviction sz now b s") simp
  then have "same_content (check_and_plan_eviction sz now b)" for sz b by (simp add: same_content_def)
  then show ?thesis unfolding enforce_storage_budget_def Let_def by (intro same_content_bind offload_all_content)
qed

lemma auto_enforce_content: "auto_enforce E now c s = (c', s') \<Longrightarrow> stored_content (st_live s') = stored_content (st_live s)"
  using enforcement_content [of E now] by (auto simp: auto_enforce_def same_content_def split: option.splits sum.splits if_splits)

lemma offload_all_total: "offload_all cs r s = (Inr r', s') \<Longrightarrow> or_bytes r' = or_bytes r + sum_list (map ec_size cs)"
proof (induction cs arbitrary: r s)
  case (Cons c cs)
  show ?case
  proof (cases "ec_kind c")
    case ColdSearchShards
    with Cons show ?thesis by (fastforce simp: Let_def add.assoc)
  qed (use Cons in \<open>fastforce simp: Let_def bindA_def add.assoc split: prod.splits sum.splits\<close>)+
qed (simp add: ret_def)

text \<open>
  enforcing the budget frees nothing: whatever bytes it reports as freed, which is the total of its plan, every body
  and every local media byte count is as before, both search indexes too, and the same bodies remain candidates of the
  next plan; of the skeletons only the body state changes.
\<close>

theorem enforcement_frees_nothing:
  assumes "enforce_storage_budget E now s = (Inr res, s')"
  shows "stored_content (st_live s') = stored_content (st_live s)
    \<and> (\<exists>plan. check_and_plan_eviction (ce_db_size E) now (case ce_budget E of None \<Rightarrow> default_budget | Some b \<Rightarrow> b) s = (Inr plan, s)
        \<and> or_bytes res = sum_list (map ec_size plan))"
proof -
  obtain plan s1 where p: "check_and_plan_eviction (ce_db_size E) now
      (case ce_budget E of None \<Rightarrow> default_budget | Some b \<Rightarrow> b) s = (Inr plan, s1)"
      "offload_all plan no_offload s1 = (Inr res, s')"
    using assms by (auto simp: enforce_storage_budget_def bindA_def split: prod.splits sum.splits)
  have s1: "s1 = s" using check_plan_same [OF p(1)] .
  have "stored_content (st_live s') = stored_content (st_live s)"
    using offload_all_content [of plan no_offload] p(2) unfolding same_content_def s1 by (metis snd_conv)
  with p s1 offload_all_total [OF p(2)] show ?thesis by (auto simp: no_offload_def)
qed

definition tight_env :: "unit core_env" where
  "tight_env = (sample_env toy_prims bare_manifest toy_gateway)\<lparr>ce_budget := Some \<lparr>bg_max_db = 95, bg_max_cache = 0\<rparr>\<rparr>"

theorem enforcement_frees_nothing_witness:
  "\<exists>s'. enforce_storage_budget tight_env 0 media_store = (Inr \<lparr>or_messages = 0, or_media = 1, or_bytes = 9\<rparr>, s')
     \<and> stored_content (st_live s') = stored_content (st_live media_store)"
proof -
  have p: "check_and_plan_eviction (ce_db_size tight_env) 0 \<lparr>bg_max_db = 95, bg_max_cache = 0\<rparr> media_store
      = (Inr [\<lparr>ec_kind = MediaOriginals, ec_id = ''a'', ec_size = 9, ec_score = 0\<rparr>], media_store)"
    using media_plan by (simp add: check_and_plan_eviction_def tight_env_def sample_env_def mapE_def)
  have q: "next_fault media_store = False"
    by (simp add: next_fault_def media_store_def open_db_def fresh_store_def)
  have "\<exists>s'. enforce_storage_budget tight_env 0 media_store = (Inr \<lparr>or_messages = 0, or_media = 1, or_bytes = 9\<rparr>, s')"
    using p unfolding enforce_storage_budget_def
    by (simp add: tight_env_def bindA_def from_storage_def mapE_def update_media_state_def db_exec_def exec_def pureT_def q
        no_offload_def ret_def)
  then show ?thesis using enforcement_frees_nothing by blast
qed

text \<open>
  media is ranked by size, not by age: the planner takes the total size of a media asset for its time of creation,
  so the score of an original is the distance of the clock from its size and does not depend on when it was received.
\<close>

theorem media_age_is_size:
  assumes "plan_eviction now target s = (Inr cs, s')" and "c \<in> set cs" and "ec_kind c = MediaOriginals"
  shows "\<exists>r \<in> set (t_media (read_view s)). ec_id c = rm_asset r
    \<and> ec_score c = eviction_score (now - rm_bytes_total r) 0 False"
proof -
  have "set (take_until target acc xs) \<subseteq> set xs" for acc xs
    using take_until_prefix [of target acc xs] by (rule set_mono_prefix)
  with assms obtain x where "c = candidate MediaOriginals now x"
      "x \<in> set (map (\<lambda>r. (rm_asset r, rm_bytes_local r, rm_bytes_total r)) (take 200 (sort_key (\<lambda>r. - rm_bytes_local r)
         (filter (\<lambda>r. rm_state r = ''original_local'' \<and> 0 < rm_bytes_local r) (t_media (read_view s))))))"
    by (fastforce simp: plan_eviction_def bindA_def fetch_evictable_media_def fetch_evictable_bodies_def query_def ret_def
        fail_def candidate_def split: if_splits prod.splits)
  then show ?thesis by (auto simp: candidate_def dest!: in_set_takeD)
qed

theorem media_age_is_size_witness:
  "\<exists>r \<in> set (t_media (read_view media_store)). eviction_score (0 - rm_bytes_total r) 0 False = 0"
  using media_age_is_size [OF media_plan] by force

section \<open>Backups\<close>

lemma mark_calm:
  assumes "calm s"
  shows "mark_backed_up sn s = (Inr (), both s (fold (\<lambda>i. upd_skel i set_backed_up) (map sk_id (sn_skeletons sn)) (st_live s)))"
proof -
  let ?ids = "map sk_id (sn_skeletons sn)" and ?f = "fold (\<lambda>i. upd_skel i set_backed_up) (map sk_id (sn_skeletons sn))"
  let ?s = "s\<lparr>st_saves := [(''BEGIN'', st_live s)]\<rparr>"
  have c: "computes (forA (\<lambda>i. exec (pureT (upd_skel i set_backed_up))) ?ids) (pureT ?f)"
    by (rule computes_for_pure) (rule computes_pure)
  have q: "quiet s" "st_saves s = []" "st_committed s = st_live s" using assms by (simp_all add: calm_def settled_def)
  have run: "forA (\<lambda>i. exec (pureT (upd_skel i set_backed_up))) ?ids ?s = (Inr (), ?s\<lparr>st_live := ?f (st_live s)\<rparr>)"
    by (rule computes_Inr [OF c]) (use q in \<open>simp_all add: pureT_def\<close>)
  show ?thesis
  proof (cases "?ids = []")
    case True
    have "both s (st_live s) = s" using q by simp
    with True show ?thesis
      by (simp add: mark_backed_up_def from_storage_def batch_mark_skeletons_backed_up_def mapE_def ret_def)
  next
    case False
    with run q show ?thesis
      by (simp add: mark_backed_up_def from_storage_def batch_mark_skeletons_backed_up_def mapE_def with_tx_def bindA_def
          begin_tx_def thenA_def release_def pop_saves_def settle_def ret_def)
  qed
qed

lemma marks_rows:
  "t_skel (fold (\<lambda>i. upd_skel i set_backed_up) ids t)
     = map (\<lambda>r. if rs_id r \<in> set ids then set_backed_up r else r) (t_skel t)
   \<and> t_body (fold (\<lambda>i. upd_skel i set_backed_up) ids t) = t_body t"
proof (induction ids arbitrary: t)
  case (Cons i ids)
  have "set_backed_up (set_backed_up r) = set_backed_up r" "rs_id (set_backed_up r) = rs_id r" for r
    by (simp_all add: set_backed_up_def)
  with Cons [of "upd_skel i set_backed_up t"] show ?case
    by (simp add: upd_skel_def update_where_def)
qed simp

lemma marks_pending:
  "pending_backup (fold (\<lambda>i. upd_skel i set_backed_up) (map rs_id (pending_backup t)) t) = []"
  by (auto simp: pending_backup_def marks_rows filter_empty_conv set_backed_up_def)

lemma snapshot_calm:
  assumes "calm s"
  shows "snapshot_from_db s = (Inr \<lparr>sn_conversations = map conv_of_row (t_conv (st_live s)),
     sn_skeletons = map skel_of_row (pending_backup (st_live s)), sn_bodies = t_body (st_live s)\<rparr>, s)"
  using assms by (simp add: snapshot_from_db_def from_storage_def mapE_def bindA_def list_all_conversations_def
      list_skeletons_for_backup_def list_all_bodies_def query_def ret_def calm_def read_view_settled)

lemma prune_calm:
  "calm s \<Longrightarrow> \<exists>j. snd (prune_backup_events n s) = both s ((st_live s)\<lparr>t_journal := j\<rparr>)"
  by (auto simp: prune_backup_events_def bindA_def thenA_def query_w_def db_exec_def mapE_def exec_quiet calm_def pureT_def ret_def)

text \<open>
  What a backup of a snapshot has published: the gateway accepted a segment that is sealed from the snapshot's bytes under the backup
  root, and after it the manifest that lists this one segment and continues the chain of the coordinator.
\<close>

definition snapshot_published :: "'w core_env \<Rightarrow> fresh \<Rightarrow> backup_coordinator \<Rightarrow> snapshot \<Rightarrow> 'w \<Rightarrow> 'w \<Rightarrow> bool" where
  "snapshot_published E new bc sn w w' \<longleftrightarrow> (\<exists>key data frame nonce h m mb up w1.
     derive_backup_root (ce_prims E) (ce_wrapping E) = Inr key
     \<and> cbor_to_vec (ce_snapshots E) sn = Inr data
     \<and> backup_build_segment (ce_prims E) (ce_codecs E) (fr_nonce new) data key = Inr (frame, nonce, h)
     \<and> gw_upload_archive_segment (ce_gateway E) (fr_segment new) frame w = (Inr up, w1)
     \<and> cbor_to_vec (ce_manifests E) m = Inr mb
     \<and> map (\<lambda>r. (sr_segment r, sr_sha256 r)) (bm_segments m) = [(fr_segment new, h)]
     \<and> bm_generation m = bc_generation bc \<and> bm_previous m = bc_prev_hash bc
     \<and> gw_upload_backup_manifest (ce_gateway E) mb w1 = (Inr (), w'))"

lemma uploaded_publishes:
  assumes "derive_backup_root (ce_prims E) (ce_wrapping E) = Inr key" and "cbor_to_vec (ce_snapshots E) sn = Inr data"
    and "prepare_backup (ce_prims E) (ce_codecs E) (ce_manifests E) new data key bc = Inr p"
    and "upload_payload (ce_gateway E) p w = (Inr uploaded, w')"
  shows "snapshot_published E new bc sn w w'"
proof -
  from assms(3) obtain frame nonce h where f: "backup_build_segment (ce_prims E) (ce_codecs E) (fr_nonce new) data key = Inr (frame, nonce, h)"
      "pl_segment p = fr_segment new" "pl_ciphertext p = frame"
      "cbor_to_vec (ce_manifests E) (build_manifest (fr_manifest new) (bc_generation bc) (bc_prev_hash bc)
         [\<lparr>sr_segment = fr_segment new, sr_type = Events, sr_sha256 = h, sr_size = word_of_nat (length frame)\<rparr>] []) = Inr (pl_manifest p)"
    by (auto simp: prepare_backup_def and_then_Inr Let_def)
  from assms(4) obtain up w1 where "gw_upload_archive_segment (ce_gateway E) (fr_segment new) frame w = (Inr up, w1)"
      "gw_upload_backup_manifest (ce_gateway E) (pl_manifest p) w1 = (Inr (), w')"
    by (auto simp: upload_payload_def sink_upload_segment_def sink_upload_manifest_def as_storage_def f(2,3) split: sum.splits prod.splits)
  with assms(1,2) f show ?thesis unfolding snapshot_published_def by (fastforce simp: build_manifest_def)
qed

text \<open>The snapshot of an incremental backup: all conversations and bodies, and the skeletons that wait for backup.\<close>

definition pending_snapshot :: "tables \<Rightarrow> snapshot" where
  "pending_snapshot t = \<lparr>sn_conversations = map conv_of_row (t_conv t), sn_skeletons = map skel_of_row (pending_backup t), sn_bodies = t_body t\<rparr>"

text \<open>
  C9: an incremental backup marks exactly what it has published: called with no savepoint open and without database faults, an error
  leaves the store and the coordinator as they were, so nothing counts as backed up. A backup that was made has published the
  snapshot of the store through the gateway, the sealed segment first and then the manifest of the next link of the chain, both
  accepted; it marks exactly the skeletons of this snapshot, which leaves none waiting for backup, keeps every body, and moves the
  coordinator by one generation.
\<close>

theorem backup_marks_after_publishing:
  assumes "settled s" and "quiet s" and "run_incremental_backup E new now c s w = (r, c', s', w')"
  shows "case r of
      Inl e \<Rightarrow> s' = s \<and> c' = c
    | Inr res \<Rightarrow> (br_built res = 0 \<and> s' = s \<and> c' = c \<and> w' = w) \<or>
        (br_built res = 1 \<and> snapshot_published E new (cr_backup c) (pending_snapshot (st_live s)) w w'
         \<and> t_skel (st_live s') = map (\<lambda>x. if rs_id x \<in> rs_id ` set (pending_backup (st_live s)) then set_backed_up x else x) (t_skel (st_live s))
         \<and> pending_backup (st_live s') = [] \<and> t_body (st_live s') = t_body (st_live s) \<and> settled s'
         \<and> bc_generation (cr_backup c') = bc_generation (cr_backup c) + 1
         \<and> br_generation res = bc_generation (cr_backup c'))"
proof -
  have s: "calm s" using assms(1,2) by (simp add: calm_def)
  let ?sn = "pending_snapshot (st_live s)"
  let ?t = "fold (\<lambda>i. upd_skel i set_backed_up) (map rs_id (pending_backup (st_live s))) (st_live s)"
  have ids: "map sk_id (sn_skeletons ?sn) = map rs_id (pending_backup (st_live s))" by (simp add: pending_snapshot_def comp_def)
  note snap = snapshot_calm [OF s, folded pending_snapshot_def]
  show ?thesis
  proof (cases "\<exists>key data p uploaded w1. derive_backup_root (ce_prims E) (ce_wrapping E) = Inr key
      \<and> to_cbor (ce_snapshots E) ?sn = Inr data \<and> data \<noteq> []
      \<and> prepare_backup (ce_prims E) (ce_codecs E) (ce_manifests E) new data key (cr_backup c) = Inr p
      \<and> upload_payload (ce_gateway E) p w = (Inr uploaded, w1)")
    case False
    then show ?thesis using assms(3)
      by (auto simp: run_incremental_backup_def snap no_backup_def ciphered_def split: sum.splits prod.splits if_splits)
  next
    case True
    then obtain key data p uploaded w1 where o: "derive_backup_root (ce_prims E) (ce_wrapping E) = Inr key"
        "to_cbor (ce_snapshots E) ?sn = Inr data" "data \<noteq> []"
        "prepare_backup (ce_prims E) (ce_codecs E) (ce_manifests E) new data key (cr_backup c) = Inr p"
        "upload_payload (ce_gateway E) p w = (Inr uploaded, w1)" by blast
    have m: "mark_backed_up ?sn s = (Inr (), both s ?t)" using mark_calm [OF s, of ?sn] unfolding ids .
    obtain j where j: "snd (prune_backup_events (now - journal_retention_ms) (both s ?t)) = both s (?t\<lparr>t_journal := j\<rparr>)"
      using prune_calm [of "both s ?t" "now - journal_retention_ms"] s by auto
    have f: "finish_backup now ?sn data uploaded p c s = (r, c', s')" and w: "w' = w1"
      using assms(3) o by (simp_all add: run_incremental_backup_def snap ciphered_def split: prod.splits)
    from f have "r = Inr \<lparr>br_built = 1, br_uploaded = 1, br_generation = bc_generation (cr_backup c) + 1, br_bytes = length data\<rparr>"
        "bc_generation (cr_backup c') = bc_generation (cr_backup c) + 1" "s' = both s (?t\<lparr>t_journal := j\<rparr>)"
      by (auto simp: finish_backup_def finalize_backup_def backup_record_def Let_def m j)
    moreover have "snapshot_published E new (cr_backup c) ?sn w w'"
      unfolding w by (rule uploaded_publishes [OF o(1) _ o(4,5)]) (use o(2) in \<open>simp add: to_cbor_def\<close>)
    moreover have "pending_backup (?t\<lparr>t_journal := j\<rparr>) = []"
      using marks_pending [of "st_live s"] by (simp add: pending_backup_def)
    moreover have "t_skel ?t = map (\<lambda>x. if rs_id x \<in> rs_id ` set (pending_backup (st_live s)) then set_backed_up x else x) (t_skel (st_live s))"
        "t_body ?t = t_body (st_live s)" by (simp_all add: marks_rows)
    ultimately show ?thesis using assms(1) by (simp add: settled_def)
  qed
qed

text \<open>A full backup of an empty store through a gateway that records the manifests.\<close>

lemma sample_backup:
  assumes "calm s" and "c = start_state"
  shows "\<exists>c' s'. run_incremental_backup (sample_env padded_prims first_manifest (recording_backups toy_gateway)) toy_fresh 0 c s ((), bs)
     = (Inr \<lparr>br_built = 1, br_uploaded = 1, br_generation = 1, br_bytes = 1\<rparr>, c', s', (), bs @ [[1]]) \<and> calm s'"
proof -
  let ?E = "sample_env padded_prims first_manifest (recording_backups toy_gateway) :: (unit \<times> bytes list) core_env"
  have k: "ciphered (derive_backup_root padded_prims []) = Inr (str_bytes ''chat-storage/backup-root/v1'')"
    by (simp add: derive_backup_root_def hkdf_derive_def padded_prims_def toy_prims_def ciphered_def)
  have u: "upload_payload (recording_backups toy_gateway) toy_payload_of ((), bs) = (Inr ''s'', (), bs @ [[1]])"
    by (simp add: upload_payload_def sink_upload_segment_def sink_upload_manifest_def as_storage_def recording_backups_def
        recording_def lifted_def toy_gateway_def toy_payload_of_def)
  obtain j where j: "snd (prune_backup_events n (both s t)) = both s (t\<lparr>t_journal := j n t\<rparr>)" for n t
    using prune_calm [OF calm_both [OF assms(1)]] by (simp, metis)
  let ?t = "fold (\<lambda>i. upd_skel i set_backed_up) (map (sk_id \<circ> skel_of_row) (pending_backup (st_live s))) (st_live s)"
  have "run_incremental_backup ?E toy_fresh 0 c s ((), bs)
     = (Inr \<lparr>br_built = 1, br_uploaded = 1, br_generation = 1, br_bytes = 1\<rparr>,
        c\<lparr>cr_backup := snd (finalize_backup ''s'' toy_payload_of backup_new)\<rparr>, both s (?t\<lparr>t_journal := j (0 - journal_retention_ms) ?t\<rparr>), (), bs @ [[1]])"
    using assms(2)
    by (simp add: run_incremental_backup_def sample_env_def k snapshot_calm [OF assms(1)] to_cbor_def cbor_to_vec_def coded_def
        toy_prepare start_state_def u finish_backup_def mark_calm [OF assms(1)] j finalize_backup_def backup_record_def Let_def)
      (simp add: backup_new_def)
  then show ?thesis using assms(1) by auto
qed

theorem backup_marks_after_publishing_witness:
  "\<exists>r c' s' w'. run_incremental_backup (sample_env padded_prims first_manifest (recording_backups toy_gateway)) toy_fresh 0
      start_state (open_db True) ((), []) = (r, c', s', w') \<and> pending_backup (st_live s') = []
    \<and> snapshot_published (sample_env padded_prims first_manifest (recording_backups toy_gateway)) toy_fresh backup_new
        (pending_snapshot empty_tables) ((), []) w'"
proof -
  have c: "calm (open_db True)" by (simp add: calm_def)
  from sample_backup [OF c refl, of "[]"] obtain c' s' where
    r: "run_incremental_backup (sample_env padded_prims first_manifest (recording_backups toy_gateway)) toy_fresh 0
      start_state (open_db True) ((), []) = (Inr \<lparr>br_built = 1, br_uploaded = 1, br_generation = 1, br_bytes = 1\<rparr>, c', s', (), [[1]])"
    by auto
  from backup_marks_after_publishing [OF open_facts(1,2) r] r show ?thesis by (auto simp: start_state_def)
qed

text \<open>What a completed backup publishes.\<close>

lemma backup_publishes:
  assumes "run_incremental_backup E new now c s (w, bs) = (Inr res, c', s', w', bs')" and "br_built res = 1"
    and "ce_gateway E = recording_backups G"
  shows "\<exists>m b. bs' = bs @ [b] \<and> cbor_to_vec (ce_manifests E) m = Inr b \<and> bm_generation m = bc_generation (cr_backup c)
    \<and> bm_previous m = bc_prev_hash (cr_backup c)"
proof -
  obtain key data sn s1 p uploaded w1 where o:
      "prepare_backup (ce_prims E) (ce_codecs E) (ce_manifests E) new data key (cr_backup c) = Inr p"
      "upload_payload (recording_backups G) p (w, bs) = (Inr uploaded, w1)"
      "finish_backup now sn data uploaded p c s1 = (Inr res, c', s')" "w1 = (w', bs')"
    using assms by (auto simp: run_incremental_backup_def no_backup_def split: sum.splits prod.splits if_splits)
  from o(2,4) have "bs' = bs @ [pl_manifest p]"
    by (auto simp: upload_payload_def sink_upload_segment_def sink_upload_manifest_def as_storage_def recording_backups_def
        recording_def lifted_def split: sum.splits prod.splits)
  with prepared_manifest [OF o(1)] show ?thesis by blast
qed

text \<open>
  a restart starts a second chain: the facade always begins with a fresh coordinator, although the coordinator can be
  saved and loaded, so the first backup of the next session is again generation 0 without a predecessor, and what the
  gateway then holds fails the restore's chain check.
\<close>

theorem restart_forks_backups:
  assumes "core_new E = Inr c0" and "codec_ok (ce_manifests E)" and "\<And>d. pr_hash (ce_prims E) d \<noteq> replicate 32 0"
    and "ce_gateway E = recording_backups G"
    and "run_incremental_backup E new1 now1 c0 s (w, []) = (Inr r1, c1, s1, w1)" and "br_built r1 = 1"
    and "run_incremental_backup E new2 now2 c0 s2 w1 = (Inr r2, c2, s3, w2)" and "br_built r2 = 1"
  shows "\<exists>m1 m2. map (cbor_to_vec (ce_manifests E)) [m1, m2] = map Inr (snd w2)
    \<and> bm_generation m1 = 0 \<and> bm_generation m2 = 0
    \<and> verify_chain (ce_prims E) (ce_manifests E) [m1, m2] \<noteq> Inr ()"
proof -
  have c0: "cr_backup c0 = backup_new" using assms(1) by (auto simp: core_new_def and_then_Inr)
  obtain w1a b1 w2a b2 where w: "w1 = (w1a, b1)" "w2 = (w2a, b2)" by fastforce
  from backup_publishes [OF assms(5) [unfolded w] assms(6,4)] obtain m1 where
    m1: "cbor_to_vec (ce_manifests E) m1 = Inr (hd b1)" "b1 = [hd b1]" "bm_generation m1 = 0"
    by (auto simp: c0 backup_new_def)
  from backup_publishes [OF assms(7) [unfolded w] assms(8,4)] obtain m2 b where
    m2: "b2 = b1 @ [b]" "cbor_to_vec (ce_manifests E) m2 = Inr b" "bm_generation m2 = 0" "bm_previous m2 = replicate 32 0"
    by (auto simp: c0 backup_new_def)
  have "verify_chain (ce_prims E) (ce_manifests E) [m1, m2] \<noteq> Inr ()"
    using assms(3) [of "hd b1"] m1 m2(4) by (simp add: verify_chain_def manifest_hash_def content_hash_def)
  moreover obtain b0 where "b1 = [b0]" using m1(2) by blast
  ultimately have "map (cbor_to_vec (ce_manifests E)) [m1, m2] = map Inr (snd w2) \<and> bm_generation m1 = 0 \<and> bm_generation m2 = 0
      \<and> verify_chain (ce_prims E) (ce_manifests E) [m1, m2] \<noteq> Inr ()"
    using m1 m2 w by simp
  then show ?thesis by blast
qed

theorem restart_forks_backups_witness:
  "\<exists>m1 m2. map (cbor_to_vec (toy_codec first_manifest)) [m1, m2] = [Inr [1], Inr [1]]
     \<and> verify_chain padded_prims (toy_codec first_manifest) [m1, m2] \<noteq> Inr ()"
proof -
  let ?E = "sample_env padded_prims first_manifest (recording_backups toy_gateway) :: (unit \<times> bytes list) core_env"
  have n: "core_new ?E = Inr start_state"
    by (simp add: core_new_def start_state_def derive_local_db_key_def hkdf_derive_def sample_env_def padded_prims_def
        toy_prims_def ciphered_def)
  have e: "codec_ok (ce_manifests ?E)" "ce_gateway ?E = recording_backups toy_gateway"
    by (simp_all add: sample_env_def toy_codec_ok)
  have h: "pr_hash (ce_prims ?E) d \<noteq> replicate 32 0" for d
    by (simp add: sample_env_def padded_prims_def eval_nat_numeral)
  have c: "calm (open_db True)" by (simp add: calm_def)
  from sample_backup [OF c refl, of "[]"] obtain c1 s1 where
    r1: "run_incremental_backup ?E toy_fresh 0 start_state (open_db True) ((), [])
      = (Inr \<lparr>br_built = 1, br_uploaded = 1, br_generation = 1, br_bytes = 1\<rparr>, c1, s1, (), [[1]])" and "calm s1" by auto
  from sample_backup [OF this(2) refl, of "[[1]]"] obtain c2 s3 where
    r2: "run_incremental_backup ?E toy_fresh 0 start_state s1 ((), [[1]])
      = (Inr \<lparr>br_built = 1, br_uploaded = 1, br_generation = 1, br_bytes = 1\<rparr>, c2, s3, (), [[1], [1]])" by auto
  from restart_forks_backups [OF n e(1) h e(2) r1 _ r2] obtain m1 m2 where
    "map (cbor_to_vec (ce_manifests ?E)) [m1, m2] = map Inr [[1], [1]]"
    "verify_chain (ce_prims ?E) (ce_manifests ?E) [m1, m2] \<noteq> Inr ()" by auto
  then have "map (cbor_to_vec (toy_codec first_manifest)) [m1, m2] = [Inr [1], Inr [1]]
     \<and> verify_chain padded_prims (toy_codec first_manifest) [m1, m2] \<noteq> Inr ()" by (simp add: sample_env_def)
  then show ?thesis by (rule exI [where x = m2, THEN exI [where x = m1]])
qed

section \<open>Media\<close>

text \<open>What a media message adds to the tables.\<close>

definition media_tables :: "media_ids \<Rightarrow> int \<Rightarrow> uuid \<Rightarrow> string \<Rightarrow> ustr option \<Rightarrow> media_descriptor \<Rightarrow> tables \<Rightarrow> tables" where
  "media_tables ids now conv mime caption d t = t
     \<lparr>t_skel := upsert rs_id (skel_to_row (media_skeleton ids now conv)) (t_skel t),
      t_body := upsert b_id \<lparr>b_id = mi_message ids, b_text = caption, b_language = None, b_rich_meta = None\<rparr> (t_body t),
      t_media := upsert rm_asset (media_asset_row ids mime d) (t_media t)\<rparr>"

lemma media_skeleton_row:
  "rs_id (skel_to_row (media_skeleton ids now conv)) = mi_message ids"
  "rs_conv (skel_to_row (media_skeleton ids now conv)) = conv"
  "plain_row (skel_to_row (media_skeleton ids now conv))" "sk_id (media_skeleton ids now conv) = mi_message ids"
  "sk_conv (media_skeleton ids now conv) = conv"
  by (simp_all add: media_skeleton_def skel_to_row_def plain_row_def)

definition media_spec :: "media_ids \<Rightarrow> int \<Rightarrow> uuid \<Rightarrow> string \<Rightarrow> ustr option \<Rightarrow> media_descriptor \<Rightarrow> core_error tfun" where
  "media_spec ids now conv mime caption d fk t =
     (if fk \<and> conv \<notin> rc_id ` set (t_conv t) then Inl (sql_text FkViolation)
      else Inr (media_tables ids now conv mime caption d t))"

lemma media_rows_computes: "computes (media_rows ids now conv mime caption d) (media_spec ids now conv mime caption d)"
proof -
  have key: "mi_message ids \<in> rs_id ` set (upsert rs_id (skel_to_row (media_skeleton ids now conv)) xs)" for xs
    using upsert_has_key [of rs_id "skel_to_row (media_skeleton ids now conv)" xs] by (simp add: media_skeleton_row)
  show ?thesis unfolding media_rows_def
    by (rule computes_cong, rule computes_mapE, (rule computes_seq_Cons computes_exec computes_seq_Nil)+)
      (auto simp: mapT_def thenT_def idT_def media_spec_def put_skel_def put_body_def put_media_def media_skeleton_row key
        media_tables_def media_asset_row_def)
qed

lemma media_rows_keeps: "keeps (media_rows ids now conv mime caption d)"
  unfolding media_rows_def by (auto intro!: keeps_intros)

lemma media_rows_durable: "acts_dur (media_rows ids now conv mime caption d) (media_tables ids now conv mime caption d)"
  unfolding media_rows_def
  by (rule acts_mapE, rule acts_cong, (rule acts_seq_Cons acts_seq_Nil acts_puts)+)
    (simp add: media_tables_def durable_def)

interpretation media: durable_body "media_rows ids now conv mime caption d" "media_spec ids now conv mime caption d"
    "media_tables ids now conv mime caption d"
  by unfold_locales
    ((rule media_rows_keeps media_rows_computes media_rows_durable)+, simp add: media_tables_def durable_def)

lemma send_media_stored:
  assumes "settled s" and "quiet s" and "send_media_inner E ids nonce now conv plaintext mime caption s w = (Inr x, s', w')"
  shows "\<exists>d. s' = both s (media_tables ids now conv mime caption d (st_live s))"
  using assms(3)
  by (auto simp: send_media_inner_def process_media_def media.quiet_eval [OF assms(1,2)] media_spec_def
      split: sum.splits prod.splits if_splits)

text \<open>
  a sent media blob cannot be opened again: the random nonce it is sealed with reaches neither the result, nor
  the store, nor the gateway outside the ciphertext. Two sends that differ only in the nonce end in the same result, the
  same store and, as far as the gateway's answer does not depend on the ciphertext, the same gateway state.
\<close>

theorem media_nonce_lost:
  assumes "\<And>k p. \<exists>ct. pr_seal (ce_prims E) k nonce1 p media_blob_aad = Some ct"
    and "\<And>k p. \<exists>ct. pr_seal (ce_prims E) k nonce2 p media_blob_aad = Some ct"
    and "\<And>b x y w. gw_upload_media_blob (ce_gateway E) b x w = gw_upload_media_blob (ce_gateway E) b y w"
  shows "send_media_inner E ids nonce1 now conv plaintext mime caption s w
    = send_media_inner E ids nonce2 now conv plaintext mime caption s w"
proof (cases "and_then (ciphered (derive_media_root (ce_prims E) (ce_wrapping E))) (\<lambda>media_key.
    ciphered (derive_media_blob (ce_prims E) media_key (str_bytes (mi_asset ids))))")
  case (Inr key)
  then obtain media_key where k: "ciphered (derive_media_root (ce_prims E) (ce_wrapping E)) = Inr media_key"
      "ciphered (derive_media_blob (ce_prims E) media_key (str_bytes (mi_asset ids))) = Inr key"
    by (auto simp: and_then_Inr simp del: ciphered_Inr)
  obtain c1 c2 where "pr_seal (ce_prims E) key nonce1 plaintext media_blob_aad = Some c1"
      "pr_seal (ce_prims E) key nonce2 plaintext media_blob_aad = Some c2" using assms(1,2) by metis
  then have "ciphered (seal (ce_prims E) key nonce1 plaintext media_blob_aad) = Inr c1"
      "ciphered (seal (ce_prims E) key nonce2 plaintext media_blob_aad) = Inr c2" by (simp_all add: seal_def)
  then show ?thesis using assms(3) [of "mi_blob ids" c1 _ c2]
    by (auto simp: send_media_inner_def process_media_def k simp del: ciphered_Inr split: sum.split prod.split)
next
  case (Inl e)
  then show ?thesis
    by (cases "ciphered (derive_media_root (ce_prims E) (ce_wrapping E))")
      (auto simp: send_media_inner_def process_media_def simp del: ciphered_Inr)
qed

definition sample_ids :: media_ids where
  "sample_ids = \<lparr>mi_asset = ''a1'', mi_message = ''m1'', mi_blob = ''b1''\<rparr>"

theorem media_nonce_lost_witness:
  "send_media_inner (sample_env toy_prims bare_manifest toy_gateway) sample_ids [1] 5 ''c1'' [7] ''image/png'' None (open_db False) ()
   = send_media_inner (sample_env toy_prims bare_manifest toy_gateway) sample_ids [2] 5 ''c1'' [7] ''image/png'' None (open_db False) ()"
  by (rule media_nonce_lost) (simp_all add: sample_env_def toy_prims_def toy_gateway_def)

text \<open>
  captions are not searchable: sending media with a caption stores the caption as the body of a readable message
  but never indexes it, so a store whose full-text index was in step with its texts no longer is.
\<close>

theorem captions_not_indexed:
  assumes "settled s" and "quiet s" and "fts_synced (st_live s)" and "mi_message ids \<notin> rs_id ` set (t_skel (st_live s))"
    and "send_media_inner E ids nonce now conv plaintext mime (Some x) s w = (Inr sent, s', w')"
  shows "t_fts (st_live s') = t_fts (st_live s) \<and> t_fuzzy (st_live s') = t_fuzzy (st_live s) \<and> \<not> fts_synced (st_live s')"
proof -
  from send_media_stored [OF assms(1,2,5)] obtain d where
    s': "s' = both s (media_tables ids now conv mime (Some x) d (st_live s))" by blast
  let ?r = "skel_to_row (media_skeleton ids now conv)"
  let ?b = "\<lparr>b_id = mi_message ids, b_text = Some x, b_language = None, b_rich_meta = None\<rparr>"
  have "?r \<in> set (t_skel (st_live s'))" "?b \<in> set (t_body (st_live s'))" by (simp_all add: s' media_tables_def set_upsert)
  moreover have "mi_message ids \<notin> f_id ` set (t_fts (st_live s))"
    using assms(3,4) unfolding fts_synced_def fts_owned_def describes_def by force
  ultimately have "\<not> fts_complete (st_live s')"
    unfolding fts_complete_def using media_skeleton_row [of ids now conv] by (force simp: s' media_tables_def)
  then show ?thesis by (simp add: fts_synced_def s' media_tables_def)
qed

theorem captions_not_indexed_witness:
  "\<exists>sent s'. send_media_inner (sample_env toy_prims bare_manifest toy_gateway) sample_ids [1] 5 ''c1'' [7] ''image/png''
       (Some (lit ''hi'')) (open_db False) () = (Inr sent, s', ()) \<and> \<not> fts_synced (st_live s')"
proof -
  let ?E = "sample_env toy_prims bare_manifest toy_gateway :: unit core_env"
  have "\<exists>sent s'. send_media_inner ?E sample_ids [1] 5 ''c1'' [7] ''image/png'' (Some (lit ''hi'')) (open_db False) () = (Inr sent, s', ())"
    unfolding send_media_inner_def process_media_def sum.case media.quiet_eval [OF open_facts(1,2)]
    by (simp add: sample_env_def derive_media_root_def hkdf_derive_def derive_media_blob_def hkdf_expand_def seal_def
        toy_prims_def ciphered_def toy_gateway_def media_spec_def open_db_def fresh_store_def)
  then obtain sent s' where x: "send_media_inner ?E sample_ids [1] 5 ''c1'' [7] ''image/png'' (Some (lit ''hi'')) (open_db False) ()
      = (Inr sent, s', ())" by blast
  have "fts_synced (st_live (open_db False))" "mi_message sample_ids \<notin> rs_id ` set (t_skel (st_live (open_db False)))"
    by (simp_all add: empty_synced) (simp add: empty_tables_def)
  from captions_not_indexed [OF open_facts(1,2) this x] x show ?thesis by blast
qed

end
