(* ===== verification/Durability.thy ===== *)
theory Durability
  imports CoreProps
begin

text \<open>
  What the operations of \<open>CoreImpl\<close> do to the stored data over whole runs, whatever fails on the way: runs interleave the
  operations of \<open>core_impl.rs\<close> and of the message pipeline with driver faults, crashes and changes on the server. Every
  relation that the statements respect (theory \<open>StoreRelation\<close>) is respected by each operation, which is shown once;
  what is acknowledged to the user is never lost by anything but a restore or a clearing, the invariant of the store
  holds throughout, and the numbers of the backup journal are never reused.
\<close>

section \<open>The operations respect every table relation\<close>

context table_relation
begin

lemma send_text_in: "obeys R (send_text E new_id created now conv x reply_to)"
  unfolding send_text_def Let_def by (intro write_acts message_writes)

lemma ingest_page_in: "obeys R (ingest_page lower now1 now2 raws r)"
proof (induction raws arbitrary: r)
  case (Cons raw raws)
  have "R s (snd (ingest_page lower now1 now2 (raw # raws) r s))" for s
  proof (cases "persist_ingested_message lower now1 now2 (ingested_of raw) s")
    case (Pair q s1)
    have "R s s1" using message_writes(1) Pair by (rule obeys_run)
    moreover have "R s1 (snd (ingest_page lower now1 now2 raws r' s1))" for r' using Cons by (simp add: obeys_def)
    ultimately show ?thesis using Pair by (auto simp: R_refl split: sum.split intro: R_trans)
  qed
  then show ?case by (rule obeysI)
qed (simp add: obeys_def R_refl)

lemma plan_in: "obeys R (check_and_plan_eviction sz now b)"
proof (rule obeysI)
  fix s
  have "obeys R (plan_eviction now n)" for n
    unfolding plan_eviction_def fetch_evictable_media_def fetch_evictable_bodies_def
    by (auto intro!: acts)
  then have "obeys R (mapE CStorage (plan_eviction now n))" for n by (rule map_err)
  then show "R s (snd (check_and_plan_eviction sz now b s))"
    by (simp add: check_and_plan_eviction_def obeys_def R_refl split: sum.split)
qed

lemma offload_in: "obeys R (offload_all cs r)"
proof (induction cs arbitrary: r)
  case (Cons c cs)
  then show ?case
    by (cases "ec_kind c") (auto simp: Let_def intro!: bind from_storage_in row_writes)
qed (simp add: basic)

lemma enforce_in: "obeys R (enforce_storage_budget E now)"
  unfolding enforce_storage_budget_def Let_def by (intro bind plan_in offload_in)

lemma auto_enforce_in: "R s (snd (auto_enforce E now c s))"
  using enforce_in [of E now] by (simp add: auto_enforce_def obeys_def R_refl split: option.split sum.split)

lemma ingest_remote_in:
  assumes "ingest_remote_messages E now1 now2 now3 conv cur c s w = (r, c', s', w')"
  shows "R s s'"
proof -
  have p: "R s s1" if "ingest_page (ce_lower E) now1 now2 raws r0 s = (q, s1)" for raws r0 q s1
    using ingest_page_in that by (rule obeys_run)
  have e: "R s s''" if "ingest_page (ce_lower E) now1 now2 raws r0 s = (q, s1)" and "auto_enforce E now3 c s1 = (c'', s'')"
    for raws r0 q s1 s'' c''
    using p [OF that(1)] auto_enforce_in [of s1 E now3 c] that(2) by (metis R_trans snd_conv)
  from assms show ?thesis
    by (auto simp: ingest_remote_messages_def R_refl split: sum.splits prod.splits intro: p e)
qed

lemma mark_backed_up_in: "obeys R (mark_backed_up sn)"
  unfolding mark_backed_up_def by (intro from_storage_in batch_writes)

lemma snapshot_in: "obeys R snapshot_from_db"
  unfolding snapshot_from_db_def list_all_conversations_def list_skeletons_for_backup_def list_all_bodies_def
  by (intro acts from_storage_in)

lemma finish_backup_in:
  assumes "finish_backup now sn data up p c s = (r, c', s')"
  shows "R s s'"
proof -
  have m: "R s s1" if "mark_backed_up sn s = (q, s1)" for q s1
    using mark_backed_up_in that by (rule obeys_run)
  have "R s1 (snd (prune_backup_events b s1))" for b s1 using batch_writes(3) by (simp add: obeys_def)
  with assms show ?thesis
    by (auto simp: finish_backup_def Let_def split: sum.splits prod.splits intro: m R_trans)
qed

lemma backup_in:
  assumes "run_incremental_backup E new now c s w = (r, c', s', w')"
  shows "R s s'"
proof -
  have sn: "R s s1" if "snapshot_from_db s = (q, s1)" for q s1
    using snapshot_in that by (rule obeys_run)
  have f: "R s s2" if "snapshot_from_db s = (q, s1)" and "finish_backup now x data up p c s1 = (r', c'', s2)"
    for q s1 s2 x data up p r' c''
    using sn [OF that(1)] finish_backup_in [OF that(2)] by (rule R_trans)
  from assms show ?thesis
    by (auto simp: run_incremental_backup_def R_refl split: sum.splits prod.splits if_splits intro: sn f)
qed

lemma send_media_in:
  assumes "send_media E ids nonce now conv file caption s w = (r, s', w')"
  shows "R s s'"
proof -
  have "obeys R (with_savepoint ''send_media'' sql_text (media_rows ids now conv mime caption d))" for mime d
    unfolding media_rows_def by (auto intro!: write_acts)
  then have "R s s1" if "with_savepoint ''send_media'' sql_text (media_rows ids now conv mime caption d) s = (q, s1)"
    for mime d q s1 using that by (rule obeys_run)
  with assms show ?thesis
    by (auto simp: send_media_def send_media_inner_def R_refl split: sum.splits prod.splits if_splits)
qed

end

section \<open>The restore respects every relation that clearing does\<close>

context clearing_relation
begin

lemma clear_batch_in: "obeys R clear_batch"
  unfolding clear_batch_def by (intro seq) (simp add: exec_in clear_rows)

lemma undo_batch_in: "obeys R undo_batch"
  unfolding undo_batch_def by (intro seq) (simp add: release_in rollback_in)

lemma replace_data_in:
  assumes "replace_data E k ms st s w = (r, st', s', w')"
  shows "R s s'"
proof -
  have sp: "R s s1" if "savepoint restore_savepoint s = (q, s1)" for q s1
    using savepoint_in that by (rule obeys_run)
  have cl: "R s s2" if "savepoint restore_savepoint s = (q, s1)" "clear_batch s1 = (q', s2)" for q s1 q' s2
    using sp [OF that(1)] obeys_run [OF clear_batch_in that(2)] by (rule R_trans)
  have snap: "obeys R (restore_snapshot lower sn r0)" for lower sn r0
    by (rule restore_snapshot_in) (rule conversation_write row_writes batch_writes)+
  have seg: "R s s3" if "savepoint restore_savepoint s = (q, s1)" "clear_batch s1 = (q', s2)"
    "restore_segments E k segs r0 s2 w = (q'', s3, w'')" for q s1 q' s2 segs r0 q'' s3 w''
    using cl [OF that(1,2)] restore_segments_in [OF snap that(3)] by (rule R_trans)
  have out: "R x (snd (undo_batch x))" "R x (snd (release restore_savepoint x))" for x
    using undo_batch_in release_in by (simp_all add: obeys_def)
  from assms show ?thesis
    by (auto simp: replace_data_def Let_def split: sum.splits prod.splits option.splits
        intro: sp cl seg R_trans [OF _ out(1)] R_trans [OF _ out(2)])
qed

lemma restore_in:
  assumes "restore_from_backup E n s w = (r, st', s', w')"
  shows "R s s'"
  using assms
  by (auto simp: restore_from_backup_def execute_def R_refl simp del: advance.simps
      split: sum.splits prod.splits option.splits if_splits dest: replace_data_in)

end

section \<open>Runs of the core\<close>

text \<open>
  The operations that leave what is stored: sending, receiving, hydrating, offloading, backing up, and the operations of the
  message pipeline. A configuration is the state of the core, the store and the server.
\<close>

inductive core_op ::
  "'w core_env \<Rightarrow> core_state \<times> store \<times> 'w \<Rightarrow> core_state \<times> store \<times> 'w \<Rightarrow> bool" for E where
  send: "core_op E (c, s, w) (c, snd (send_text E k t1 t2 conv x rt s), w)"
| ingest: "ingest_remote_messages E t1 t2 t3 conv cur c s w = (r, c', s', w') \<Longrightarrow> core_op E (c, s, w) (c', s', w')"
| hydrate: "hydrate_message E t1 t2 mid why s w = (h, s', w') \<Longrightarrow> core_op E (c, s, w) (c, s', w')"
| enforce: "core_op E (c, s, w) (c, snd (enforce_storage_budget E t1 s), w)"
| backup: "run_incremental_backup E new t1 c s w = (b, c', s', w') \<Longrightarrow> core_op E (c, s, w) (c', s', w')"
| media: "send_media E ids nonce t1 conv file cap s w = (m, s', w') \<Longrightarrow> core_op E (c, s, w) (c, s', w')"
| message: "core_op E (c, s, w) (c, run_message_op (ce_lower E) oper s, w)"

text \<open>
  Each operation runs under a schedule of driver faults of its own. A crash loses the state of the core and what was not
  committed; the server changes as it likes. With \<open>replacing\<close> a run may also restore from the backup and call any public
  write of the store, the clearing included.
\<close>

inductive core_run ::
  "bool \<Rightarrow> 'w core_env \<Rightarrow> core_state \<times> store \<times> 'w \<Rightarrow> core_state \<times> store \<times> 'w \<Rightarrow> bool" for replacing E x where
  here: "core_run replacing E x x"
| op: "core_run replacing E x (c, s, w) \<Longrightarrow> core_op E (c, s\<lparr>st_faults := fs\<rparr>, w) y \<Longrightarrow> core_run replacing E x y"
| crash: "core_run replacing E x (c, s, w) \<Longrightarrow> core_run replacing E x (start_state, reopen s, w)"
| server: "core_run replacing E x (c, s, w) \<Longrightarrow> core_run replacing E x (c, s, w')"
| restore: "core_run replacing E x (c, s, w) \<Longrightarrow> replacing \<Longrightarrow>
    restore_from_backup E n (s\<lparr>st_faults := fs\<rparr>) w = (r, st, s', w') \<Longrightarrow> core_run replacing E x (c, s', w')"
| public: "core_run replacing E x (c, s, w) \<Longrightarrow> replacing \<Longrightarrow> public_write (ce_lower E) f \<Longrightarrow>
    core_run replacing E x (c, f (s\<lparr>st_faults := fs\<rparr>), w)"

inductive_cases core_opE: "core_op E (c, s, w) y"

context table_relation
begin

lemma op_in: "core_op E (c, s, w) (c', s', w') \<Longrightarrow> R s s'"
  by (erule core_opE)
    (auto simp: hydration_is_local R_refl split: option.splits
      intro: obeys_snd send_text_in enforce_in message_op_in dest: ingest_remote_in backup_in send_media_in)

end

text \<open>A relation that also holds over faults and crashes holds over whole runs.\<close>

locale run_relation = table_relation R good for R :: "store \<Rightarrow> store \<Rightarrow> bool" and good :: "stmt \<Rightarrow> bool" +
  assumes faults_in: "R s (s\<lparr>st_faults := fs\<rparr>)"
    and reopen_in: "R s (reopen s)"
begin

lemma run_by:
  assumes "core_run b E x y"
    and "\<And>n s w r st s' w'. b \<Longrightarrow> restore_from_backup E n s w = (r, st, s', w') \<Longrightarrow> R s s'"
    and "\<And>f s. b \<Longrightarrow> public_write (ce_lower E) f \<Longrightarrow> R s (f s)"
  shows "R (fst (snd x)) (fst (snd y))"
  using assms(1)
proof (induction rule: core_run.induct)
  case (op c s w fs y)
  obtain c' s' w' where y: "y = (c', s', w')" by (cases y)
  have "R s s'" using faults_in op_in [OF op.hyps(2) [unfolded y]] by (rule R_trans)
  with op.IH show ?case by (auto simp: y intro: R_trans)
next
  case (restore c s w n fs r st s' w')
  have "R s s'" using faults_in assms(2) [OF restore.hyps(2,3)] by (rule R_trans)
  with restore.IH show ?case by (auto intro: R_trans)
next
  case (public c s w f fs)
  have "R s (f (s\<lparr>st_faults := fs\<rparr>))" using faults_in assms(3) [OF public.hyps(2,3)] by (rule R_trans)
  with public.IH show ?case by (auto intro: R_trans)
qed (auto intro: R_refl R_trans reopen_in)

lemma run_in: "core_run False E (c, s, w) (c', s', w') \<Longrightarrow> R s s'"
  using run_by [of False E "(c, s, w)" "(c', s', w')"] by simp

end

locale replacing_relation = run_relation R good + clearing_relation R good
  for R :: "store \<Rightarrow> store \<Rightarrow> bool" and good :: "stmt \<Rightarrow> bool"
begin

lemma replacing_run_in: "core_run b E (c, s, w) (c', s', w') \<Longrightarrow> R s s'"
  using run_by [of b E "(c, s, w)" "(c', s', w')"] by (auto intro: restore_in write_step)

end

lemma stacked_reopen: "table_order le \<Longrightarrow> grows le s (reopen s)"
  by (simp add: grows_def stacked_def reopen_def table_order.le_refl)

lemma faults_grow: "table_order le \<Longrightarrow> grows le s (s\<lparr>st_faults := fs\<rparr>)"
  by (simp add: grows_def stacked_def table_order.le_refl)

interpretation lasting_run: run_relation "grows rows_last" "raises rows_last"
  by unfold_locales (rule faults_grow stacked_reopen, rule lasting_rows.table_order_axioms)+

interpretation numbering_run: replacing_relation "grows numbers_last" "raises numbers_last"
  by unfold_locales (rule faults_grow stacked_reopen, rule lasting_numbers.table_order_axioms)+

interpretation preserving_run: replacing_relation wf_kept stmt_safe
  by unfold_locales (simp_all add: wf_kept_def reopen_wf)

section \<open>What is acknowledged\<close>

text \<open>The errors an action can end in, whatever fails.\<close>

definition errs :: "('e \<Rightarrow> bool) \<Rightarrow> ('e, 'a) act \<Rightarrow> bool" where
  "errs P m \<longleftrightarrow> (\<forall>s e s'. m s = (Inl e, s') \<longrightarrow> P e)"

named_theorems errs_intros \<open>the errors of compound actions\<close>

lemma errs_basic [errs_intros]: "errs P (ret a)" "errs P (query_w q)" "errs P (ignoreA m)"
  by (simp_all add: errs_def ret_def query_w_def ignoreA_def)

lemma errs_fail [errs_intros]: "P e \<Longrightarrow> errs P (fail e)"
  by (simp add: errs_def fail_def)

lemma errs_mapE [errs_intros]: "(\<And>e. P (f e)) \<Longrightarrow> errs P (mapE f m)"
  by (auto simp: errs_def mapE_def split: prod.splits sum.splits)

lemma errs_then [errs_intros]: "errs P m \<Longrightarrow> errs P n \<Longrightarrow> errs P (thenA m n)"
  by (auto simp: errs_def thenA_def bindA_def split: prod.splits sum.splits)

lemma errs_seq [errs_intros]: "list_all (errs P) ms \<Longrightarrow> errs P (seqA ms)"
  by (induction ms) (auto intro: errs_intros)

lemma errs_for [errs_intros]: "(\<And>x. errs P (f x)) \<Longrightarrow> errs P (forA f xs)"
  by (simp add: forA_def errs_seq list_all_iff)

lemma ingest_never_duplicate: "errs (\<lambda>e. e \<noteq> DuplicateMessage) (persist_ingested_message_inner lower now1 now2 msg)"
  unfolding persist_ingested_message_inner_def insert_fts_row_def index_fuzzy_grams_def Let_def
  by (auto intro!: errs_intros simp: db_sql_def split: option.split)

lemma wrapped_errs:
  assumes "errs P m" and "\<And>e. P (f e)"
  shows "errs P (with_savepoint n f m)"
  using assms unfolding errs_def with_savepoint_def bindA_def thenA_def mapE_def ret_def
  by (auto split: prod.splits sum.splits)

definition stored_ids :: "store \<Rightarrow> string set" where
  "stored_ids s = rs_id ` set (t_skel (st_committed s))"

lemma grown_ids:
  "grows rows_last s s' \<Longrightarrow> stacked rows_last s \<Longrightarrow> stacked rows_last s' \<and> stored_ids s \<subseteq> stored_ids s'"
  by (simp add: grows_def rows_last_def stored_ids_def)

lemma durable_ids: "durable t = durable u \<Longrightarrow> t_skel t = t_skel u"
  by (metis durable_simps(1))

lemma ingest_stores:
  assumes s: "settled s" and v: "validate_ingest msg = Inr ()" and q: "q = Inr () \<or> q = Inl DuplicateMessage"
    and run: "persist_ingested_message lower now1 now2 msg s = (q, s')"
  shows "settled s' \<and> im_id msg \<in> stored_ids s'"
proof (cases "im_id msg \<in> rs_id ` set (t_skel (st_live s))")
  case True
  with run v have "s' = s" by (auto simp: persist_ingested_message_def bindA_def fail_def skeleton_exists_settled [OF s])
  with True s show ?thesis by (simp add: stored_ids_def settled_def)
next
  case False
  with run v have w: "with_savepoint ''persist_ingest'' PStorage (persist_ingested_message_inner lower now1 now2 msg) s = (q, s')"
    by (simp add: persist_ingested_message_def bindA_def skeleton_exists_settled [OF s])
  have "errs (\<lambda>e. e \<noteq> DuplicateMessage) (with_savepoint ''persist_ingest'' PStorage (persist_ingested_message_inner lower now1 now2 msg))"
    by (rule wrapped_errs [OF ingest_never_duplicate]) simp
  with w q have "q = Inr ()" by (auto simp: errs_def)
  with ingest.atomic_durable [OF s w] have s': "settled s'"
      "durable (st_committed s') = durable (ingest_tables lower now1 now2 msg (st_committed s))" by simp_all
  with durable_ids [OF s'(2)] show ?thesis
    by (simp add: stored_ids_def ingest_tables_rows image_upsert_key skeleton_rows)
qed

lemma page_stores:
  assumes "settled s" and "ingest_page lower now1 now2 raws r s = (Inr r', s')"
  shows "settled s' \<and> rd_id ` set raws \<subseteq> stored_ids s'"
  using assms
proof (induction raws arbitrary: r s)
  case (Cons m raws)
  have v: "validate_ingest (ingested_of m) = Inr ()" using Cons.prems(2) by (auto split: sum.splits)
  obtain q s1 where p: "persist_ingested_message lower now1 now2 (ingested_of m) s = (q, s1)" by fastforce
  with Cons.prems(2) v have q: "q = Inr () \<or> q = Inl DuplicateMessage" by (auto split: sum.splits if_splits)
  note s1 = ingest_stores [OF Cons.prems(1) v q p]
  obtain r1 where run: "ingest_page lower now1 now2 raws r1 s1 = (Inr r', s')"
    using Cons.prems(2) v p q by (auto split: if_splits)
  from Cons.IH [OF conjunct1 [OF s1] run] have ih: "settled s'" "rd_id ` set raws \<subseteq> stored_ids s'" by blast+
  have "stored_ids s1 \<subseteq> stored_ids s'"
    using grown_ids [OF obeys_run [OF lasting.ingest_page_in run] lasting_rows.stacked_settled] s1 by blast
  with s1 ih show ?case by (auto simp: ingested_of_def)
qed simp

lemma sent_stores:
  assumes s: "settled s" and run: "send_text E k t1 t2 conv x rt s = (Inr mid, s')"
  shows "settled s' \<and> mid \<in> stored_ids s'"
proof -
  let ?e = "create_outbox_entry k t1 conv x rt"
  have x: "x \<noteq> []" using run
    by (auto simp: send_text_def Let_def thenA_def bindA_def mapE_def persist_outbox_entry_def create_outbox_entry_def fail_def)
  obtain q s1 where w: "with_savepoint ''persist_outbox'' PStorage (persist_outbox_entry_inner (ce_lower E) t2 ?e) s = (q, s1)"
    by fastforce
  with run x have "q = Inr ()" "s' = s1" "mid = k"
    by (auto simp: send_text_def Let_def thenA_def bindA_def mapE_def persist_outbox_entry_def create_outbox_entry_def fail_def
        ret_def skeleton_exists_settled [OF s] split: if_splits sum.splits prod.splits)
  with outbox.atomic_durable [OF s w] have s': "settled s'"
      "durable (st_committed s') = durable (outbox_tables (ce_lower E) t2 ?e (st_committed s))" by simp_all
  with durable_ids [OF s'(2)] x \<open>mid = k\<close> show ?thesis
    by (simp add: stored_ids_def outbox_tables_rows image_upsert_key skeleton_rows) (simp add: create_outbox_entry_def)
qed

lemma media_stores:
  assumes s: "settled s" and run: "send_media E ids nonce now conv file caption s w = (Inr m, s', w')"
  shows "settled s' \<and> ms_message m \<in> stored_ids s'"
proof -
  from run obtain mime d where m: "ms_message m = mi_message ids"
      and "with_savepoint ''send_media'' sql_text (media_rows ids now conv mime caption d) s = (Inr (), s')"
    by (auto simp: send_media_def send_media_inner_def split: if_splits sum.splits prod.splits)
  from media.atomic_durable [OF s this(2)] have s': "settled s'"
      "durable (st_committed s') = durable (media_tables ids now conv mime caption d (st_committed s))" by simp_all
  with durable_ids [OF s'(2)] m show ?thesis
    by (simp add: stored_ids_def media_tables_def image_upsert_key media_skeleton_row)
qed

text \<open>An operation that reports success, with the identifiers of the messages it has taken charge of.\<close>

inductive acknowledges ::
  "'w core_env \<Rightarrow> core_state \<times> store \<times> 'w \<Rightarrow> string set \<Rightarrow> core_state \<times> store \<times> 'w \<Rightarrow> bool" for E where
  received: "ingest_remote_messages E t1 t2 t3 conv cur c s w = (Inr r, c', s', w') \<Longrightarrow>
    gw_fetch_messages (ce_gateway E) conv cur w = (Inr page, w') \<Longrightarrow>
    acknowledges E (c, s, w) (rd_id ` set (fr_messages page)) (c', s', w')"
| sent: "send_text E k t1 t2 conv x rt s = (Inr mid, s') \<Longrightarrow> acknowledges E (c, s, w) {mid} (c, s', w)"
| sent_media: "send_media E ids nonce t1 conv file cap s w = (Inr m, s', w') \<Longrightarrow>
    acknowledges E (c, s, w) {ms_message m} (c, s', w')"

inductive_cases acknowledgesE: "acknowledges E (c, s, w) M (c', s', w')"

lemma received_stores:
  assumes s: "settled s" and run: "ingest_remote_messages E t1 t2 t3 conv cur c s w = (Inr r, c', s', w')"
    and page: "gw_fetch_messages (ce_gateway E) conv cur w = (Inr page, w'')"
  shows "stacked rows_last s' \<and> rd_id ` set (fr_messages page) \<subseteq> stored_ids s'"
proof -
  from run page obtain r1 s1 where i: "ingest_page (ce_lower E) t1 t2 (fr_messages page) (empty_ingest (fr_cursor page)) s = (Inr r1, s1)"
      and s': "s' = snd (auto_enforce E t3 c s1)"
    by (auto simp: ingest_remote_messages_def split: sum.splits prod.splits)
  from page_stores [OF s i] have s1: "settled s1" "rd_id ` set (fr_messages page) \<subseteq> stored_ids s1" by simp_all
  have "grows rows_last s1 s'" unfolding s' by (rule lasting.auto_enforce_in)
  from grown_ids [OF this lasting_rows.stacked_settled [OF s1(1)]] s1(2) show ?thesis by blast
qed

lemma acknowledged_stores:
  assumes "settled s" and "acknowledges E (c, s, w) M (c1, s1, w1)"
  shows "stacked rows_last s1 \<and> M \<subseteq> stored_ids s1"
  using assms(2)
proof (rule acknowledgesE)
  fix t1 t2 t3 conv cur r page
  assume m: "M = rd_id ` set (fr_messages page)"
    and "ingest_remote_messages E t1 t2 t3 conv cur c s w = (Inr r, c1, s1, w1)"
    and "gw_fetch_messages (ce_gateway E) conv cur w = (Inr page, w1)"
  from received_stores [OF assms(1) this(2,3)] show ?thesis by (simp add: m)
next
  fix ids nonce t1 conv mf cap m
  assume m: "M = {ms_message m}" and "send_media E ids nonce t1 conv mf cap s w = (Inr m, s1, w1)"
  from media_stores [OF assms(1) this(2)] show ?thesis by (simp add: m lasting_rows.stacked_settled)
qed (use sent_stores [OF assms(1)] in \<open>blast intro: lasting_rows.stacked_settled\<close>)

section \<open>Properties\<close>

text \<open>
  C1: what the core has acknowledged is not lost again: when receiving a page, sending a text or sending media reports success
  on a store in which no savepoint was left open by an earlier rollback that failed, the skeletons of its messages are
  committed, and they stay committed and visible through every run of operations, driver faults at any statement (later
  rollbacks included), crashes and changes on the server; only a restore or a clearing removes them. What is acknowledged
  while a savepoint is left open can be lost, which C33 states.
\<close>

theorem acknowledged_messages_survive:
  assumes "settled s" and "acknowledges E (c, s, w) M (c1, s1, w1)"
    and "core_run False E (c1, s1, w1) (c2, s2, w2)"
  shows "M \<subseteq> stored_ids s2 \<and> stored_ids s2 \<subseteq> rs_id ` set (t_skel (st_live s2))"
proof -
  from acknowledged_stores [OF assms(1,2)] have a: "stacked rows_last s1" "M \<subseteq> stored_ids s1" by simp_all
  from grown_ids [OF lasting_run.run_in [OF assms(3)] a(1)] a(2) show ?thesis
    by (auto simp: stacked_def rows_last_def stored_ids_def)
qed

text \<open>The example: a page with one message is received; then a send fails at its second statement and the process crashes.\<close>

definition page_env :: "unit core_env" where
  "page_env = sample_env toy_prims bare_manifest (page_gateway [sample_raw ''m1''])"

definition one_received :: store where
  "one_received = both (open_db False) (ingest_tables id 1 2 (sample_message ''m1'') empty_tables)"

lemma page_received:
  "ingest_remote_messages page_env 1 2 3 ''c1'' None start_state (open_db False) ()
     = (Inr \<lparr>ig_new = 1, ig_updated = 0, ig_duplicate = 0, ig_cursor = None\<rparr>, start_state, one_received, ())"
proof -
  have p: "persist_ingested_message id 1 2 (sample_message ''m1'') (open_db False) = (Inr (), one_received)"
    using ingest_eval [of "open_db False" id 1 2 "sample_message ''m1''"] sample_facts(5)
    by (simp add: one_received_def open_db_def fresh_store_def settled_def quiet_def empty_tables_def)
  then show ?thesis using sample_facts(5)
    by (simp add: page_env_def sample_env_def page_gateway_def ingest_remote_messages_def sample_raw_ok empty_ingest_def
        auto_enforce_def)
qed

lemma page_acknowledged:
  "acknowledges page_env (start_state, open_db False, ()) {''m1''} (start_state, one_received, ())"
proof -
  have "gw_fetch_messages (ce_gateway page_env) ''c1'' None () = (Inr \<lparr>fr_messages = [sample_raw ''m1''], fr_cursor = None\<rparr>, ())"
    by (simp add: page_env_def sample_env_def page_gateway_def)
  from acknowledges.received [OF page_received this] show ?thesis by (simp add: sample_raw_def)
qed

abbreviation failed_send :: store where
  "failed_send \<equiv> snd (send_text page_env ''k'' 4 5 ''c1'' (lit ''hi'') None (one_received\<lparr>st_faults := [False, True]\<rparr>))"

lemma page_run:
  "core_run b page_env (start_state, one_received, ()) (start_state, reopen failed_send, ())"
  by (rule core_run.crash [OF core_run.op [OF core_run.here core_op.send]])

theorem acknowledged_messages_survive_witness:
  "''m1'' \<in> stored_ids (reopen failed_send)"
  using acknowledged_messages_survive [OF open_facts(1) page_acknowledged page_run] by simp

section \<open>Redelivery\<close>

lemma known_message:
  assumes "validate_ingest msg = Inr ()" and "im_id msg \<in> rs_id ` set (t_skel (read_view s))"
  shows "persist_ingested_message lower n1 n2 msg s = (Inl DuplicateMessage, s)"
proof -
  have "skeleton_exists (im_id msg) s = (Inr True, s)"
    using assms(2) by (auto simp: skeleton_exists_def query_def list_ex_iff)
  with assms(1) show ?thesis by (simp add: persist_ingested_message_def bindA_def fail_def)
qed

lemma known_page:
  assumes "\<And>m. m \<in> set raws \<Longrightarrow> validate_ingest (ingested_of m) = Inr () \<and> rd_id m \<in> rs_id ` set (t_skel (read_view s))"
  shows "ingest_page lower n1 n2 raws r s = (Inr (r\<lparr>ig_duplicate := ig_duplicate r + length raws\<rparr>), s)"
  using assms
proof (induction raws arbitrary: r)
  case (Cons m raws)
  then have "persist_ingested_message lower n1 n2 (ingested_of m) s = (Inl DuplicateMessage, s)"
    by (intro known_message) (simp_all add: ingested_of_def)
  with Cons show ?case by simp
qed simp

lemma page_validated:
  assumes "ingest_page lower n1 n2 raws r s = (Inr r', s')"
  shows "(\<forall>m \<in> set raws. validate_ingest (ingested_of m) = Inr ()) \<and> ig_new r' + ig_duplicate r' = ig_new r + ig_duplicate r + length raws"
  using assms
proof (induction raws arbitrary: r s)
  case (Cons m raws)
  then show ?case by (fastforce split: sum.splits prod.splits if_splits)
qed simp

text \<open>
  C10: redelivery is harmless: once a page has been received without an error, on a store with no savepoint open, then at any
  later time, after any run of operations, driver faults and crashes that does not restore or clear, a page made of messages
  of that page is received without an error, for any conversation and cursor and whatever the driver does; every message
  counts as a duplicate and none is stored again. All that may change is what an automatic enforcement of the budget
  changes: bodies, indexes, candidates of eviction and skeletons are as before but for the body state.
\<close>

theorem redelivery_idempotent:
  assumes "settled s" and "gw_fetch_messages (ce_gateway E) conv cursor w = (Inr page, w1)"
    and "ingest_remote_messages E now1 now2 now3 conv cursor c s w = (Inr r, c1, s1, w1)"
    and "core_run False E (c1, s1, w1) (c2, s2, w2)"
    and "gw_fetch_messages (ce_gateway E) conv' cursor' w2 = (Inr page', w3)"
    and "set (fr_messages page') \<subseteq> set (fr_messages page)"
  shows "ig_new r + ig_duplicate r = length (fr_messages page)
    \<and> (\<exists>c3 s3. auto_enforce E now6 c2 (s2\<lparr>st_faults := fs\<rparr>) = (c3, s3)
        \<and> ingest_remote_messages E now4 now5 now6 conv' cursor' c2 (s2\<lparr>st_faults := fs\<rparr>) w2 =
            (Inr \<lparr>ig_new = 0, ig_updated = 0, ig_duplicate = length (fr_messages page'), ig_cursor = fr_cursor page'\<rparr>, c3, s3, w3)
        \<and> stored_content (st_live s3) = stored_content (st_live s2))"
proof -
  let ?s = "s2\<lparr>st_faults := fs\<rparr>"
  from assms(2,3) obtain r1 s' where p: "ingest_page (ce_lower E) now1 now2 (fr_messages page) (empty_ingest (fr_cursor page)) s = (Inr r1, s')"
      and r: "r1 = r" by (auto simp: ingest_remote_messages_def split: sum.splits prod.splits)
  from received_stores [OF assms(1,3,2)] have s1: "stacked rows_last s1" "rd_id ` set (fr_messages page) \<subseteq> stored_ids s1" by simp_all
  from grown_ids [OF lasting_run.run_in [OF assms(4)] s1(1)] s1(2)
  have s2: "stacked rows_last s2" "rd_id ` set (fr_messages page) \<subseteq> stored_ids s2" by blast+
  from s2(1) have "stored_ids s2 \<subseteq> rs_id ` set (t_skel (read_view ?s))"
    by (simp add: stacked_def rows_last_def stored_ids_def read_view_def)
  with s2(2) have "rd_id ` set (fr_messages page) \<subseteq> rs_id ` set (t_skel (read_view ?s))" by (rule subset_trans)
  then have "validate_ingest (ingested_of m) = Inr () \<and> rd_id m \<in> rs_id ` set (t_skel (read_view ?s))"
    if "m \<in> set (fr_messages page')" for m
    using that assms(6) page_validated [OF p] by blast
  note known = known_page [OF this, of "fr_messages page'" "ce_lower E" now4 now5 "empty_ingest (fr_cursor page')"]
  obtain c3 s3 where a: "auto_enforce E now6 c2 ?s = (c3, s3)" by fastforce
  have "stored_content (st_live s3) = stored_content (st_live s2)" using auto_enforce_content [OF a] by simp
  with a known assms(5) page_validated [OF p] r show ?thesis
    by (simp add: ingest_remote_messages_def empty_ingest_def)
qed

text \<open>The page is received again after a send has failed and the process has crashed.\<close>

theorem redelivery_idempotent_witness:
  "\<exists>c3 s3. ingest_remote_messages page_env 6 7 8 ''c1'' (Some []) start_state ((reopen failed_send)\<lparr>st_faults := [True]\<rparr>) ()
      = (Inr \<lparr>ig_new = 0, ig_updated = 0, ig_duplicate = 1, ig_cursor = None\<rparr>, c3, s3, ())
    \<and> stored_content (st_live s3) = stored_content (st_live (reopen failed_send))"
proof -
  have f: "gw_fetch_messages (ce_gateway page_env) ''c1'' cur () = (Inr \<lparr>fr_messages = [sample_raw ''m1''], fr_cursor = None\<rparr>, ())" for cur
    by (simp add: page_env_def sample_env_def page_gateway_def)
  from redelivery_idempotent [OF open_facts(1) f page_received page_run f, where ?now4.0 = 6 and ?now5.0 = 7 and ?now6.0 = 8
      and fs = "[True]" and cursor' = "Some []"] show ?thesis unfolding One_nat_def by simp blast
qed

text \<open>
  C3: every run of the core keeps the invariant of the store: operations of the facade under any faults, crashes, restores
  from whatever the server holds, and any public write of the store leave primary keys unique, the journal numbered
  upwards and, where SQLite enforces foreign keys, no dangling reference, in the live tables, the committed image and
  every savepoint.
\<close>

theorem core_runs_keep_store_wf:
  assumes "store_wf s" and "core_run replacing E (c, s, w) (c', s', w')"
  shows "store_wf s'"
  using preserving_run.replacing_run_in [OF assms(2)] assms(1) by (simp add: wf_kept_def)

lemma open_store_wf: "store_wf (open_db fk)"
  by (simp add: store_wf_def open_db_def fresh_store_def empty_tables_wf)

lemma whole_run:
  "core_run b page_env (start_state, open_db False, ()) (start_state, reopen failed_send, ())"
proof -
  have f: "(open_db False)\<lparr>st_faults := []\<rparr> = open_db False" by (simp add: open_db_def fresh_store_def)
  have "core_op page_env (start_state, (open_db False)\<lparr>st_faults := []\<rparr>, ()) (start_state, one_received, ())"
    unfolding f by (rule core_op.ingest [OF page_received])
  from core_run.crash [OF core_run.op [OF core_run.op [OF core_run.here this] core_op.send]] show ?thesis .
qed

theorem core_runs_keep_store_wf_witness: "store_wf (reopen failed_send)"
  by (rule core_runs_keep_store_wf [OF open_store_wf whole_run])

text \<open>
  C15: a number of the backup journal denotes one event for ever: after any run, with pruning, clearing, restores and
  crashes, the counter has not gone back and every committed entry with a number handed out before is the entry that
  had it then.
\<close>

theorem journal_numbers_never_reused:
  assumes "settled s" and "core_run replacing E (c, s, w) (c', s', w')"
  shows "t_journal_seq (st_committed s) \<le> t_journal_seq (st_committed s')
    \<and> (\<forall>p \<in> set (t_journal (st_committed s')). fst p \<le> t_journal_seq (st_committed s)
         \<longrightarrow> p \<in> set (t_journal (st_committed s)))"
  using numbering_run.replacing_run_in [OF assms(2)] lasting_numbers.stacked_settled [OF assms(1)]
  by (simp add: grows_def numbers_last_def)

theorem journal_numbers_never_reused_witness:
  "t_journal_seq (st_committed one_received) \<le> t_journal_seq (st_committed (reopen failed_send))"
proof -
  have "settled one_received" by (simp add: one_received_def settled_def open_db_def fresh_store_def)
  from journal_numbers_never_reused [OF this page_run [of True]] show ?thesis by (rule conjunct1)
qed

text \<open>
  C33: after a rollback that failed, acknowledged messages are lost: with a savepoint left open, no operation of the message
  pipeline commits anything, whatever it reports, so that a crash ends in the store a crash before it would have ended in.
\<close>

theorem open_savepoint_commits_nothing:
  assumes "st_saves s \<noteq> []"
  shows "st_live (reopen (run_message_op lower oper s)) = st_live (reopen s)
    \<and> st_saves (run_message_op lower oper s) \<noteq> []"
  using stuck_op [of s lower oper] assms by (simp add: stuck_def reopen_def)

text \<open>A send whose second statement and whose rollback fail; the next send succeeds.\<close>

definition failed_rollback :: store where
  "failed_rollback = run_message_op id (OpSend 5 (create_outbox_entry ''k1'' 4 ''c1'' (lit ''hi'') None))
     ((open_db False)\<lparr>st_faults := [False, True, True]\<rparr>)"

lemma wrapped_computes:
  assumes "computes inner g" and "quiet s" and "g (st_fk s) (st_live s) = Inr t"
  shows "with_savepoint n f inner s = (Inr (), settle (s\<lparr>st_live := t\<rparr>))"
proof -
  let ?o = "s\<lparr>st_saves := (n, st_live s) # st_saves s\<rparr>"
  have "inner ?o = (Inr (), ?o\<lparr>st_live := t\<rparr>)"
    using computesD(1) [OF assms(1), of ?o t] assms(2,3) by simp
  then show ?thesis using assms(2)
    by (simp add: with_savepoint_def bindA_def thenA_def mapE_def savepoint_def release_def pop_saves_def ret_def)
qed

lemma failed_rollback_eq:
  "failed_rollback = (open_db False)\<lparr>st_saves := [(''persist_outbox'', empty_tables)]\<rparr>"
  by (simp add: failed_rollback_def persist_outbox_entry_def create_outbox_entry_def skeleton_exists_def query_def read_view_def
      bindA_def thenA_def mapE_def with_savepoint_def savepoint_def persist_outbox_entry_inner_def Let_def exec_def
      next_fault_def tick_def rollback_to_def open_db_def fresh_store_def empty_tables_def read_pool_size_def lit_def)

theorem open_savepoint_commits_nothing_witness:
  "fst (send_text page_env ''k2'' 6 7 ''c1'' (lit ''ho'') None failed_rollback) = Inr ''k2''
   \<and> st_live (reopen (run_message_op id (OpSend 7 (create_outbox_entry ''k2'' 6 ''c1'' (lit ''ho'') None)) failed_rollback))
     = empty_tables"
proof
  let ?e = "create_outbox_entry ''k2'' 6 ''c1'' (lit ''ho'') None"
  have q: "quiet failed_rollback" "st_fk failed_rollback = False" "st_saves failed_rollback \<noteq> []"
    by (simp_all add: failed_rollback_eq open_db_def fresh_store_def quiet_def)
  have new: "skeleton_exists ''k2'' failed_rollback = (Inr False, failed_rollback)"
    by (simp add: skeleton_exists_def query_def read_view_def failed_rollback_eq open_db_def fresh_store_def empty_tables_def
        read_pool_size_def)
  have "outbox_spec id 7 ?e (st_fk failed_rollback) (st_live failed_rollback)
      = Inr (outbox_tables id 7 ?e (st_live failed_rollback))" by (simp add: outbox_spec_def q(2))
  note w = wrapped_computes [OF outbox_computes q(1) this, of "''persist_outbox''" PStorage]
  have e: "oe_text ?e \<noteq> []" "oe_id ?e = ''k2''" by (simp_all add: create_outbox_entry_def lit_def)
  have "fst (persist_outbox_entry id 7 ?e failed_rollback) = Inr ''k2''"
    by (simp add: persist_outbox_entry_def bindA_def thenA_def ret_def new e w)
  moreover have "ce_lower page_env = id" by (simp add: page_env_def sample_env_def)
  ultimately show "fst (send_text page_env ''k2'' 6 7 ''c1'' (lit ''ho'') None failed_rollback) = Inr ''k2''"
    by (simp add: send_text_def Let_def thenA_def bindA_def mapE_def ret_def e split: prod.split sum.split)
      (metis fst_conv sum.distinct(1))
  from open_savepoint_commits_nothing [OF q(3), of id "OpSend 7 ?e"]
  show "st_live (reopen (run_message_op id (OpSend 7 ?e) failed_rollback)) = empty_tables"
    by (simp add: reopen_def) (simp add: failed_rollback_eq open_db_def fresh_store_def)
qed

end
