(* ===== verification/ChatLog.thy ===== *)
theory ChatLog
  imports MessageProps "HOL-Library.Sublist"
begin

text \<open>
  What the message pipeline promises, without tables, indexes and transactions: a chat log is a set of conversations and
  the list of messages in the order of their arrival. Each operation of \<open>message/processor.rs\<close> is a function on the log, and
  the detailed operations refine it: every run of the pipeline shows, through the timeline and the bodies it returns, the
  log that the abstract operations build.
\<close>

section \<open>The abstract log\<close>

text \<open>\<open>lg_text\<close> is absent when the message has no body; a body may have no text.\<close>

record chat_entry =
  lg_id :: string
  lg_conv :: string
  lg_sender :: string
  lg_created :: int
  lg_state :: body_state
  lg_text :: "ustr option option"
  lg_edited :: "int option"
  lg_deleted :: "int option"

record chat_log =
  cl_convs :: "string set"
  cl_entries :: "chat_entry list"

definition empty_log :: chat_log where
  "empty_log = \<lparr>cl_convs = {}, cl_entries = []\<rparr>"

definition new_entry :: "string \<Rightarrow> string \<Rightarrow> string \<Rightarrow> int \<Rightarrow> ustr option \<Rightarrow> chat_entry" where
  "new_entry i conv sender created x =
     \<lparr>lg_id = i, lg_conv = conv, lg_sender = sender, lg_created = created, lg_state = LocalPlainAvailable,
      lg_text = map_option Some x, lg_edited = None, lg_deleted = None\<rparr>"

text \<open>A known identifier is refused, and so is an unknown conversation where foreign keys are enforced.\<close>

definition log_add :: "bool \<Rightarrow> chat_entry \<Rightarrow> chat_log \<Rightarrow> chat_log" where
  "log_add fk e L =
     (if lg_id e \<in> lg_id ` set (cl_entries L) \<or> (fk \<and> lg_conv e \<notin> cl_convs L) then L
      else L\<lparr>cl_entries := cl_entries L @ [e]\<rparr>)"

text \<open>Only a readable message can be edited or deleted.\<close>

definition log_change :: "string \<Rightarrow> (chat_entry \<Rightarrow> chat_entry) \<Rightarrow> chat_log \<Rightarrow> chat_log" where
  "log_change i f L = L\<lparr>cl_entries :=
     map (\<lambda>e. if lg_id e = i \<and> lg_state e = LocalPlainAvailable then f e else e) (cl_entries L)\<rparr>"

fun log_op :: "bool \<Rightarrow> message_op \<Rightarrow> chat_log \<Rightarrow> chat_log" where
  "log_op fk (OpConversation c) L = L\<lparr>cl_convs := insert (c_id c) (cl_convs L)\<rparr>"
| "log_op fk (OpIngest n1 n2 msg) L =
     (if validate_ingest msg = Inr ()
      then log_add fk (new_entry (im_id msg) (im_conv msg) (im_sender msg) (im_created_ms msg) (im_text msg)) L else L)"
| "log_op fk (OpSend n e) L =
     (if oe_text e = [] then L
      else log_add fk (new_entry (oe_id e) (oe_conv e) ''self'' (oe_created_ms e) (Some (oe_text e))) L)"
| "log_op fk (OpSent n1 n2 mid) L = L"
| "log_op fk (OpEdit n mid x) L =
     (if x = [] then L
      else log_change mid (\<lambda>e. e\<lparr>lg_text := map_option (\<lambda>_. Some x) (lg_text e), lg_edited := Some n\<rparr>) L)"
| "log_op fk (OpDelete n mid scope) L =
     log_change mid (\<lambda>e. e\<lparr>lg_state := delete_target scope, lg_deleted := Some n,
       lg_text := (if scope = ForEveryone then None else lg_text e)\<rparr>) L"

text \<open>What the log shows.\<close>

definition log_timeline :: "string \<Rightarrow> nat \<Rightarrow> int option \<Rightarrow> chat_log \<Rightarrow> string list" where
  "log_timeline conv limit before L =
     map lg_id (take limit (sort_key (\<lambda>e. - lg_created e)
       (filter (\<lambda>e. lg_conv e = conv \<and> lg_deleted e = None \<and> (case before of None \<Rightarrow> True | Some b \<Rightarrow> lg_created e < b))
         (cl_entries L))))"

definition log_body :: "string \<Rightarrow> chat_log \<Rightarrow> ustr option option" where
  "log_body mid L = (case find (\<lambda>e. lg_id e = mid) (cl_entries L) of None \<Rightarrow> None | Some e \<Rightarrow> lg_text e)"

section \<open>The log of a store\<close>

definition entry_of_row :: "message_body list \<Rightarrow> skel_row \<Rightarrow> chat_entry" where
  "entry_of_row bs r =
     \<lparr>lg_id = rs_id r, lg_conv = rs_conv r, lg_sender = rs_sender r, lg_created = rs_created_ms r,
      lg_state = sk_body (skel_of_row r), lg_text = map_option b_text (row_of b_id (rs_id r) bs),
      lg_edited = rs_edited_ms r, lg_deleted = rs_deleted_ms r\<rparr>"

definition chat_of :: "tables \<Rightarrow> chat_log" where
  "chat_of t = \<lparr>cl_convs = rc_id ` set (t_conv t), cl_entries = map (entry_of_row (t_body t)) (t_skel t)\<rparr>"

lemma entry_fields [simp]:
  "lg_id (entry_of_row bs r) = rs_id r" "lg_conv (entry_of_row bs r) = rs_conv r"
  "lg_created (entry_of_row bs r) = rs_created_ms r" "lg_deleted (entry_of_row bs r) = rs_deleted_ms r"
  by (simp_all add: entry_of_row_def)

lemma chat_ids: "lg_id ` set (cl_entries (chat_of t)) = rs_id ` set (t_skel t)"
  by (simp add: chat_of_def image_image)

lemma chat_convs: "cl_convs (chat_of t) = rc_id ` set (t_conv t)"
  by (simp add: chat_of_def)

section \<open>The operations refine the log\<close>

lemma entry_new_body: "rs_id r \<noteq> b_id b \<Longrightarrow> entry_of_row (upsert b_id b bs) r = entry_of_row bs r"
  by (simp add: entry_of_row_def row_of_upsert)

lemma upsert_new: "key r \<notin> key ` set t \<Longrightarrow> upsert key r t = t @ [r]"
  unfolding upsert_def by (simp add: filter_id_conv) (metis image_eqI)

lemma log_of_new:
  assumes "t_skel t' = t_skel t @ [r]" and "rs_id r \<notin> rs_id ` set (t_skel t)" and "rc_id ` set (t_conv t') = rc_id ` set (t_conv t)"
    and "t_body t' = t_body t \<or> t_body t' = upsert b_id b (t_body t)" and "b_id b = rs_id r"
  shows "chat_of t' = (chat_of t)\<lparr>cl_entries := cl_entries (chat_of t) @ [entry_of_row (t_body t') r]\<rparr>"
proof -
  have "entry_of_row (t_body t') x = entry_of_row (t_body t) x" if "x \<in> set (t_skel t)" for x
    using that assms(2,4,5) entry_new_body [of x b] by (metis image_eqI)
  then show ?thesis by (simp add: chat_of_def assms(1,3))
qed

lemma conv_ids:
  "rc_id ` set (t_conv (ingest_tables lower n1 n2 msg t)) = rc_id ` set (t_conv t)"
  "rc_id ` set (t_conv (outbox_tables lower n e t)) = rc_id ` set (t_conv t)"
  "t_conv (edit_tables lower skel x n t) = t_conv t" "t_conv (delete_tables skel scope n t) = t_conv t"
proof -
  have f: "t_conv (fold (\<lambda>a. log_event (j a)) xs t) = t_conv t" for j xs t
    by (induction xs arbitrary: t) (simp_all add: log_event_def)
  have u: "rc_id ` set (t_conv (upd_conv k (set_last_message m n) t)) = rc_id ` set (t_conv t)" for k m n t
    by (simp add: upd_conv_def image_update set_last_message_def)
  show "rc_id ` set (t_conv (ingest_tables lower n1 n2 msg t)) = rc_id ` set (t_conv t)"
    using u by (simp add: ingest_tables_def Let_def log_event_def index_all_rest split: option.split)
  show "rc_id ` set (t_conv (outbox_tables lower n e t)) = rc_id ` set (t_conv t)"
    using u by (simp add: outbox_tables_def Let_def log_event_def index_all_rest)
  show "t_conv (edit_tables lower skel x n t) = t_conv t"
    by (simp add: edit_tables_def Let_def log_event_def index_all_rest upd_skel_def upd_body_def del_fts_def del_fuzzy_def)
  show "t_conv (delete_tables skel scope n t) = t_conv t"
    by (simp add: delete_tables_def Let_def f) (simp add: log_event_def upd_skel_def del_fts_def del_fuzzy_def del_body_def)
qed

lemma log_of_ingest:
  assumes "im_id msg \<notin> rs_id ` set (t_skel t)" and "b_id ` set (t_body t) \<subseteq> rs_id ` set (t_skel t)"
  shows "chat_of (ingest_tables lower n1 n2 msg t) = (chat_of t)\<lparr>cl_entries := cl_entries (chat_of t) @
    [new_entry (im_id msg) (im_conv msg) (im_sender msg) (im_created_ms msg) (im_text msg)]\<rparr>"
proof -
  let ?r = "skel_to_row (ingest_skeleton n1 (if im_media msg \<noteq> [] then KMedia else KText) msg)"
  have none: "row_of b_id (im_id msg) (t_body t) = None" using assms by (auto simp: row_of_None)
  have e: "entry_of_row (t_body (ingest_tables lower n1 n2 msg t)) ?r
      = new_entry (im_id msg) (im_conv msg) (im_sender msg) (im_created_ms msg) (im_text msg)"
    by (simp add: entry_of_row_def new_entry_def ingest_tables_rows skeleton_rows none row_of_upsert split: option.split)
      (simp add: ingest_skeleton_def skel_to_row_def plain_body_def)
  show ?thesis unfolding e [symmetric]
    by (rule log_of_new [where b = "plain_body (im_id msg) (the (im_text msg))"])
      (use assms(1) in \<open>auto simp: ingest_tables_rows skeleton_rows upsert_new conv_ids split: option.split\<close>)
qed

lemma log_of_outbox:
  assumes "oe_text e \<noteq> []" and "oe_id e \<notin> rs_id ` set (t_skel t)"
  shows "chat_of (outbox_tables lower n e t) = (chat_of t)\<lparr>cl_entries := cl_entries (chat_of t) @
    [new_entry (oe_id e) (oe_conv e) ''self'' (oe_created_ms e) (Some (oe_text e))]\<rparr>"
proof -
  let ?r = "skel_to_row (outbox_skeleton e)"
  have e: "entry_of_row (t_body (outbox_tables lower n e t)) ?r
      = new_entry (oe_id e) (oe_conv e) ''self'' (oe_created_ms e) (Some (oe_text e))"
    using assms(1) by (simp add: entry_of_row_def new_entry_def outbox_tables_rows skeleton_rows row_of_upsert)
      (simp add: outbox_skeleton_def skel_to_row_def plain_body_def)
  show ?thesis unfolding e [symmetric]
    by (rule log_of_new [where b = "plain_body (oe_id e) (oe_text e)"])
      (use assms in \<open>auto simp: outbox_tables_rows skeleton_rows upsert_new conv_ids\<close>)
qed

lemma log_change_rows:
  assumes "keys_unique rs_id (t_skel t)" and "row_of rs_id i (t_skel t) = Some r" and "t_conv t' = t_conv t"
    and "t_skel t' = update_where (\<lambda>r. rs_id r = i) g (t_skel t)"
    and "\<And>x. x \<in> set (t_skel t) \<Longrightarrow> rs_id x \<noteq> i \<Longrightarrow> entry_of_row (t_body t') x = entry_of_row (t_body t) x"
    and "lg_state (entry_of_row (t_body t) r) = LocalPlainAvailable"
    and "entry_of_row (t_body t') (g r) = f (entry_of_row (t_body t) r)"
  shows "chat_of t' = log_change i f (chat_of t)"
proof -
  have "entry_of_row (t_body t') (if rs_id x = i then g x else x)
      = (if lg_id (entry_of_row (t_body t) x) = i \<and> lg_state (entry_of_row (t_body t) x) = LocalPlainAvailable
         then f (entry_of_row (t_body t) x) else entry_of_row (t_body t) x)" if "x \<in> set (t_skel t)" for x
  proof (cases "rs_id x = i")
    case True
    with row_of_Some_unique [OF assms(1) that] assms(2) have "x = r" by simp
    with True assms(6,7) show ?thesis by simp
  qed (use that assms(5) in simp)
  then show ?thesis by (simp add: chat_of_def log_change_def assms(3,4) update_where_def)
qed

lemma log_unchanged:
  assumes "keys_unique rs_id (t_skel t)"
    and "\<And>r. row_of rs_id i (t_skel t) = Some r \<Longrightarrow> sk_body (skel_of_row r) \<noteq> LocalPlainAvailable"
  shows "log_change i f (chat_of t) = chat_of t"
proof -
  have "rs_id x = i \<longrightarrow> lg_state (entry_of_row (t_body t) x) \<noteq> LocalPlainAvailable" if "x \<in> set (t_skel t)" for x
    using row_of_Some_unique [OF assms(1) that] assms(2) by (auto simp: entry_of_row_def)
  then show ?thesis by (auto simp: log_change_def chat_of_def intro!: map_idI)
qed

lemma set_fields [simp]:
  "rs_id (set_deleted n b r) = rs_id r" "rs_conv (set_deleted n b r) = rs_conv r" "rs_sender (set_deleted n b r) = rs_sender r"
  "rs_created_ms (set_deleted n b r) = rs_created_ms r" "rs_edited_ms (set_deleted n b r) = rs_edited_ms r"
  "rs_deleted_ms (set_deleted n b r) = Some n" "sk_body (skel_of_row (set_deleted n b r)) = b"
  "sk_body (skel_of_row (r\<lparr>rs_edited_ms := e\<rparr>)) = sk_body (skel_of_row r)"
  by (simp_all add: set_deleted_def skel_of_row_def body_col.col.dec_enc)

lemma text_update:
  "map_option b_text (row_of b_id k (update_where (\<lambda>b. b_id b = mid) (\<lambda>b. b\<lparr>b_text := x\<rparr>) bs))
    = (if k = mid then map_option (\<lambda>_. x) (row_of b_id k bs) else map_option b_text (row_of b_id k bs))"
  by (cases "row_of b_id k bs") (auto simp: row_of_update dest: row_of_SomeD)

lemma log_of_edit:
  assumes "keys_unique rs_id (t_skel t)" and "editable mid t = Some skel"
  shows "chat_of (edit_tables lower skel x n t)
    = log_change mid (\<lambda>e. e\<lparr>lg_text := map_option (\<lambda>_. Some x) (lg_text e), lg_edited := Some n\<rparr>) (chat_of t)"
proof -
  from assms(2) obtain r where r: "row_of rs_id mid (t_skel t) = Some r" "skel = skel_of_row r"
      "sk_body (skel_of_row r) = LocalPlainAvailable" by (auto simp: editable_def split: option.splits if_splits)
  then have i: "sk_id skel = mid" "rs_id r = mid" by (auto dest: row_of_SomeD)
  show ?thesis
    by (rule log_change_rows [OF assms(1) r(1)])
      (auto simp: conv_ids edit_tables_rows i r(3) entry_of_row_def text_update option.map_comp comp_def)
qed

lemma log_of_delete:
  assumes "keys_unique rs_id (t_skel t)" and "row_of rs_id mid (t_skel t) = Some r"
    and "sk_body (skel_of_row r) = LocalPlainAvailable"
  shows "chat_of (delete_tables (skel_of_row r) scope n t)
    = log_change mid (\<lambda>e. e\<lparr>lg_state := delete_target scope, lg_deleted := Some n,
        lg_text := (if scope = ForEveryone then None else lg_text e)\<rparr>) (chat_of t)"
proof -
  from assms(2) have i: "rs_id r = mid" by (auto dest: row_of_SomeD)
  show ?thesis
    by (rule log_change_rows [OF assms(1,2)])
      (auto simp: conv_ids delete_tables_rows i assms(3) entry_of_row_def row_of_delete_key)
qed

section \<open>One operation\<close>

text \<open>Without faults an operation moves a settled store in one step.\<close>

lemma exec_both:
  assumes "settled s" and "quiet s" and "f (st_fk s) (st_live s) = Inr t"
  shows "exec f s = (Inr (), both s t)"
  using assms by (simp add: exec_def settled_def settle_def)

lemma both_self: "settled s \<Longrightarrow> both s (st_live s) = s"
  by (cases s) (simp add: settled_def)

definition refined :: "bool \<Rightarrow> message_op \<Rightarrow> store \<Rightarrow> store \<Rightarrow> bool" where
  "refined fk oper s s' \<longleftrightarrow> (\<exists>t. s' = both s t \<and> chat_of t = log_op fk oper (chat_of (st_live s)))"

lemma refined_same: "settled s \<Longrightarrow> log_op fk oper (chat_of (st_live s)) = chat_of (st_live s) \<Longrightarrow> refined fk oper s s"
  unfolding refined_def by (metis both_self)

lemma refined_both: "chat_of t = log_op fk oper (chat_of (st_live s)) \<Longrightarrow> refined fk oper s (both s t)"
  unfolding refined_def by blast

lemma synced_keys: "fts_synced t \<Longrightarrow> keys_unique rs_id (t_skel t)"
  by (simp add: fts_synced_def rows_ok_def)

lemma synced_owners: "fts_synced t \<Longrightarrow> b_id ` set (t_body t) \<subseteq> rs_id ` set (t_skel t)"
  by (simp add: fts_synced_def rows_ok_def)

lemma refines_conversation:
  assumes s: "settled s" "quiet s"
  shows "refined (st_fk s) (OpConversation c) s (run_message_op lower (OpConversation c) s)"
proof -
  let ?t = "(st_live s)\<lparr>t_conv := upsert rc_id (conv_to_row c) (t_conv (st_live s))\<rparr>"
  have "run_message_op lower (OpConversation c) s = both s ?t"
    using exec_both [OF s, of "put_conv (conv_to_row c)" ?t]
    by (simp add: insert_conversation_def db_exec_def mapE_def put_conv_def)
  then show ?thesis by (simp only:) (rule refined_both, simp add: chat_of_def image_upsert_key)
qed

lemma refines_ingest:
  assumes s: "settled s" "quiet s" and y: "fts_synced (st_live s)"
  shows "refined (st_fk s) (OpIngest n1 n2 msg) s (run_message_op lower (OpIngest n1 n2 msg) s)"
proof (cases "validate_ingest msg = Inr () \<and> im_id msg \<notin> rs_id ` set (t_skel (st_live s))
    \<and> \<not> (st_fk s \<and> im_conv msg \<notin> rc_id ` set (t_conv (st_live s)))")
  case True
  then have "run_message_op lower (OpIngest n1 n2 msg) s = both s (ingest_tables lower n1 n2 msg (st_live s))"
    by (auto simp: ingest_eval [OF s])
  then show ?thesis using True
    by (simp only:) (rule refined_both, simp add: log_of_ingest synced_owners [OF y] log_add_def chat_ids chat_convs new_entry_def)
next
  case False
  then have "run_message_op lower (OpIngest n1 n2 msg) s = s"
    by (auto simp: ingest_eval [OF s] split: sum.split)
  then show ?thesis using False
    by (simp only:) (rule refined_same [OF s(1)], auto simp: log_add_def chat_ids chat_convs new_entry_def)
qed

lemma refines_send:
  assumes s: "settled s" "quiet s"
  shows "refined (st_fk s) (OpSend n e) s (run_message_op lower (OpSend n e) s)"
proof (cases "oe_text e \<noteq> [] \<and> oe_id e \<notin> rs_id ` set (t_skel (st_live s))
    \<and> \<not> (st_fk s \<and> oe_conv e \<notin> rc_id ` set (t_conv (st_live s)))")
  case True
  then have "run_message_op lower (OpSend n e) s = both s (outbox_tables lower n e (st_live s))"
    by (auto simp: outbox_eval [OF s] outbox_spec_def)
  then show ?thesis using True
    by (simp only:) (rule refined_both, simp add: log_of_outbox log_add_def chat_ids chat_convs new_entry_def)
next
  case False
  then have "run_message_op lower (OpSend n e) s = s
      \<or> (oe_text e = [] \<and> run_message_op lower (OpSend n e) s = both s (outbox_tables lower n e (st_live s)))"
    by (auto simp: outbox_eval [OF s] outbox_spec_def)
  moreover have "chat_of (outbox_tables lower n e (st_live s)) = chat_of (st_live s)" if "oe_text e = []"
    using that by (simp add: outbox_tables_def chat_of_def)
  moreover have "log_op (st_fk s) (OpSend n e) (chat_of (st_live s)) = chat_of (st_live s)"
    using False by (auto simp: log_add_def chat_ids chat_convs new_entry_def)
  ultimately show ?thesis using refined_same [OF s(1)] refined_both by metis
qed

lemma refines_sent:
  assumes s: "settled s" "quiet s"
  shows "refined (st_fk s) (OpSent n1 n2 mid) s (run_message_op lower (OpSent n1 n2 mid) s)"
proof (cases "row_of rs_id mid (t_skel (st_live s))")
  case None
  then have "run_message_op lower (OpSent n1 n2 mid) s = s" by (simp add: mark_sent_def bind_query_w fail_def)
  then show ?thesis using refined_same [OF s(1)] by simp
next
  case (Some r)
  let ?t1 = "upd_outbox mid (set_sent n1) (st_live s)"
  have 1: "exec (pureT (upd_outbox mid (set_sent n1))) s = (Inr (), both s ?t1)"
    by (rule exec_both [OF s]) (simp add: pureT_def)
  have 2: "exec (add_journal j) (both s ?t1) = (Inr (), both (both s ?t1) (log_event j ?t1))" for j
    by (rule exec_both) (use s in \<open>simp_all add: pure_stmts pureT_def settled_def\<close>)
  have "\<exists>j. run_message_op lower (OpSent n1 n2 mid) s = both s (log_event j ?t1)"
    using 1 2 by (simp add: mark_sent_def query_w_def Some thenA_def bindA_def mapE_def) blast
  moreover have "chat_of (log_event j ?t1) = chat_of (st_live s)" for j
    by (simp add: chat_of_def log_event_def upd_outbox_def)
  ultimately show ?thesis using refined_both [of _ "st_fk s" "OpSent n1 n2 mid" s] by auto
qed

lemma refines_edit:
  assumes s: "settled s" "quiet s" and y: "fts_synced (st_live s)"
  shows "refined (st_fk s) (OpEdit n mid x) s (run_message_op lower (OpEdit n mid x) s)"
proof (cases "editable mid (st_live s)")
  case None
  from edit_refused [OF s(1) None, of lower n x] have "run_message_op lower (OpEdit n mid x) s = s" by auto
  moreover have "log_op (st_fk s) (OpEdit n mid x) (chat_of (st_live s)) = chat_of (st_live s)"
    using None by (auto simp: editable_def intro!: log_unchanged [OF synced_keys [OF y]] split: option.splits if_splits)
  ultimately show ?thesis using refined_same [OF s(1)] by metis
next
  case (Some skel)
  show ?thesis
  proof (cases "x = []")
    case True
    then have "run_message_op lower (OpEdit n mid x) s = s" by (simp add: edit_message_def fail_def)
    then show ?thesis using refined_same [OF s(1)] True by simp
  next
    case False
    with edit_eval [OF s Some] have "run_message_op lower (OpEdit n mid x) s = both s (edit_tables lower skel x n (st_live s))"
      by simp
    then show ?thesis using False
      by (simp only:) (rule refined_both, simp add: log_of_edit [OF synced_keys [OF y] Some])
  qed
qed

lemma refines_delete:
  assumes s: "settled s" "quiet s" and y: "fts_synced (st_live s)"
  shows "refined (st_fk s) (OpDelete n mid scope) s (run_message_op lower (OpDelete n mid scope) s)"
proof (cases "\<exists>r. row_of rs_id mid (t_skel (st_live s)) = Some r \<and> sk_body (skel_of_row r) = LocalPlainAvailable")
  case True
  then obtain r where r: "row_of rs_id mid (t_skel (st_live s)) = Some r" "sk_body (skel_of_row r) = LocalPlainAvailable"
    by blast
  then have "body_try_transition (sk_body (skel_of_row r)) (delete_target scope) = Inr (delete_target scope)"
    by (cases scope) (simp_all add: body_legal_iff)
  from delete_eval [OF s r(1) this]
  have "run_message_op lower (OpDelete n mid scope) s = both s (delete_tables (skel_of_row r) scope n (st_live s))" by simp
  then show ?thesis by (simp only:) (rule refined_both, simp add: log_of_delete [OF synced_keys [OF y] r])
next
  case False
  then have "body_try_transition (sk_body (skel_of_row r)) (delete_target scope) \<noteq> Inr b"
    if "row_of rs_id mid (t_skel (st_live s)) = Some r" for r b
    using that by (cases scope) (auto simp: body_legal_iff)
  then have "run_message_op lower (OpDelete n mid scope) s = s"
    using get_skeleton_settled [OF s(1), of mid]
    by (auto simp: delete_inner_def bindA_def fail_def split: option.split sum.split)
  moreover have "log_op (st_fk s) (OpDelete n mid scope) (chat_of (st_live s)) = chat_of (st_live s)"
    using False by (auto intro!: log_unchanged [OF synced_keys [OF y]])
  ultimately show ?thesis using refined_same [OF s(1)] by metis
qed

lemma run_refines:
  assumes "settled s" "quiet s" and "fts_synced (st_live s)"
  shows "refined (st_fk s) oper s (run_message_op lower oper s)"
  using assms refines_conversation refines_ingest refines_send refines_sent refines_edit refines_delete
  by (cases oper) metis+

section \<open>Runs and what they show\<close>

lemma runs_refine:
  assumes "settled s" "quiet s" and "fts_synced (st_live s)"
  shows "settled (fold (run_message_op lower) ops s) \<and> fts_synced (st_live (fold (run_message_op lower) ops s))
    \<and> chat_of (st_live (fold (run_message_op lower) ops s)) = fold (log_op (st_fk s)) ops (chat_of (st_live s))"
  using assms
proof (induction ops arbitrary: s)
  case (Cons oper ops)
  from run_refines [OF Cons.prems, of oper lower] obtain t where
    t: "run_message_op lower oper s = both s t" "chat_of t = log_op (st_fk s) oper (chat_of (st_live s))"
    by (auto simp: refined_def)
  have "fts_synced (st_committed (run_message_op lower oper s))"
    by (rule run_synced) (use Cons.prems in \<open>simp_all add: settled_def\<close>)
  with t(1) have "settled (both s t)" "quiet (both s t)" "fts_synced (st_live (both s t))"
    using Cons.prems by (simp_all add: settled_def)
  from Cons.IH [OF this] t show ?case by simp
qed simp

lemma sort_key_map: "sort_key f (map g xs) = map g (sort_key (\<lambda>x. f (g x)) xs)"
proof -
  have "insort_key f (g x) (map g ys) = map g (insort_key (\<lambda>x. f (g x)) x ys)" for x ys
    by (induction ys) auto
  then show ?thesis by (induction xs) (simp_all add: sort_key_def)
qed

lemma timeline_shown:
  assumes "settled s"
  shows "map_sum id (map tl_id) (fst (fetch_timeline conv limit before s)) = Inr (log_timeline conv limit before (chat_of (st_live s)))"
  using assms
  by (cases before)
    (simp_all add: fetch_timeline_def query_def read_view_settled log_timeline_def chat_of_def filter_map sort_key_map take_map comp_def
      timeline_of_row_def)

lemma find_map: "find P (map f xs) = map_option f (find (\<lambda>x. P (f x)) xs)"
  by (induction xs) auto

lemma body_shown:
  assumes "settled s" and "b_id ` set (t_body (st_live s)) \<subseteq> rs_id ` set (t_skel (st_live s))"
  shows "map_sum id (map_option b_text) (fst (fetch_body mid s)) = Inr (log_body mid (chat_of (st_live s)))"
proof (cases "row_of rs_id mid (t_skel (st_live s))")
  case None
  with assms(2) have "row_of b_id mid (t_body (st_live s)) = None" by (auto simp: row_of_None)
  with None assms(1) show ?thesis
    by (simp add: fetch_body_def query_def read_view_settled log_body_def chat_of_def find_map row_of_def)
next
  case (Some r)
  then have "rs_id r = mid" by (auto dest: row_of_SomeD)
  with Some assms(1) show ?thesis
    by (simp add: fetch_body_def query_def read_view_settled log_body_def chat_of_def find_map row_of_def entry_of_row_def)
qed

section \<open>Faults and crashes\<close>

text \<open>
  Under driver faults an operation on a settled store does all of its work on the committed log when it reports success,
  and nothing when it reports an error: the committed image never shows a part of an operation.
\<close>

lemma chat_cong:
  "t_skel t = t_skel u \<Longrightarrow> t_body t = t_body u \<Longrightarrow> same_convs t u \<Longrightarrow> chat_of t = chat_of u"
  by (simp add: chat_of_def same_convs_def)

definition same_chat :: "tables \<Rightarrow> tables \<Rightarrow> bool" where
  "same_chat t t' \<longleftrightarrow> chat_of t' = chat_of t"

interpretation fixed_chat: table_order same_chat
  by unfold_locales (simp_all add: same_chat_def)

lemma convs_committed:
  assumes "settled s" and "obeys (grows same_convs) m" and "m s = (r, s')"
  shows "same_convs (st_committed s) (st_committed s')"
  using obeys_run [OF assms(2,3)] fixed_convs.stacked_settled [OF assms(1)] by (simp add: grows_def)

lemma chat_of_durable:
  assumes "durable t = durable u" and "same_convs u t"
  shows "chat_of t = chat_of u"
proof (rule chat_cong)
  show "t_skel t = t_skel u" "t_body t = t_body u" using assms(1) by (metis durable_simps(1), metis durable_simps(2))
  show "same_convs t u" using assms(2) by (simp add: same_convs_def)
qed

text \<open>What a savepoint-protected operation commits, given what it does to the log.\<close>

lemma wrapped_chat:
  assumes "durable_body inner spec eff" and "settled s" and "with_savepoint n f inner s = (Inr u, s')"
    and "obeys (grows same_convs) inner" and "same_convs (st_committed s) (eff (st_committed s))"
  shows "chat_of (st_committed s') = chat_of (eff (st_committed s))"
proof (rule chat_of_durable)
  from durable_body.atomic_durable [OF assms(1-3)]
  show "durable (st_committed s') = durable (eff (st_committed s))" by simp
  from convs_committed [OF assms(2) fixed_convs.growing.wrapped [OF assms(4)] assms(3)] assms(5)
  show "same_convs (eff (st_committed s)) (st_committed s')" by (simp add: same_convs_def)
qed

lemma wrapped_fails:
  assumes "durable_body inner spec eff" and "settled s" and "with_savepoint n f inner s = (Inl e, s')"
  shows "st_committed s' = st_committed s"
  using durable_body.atomic_durable [OF assms] by simp

lemma wrapped_inner:
  "with_savepoint n f inner s = (Inr u, s') \<Longrightarrow> \<exists>s1. inner ((tick s)\<lparr>st_saves := (n, st_live s) # st_saves s\<rparr>) = (Inr u, s1)"
  by (auto simp: with_savepoint_def bindA_def thenA_def mapE_def savepoint_def ret_def split: prod.splits sum.splits if_splits)

text \<open>An operation that writes a skeleton succeeds only in a known conversation.\<close>

definition known_conv :: "string \<Rightarrow> store \<Rightarrow> bool" where
  "known_conv c s \<longleftrightarrow> (st_fk s \<longrightarrow> c \<in> rc_id ` set (t_conv (st_live s)))"

definition needs :: "(store \<Rightarrow> bool) \<Rightarrow> ('e, 'a) act \<Rightarrow> bool" where
  "needs P m \<longleftrightarrow> (\<forall>s a s'. m s = (Inr a, s') \<longrightarrow> P s)"

lemma needs_first: "needs P m \<Longrightarrow> needs P (thenA m n)"
  by (auto simp: needs_def thenA_def bindA_def split: prod.splits sum.splits)

lemma needs_after: "needs P n \<Longrightarrow> (\<And>s a s'. m s = (Inr a, s') \<Longrightarrow> P s' \<Longrightarrow> P s) \<Longrightarrow> needs P (thenA m n)"
  by (fastforce simp: needs_def thenA_def bindA_def split: prod.splits sum.splits)

lemma needs_put_skel: "needs (known_conv (rs_conv r)) (mapE f (exec (put_skel r)))"
  by (auto simp: needs_def known_conv_def mapE_def exec_def put_skel_def split: if_splits)

lemma needs_ingest: "needs (known_conv (im_conv msg)) (persist_ingested_message_inner lower n1 n2 msg)"
proof (cases "message_kind_of msg")
  case (Some k)
  have "needs (known_conv (im_conv msg)) (mapE PStorage (exec (put_skel (skel_to_row (ingest_skeleton n1 k msg)))))"
    using needs_put_skel [of "skel_to_row (ingest_skeleton n1 k msg)"] by (simp only: skeleton_rows)
  then show ?thesis
    unfolding persist_ingested_message_inner_def Some option.case Let_def seqA.simps by (rule needs_first)
qed (simp add: persist_ingested_message_inner_def needs_def fail_def)

lemma needs_outbox:
  assumes "oe_text e \<noteq> []"
  shows "needs (known_conv (oe_conv e)) (persist_outbox_entry_inner lower n e)"
proof -
  have "needs (known_conv (oe_conv e)) (mapE PStorage (exec (put_skel (skel_to_row (outbox_skeleton e)))))"
    using needs_put_skel [of "skel_to_row (outbox_skeleton e)"] by (simp only: skeleton_rows)
  moreover have "known_conv c s" if "mapE f (exec (put_outbox q)) s = (Inr a, s')" "known_conv c s'" for f q s a s' c
    using that by (auto simp: known_conv_def mapE_def exec_def put_outbox_def split: if_splits)
  ultimately show ?thesis using assms
    unfolding persist_outbox_entry_inner_def Let_def seqA.simps
    by (intro needs_first needs_after) (auto intro: needs_first)
qed

lemma wrapped_known:
  assumes "needs (known_conv c) inner" and "with_savepoint n f inner s = (Inr u, s')" and "settled s"
  shows "\<not> (st_fk s \<and> c \<notin> rc_id ` set (t_conv (st_committed s)))"
proof -
  have "known_conv c ((tick s)\<lparr>st_saves := (n, st_live s) # st_saves s\<rparr>)"
    using wrapped_inner [OF assms(2)] assms(1) unfolding needs_def by blast
  then show ?thesis using assms(3) by (auto simp: known_conv_def settled_def)
qed

fun succeeds :: "(ustr \<Rightarrow> ustr) \<Rightarrow> message_op \<Rightarrow> store \<Rightarrow> bool" where
  "succeeds lower (OpConversation c) s \<longleftrightarrow> \<not> isl (fst (insert_conversation c s))"
| "succeeds lower (OpIngest n1 n2 msg) s \<longleftrightarrow> \<not> isl (fst (persist_ingested_message lower n1 n2 msg s))"
| "succeeds lower (OpSend n e) s \<longleftrightarrow> \<not> isl (fst (persist_outbox_entry lower n e s))"
| "succeeds lower (OpSent n1 n2 mid) s \<longleftrightarrow> \<not> isl (fst (mark_sent n1 n2 mid s))"
| "succeeds lower (OpEdit n mid x) s \<longleftrightarrow> \<not> isl (fst (edit_message lower n mid x s))"
| "succeeds lower (OpDelete n mid scope) s \<longleftrightarrow> \<not> isl (fst (delete_inner n mid scope s))"

definition atomic_on :: "bool \<Rightarrow> message_op \<Rightarrow> store \<Rightarrow> store \<Rightarrow> bool" where
  "atomic_on ok oper s s' \<longleftrightarrow> chat_of (st_committed s')
     = (if ok then log_op (st_fk s) oper (chat_of (st_committed s)) else chat_of (st_committed s))"

abbreviation atomic_op :: "(ustr \<Rightarrow> ustr) \<Rightarrow> message_op \<Rightarrow> store \<Rightarrow> bool" where
  "atomic_op lower oper s \<equiv> atomic_on (succeeds lower oper s) oper s (run_message_op lower oper s)"

lemma atomic_failed: "st_committed s' = st_committed s \<Longrightarrow> atomic_on False oper s s'"
  by (simp add: atomic_on_def)

lemma atomic_ingest:
  assumes s: "settled s" and y: "fts_synced (st_committed s)"
  shows "atomic_op lower (OpIngest n1 n2 msg) s"
proof (cases "validate_ingest msg = Inr () \<and> im_id msg \<notin> rs_id ` set (t_skel (st_committed s))")
  case False
  then have "\<exists>e. persist_ingested_message lower n1 n2 msg s = (Inl e, s)"
    using s by (auto simp: persist_ingested_message_def bindA_def fail_def skeleton_exists_settled [OF s] settled_def split: sum.split)
  then show ?thesis by (auto simp: atomic_failed)
next
  case True
  obtain r s' where w: "with_savepoint ''persist_ingest'' PStorage (persist_ingested_message_inner lower n1 n2 msg) s = (r, s')"
    by fastforce
  with True s have s': "persist_ingested_message lower n1 n2 msg s = (r, s')"
    by (simp add: persist_ingested_message_def bindA_def skeleton_exists_settled [OF s]) (simp add: settled_def)
  show ?thesis
  proof (cases r)
    case (Inl e)
    with wrapped_fails [OF ingest.durable_body_axioms s] w s' show ?thesis by (auto intro: atomic_failed)
  next
    case (Inr u)
    have "same_convs (st_committed s) (ingest_tables lower n1 n2 msg (st_committed s))" by (simp add: same_convs_def conv_ids)
    from wrapped_chat [OF ingest.durable_body_axioms s w [unfolded Inr] conv_keeping.message_bodies(1) this]
    have "chat_of (st_committed s') = chat_of (ingest_tables lower n1 n2 msg (st_committed s))" .
    then have "atomic_on True (OpIngest n1 n2 msg) s s'" using True wrapped_known [OF needs_ingest w [unfolded Inr] s]
      by (simp only: atomic_on_def) (simp add: log_of_ingest synced_owners [OF y] log_add_def chat_ids chat_convs new_entry_def)
    then show ?thesis by (simp add: s' Inr)
  qed
qed

lemma atomic_send:
  assumes s: "settled s"
  shows "atomic_op lower (OpSend n e) s"
proof (cases "oe_id e \<in> rs_id ` set (t_skel (st_committed s)) \<or> oe_text e = [] \<and> oe_media e = None")
  case True
  then have "\<exists>x. persist_outbox_entry lower n e s = (Inl x, s)"
    using s by (auto simp: persist_outbox_entry_def bindA_def fail_def skeleton_exists_settled [OF s] settled_def)
  then show ?thesis by (auto simp: atomic_failed)
next
  case False
  obtain r s' where w: "with_savepoint ''persist_outbox'' PStorage (persist_outbox_entry_inner lower n e) s = (r, s')"
    by fastforce
  from False s have new: "oe_id e \<notin> rs_id ` set (t_skel (st_live s))" by (simp add: settled_def)
  have s': "persist_outbox_entry lower n e s = (map_sum id (\<lambda>_. oe_id e) r, s')"
    using False new w by (cases r)
      (auto simp: persist_outbox_entry_def bindA_def thenA_def ret_def skeleton_exists_settled [OF s])
  show ?thesis
  proof (cases r)
    case (Inl x)
    with wrapped_fails [OF outbox.durable_body_axioms s] w s' show ?thesis by (auto intro: atomic_failed)
  next
    case (Inr u)
    have "same_convs (st_committed s) (outbox_tables lower n e (st_committed s))" by (simp add: same_convs_def conv_ids)
    from wrapped_chat [OF outbox.durable_body_axioms s w [unfolded Inr] conv_keeping.message_bodies(2) this]
    have c: "chat_of (st_committed s') = chat_of (outbox_tables lower n e (st_committed s))" .
    have "atomic_on True (OpSend n e) s s'"
    proof (cases "oe_text e = []")
      case True
      then have "chat_of (outbox_tables lower n e (st_committed s)) = chat_of (st_committed s)"
        by (simp add: outbox_tables_def chat_of_def)
      with c True show ?thesis by (simp add: atomic_on_def)
    next
      case full: False
      show ?thesis using False full c wrapped_known [OF needs_outbox [OF full] w [unfolded Inr] s]
        by (simp only: atomic_on_def) (simp add: log_of_outbox log_add_def chat_ids chat_convs new_entry_def)
    qed
    then show ?thesis by (simp add: s' Inr)
  qed
qed

lemma atomic_edit:
  assumes s: "settled s" and y: "fts_synced (st_committed s)"
  shows "atomic_op lower (OpEdit n mid x) s"
proof (cases "x = [] \<or> editable mid (st_committed s) = None")
  case True
  then have "\<exists>e. edit_message lower n mid x s = (Inl e, s)"
    using s edit_refused [OF s, of mid lower n x] by (auto simp: edit_message_def fail_def settled_def)
  then show ?thesis by (auto simp: atomic_failed)
next
  case False
  then obtain skel where e: "editable mid (st_committed s) = Some skel" and x: "x \<noteq> []" by auto
  obtain r s' where w: "with_savepoint ''edit_message'' PStorage (edit_message_inner lower skel x n) s = (r, s')"
    by fastforce
  have s': "edit_message lower n mid x s = (r, s')"
    using e x s get_skeleton_settled [OF s, of mid] w
    by (auto simp: edit_message_def editable_def bindA_def settled_def split: option.splits if_splits)
  show ?thesis
  proof (cases r)
    case (Inl q)
    with wrapped_fails [OF edit.durable_body_axioms s] w s' show ?thesis by (auto intro: atomic_failed)
  next
    case (Inr u)
    have "same_convs (st_committed s) (edit_tables lower skel x n (st_committed s))" by (simp add: same_convs_def conv_ids)
    from wrapped_chat [OF edit.durable_body_axioms s w [unfolded Inr] conv_keeping.message_bodies(3) this] x
    have "atomic_on True (OpEdit n mid x) s s'" unfolding atomic_on_def by (simp add: log_of_edit [OF synced_keys [OF y] e])
    then show ?thesis by (simp add: s' Inr)
  qed
qed

lemma atomic_delete:
  assumes s: "settled s" and y: "fts_synced (st_committed s)"
  shows "atomic_op lower (OpDelete n mid scope) s"
proof (cases "\<exists>r. row_of rs_id mid (t_skel (st_committed s)) = Some r \<and> sk_body (skel_of_row r) = LocalPlainAvailable")
  case False
  then have "body_try_transition (sk_body (skel_of_row r)) (delete_target scope) \<noteq> Inr b"
    if "row_of rs_id mid (t_skel (st_committed s)) = Some r" for r b
    using that by (cases scope) (auto simp: body_legal_iff)
  then have "\<exists>e. delete_inner n mid scope s = (Inl e, s)"
    using s get_skeleton_settled [OF s, of mid]
    by (auto simp: delete_inner_def bindA_def fail_def settled_def split: option.split sum.split)
  then show ?thesis by (auto simp: atomic_failed)
next
  case True
  then obtain k where k: "row_of rs_id mid (t_skel (st_committed s)) = Some k" "sk_body (skel_of_row k) = LocalPlainAvailable"
    by blast
  then have t: "body_try_transition (sk_body (skel_of_row k)) (delete_target scope) = Inr (delete_target scope)"
    by (cases scope) (simp_all add: body_legal_iff)
  obtain r s' where w: "with_savepoint ''delete_message'' PStorage
      (delete_inner_tx (skel_of_row k) scope (delete_target scope) n) s = (r, s')" by fastforce
  have s': "delete_inner n mid scope s = (r, s')"
    using k(1) t s get_skeleton_settled [OF s, of mid] w by (simp add: delete_inner_def bindA_def settled_def)
  show ?thesis
  proof (cases r)
    case (Inl q)
    with wrapped_fails [OF delete.durable_body_axioms s] w s' show ?thesis by (auto intro: atomic_failed)
  next
    case (Inr u)
    have "same_convs (st_committed s) (delete_tables (skel_of_row k) scope n (st_committed s))"
      by (simp add: same_convs_def conv_ids)
    from wrapped_chat [OF delete.durable_body_axioms s w [unfolded Inr] conv_keeping.message_bodies(4) this]
    have "atomic_on True (OpDelete n mid scope) s s'" unfolding atomic_on_def by (simp add: log_of_delete [OF synced_keys [OF y] k])
    then show ?thesis by (simp add: s' Inr)
  qed
qed

text \<open>The two operations that are single statements.\<close>

lemma atomic_sent:
  assumes "settled s"
  shows "atomic_op lower (OpSent n1 n2 mid) s"
proof -
  have "raises same_chat (pureT (upd_outbox mid (set_sent n1)))" "raises same_chat (add_journal j)" for j
    by (auto simp: raises_def pureT_def add_journal_def upd_outbox_def same_chat_def chat_of_def)
  then have "obeys (grows same_chat) (mark_sent n1 n2 mid)"
    unfolding mark_sent_def by (auto intro!: fixed_chat.growing.store_acts split: option.split)
  from obeys_snd [OF this, of s] fixed_chat.stacked_settled [OF assms] show ?thesis
    by (simp add: grows_def same_chat_def atomic_on_def)
qed

lemma atomic_conversation:
  assumes "settled s"
  shows "atomic_op lower (OpConversation c) s"
proof -
  obtain q s' where e: "exec (put_conv (conv_to_row c)) s = (q, s')" by fastforce
  have "st_committed s' = (if isl q then st_committed s
      else (st_committed s)\<lparr>t_conv := upsert rc_id (conv_to_row c) (t_conv (st_committed s))\<rparr>)"
    using e assms by (auto simp: exec_def put_conv_def settle_def tick_def settled_def split: if_splits)
  moreover have "insert_conversation c s = (map_sum Sqlite id q, s')"
    by (simp add: insert_conversation_def db_exec_def mapE_def e split: sum.split)
  moreover have "isl (map_sum Sqlite id q) = isl q" by (cases q) simp_all
  ultimately show ?thesis by (simp add: atomic_on_def chat_of_def image_upsert_key)
qed

lemma run_atomic:
  assumes "settled s" and "fts_synced (st_committed s)"
  shows "atomic_op lower oper s"
  using assms atomic_conversation atomic_ingest atomic_send atomic_sent atomic_edit atomic_delete
  by (cases oper) metis+

lemma message_fk: "st_fk (run_message_op lower oper s) = st_fk s"
  using fk_keeping.message_op_in [of s lower oper] by (simp add: same_fk_def)

section \<open>Property\<close>

text \<open>
  C6: the message pipeline refines the chat log: after any sequence of conversations, ingests, sends, acknowledgements,
  edits and deletions on a new database, the timeline of every conversation, at every limit and cursor, and the body of
  every message are those of the log that the abstract operations build from the same sequence.
\<close>

theorem pipeline_refines_chat_log:
  assumes "settled s" and "quiet s" and "st_live s = empty_tables"
    and "s' = fold (run_message_op lower) ops s" and "L = fold (log_op (st_fk s)) ops empty_log"
  shows "map_sum id (map tl_id) (fst (fetch_timeline conv limit before s')) = Inr (log_timeline conv limit before L)
    \<and> map_sum id (map_option b_text) (fst (fetch_body mid s')) = Inr (log_body mid L)"
proof -
  have "chat_of empty_tables = empty_log" by (simp add: chat_of_def empty_log_def empty_tables_def)
  with runs_refine [OF assms(1,2), of lower ops] assms(3) empty_synced
  have s': "settled s'" "chat_of (st_live s') = L" "fts_synced (st_live s')" by (simp_all add: assms(4,5))
  from timeline_shown [OF s'(1)] body_shown [OF s'(1) synced_owners [OF s'(3)]] show ?thesis by (simp add: s'(2))
qed

definition sample_ops :: "message_op list" where
  "sample_ops =
     [OpConversation \<lparr>c_id = ''c1'', c_title_cipher = None, c_pinned = False, c_muted = False, c_last_message_id = None, c_last_activity_ms = 0,
        c_type = ''direct'', c_scope = ''s'', c_tenant = ''t'', c_community = '''', c_domain = ''''\<rparr>,
      OpIngest 1 2 (sample_message ''m1''), OpIngest 3 4 (sample_message ''m2''), OpIngest 5 6 (sample_message ''m1''),
      OpEdit 7 ''m1'' (lit ''edited''), OpDelete 8 ''m2'' ForMe]"

theorem pipeline_refines_chat_log_witness:
  "map_sum id (map tl_id) (fst (fetch_timeline ''c1'' 10 None (fold (run_message_op id) sample_ops (open_db True)))) = Inr [''m1'']
   \<and> map_sum id (map_option b_text) (fst (fetch_body ''m1'' (fold (run_message_op id) sample_ops (open_db True))))
     = Inr (Some (Some (lit ''edited'')))"
proof -
  let ?L = "fold (log_op (st_fk (open_db True))) sample_ops empty_log"
  have L: "log_timeline ''c1'' 10 None ?L = [''m1'']" "log_body ''m1'' ?L = Some (Some (lit ''edited''))"
    by (simp_all add: sample_ops_def empty_log_def sample_message_def validate_ingest_def new_entry_def log_add_def log_change_def
        open_db_def fresh_store_def log_timeline_def log_body_def lit_def)
  from pipeline_refines_chat_log [where s = "open_db True" and lower = id and ops = sample_ops and conv = "''c1''" and limit = 10
      and before = None and mid = "''m1''", OF open_facts(1,2,5) refl refl] show ?thesis
    by (simp only: L)
qed

text \<open>
  Runs under faults and crashes: the operations that were called, in order, each with whether it found no savepoint open and
  whether it reported success, and the store they left. A rollback that fails leaves its savepoint open until a crash or a
  reopening.
\<close>

inductive crash_run :: "(ustr \<Rightarrow> ustr) \<Rightarrow> (message_op \<times> bool \<times> bool) list \<Rightarrow> store \<Rightarrow> bool" for lower where
  start: "st_live s = empty_tables \<Longrightarrow> settled s \<Longrightarrow> crash_run lower [] s"
| op: "crash_run lower calls s \<Longrightarrow>
    crash_run lower (calls @ [(oper, st_saves s = [], succeeds lower oper (s\<lparr>st_faults := fs\<rparr>))])
      (run_message_op lower oper (s\<lparr>st_faults := fs\<rparr>))"
| crash: "crash_run lower calls s \<Longrightarrow> crash_run lower calls (reopen s)"

text \<open>The operations that took effect: called with no savepoint open, and successful.\<close>

definition effective :: "(message_op \<times> bool \<times> bool) list \<Rightarrow> message_op list" where
  "effective calls = map fst (filter (\<lambda>(_, free, ok). free \<and> ok) calls)"

lemma effective_snoc:
  "effective (calls @ [(oper, free, ok)]) = effective calls @ (if free \<and> ok then [oper] else [])"
  by (simp add: effective_def)

lemma crash_run_synced: "crash_run lower calls s \<Longrightarrow> aligned s \<and> fts_synced (st_committed s)"
proof (induction rule: crash_run.induct)
  case (op calls s oper fs)
  then show ?case by (simp add: message_aligned op_synced)
qed (simp_all add: settled_def empty_synced reopen_def aligned_def)

text \<open>
  C2: under faults and crashes the pipeline still refines the chat log: whatever statements fail, the rollback's included,
  and wherever the process crashes, the committed log is the one that exactly the operations build that reported success and
  found no savepoint open when they were called, each done entirely and in the order of the calls. Nothing of an operation
  that reported an error is ever committed; of those that reported success, the ones called between a rollback that failed
  and the next reopening are lost.
\<close>

theorem crashes_refine_chat_log:
  assumes "crash_run lower calls s"
  shows "chat_of (st_committed s) = fold (log_op (st_fk s)) (effective calls) empty_log"
  using assms
proof (induction rule: crash_run.induct)
  case (start s)
  then show ?case by (auto simp: settled_def chat_of_def empty_log_def empty_tables_def effective_def)
next
  case (op calls s oper fs)
  let ?s = "s\<lparr>st_faults := fs\<rparr>"
  from crash_run_synced [OF op.hyps] have a: "aligned s" "fts_synced (st_committed s)" by simp_all
  show ?case
  proof (cases "st_saves s = []")
    case True
    with a have "settled ?s" "fts_synced (st_committed ?s)" by (simp_all add: aligned_def settled_def)
    from run_atomic [OF this, of lower oper] op.IH True show ?thesis
      by (simp add: atomic_on_def message_fk effective_snoc)
  next
    case False
    with stuck_op [of ?s lower oper] op.IH show ?thesis by (simp add: stuck_def message_fk effective_snoc)
  qed
next
  case (crash calls s)
  then show ?case by (simp add: reopen_def)
qed

text \<open>The first ingest fails at its third statement and rolls back; the process crashes; the second one succeeds.\<close>

definition crashed_store :: store where
  "crashed_store = reopen (run_message_op id (OpIngest 1 2 (sample_message ''m1'')) ((open_db False)\<lparr>st_faults := [False, False, True]\<rparr>))"

lemma failed_ingest:
  "persist_ingested_message id 1 2 (sample_message ''m1'') ((open_db False)\<lparr>st_faults := [False, False, True]\<rparr>)
      = (Inl (db_sql DriverFailure), open_db False)"
    by (simp add: persist_ingested_message_def sample_message_def validate_ingest_def skeleton_exists_def query_def read_view_def
      bindA_def thenA_def mapE_def with_savepoint_def savepoint_def persist_ingested_message_inner_def message_kind_of_def Let_def exec_def
      next_fault_def tick_def rollback_to_def release_def pop_saves_def settle_def open_db_def fresh_store_def empty_tables_def
      read_pool_size_def lit_def put_skel_def put_body_def forA_def ret_def)

lemma crashed_store_eq: "crashed_store = open_db False"
  by (simp add: crashed_store_def failed_ingest reopen_def) (simp add: open_db_def fresh_store_def)

lemma retried_run:
  "crash_run id [(OpIngest 1 2 (sample_message ''m1''), True, False), (OpIngest 3 4 (sample_message ''m1''), True, True)]
     (run_message_op id (OpIngest 3 4 (sample_message ''m1'')) (crashed_store\<lparr>st_faults := []\<rparr>))"
proof -
  let ?o1 = "OpIngest 1 2 (sample_message ''m1'')" and ?o2 = "OpIngest 3 4 (sample_message ''m1'')"
  have s: "settled (crashed_store\<lparr>st_faults := []\<rparr>)" "quiet (crashed_store\<lparr>st_faults := []\<rparr>)"
    by (simp_all add: crashed_store_eq settled_def quiet_def open_db_def fresh_store_def)
  have ok: "succeeds id ?o2 (crashed_store\<lparr>st_faults := []\<rparr>)"
    unfolding succeeds.simps ingest_eval [OF s]
    by (simp add: crashed_store_eq sample_message_def validate_ingest_def open_db_def fresh_store_def empty_tables_def lit_def)
  have "crash_run id ([] @ [(?o1, st_saves (open_db False) = [], succeeds id ?o1 ((open_db False)\<lparr>st_faults := [False, False, True]\<rparr>))])
      (run_message_op id ?o1 ((open_db False)\<lparr>st_faults := [False, False, True]\<rparr>))"
    by (rule crash_run.op [OF crash_run.start]) (simp_all add: open_db_def fresh_store_def settled_def)
  moreover have "st_saves (open_db False) = []" "st_saves crashed_store = []"
    by (simp_all add: crashed_store_eq open_db_def fresh_store_def)
  ultimately have "crash_run id [(?o1, True, False)] crashed_store"
    using crash_run.crash by (simp add: failed_ingest crashed_store_def)
  from crash_run.op [OF this, of ?o2 "[]"] \<open>st_saves crashed_store = []\<close> show ?thesis
    unfolding eqTrueI [OF ok] by simp
qed

theorem crashes_refine_chat_log_witness:
  "map lg_id (cl_entries (chat_of (st_committed
     (run_message_op id (OpIngest 3 4 (sample_message ''m1'')) (crashed_store\<lparr>st_faults := []\<rparr>))))) = [''m1'']"
proof -
  have fk: "st_fk (run_message_op id (OpIngest 3 4 (sample_message ''m1'')) (crashed_store\<lparr>st_faults := []\<rparr>)) = False"
    unfolding message_fk by (simp add: crashed_store_eq open_db_def fresh_store_def)
  show ?thesis unfolding crashes_refine_chat_log [OF retried_run] fk
    by (simp add: effective_def empty_log_def sample_message_def validate_ingest_def new_entry_def log_add_def lit_def)
qed

end
