(* ===== verification/Deletion.thy ===== *)
theory Deletion
  imports MessageProps
begin

text \<open>
  What a deletion promises: a message that was deleted stays out of both search indexes and stays immutable in every later
  run of the message pipeline, under any driver faults and crashes. Being deleted is an order on tables in the sense of
  theory \<open>StoreRelation\<close>, which the statements of operations on other messages go up in; operations on the deleted message
  are refused before they write.
\<close>

section \<open>Deleted and unindexed\<close>

definition unindexed :: "string \<Rightarrow> tables \<Rightarrow> bool" where
  "unindexed mid t \<longleftrightarrow> mid \<notin> f_id ` set (t_fts t) \<and> mid \<notin> (snd \<circ> snd) ` set (t_fuzzy t)"

text \<open>The tombstone: the body is gone when the deletion was for everyone.\<close>

definition tombstone :: "string \<Rightarrow> tables \<Rightarrow> bool" where
  "tombstone mid t \<longleftrightarrow> (case row_of rs_id mid (t_skel t) of
       None \<Rightarrow> False
     | Some r \<Rightarrow> (case sk_body (skel_of_row r) of
           DeletedForMe \<Rightarrow> True
         | DeletedForEveryone \<Rightarrow> mid \<notin> b_id ` set (t_body t)
         | _ \<Rightarrow> False))"

definition erased :: "string \<Rightarrow> tables \<Rightarrow> bool" where
  "erased mid t \<longleftrightarrow> unindexed mid t \<and> tombstone mid t"

definition erased_lasts :: "string \<Rightarrow> tables \<Rightarrow> tables \<Rightarrow> bool" where
  "erased_lasts mid t t' \<longleftrightarrow> (erased mid t \<longrightarrow> erased mid t')"

interpretation lasting_erasure: table_order "erased_lasts mid" for mid
  by unfold_locales (simp_all add: erased_lasts_def)

section \<open>Statements of operations on other messages\<close>

lemma tombstone_cong:
  "row_of rs_id mid (t_skel t') = row_of rs_id mid (t_skel t) \<Longrightarrow>
   (mid \<in> b_id ` set (t_body t') \<Longrightarrow> mid \<in> b_id ` set (t_body t)) \<Longrightarrow> tombstone mid t \<Longrightarrow> tombstone mid t'"
  by (auto simp: tombstone_def split: option.splits body_state.splits)

lemma erasedI:
  assumes "f_id ` set (t_fts t') \<subseteq> insert x (f_id ` set (t_fts t))" and "x \<noteq> mid"
    and "(snd \<circ> snd) ` set (t_fuzzy t') \<subseteq> insert x ((snd \<circ> snd) ` set (t_fuzzy t))"
    and "row_of rs_id mid (t_skel t') = row_of rs_id mid (t_skel t)"
    and "b_id ` set (t_body t') \<subseteq> insert x (b_id ` set (t_body t))"
  shows "erased_lasts mid t t'"
proof -
  have "mid \<in> b_id ` set (t_body t') \<Longrightarrow> mid \<in> b_id ` set (t_body t)" using assms(2,5) by blast
  with assms(1-4) tombstone_cong [OF assms(4)] show ?thesis
    unfolding erased_lasts_def erased_def unindexed_def by blast
qed

lemma row_of_update_other:
  "k \<noteq> mid \<Longrightarrow> (\<And>r. rs_id (f r) = rs_id r) \<Longrightarrow> row_of rs_id mid (update_where (\<lambda>r. rs_id r = k) f rs) = row_of rs_id mid rs"
  by (cases "row_of rs_id mid rs") (auto simp: row_of_update dest: row_of_SomeD)

text \<open>Statements that touch neither the deleted message's index rows nor its skeleton.\<close>

lemma raises_other:
  assumes "k \<noteq> mid"
  shows "rs_id b = k \<Longrightarrow> raises (erased_lasts mid) (put_skel b)"
    "b_id c = k \<Longrightarrow> raises (erased_lasts mid) (put_body c)"
    "f_id f = k \<Longrightarrow> raises (erased_lasts mid) (add_fts f)"
    "raises (erased_lasts mid) (pureT (add_fuzzy (g, sc, k)))"
    "(\<And>r. rs_id (f2 r) = rs_id r) \<Longrightarrow> raises (erased_lasts mid) (pureT (upd_skel k f2))"
  using assms
  by (auto simp: raises_def write_defs pureT_def set_upsert row_of_upsert row_of_update_other image_iff
      intro!: erasedI [of _ k] split: if_splits)

lemma raises_any:
  "raises (erased_lasts mid) (put_media d)" "raises (erased_lasts mid) (put_outbox e)"
  "raises (erased_lasts mid) (add_journal h)" "raises (erased_lasts mid) (pureT (upd_conv c f1))"
  "(\<And>r. b_id (f3 r) = b_id r) \<Longrightarrow> raises (erased_lasts mid) (pureT (upd_body k f3))"
  "raises (erased_lasts mid) (pureT (upd_outbox k f5))" "raises (erased_lasts mid) (pureT (del_fts k))"
  "raises (erased_lasts mid) (pureT (del_fuzzy k))" "raises (erased_lasts mid) (pureT (del_body k))"
  "raises (erased_lasts mid) (put_conv a)"
proof -
  have other: "(CHR ''x'' # mid) \<noteq> mid" by simp
  show "raises (erased_lasts mid) (put_media d)" "raises (erased_lasts mid) (put_outbox e)"
    "raises (erased_lasts mid) (add_journal h)" "raises (erased_lasts mid) (pureT (upd_conv c f1))"
    "(\<And>r. b_id (f3 r) = b_id r) \<Longrightarrow> raises (erased_lasts mid) (pureT (upd_body k f3))"
    "raises (erased_lasts mid) (pureT (upd_outbox k f5))" "raises (erased_lasts mid) (pureT (del_fts k))"
    "raises (erased_lasts mid) (pureT (del_fuzzy k))" "raises (erased_lasts mid) (pureT (del_body k))"
    "raises (erased_lasts mid) (put_conv a)"
    by (auto simp: raises_def write_defs pureT_def image_update image_subset_iff
        intro!: erasedI [OF _ other] split: if_splits) (auto simp: set_update_where)
qed

lemmas erasure_acts = lasting_erasure.growing.store_acts raises_other raises_any

lemma erasing_fuzzy: "k \<noteq> mid \<Longrightarrow> obeys (grows (erased_lasts mid)) (index_fuzzy_grams lower k x)"
  unfolding index_fuzzy_grams_def by (auto intro!: erasure_acts)

lemma erasing_bodies:
  "im_id msg \<noteq> mid \<Longrightarrow> obeys (grows (erased_lasts mid)) (persist_ingested_message_inner lower n1 n2 msg)"
  "oe_id e \<noteq> mid \<Longrightarrow> obeys (grows (erased_lasts mid)) (persist_outbox_entry_inner lower n e)"
  "sk_id skel \<noteq> mid \<Longrightarrow> obeys (grows (erased_lasts mid)) (edit_message_inner lower skel x n)"
  "sk_id skel \<noteq> mid \<Longrightarrow> obeys (grows (erased_lasts mid)) (delete_inner_tx skel scope target n)"
  unfolding persist_ingested_message_inner_def persist_outbox_entry_inner_def edit_message_inner_def
    delete_inner_tx_def insert_fts_row_def Let_def
  by (auto intro!: erasure_acts erasing_fuzzy simp: ingest_skeleton_def outbox_skeleton_def skel_to_row_def plain_body_def
      set_deleted_def split: option.split)

section \<open>Operations\<close>

lemma erasing_wrapped: "obeys (grows (erased_lasts mid)) inner \<Longrightarrow> grows (erased_lasts mid) s (snd (with_savepoint n f inner s))"
  using lasting_erasure.growing.wrapped [of mid inner n f] by (rule obeys_snd)

lemma erasing_here: "grows (erased_lasts mid) s s"
  by (simp add: grows_def erased_lasts_def)

text \<open>The operations that would write rows of a message; an acknowledgement only touches the outbox.\<close>

fun concerns :: "string \<Rightarrow> message_op \<Rightarrow> bool" where
  "concerns mid (OpIngest n1 n2 msg) \<longleftrightarrow> im_id msg = mid"
| "concerns mid (OpSend n e) \<longleftrightarrow> oe_id e = mid"
| "concerns mid (OpEdit n k x) \<longleftrightarrow> k = mid"
| "concerns mid (OpDelete n k scope) \<longleftrightarrow> k = mid"
| "concerns mid (OpConversation c) \<longleftrightarrow> False"
| "concerns mid (OpSent n1 n2 k) \<longleftrightarrow> False"

text \<open>On another message an operation keeps the deleted one erased.\<close>

lemma other_operation:
  assumes "\<not> concerns mid oper"
  shows "grows (erased_lasts mid) s (run_message_op lower oper s)"
proof (cases oper)
  case (OpConversation c)
  then show ?thesis by (auto simp: insert_conversation_def db_exec_def intro!: obeys_snd erasure_acts)
next
  case (OpIngest n1 n2 msg)
  with assms erasing_wrapped [OF erasing_bodies(1)] show ?thesis
    by (simp add: persist_ingested_message_def skeleton_exists_def bindA_def query_def fail_def erasing_here split: sum.split)
next
  case (OpSend n e)
  with assms erasing_wrapped [OF erasing_bodies(2)] show ?thesis
    by (simp add: persist_outbox_entry_def skeleton_exists_def bindA_def query_def fail_def erasing_here snd_bind_ret)
next
  case (OpSent n1 n2 k)
  have "obeys (grows (erased_lasts mid)) (mark_sent n1 n2 k)"
    unfolding mark_sent_def by (auto intro!: erasure_acts split: option.split)
  then show ?thesis by (simp add: OpSent obeys_snd)
next
  case (OpEdit n k x)
  have "sk_id (skel_of_row r) \<noteq> mid" if "row_of rs_id k (t_skel (read_view s)) = Some r" for r
    using that assms OpEdit by (auto dest: row_of_SomeD)
  with OpEdit erasing_wrapped [OF erasing_bodies(3)] show ?thesis
    by (auto simp: edit_message_def get_message_skeleton_def fetch_skeleton_def mapE_def bindA_def query_def fail_def erasing_here
        split: option.split)
next
  case (OpDelete n k scope)
  have "sk_id (skel_of_row r) \<noteq> mid" if "row_of rs_id k (t_skel (read_view s)) = Some r" for r
    using that assms OpDelete by (auto dest: row_of_SomeD)
  with OpDelete erasing_wrapped [OF erasing_bodies(4)] show ?thesis
    by (auto simp: delete_inner_def get_message_skeleton_def fetch_skeleton_def mapE_def bindA_def query_def fail_def erasing_here
        split: option.split sum.split)
qed

text \<open>On the deleted message the operations are refused and change nothing.\<close>

lemma tombstone_row:
  "tombstone mid t \<Longrightarrow> \<exists>r scope. row_of rs_id mid (t_skel t) = Some r \<and> sk_body (skel_of_row r) = delete_target scope"
  by (auto simp: tombstone_def split: option.splits body_state.splits intro: exI [of _ ForMe] exI [of _ ForEveryone])

lemma refused:
  assumes "tombstone mid (read_view s)"
  shows "\<exists>e. edit_message lower n mid x s = (Inl (InvalidMessage e), s)"
    "\<exists>e. delete_inner n mid scope s = (Inl (IllegalTransition e), s)"
    "skeleton_exists mid s = (Inr True, s)"
proof -
  from tombstone_row [OF assms] obtain r sc where
    r: "row_of rs_id mid (t_skel (read_view s)) = Some r" "sk_body (skel_of_row r) = delete_target sc" by blast
  have "\<exists>e. body_try_transition (delete_target sc) (delete_target scope) = Inl e"
    by (cases sc; cases scope) (simp_all add: body_try_transition_def)
  with r show "\<exists>e. delete_inner n mid scope s = (Inl (IllegalTransition e), s)"
    by (auto simp: delete_inner_def get_message_skeleton_def fetch_skeleton_def mapE_def bindA_def query_def fail_def)
  have "delete_target sc \<noteq> LocalPlainAvailable" by (cases sc) simp_all
  with r show "\<exists>e. edit_message lower n mid x s = (Inl (InvalidMessage e), s)"
    by (auto simp: edit_message_def get_message_skeleton_def fetch_skeleton_def mapE_def bindA_def query_def fail_def)
  from r(1) show "skeleton_exists mid s = (Inr True, s)"
    by (auto simp: skeleton_exists_def query_def list_ex_iff dest: row_of_SomeD)
qed

definition erased_all :: "string \<Rightarrow> store \<Rightarrow> bool" where
  "erased_all mid s \<longleftrightarrow> stacked (erased_lasts mid) s \<and> erased mid (st_committed s)"

lemma erased_everywhere: "erased_all mid s \<Longrightarrow> erased mid (st_live s) \<and> erased mid (st_committed s) \<and> erased mid (read_view s)"
  by (auto simp: erased_all_def stacked_def erased_lasts_def read_view_def)

lemma erased_op:
  assumes "erased_all mid s"
  shows "erased_all mid (run_message_op lower oper s)"
proof (cases "concerns mid oper")
  case True
  have t: "tombstone mid (read_view s)" using erased_everywhere [OF assms] by (simp add: erased_def)
  have "run_message_op lower oper s = s"
  proof (cases oper)
    case (OpEdit n k x)
    with True refused(1) [OF t, of lower n x] show ?thesis by auto
  next
    case (OpDelete n k scope)
    with True refused(2) [OF t, of n scope] show ?thesis by auto
  qed (use True refused(3) [OF t] in
      \<open>simp_all add: persist_ingested_message_def persist_outbox_entry_def bindA_def fail_def split: sum.split\<close>)
  with assms show ?thesis by simp
next
  case False
  from other_operation [OF this] assms show ?thesis by (simp add: erased_all_def grows_def erased_lasts_def)
qed

lemma erased_run: "message_run lower s s' \<Longrightarrow> erased_all mid s \<Longrightarrow> erased_all mid s'"
proof (induction rule: message_run.induct)
  case (op s1 oper fs)
  then have "erased_all mid (s1\<lparr>st_faults := fs\<rparr>)" by (simp add: erased_all_def stacked_def)
  then show ?case by (rule erased_op)
qed (simp_all add: erased_all_def stacked_def reopen_def erased_lasts_def)

section \<open>Property\<close>

text \<open>
  C12: a deleted message is out of both search indexes and stays so: on a store with no savepoint open and without a driver
  fault, the delete removes its full-text and fuzzy rows, removes the body exactly for the scope \<open>for_everyone\<close>, and leaves
  the tombstone state of its scope on the skeleton. After any later run of the message pipeline, with any statements
  failing and crashes at any point, neither the live nor the committed tables hold an index row of the message, and every
  further edit or delete of it is refused and changes nothing.
\<close>

theorem delete_unsearchable:
  assumes "settled s" and "quiet s" and "row_of rs_id mid (t_skel (st_live s)) = Some r"
    and "body_try_transition (sk_body (skel_of_row r)) (delete_target scope) = Inr b"
  shows "\<exists>s'. delete_inner now mid scope s = (Inr (), s')
    \<and> unindexed mid (st_committed s')
    \<and> row_of b_id mid (t_body (st_committed s')) =
        (if scope = ForEveryone then None else row_of b_id mid (t_body (st_live s)))
    \<and> row_of rs_id mid (t_skel (st_committed s')) = Some (set_deleted now (delete_target scope) r)
    \<and> (\<forall>s2. message_run lower s' s2 \<longrightarrow> unindexed mid (st_live s2) \<and> unindexed mid (st_committed s2)
        \<and> (\<exists>e. edit_message lower now2 mid x s2 = (Inl (InvalidMessage e), s2))
        \<and> (\<exists>e. delete_inner now3 mid scope2 s2 = (Inl (IllegalTransition e), s2)))"
proof -
  let ?t = "delete_tables (skel_of_row r) scope now (st_live s)"
  let ?s = "both s ?t"
  from assms(3) have k: "rs_id r = mid" by (auto dest: row_of_SomeD)
  have row: "row_of rs_id mid (t_skel ?t) = Some (set_deleted now (delete_target scope) r)"
    using assms(3) k by (simp add: delete_tables_rows row_of_update set_deleted_def)
  have state: "sk_body (skel_of_row (set_deleted now (delete_target scope) r)) = delete_target scope"
    by (simp add: skel_of_row_def set_deleted_def body_col.col.dec_enc)
  have out: "unindexed mid ?t" using k by (auto simp: unindexed_def delete_tables_rows image_iff)
  have body: "row_of b_id mid (t_body ?t) = (if scope = ForEveryone then None else row_of b_id mid (t_body (st_live s)))"
    using k by (auto simp: delete_tables_rows row_of_delete_key)
  then have "scope = ForEveryone \<Longrightarrow> mid \<notin> b_id ` set (t_body ?t)" by (simp add: row_of_None [symmetric])
  then have "erased mid ?t" using out row state by (cases scope) (simp_all add: erased_def tombstone_def)
  moreover have "settled ?s" using assms(1) by (simp add: settled_def)
  ultimately have "erased_all mid ?s" by (simp add: erased_all_def lasting_erasure.stacked_settled)
  then have "erased_all mid s2" if "message_run lower ?s s2" for s2 using that erased_run by blast
  then have "unindexed mid (st_live s2) \<and> unindexed mid (st_committed s2) \<and> tombstone mid (read_view s2)"
    if "message_run lower ?s s2" for s2 using that erased_everywhere by (simp add: erased_def)
  with delete_eval [OF assms] out body row refused show ?thesis
    by (intro exI [of _ ?s]) simp
qed

text \<open>A deleted message is delivered again after a crash.\<close>

theorem delete_unsearchable_witness:
  "\<exists>s'. delete_inner 9 ''m1'' ForMe sample_store = (Inr (), s')
     \<and> unindexed ''m1'' (st_committed (run_message_op id (OpIngest 10 11 (sample_message ''m1'')) ((reopen s')\<lparr>st_faults := []\<rparr>)))"
proof -
  have r: "body_try_transition (sk_body (skel_of_row (skel_to_row (ingest_skeleton 5 KText (sample_message ''m1'')))))
      (delete_target ForMe) = Inr DeletedForMe" by (simp add: ingest_skeleton_def body_try_transition_def)
  from delete_unsearchable [OF sample_facts(1,2,3) r, of 9 id] obtain s' where
    d: "delete_inner 9 ''m1'' ForMe sample_store = (Inr (), s')"
      "\<And>s2. message_run id s' s2 \<Longrightarrow> unindexed ''m1'' (st_committed s2)" by blast
  show ?thesis by (rule exI [of _ s'], rule conjI [OF d(1)], rule d(2), rule message_run.op [OF message_run.crash [OF message_run.here]])
qed

end
