(* ===== verification/Knowledge.thy ===== *)
theory Knowledge
  imports Search
begin

text \<open>
  On-device analysis of message texts (\<open>knowledge/\<close>): redaction of personal data, link safety, threat detection and content
  classification. \<open>char::is_alphanumeric\<close> and \<open>str::to_lowercase\<close> are tables of the standard library and parameters.
  Positions are byte positions where the code has them, and slicing at a position inside a character panics (\<open>None\<close>).
  Confidences are rationals instead of \<open>f32\<close>.
\<close>

datatype knowledge_error = KNotAvailable string | KInference string | KCustom string

section \<open>Redaction of personal data\<close>

datatype pii_type = Email | PhoneNumber | CreditCard | Ssn | IpAddress

record pii_match =
  pm_type :: pii_type
  pm_start :: nat
  pm_end :: nat
  pm_redacted :: ustr

definition is_ascii_digit :: "uchar \<Rightarrow> bool" where
  "is_ascii_digit c \<longleftrightarrow> 48 \<le> c \<and> c \<le> 57"

definition is_phone_char :: "uchar \<Rightarrow> bool" where
  "is_phone_char c \<longleftrightarrow> is_ascii_digit c \<or> c = 45 \<or> c = 32 \<or> c = 40 \<or> c = 41"

text \<open>\<open>regex_like_phone\<close> works on \<open>chars\<close>: its positions count characters, not bytes.\<close>

function regex_like_phone :: "ustr \<Rightarrow> nat \<Rightarrow> (nat \<times> nat) list" where
  "regex_like_phone [] i = []"
| "regex_like_phone (c # cs) i =
     (if is_ascii_digit c
      then let run = takeWhile is_phone_char cs; j = i + 1 + length run in
        (if 10 \<le> 1 + length (filter is_ascii_digit run) then [(i, j)] else [])
        @ regex_like_phone (dropWhile is_phone_char cs) j
      else regex_like_phone cs (i + 1))"
  by pat_completeness auto
termination by (relation "measure (length \<circ> fst)") (auto simp: less_Suc_eq_le length_dropWhile_le)

text \<open>\<open>find_digit_sequences\<close> works on bytes; no byte of a longer character is an ASCII digit.\<close>

function find_digit_sequences :: "nat \<Rightarrow> nat \<Rightarrow> ustr \<Rightarrow> nat \<Rightarrow> (nat \<times> nat) list" where
  "find_digit_sequences lo hi [] i = []"
| "find_digit_sequences lo hi (c # cs) i =
     (if is_ascii_digit c
      then let run = takeWhile is_ascii_digit cs; n = 1 + length run in
        (if lo \<le> n \<and> n \<le> hi then [(i, i + n)] else [])
        @ find_digit_sequences lo hi (dropWhile is_ascii_digit cs) (i + n)
      else find_digit_sequences lo hi cs (i + utf8_len c))"
  by pat_completeness auto
termination by (relation "measure (\<lambda>(lo, hi, s, i). length s)") (auto simp: less_Suc_eq_le length_dropWhile_le)

text \<open>The text before and from each at sign; the search for the start of the word goes back to the last other character.\<close>

fun at_signs :: "ustr \<Rightarrow> ustr \<Rightarrow> (ustr \<times> ustr) list" where
  "at_signs before [] = []"
| "at_signs before (c # cs) = (if c = 64 then [(before, c # cs)] else []) @ at_signs (before @ [c]) cs"

definition is_local_char :: "(uchar \<Rightarrow> bool) \<Rightarrow> uchar \<Rightarrow> bool" where
  "is_local_char alnum c \<longleftrightarrow> alnum c \<or> c = 46 \<or> c = 45 \<or> c = 95"

definition email_start :: "(uchar \<Rightarrow> bool) \<Rightarrow> ustr \<Rightarrow> nat" where
  "email_start alnum before =
     (case dropWhile (is_local_char alnum) (rev before) of
        [] \<Rightarrow> 0
      | c # earlier \<Rightarrow> byte_len (rev earlier) + 1)"

definition marker :: "string \<Rightarrow> nat \<Rightarrow> nat \<Rightarrow> ustr" where
  "marker label s e = lit (''[REDACTED:'' @ label @ '':'' @ dec_nat (e - s) @ '']'')"

definition email_match :: "(uchar \<Rightarrow> bool) \<Rightarrow> ustr \<Rightarrow> ustr \<times> ustr \<Rightarrow> pii_match list option" where
  "email_match alnum text p =
     (let idx = byte_len (fst p);
          s = email_start alnum (fst p);
          e = idx + byte_len (takeWhile (\<lambda>c. \<not> is_whitespace c) (snd p))
      in if s < e
         then map_option (\<lambda>w. if 46 \<in> set w
                then [\<lparr>pm_type = Email, pm_start = s, pm_end = e, pm_redacted = marker ''EMAIL'' s e\<rparr>] else [])
                (slice text s e)
         else Some [])"

definition phone_match :: "nat \<times> nat \<Rightarrow> pii_match" where
  "phone_match r = \<lparr>pm_type = PhoneNumber, pm_start = fst r, pm_end = snd r, pm_redacted = marker ''PHONE'' (fst r) (snd r)\<rparr>"

definition card_match :: "nat \<times> nat \<Rightarrow> pii_match" where
  "card_match r = \<lparr>pm_type = CreditCard, pm_start = fst r, pm_end = snd r, pm_redacted = marker ''CC'' (fst r) (snd r)\<rparr>"

definition detect_pii :: "(uchar \<Rightarrow> bool) \<Rightarrow> ustr \<Rightarrow> (knowledge_error + pii_match list) option" where
  "detect_pii alnum text =
     map_option (\<lambda>emails. Inr (sort_key pm_start
         (concat emails @ map phone_match (regex_like_phone text 0) @ map card_match (find_digit_sequences 13 19 text 0))))
       (map_panic (email_match alnum text) (at_signs [] text))"

fun redact_loop :: "ustr \<Rightarrow> pii_match list \<Rightarrow> ustr \<Rightarrow> nat \<Rightarrow> ustr option" where
  "redact_loop text [] result last_end = map_option (\<lambda>rest. result @ rest) (slice text last_end (byte_len text))"
| "redact_loop text (m # ms) result last_end =
     Option.bind (slice text last_end (pm_start m)) (\<lambda>part.
       redact_loop text ms (result @ part @ pm_redacted m) (pm_end m))"

definition redact_text :: "(uchar \<Rightarrow> bool) \<Rightarrow> ustr \<Rightarrow> (knowledge_error + ustr) option" where
  "redact_text alnum text =
     Option.bind (detect_pii alnum text) (\<lambda>r.
       case r of
         Inl e \<Rightarrow> Some (Inl e)
       | Inr ms \<Rightarrow> if ms = [] then Some (Inr text) else map_option Inr (redact_loop text ms [] 0))"

section \<open>Link safety\<close>

datatype link_safety_verdict = LinkSafe | LinkSuspicious | LinkMalicious | LinkUnknown

record link_safety_result =
  ls_url :: ustr
  ls_verdict :: link_safety_verdict
  ls_reasons :: "string list"

definition known_malicious_domains :: "string list" where
  "known_malicious_domains = [''evil-phishing.example'', ''malware-download.test'', ''fake-login.scam'']"

definition strip_prefix :: "ustr \<Rightarrow> ustr \<Rightarrow> ustr option" where
  "strip_prefix p s = (if take (length p) s = p then Some (drop (length p) s) else None)"

definition starts_with :: "'a list \<Rightarrow> 'a list \<Rightarrow> bool" where
  "starts_with p s \<longleftrightarrow> take (length p) s = p"

definition ends_with :: "ustr \<Rightarrow> ustr \<Rightarrow> bool" where
  "ends_with p s \<longleftrightarrow> length p \<le> length s \<and> drop (length s - length p) s = p"

definition url_domain :: "ustr \<Rightarrow> ustr" where
  "url_domain url_lower =
     (let domain_part = (case strip_prefix (lit ''https://'') url_lower of
            Some r \<Rightarrow> r
          | None \<Rightarrow> (case strip_prefix (lit ''http://'') url_lower of Some r \<Rightarrow> r | None \<Rightarrow> url_lower))
      in takeWhile (\<lambda>c. c \<noteq> 47) domain_part)"

definition url_shorteners :: "string list" where
  "url_shorteners = [''bit.ly/'', ''tinyurl.com/'', ''t.co/'', ''goo.gl/'', ''ow.ly/'']"

definition check_url :: "(ustr \<Rightarrow> ustr) \<Rightarrow> ustr \<Rightarrow> knowledge_error + link_safety_result" where
  "check_url lower url =
     (let l = lower url;
          r1 = map (\<lambda>d. ''known_malicious_domain:'' @ d) (filter (\<lambda>d. contains_str (lit d) l) known_malicious_domains);
          r2 = (if ends_with (lit ''.tk'') (url_domain l) \<or> ends_with (lit ''.ml'') (url_domain l)
                   \<or> ends_with (lit ''.ga'') (url_domain l) then [''suspicious_tld''] else []);
          r3 = (case strip_prefix (lit ''http://'') l of
                  Some (c # _) \<Rightarrow> if is_ascii_digit c then [''ip_only_url''] else []
                | _ \<Rightarrow> []);
          r4 = map (\<lambda>x. ''url_shortener:'' @ x) (filter (\<lambda>x. contains_str (lit x) l) url_shorteners);
          reasons = r1 @ r2 @ r3 @ r4;
          verdict = (if list_ex (starts_with ''known_malicious_domain'') reasons then LinkMalicious
                     else if reasons \<noteq> [] then LinkSuspicious else LinkSafe)
      in Inr \<lparr>ls_url = url, ls_verdict = verdict, ls_reasons = reasons\<rparr>)"

text \<open>\<open>match_indices\<close>: the byte position of each match, left to right and without overlaps, with the text from there.\<close>

function occurrences :: "ustr \<Rightarrow> ustr \<Rightarrow> nat \<Rightarrow> (nat \<times> ustr) list" where
  "occurrences p [] i = []"
| "occurrences p (c # cs) i =
     (if take (length p) (c # cs) = p
      then (i, c # cs) # occurrences p (drop (length p - 1) cs) (i + byte_len p)
      else occurrences p cs (i + utf8_len c))"
  by pat_completeness auto
termination by (relation "measure (\<lambda>(p, s, i). length s)") auto

definition ends_url :: "uchar \<Rightarrow> bool" where
  "ends_url c \<longleftrightarrow> is_whitespace c \<or> c = 60 \<or> c = 34 \<or> c = 39"

fun extract_loop :: "(nat \<times> ustr) list \<Rightarrow> (nat \<times> nat) list \<Rightarrow> ustr list \<Rightarrow> ustr list" where
  "extract_loop [] found urls = urls"
| "extract_loop ((idx, rest) # xs) found urls =
     (if list_ex (\<lambda>(s, e). s \<le> idx \<and> idx < e) found then extract_loop xs found urls
      else let url = takeWhile (\<lambda>c. \<not> ends_url c) rest in
        if url \<noteq> [] then extract_loop xs (found @ [(idx, idx + byte_len url)]) (urls @ [url])
        else extract_loop xs found urls)"

definition extract_urls :: "ustr \<Rightarrow> ustr list" where
  "extract_urls text = extract_loop (occurrences (lit ''https://'') text 0 @ occurrences (lit ''http://'') text 0) [] []"

fun collect_results :: "('e + 'a) list \<Rightarrow> 'e + 'a list" where
  "collect_results [] = Inr []"
| "collect_results (Inl e # rs) = Inl e"
| "collect_results (Inr a # rs) = (case collect_results rs of Inl e \<Rightarrow> Inl e | Inr as \<Rightarrow> Inr (a # as))"

definition check_urls_in_text :: "(ustr \<Rightarrow> ustr) \<Rightarrow> ustr \<Rightarrow> knowledge_error + link_safety_result list" where
  "check_urls_in_text lower text = collect_results (map (check_url lower) (extract_urls text))"

section \<open>Threats\<close>

datatype threat_level = Safe | Suspicious | Malicious

record threat_detection_result =
  td_level :: threat_level
  td_reasons :: "string list"
  td_confidence :: rat

definition suspicious_patterns :: "string list" where
  "suspicious_patterns = [''bit.ly/'', ''tinyurl.com/'', ''t.co/'', ''goo.gl/'', ''amzn.to/'']"

definition phishing_keywords :: "string list" where
  "phishing_keywords =
     [''verify your account'', ''confirm your password'', ''urgent action required'', ''suspended account'',
      ''click here to claim'', ''you'' @ [CHR 0x27] @ ''ve won'', ''wire transfer'', ''gift card payment'']"

definition analyze_text :: "(ustr \<Rightarrow> ustr) \<Rightarrow> ustr \<Rightarrow> knowledge_error + threat_detection_result" where
  "analyze_text lower text =
     (let l = lower text;
          r1 = map (\<lambda>p. ''suspicious_url:'' @ p) (filter (\<lambda>p. contains_str (lit p) l) suspicious_patterns);
          r2 = map (\<lambda>k. ''phishing_keyword:'' @ k) (filter (\<lambda>k. contains_str (lit k) l) phishing_keywords);
          url_count = length (occurrences (lit ''http://'') l 0) + length (occurrences (lit ''https://'') l 0);
          reasons = r1 @ r2 @ (if 3 \<le> url_count then [''excessive_urls''] else []);
          level = (if list_ex (starts_with ''phishing_keyword'') reasons then Malicious
                   else if reasons \<noteq> [] then Suspicious else Safe);
          confidence = (if reasons = [] then 1 else 7 / 10 + min (of_nat (length reasons) / 10) (3 / 10))
      in Inr \<lparr>td_level = level, td_reasons = reasons, td_confidence = confidence\<rparr>)"

definition is_suspicious_url :: "(ustr \<Rightarrow> ustr) \<Rightarrow> ustr \<Rightarrow> bool" where
  "is_suspicious_url lower url \<longleftrightarrow> list_ex (\<lambda>p. contains_str (lit p) (lower url)) suspicious_patterns"

section \<open>Content categories\<close>

datatype content_category = PlainText | CodeText | LinkText | MediaRef | SystemMessage | Mixed

record classification_result =
  cl_category :: content_category
  cl_confidence :: rat
  cl_languages :: "string list"

definition code_indicators :: "string list" where
  "code_indicators =
     [''fn '', ''func '', ''def '', ''class '', ''import '', ''package '', ''public '', ''private '', ''const '',
      ''let '', ''var '', replicate 3 (CHR 0x60), ''    '', [CHR 0x09]]"

definition system_indicators :: "string list" where
  "system_indicators = [''joined the group'', ''left the group'', ''was added'', ''was removed'', ''changed the group name'']"

definition detect_languages :: "ustr \<Rightarrow> string list" where
  "detect_languages text =
     (let has = (\<lambda>lo hi. list_ex (in_range lo hi) text);
          langs = (if has 0x41 0x5A \<or> has 0x61 0x7A then [''en''] else [])
            @ (if has 0x4E00 0x9FFF then [''zh''] else [])
            @ (if has 0x3040 0x309F \<or> has 0x30A0 0x30FF then [''ja''] else [])
            @ (if has 0xAC00 0xD7AF then [''ko''] else [])
            @ (if has 0x0400 0x04FF then [''ru''] else [])
      in if langs = [] then [''unknown''] else langs)"

definition classify_signals :: "ustr \<Rightarrow> content_category list" where
  "classify_signals text =
     (let has = (\<lambda>x. contains_str (lit x) text);
          signals = (if 2 \<le> length (filter has code_indicators) then [CodeText] else [])
            @ (if has ''http://'' \<or> has ''https://'' then [LinkText] else [])
            @ (if has ''[media]'' \<or> has ''[image]'' \<or> has ''[video]'' \<or> has ''[audio]'' then [MediaRef] else [])
            @ (if list_ex has system_indicators then [SystemMessage] else [])
      in if signals = [] then [PlainText] else signals)"

definition classify :: "ustr \<Rightarrow> knowledge_error + classification_result" where
  "classify text =
     (let signals = classify_signals text;
          category = (case signals of [x] \<Rightarrow> x | _ \<Rightarrow> Mixed)
      in Inr \<lparr>cl_category = category, cl_confidence = (if length signals = 1 then 9 / 10 else 7 / 10),
              cl_languages = detect_languages text\<rparr>)"

section \<open>Redaction of ASCII texts\<close>

definition apart :: "pii_match list \<Rightarrow> bool" where
  "apart = sorted_wrt (\<lambda>m m'. pm_end m \<le> pm_start m')"

fun weave :: "ustr \<Rightarrow> nat \<Rightarrow> pii_match list \<Rightarrow> ustr" where
  "weave text i [] = drop i text"
| "weave text i (m # ms) = take (pm_start m - i) (drop i text) @ pm_redacted m @ weave text (pm_end m) ms"

definition spans :: "nat \<Rightarrow> nat \<Rightarrow> nat \<times> nat \<Rightarrow> bool" where
  "spans lo hi r \<longleftrightarrow> lo \<le> fst r \<and> fst r < snd r \<and> snd r \<le> hi"

lemma phone_spans: "r \<in> set (regex_like_phone s i) \<Longrightarrow> spans i (i + length s) r"
proof (induction s i rule: regex_like_phone.induct)
  case (2 c cs i)
  have l: "length (takeWhile is_phone_char cs) + length (dropWhile is_phone_char cs) = length cs"
    by (metis length_append takeWhile_dropWhile_id)
  show ?case
  proof (cases "is_ascii_digit c")
    case True
    with 2(1) [OF True refl refl] 2(3) l show ?thesis by (auto simp: spans_def Let_def split: if_splits)
  qed (use 2 in \<open>auto simp: spans_def\<close>)
qed simp

lemma digits_spans:
  "r \<in> set (find_digit_sequences lo hi s i) \<Longrightarrow> \<forall>c \<in> set s. c < 0x80 \<Longrightarrow> spans i (i + length s) r"
proof (induction lo hi s i rule: find_digit_sequences.induct)
  case (2 lo hi c cs i)
  have l: "length (takeWhile is_ascii_digit cs) + length (dropWhile is_ascii_digit cs) = length cs"
    by (metis length_append takeWhile_dropWhile_id)
  show ?case
  proof (cases "is_ascii_digit c")
    case True
    have "\<forall>c \<in> set (dropWhile is_ascii_digit cs). c < 0x80" using 2(4) by (auto dest: set_dropWhileD)
    with 2(1) [OF True refl refl] 2(3) True l show ?thesis by (auto simp: spans_def Let_def split: if_splits)
  qed (use 2 in \<open>auto simp: spans_def utf8_len_def\<close>)
qed simp

lemma at_signs_split: "(a, b) \<in> set (at_signs before s) \<Longrightarrow> a @ b = before @ s \<and> b \<noteq> []"
  by (induction before s rule: at_signs.induct) auto

lemma email_start_le: "\<forall>c \<in> set before. c < 0x80 \<Longrightarrow> email_start alnum before \<le> length before"
proof -
  assume a: "\<forall>c \<in> set before. c < 0x80"
  show ?thesis
  proof (cases "dropWhile (is_local_char alnum) (rev before)")
    case (Cons c earlier)
    have "length (c # earlier) \<le> length before"
      using length_dropWhile_le [of "is_local_char alnum" "rev before"] Cons by simp
    moreover have "set earlier \<subseteq> set before"
      using set_dropWhileD [of _ "is_local_char alnum" "rev before"] Cons by fastforce
    ultimately show ?thesis using a Cons by (simp add: email_start_def byte_len_ascii subset_iff)
  next
    case Nil
    then show ?thesis unfolding email_start_def by (simp only: list.case)
  qed
qed

lemma email_match_ascii:
  assumes "\<forall>c \<in> set text. c < 0x80" and "p \<in> set (at_signs [] text)"
  shows "\<exists>ms. email_match alnum text p = Some ms \<and> (\<forall>m \<in> set ms. spans 0 (length text) (pm_start m, pm_end m))"
proof -
  obtain a b where p: "p = (a, b)" by (cases p)
  with assms(2) have t: "text = a @ b" using at_signs_split [of a b "[]" "text"] by simp
  let ?w = "takeWhile (\<lambda>c. \<not> is_whitespace c) b"
  have w: "length ?w \<le> length b" "set ?w \<subseteq> set b" by (auto simp: length_takeWhile_le dest: set_takeWhileD)
  with t assms(1) have bl: "byte_len a = length a" "byte_len ?w = length ?w"
    by (auto intro!: byte_len_ascii)
  have "length a + length ?w \<le> length text" using t w by simp
  then show ?thesis using bl
    by (auto simp: email_match_def p Let_def slice_ascii [OF assms(1)] spans_def)
qed

lemma map_panic_some:
  "\<forall>x \<in> set xs. \<exists>y. f x = Some y \<and> P y \<Longrightarrow> \<exists>ys. map_panic f xs = Some ys \<and> (\<forall>y \<in> set ys. P y)"
  by (induction xs) auto

lemma detect_ascii:
  assumes "\<forall>c \<in> set text. c < 0x80"
  shows "\<exists>ms. detect_pii alnum text = Some (Inr ms) \<and> sorted (map pm_start ms)
    \<and> (\<forall>m \<in> set ms. spans 0 (length text) (pm_start m, pm_end m))
    \<and> phone_match ` set (regex_like_phone text 0) \<subseteq> set ms
    \<and> card_match ` set (find_digit_sequences 13 19 text 0) \<subseteq> set ms"
proof -
  from map_panic_some [of "at_signs [] text" "email_match alnum text"
      "\<lambda>ms. \<forall>m \<in> set ms. spans 0 (length text) (pm_start m, pm_end m)"] email_match_ascii [OF assms]
  obtain es where e: "map_panic (email_match alnum text) (at_signs [] text) = Some es"
    "\<forall>ms \<in> set es. \<forall>m \<in> set ms. spans 0 (length text) (pm_start m, pm_end m)" by blast
  then show ?thesis
    using phone_spans [of _ "text" 0] digits_spans [of _ 13 19 "text" 0, OF _ assms]
    by (auto simp: detect_pii_def phone_match_def card_match_def)
qed

lemma redact_loop_ascii:
  assumes "\<forall>c \<in> set text. c < 0x80" and "i \<le> length text"
    and "\<forall>m \<in> set ms. spans 0 (length text) (pm_start m, pm_end m)"
  shows "redact_loop text ms acc i =
    (if (\<forall>m \<in> set ms. i \<le> pm_start m) \<and> apart ms then Some (acc @ weave text i ms) else None)"
  using assms(2,3)
proof (induction ms arbitrary: i acc)
  case Nil
  then show ?case by (simp add: byte_len_ascii [OF assms(1)] slice_ascii [OF assms(1)] apart_def)
next
  case (Cons m ms)
  have m: "pm_start m < pm_end m" "pm_end m \<le> length text" using Cons.prems by (simp_all add: spans_def)
  show ?case
  proof (cases "i \<le> pm_start m")
    case True
    then have s: "slice text i (pm_start m) = Some (take (pm_start m - i) (drop i text))"
      using m by (simp add: slice_ascii [OF assms(1)])
    have "(\<forall>m' \<in> set (m # ms). i \<le> pm_start m') \<and> apart (m # ms) \<longleftrightarrow>
        (\<forall>m' \<in> set ms. pm_end m \<le> pm_start m') \<and> apart ms"
      using True m by (fastforce simp: apart_def)
    with s show ?thesis using Cons.IH [of "pm_end m"] Cons.prems m by simp
  next
    case False
    then show ?thesis by (simp add: slice_def)
  qed
qed

lemma redact_ascii:
  assumes "\<forall>c \<in> set text. c < 0x80" and "detect_pii alnum text = Some (Inr ms)"
  shows "redact_text alnum text = (if apart ms then Some (Inr (weave text 0 ms)) else None)"
proof -
  from detect_ascii [OF assms(1), of alnum] assms(2)
  have "\<forall>m \<in> set ms. spans 0 (length text) (pm_start m, pm_end m)" by auto
  from redact_loop_ascii [OF assms(1) _ this, of 0 "[]"] assms(2) show ?thesis
    by (cases "ms = []") (auto simp: redact_text_def apart_def)
qed

section \<open>Card numbers\<close>

lemma digit_is_phone_char: "is_ascii_digit c \<Longrightarrow> is_phone_char c"
  by (simp add: is_phone_char_def)

lemma phone_covers_digits:
  assumes "list_all is_ascii_digit ds" and "10 \<le> length ds"
  shows "\<exists>r \<in> set (regex_like_phone (a @ ds @ b) i). fst r \<le> i + length a \<and> i + length a + length ds \<le> snd r"
proof (induction "length a" arbitrary: a i rule: less_induct)
  case less
  have ds: "takeWhile is_phone_char (ds @ x) = ds @ takeWhile is_phone_char x" for x
    using assms(1) digit_is_phone_char by (auto simp: list_all_iff)
  have fd: "filter is_ascii_digit ds = ds" using assms(1) by (simp add: list_all_iff)
  show ?case
  proof (cases a)
    case Nil
    obtain d ds' where d: "ds = d # ds'" using assms(2) by (cases ds) auto
    with assms ds fd have "is_ascii_digit d" "takeWhile is_phone_char (ds' @ b) = ds' @ takeWhile is_phone_char b"
        "filter is_ascii_digit ds' = ds'"
      by (auto simp: is_phone_char_def split: if_splits)
    then show ?thesis using Nil d assms(2) by (auto simp: Let_def)
  next
    case (Cons c a')
    show ?thesis
    proof (cases "is_ascii_digit c")
      case False
      with less [of a' "i + 1"] Cons show ?thesis by auto
    next
      case True
      show ?thesis
      proof (cases "list_all is_phone_char a'")
        case all: True
        then have "takeWhile is_phone_char (a' @ ds @ b) = a' @ ds @ takeWhile is_phone_char b"
          using ds by (auto simp: list_all_iff)
        then show ?thesis using True Cons assms(2) fd by (auto simp: Let_def)
      next
        case ex: False
        then have d: "dropWhile is_phone_char (a' @ ds @ b) = dropWhile is_phone_char a' @ ds @ b"
          "takeWhile is_phone_char (a' @ ds @ b) = takeWhile is_phone_char a'"
          by (auto simp: list_all_iff dropWhile_append takeWhile_append)
        have l: "length (takeWhile is_phone_char a') + length (dropWhile is_phone_char a') = length a'"
          by (metis length_append takeWhile_dropWhile_id)
        have "length (dropWhile is_phone_char a') < length a"
          using l Cons by simp
        from less [OF this, of "i + 1 + length (takeWhile is_phone_char a')"] obtain r where r:
          "r \<in> set (regex_like_phone (dropWhile is_phone_char a' @ ds @ b) (i + 1 + length (takeWhile is_phone_char a')))"
          "fst r \<le> i + 1 + length (takeWhile is_phone_char a') + length (dropWhile is_phone_char a')"
          "i + 1 + length (takeWhile is_phone_char a') + length (dropWhile is_phone_char a') + length ds \<le> snd r" by blast
        then have "r \<in> set (regex_like_phone (a @ ds @ b) i)" using True Cons d by (simp add: Let_def)
        moreover have "fst r \<le> i + length a \<and> i + length a + length ds \<le> snd r" using r(2,3) l Cons by simp
        ultimately show ?thesis by blast
      qed
    qed
  qed
qed

lemma cards_found:
  assumes "list_all is_ascii_digit ds" and "lo \<le> length ds" and "length ds \<le> hi" and "ds \<noteq> []"
    and "b = [] \<or> \<not> is_ascii_digit (hd b)"
    and "a = [] \<or> \<not> is_ascii_digit (last a)" and "\<forall>c \<in> set a. c < 0x80"
  shows "(i + length a, i + length a + length ds) \<in> set (find_digit_sequences lo hi (a @ ds @ b) i)"
  using assms(6,7)
proof (induction "length a" arbitrary: a i rule: less_induct)
  case less
  show ?case
  proof (cases a)
    case Nil
    obtain d ds' where d: "ds = d # ds'" using assms(4) by (cases ds) auto
    have "takeWhile is_ascii_digit (ds' @ b) = ds'"
      using assms(1,5) d by (cases b) (auto simp: list_all_iff takeWhile_append)
    then show ?thesis using Nil d assms(1-3) by (simp add: Let_def)
  next
    case (Cons c a')
    show ?thesis
    proof (cases "is_ascii_digit c")
      case False
      have "a' = [] \<or> \<not> is_ascii_digit (last a')" using less.prems(1) Cons by (auto split: if_splits)
      with less.hyps [of a' "i + 1"] less.prems Cons False show ?thesis by (simp add: utf8_len_def)
    next
      case True
      with less.prems(1) Cons have ne: "a' \<noteq> []" and la: "\<not> is_ascii_digit (last a')" by (auto split: if_splits)
      then have ex: "\<exists>x \<in> set a'. \<not> is_ascii_digit x" by auto
      let ?d = "dropWhile is_ascii_digit a'"
      have d: "dropWhile is_ascii_digit (a' @ ds @ b) = ?d @ ds @ b"
        "takeWhile is_ascii_digit (a' @ ds @ b) = takeWhile is_ascii_digit a'"
        using ex by (auto simp: dropWhile_append takeWhile_append)
      have l: "length (takeWhile is_ascii_digit a') + length ?d = length a'"
        by (metis length_append takeWhile_dropWhile_id)
      have "last ?d = last a'" using ex by (metis dropWhile_eq_Nil_conv last_appendR takeWhile_dropWhile_id)
      moreover have "\<forall>c \<in> set ?d. c < 0x80" using less.prems(2) Cons by (auto dest: set_dropWhileD)
      moreover have "length ?d < length a" using l Cons by simp
      ultimately have "(i + 1 + length (takeWhile is_ascii_digit a') + length ?d,
          i + 1 + length (takeWhile is_ascii_digit a') + length ?d + length ds)
          \<in> set (find_digit_sequences lo hi (?d @ ds @ b) (i + 1 + length (takeWhile is_ascii_digit a')))"
        using less.hyps [of ?d "i + 1 + length (takeWhile is_ascii_digit a')"] la by simp
      moreover have "i + 1 + length (takeWhile is_ascii_digit a') + length ?d = i + length a" using l Cons by simp
      ultimately have "(i + length a, i + length a + length ds)
          \<in> set (find_digit_sequences lo hi (?d @ ds @ b) (i + 1 + length (takeWhile is_ascii_digit a')))"
        by metis
      with True Cons d show ?thesis by (simp add: Let_def)
    qed
  qed
qed

lemma apart_disjoint:
  "apart ms \<Longrightarrow> m \<in> set ms \<Longrightarrow> m' \<in> set ms \<Longrightarrow> m \<noteq> m' \<Longrightarrow> pm_end m \<le> pm_start m' \<or> pm_end m' \<le> pm_start m"
  by (induction ms) (auto simp: apart_def)

lemma phone_card_overlap:
  assumes "\<forall>c \<in> set (a @ ds @ b). c < 0x80" and "list_all is_ascii_digit ds" and "13 \<le> length ds" and "length ds \<le> 19"
    and "a = [] \<or> \<not> is_ascii_digit (last a)" and "b = [] \<or> \<not> is_ascii_digit (hd b)"
    and "detect_pii alnum (a @ ds @ b) = Some (Inr ms)"
  shows "\<not> apart ms"
proof
  assume ap: "apart ms"
  from assms(2,3) obtain r where r: "r \<in> set (regex_like_phone (a @ ds @ b) 0)" "fst r \<le> length a"
      "length a + length ds \<le> snd r" using phone_covers_digits [of ds a b 0] by auto
  have "(length a, length a + length ds) \<in> set (find_digit_sequences 13 19 (a @ ds @ b) 0)"
    using cards_found [of ds 13 19 b a 0] assms(1-6) by (cases ds) auto
  with r(1) detect_ascii [OF assms(1), of alnum] assms(7)
  have "phone_match r \<in> set ms" "card_match (length a, length a + length ds) \<in> set ms" by auto
  from apart_disjoint [OF ap this] r(2,3) assms(3) show False by (auto simp: phone_match_def card_match_def)
qed

section \<open>Links in a text\<close>

definition lower_ascii :: "uchar \<Rightarrow> uchar" where
  "lower_ascii c = (if 65 \<le> c \<and> c \<le> 90 then c + 32 else c)"

definition lowers_ascii :: "(ustr \<Rightarrow> ustr) \<Rightarrow> bool" where
  "lowers_ascii lower \<longleftrightarrow> (\<forall>s. (\<forall>c \<in> set s. c < 0x80) \<longrightarrow> lower s = map lower_ascii s)"

lemma find_str_iff: "find_str p s i \<noteq> None \<longleftrightarrow> (\<exists>x y. s = x @ p @ y)"
proof (induction p s i rule: find_str.induct)
  case (1 p s i)
  show ?case
  proof (cases "take (length p) s = p")
    case True
    then have "\<exists>x y. s = x @ p @ y" by (metis append_Nil append_take_drop_id)
    with True show ?thesis by (subst find_str.simps) simp
  next
    case False
    show ?thesis
    proof (cases s)
      case Nil
      with False show ?thesis by (subst find_str.simps) auto
    next
      case (Cons c cs)
      have "(\<exists>x y. c # cs = x @ p @ y) \<longleftrightarrow> (\<exists>x y. cs = x @ p @ y)"
      proof
        assume "\<exists>x y. c # cs = x @ p @ y"
        then obtain x y where xy: "c # cs = x @ p @ y" by blast
        with False Cons show "\<exists>x y. cs = x @ p @ y" by (cases x) auto
      next
        assume "\<exists>x y. cs = x @ p @ y"
        then show "\<exists>x y. c # cs = x @ p @ y" by (metis append_Cons)
      qed
      with 1 [OF False Cons] False Cons show ?thesis by (subst find_str.simps) simp
    qed
  qed
qed

lemma contains_str_iff: "contains_str p s \<longleftrightarrow> (\<exists>x y. s = x @ p @ y)"
  using find_str_iff [of p s 0] by (simp only: contains_str_def)

lemma occurrences_sound:
  "(j, rest) \<in> set (occurrences p s i) \<Longrightarrow> \<forall>c \<in> set s. c < 0x80 \<Longrightarrow> p \<noteq> [] \<Longrightarrow>
     i \<le> j \<and> j - i \<le> length s \<and> rest = drop (j - i) s \<and> rest \<noteq> []"
proof (induction p s i rule: occurrences.induct)
  case (2 p c cs i)
  show ?case
  proof (cases "take (length p) (c # cs) = p")
    case True
    obtain q ps where p: "p = q # ps" using 2(5) by (cases p) auto
    have "set p \<subseteq> set (c # cs)" using True set_take_subset by metis
    with 2(4) have bl: "byte_len p = length p" by (auto intro!: byte_len_ascii)
    have lp: "length p \<le> length (c # cs)" using True by (metis length_take min.absorb_iff2 nat_le_linear min_def)
    from 2(3) True consider "(j, rest) = (i, c # cs)"
      | "(j, rest) \<in> set (occurrences p (drop (length p - 1) cs) (i + byte_len p))" by auto
    then show ?thesis
    proof cases
      case 2
      have d: "\<forall>c \<in> set (drop (length p - 1) cs). c < 0x80" using \<open>\<forall>c \<in> set (c # cs). c < 0x80\<close> by (auto dest: in_set_dropD)
      note ih = "2.IH"(1) [OF True 2 d \<open>p \<noteq> []\<close>, unfolded bl]
      then obtain k where k: "j = i + length p + k" by (metis le_Suc_ex)
      have "length p - 1 + k + 1 = j - i" using k p by simp
      with ih k lp p show ?thesis by (auto simp: add.commute)
    qed auto
  next
    case False
    have u: "utf8_len c = 1" using 2(4) by (simp add: utf8_len_def)
    have m: "(j, rest) \<in> set (occurrences p cs (i + utf8_len c))" using 2(3) False by simp
    have a: "\<forall>c \<in> set cs. c < 0x80" using 2(4) by simp
    note ih = "2.IH"(2) [OF False m a 2(5), unfolded u]
    then obtain k where k: "j = i + 1 + k" by (metis le_Suc_ex)
    with ih have "rest = drop k cs" "k \<le> length cs" "rest \<noteq> []" by auto
    with k show ?thesis by simp
  qed
qed simp

lemma occurrences_complete:
  assumes "hd p \<notin> set (tl p)" and "p \<noteq> []"
  shows "\<forall>c \<in> set (x @ p @ y). c < 0x80 \<Longrightarrow> (i + length x, p @ y) \<in> set (occurrences p (x @ p @ y) i)"
proof (induction "length x" arbitrary: x i rule: less_induct)
  case less
  obtain q ps where p: "p = q # ps" using assms(2) by (cases p) auto
  have bl: "byte_len p = length p" using less.prems by (auto intro!: byte_len_ascii)
  show ?case
  proof (cases x)
    case Nil
    then show ?thesis by (simp add: p)
  next
    case (Cons c x')
    show ?thesis
    proof (cases "take (length p) (c # x' @ p @ y) = p")
      case False
      have "(i + 1 + length x', p @ y) \<in> set (occurrences p (x' @ p @ y) (i + 1))"
        using less.hyps [of x' "i + 1"] less.prems Cons by simp
      with False less.prems Cons show ?thesis by (simp add: utf8_len_def)
    next
      case True
      have le: "length ps \<le> length x'"
      proof (rule ccontr)
        assume "\<not> length ps \<le> length x'"
        then have l: "length x' < length ps" by simp
        from True p have t: "take (length ps) (x' @ q # ps @ y) = ps" by simp
        from l have "ps ! length x' = take (length ps) (x' @ q # ps @ y) ! length x'" using t by simp
        also have "\<dots> = q" using l by (simp add: nth_append del: take_append)
        finally have "q \<in> set ps" using l nth_mem by fastforce
        with assms(1) p show False by simp
      qed
      have "(i + length p + length (drop (length ps) x'), p @ y) \<in> set (occurrences p (drop (length ps) x' @ p @ y) (i + length p))"
      proof (rule less.hyps)
        show "length (drop (length ps) x') < length x" using Cons by simp
        show "\<forall>c \<in> set (drop (length ps) x' @ p @ y). c < 0x80" using less.prems Cons by (auto dest: in_set_dropD)
      qed
      moreover have "i + length p + length (drop (length ps) x') = i + length x" using le p Cons by simp
      moreover have "drop (length p - 1) (x' @ p @ y) = drop (length ps) x' @ p @ y" using le p by simp
      ultimately have "(i + length x, p @ y) \<in> set (occurrences p (drop (length p - 1) (x' @ p @ y)) (i + byte_len p))"
        unfolding bl by metis
      with True Cons show ?thesis by simp
    qed
  qed
qed

text \<open>Every start that is offered lies inside a URL that is returned.\<close>

definition url_at :: "ustr \<Rightarrow> nat \<Rightarrow> ustr" where
  "url_at s j = takeWhile (\<lambda>c. \<not> ends_url c) (drop j s)"

definition ranges_match :: "ustr \<Rightarrow> (nat \<times> nat) list \<Rightarrow> ustr list \<Rightarrow> bool" where
  "ranges_match s found urls \<longleftrightarrow>
     (\<forall>(j, e) \<in> set found. url_at s j \<in> set urls \<and> e = j + length (url_at s j))"

lemma url_inside: "j \<le> i \<Longrightarrow> i < j + length (url_at s j) \<Longrightarrow> url_at s j = take (i - j) (drop j s) @ url_at s i"
proof -
  assume a: "j \<le> i" "i < j + length (url_at s j)"
  define x where "x = take (i - j) (drop j s)"
  have d: "drop j s = x @ drop i s" using a(1) by (simp add: x_def) (metis append_take_drop_id drop_drop le_add_diff_inverse2)
  have "length x \<le> i - j" by (simp add: x_def)
  moreover have "take (i - j) (url_at s j) = x"
    using a(2) unfolding url_at_def x_def by (metis (no_types, lifting) a(1) add_diff_cancel_left' diff_less_mono less_imp_le_nat takeWhile_eq_take take_take min.absorb1)
  ultimately have "\<forall>c \<in> set x. \<not> ends_url c" unfolding url_at_def
    by (metis in_set_takeD set_takeWhileD)
  then have "url_at s j = x @ url_at s i" unfolding url_at_def d by (simp add: takeWhile_append)
  then show ?thesis by (simp only: x_def)
qed

lemma extract_loop_grows: "set urls \<subseteq> set (extract_loop xs found urls)"
  by (induction xs found urls rule: extract_loop.induct) (auto simp: Let_def split: if_splits)

lemma extract_covers:
  assumes "\<forall>c \<in> set s. c < 0x80"
  shows "ranges_match s found urls \<Longrightarrow> \<forall>(j, rest) \<in> set xs. rest = drop j s \<Longrightarrow> (i, rest) \<in> set xs \<Longrightarrow>
    url_at s i \<noteq> [] \<Longrightarrow> \<exists>x. x @ url_at s i \<in> set (extract_loop xs found urls)"
proof (induction xs found urls rule: extract_loop.induct)
  case (2 idx r xs found urls)
  let ?in = "list_ex (\<lambda>(j, e). j \<le> idx \<and> idx < e) found"
  let ?url = "takeWhile (\<lambda>c. \<not> ends_url c) r"
  have r: "?url = url_at s idx" using 2(5) by (simp add: url_at_def)
  have "set ?url \<subseteq> set s" using 2(5) by (auto dest!: set_takeWhileD in_set_dropD)
  with assms have bl: "byte_len ?url = length ?url" by (auto intro!: byte_len_ascii)
  show ?case
  proof (cases "(i, rest) \<in> set xs")
    case True
    have m: "ranges_match s (found @ [(idx, idx + byte_len ?url)]) (urls @ [?url])"
      using 2(4) bl r by (auto simp: ranges_match_def)
    show ?thesis using "2.IH"(1) [OF _ 2(4)] "2.IH"(2) [OF _ refl _ m] "2.IH"(3) [OF _ refl _ 2(4)] 2(5,7) True
      by (auto simp: Let_def)
  next
    case False
    with 2(6) have i: "i = idx" by simp
    show ?thesis
    proof (cases ?in)
      case True
      then obtain j e where je: "(j, e) \<in> set found" "j \<le> idx" "idx < e" by (auto simp: list_ex_iff)
      with 2(4) have "url_at s j \<in> set urls" "e = j + length (url_at s j)" by (auto simp: ranges_match_def)
      with url_inside [of j idx s] je have "take (idx - j) (drop j s) @ url_at s idx \<in> set urls" by simp
      with True i extract_loop_grows [of urls xs found] show ?thesis by (auto simp: subset_iff)
    next
      case False
      have "?url \<in> set (extract_loop xs (found @ [(idx, idx + byte_len ?url)]) (urls @ [?url]))"
        using extract_loop_grows [of "urls @ [?url]"] by auto
      with False i r 2(7) show ?thesis by (auto simp: Let_def intro: exI [of _ "[]"])
    qed
  qed
qed simp

lemma extract_urls_set:
  "\<forall>(j, rest) \<in> set xs. set rest \<subseteq> A \<Longrightarrow> \<forall>u \<in> set urls. set u \<subseteq> A \<Longrightarrow> u \<in> set (extract_loop xs found urls) \<Longrightarrow> set u \<subseteq> A"
  by (induction xs found urls rule: extract_loop.induct) (fastforce simp: Let_def dest: set_takeWhileD split: if_splits)+

lemma occurrences_set: "(j, rest) \<in> set (occurrences p s i) \<Longrightarrow> set rest \<subseteq> set s"
  by (induction p s i rule: occurrences.induct) (fastforce split: if_splits dest: in_set_dropD)+

lemma urls_from_text: "u \<in> set (extract_urls s) \<Longrightarrow> set u \<subseteq> set s"
  unfolding extract_urls_def by (erule extract_urls_set [rotated 2]) (auto dest: occurrences_set)

lemma list_ex_hit: "d \<in> set xs \<Longrightarrow> Q d \<Longrightarrow> P (f d) \<Longrightarrow> list_ex P (map f (filter Q xs) @ ys) = True"
  by (auto simp: list_ex_iff)

lemma check_url_malicious:
  assumes "d \<in> set known_malicious_domains" and "contains_str (lit d) (lower url)"
  shows "\<exists>r. check_url lower url = Inr r \<and> ls_verdict r = LinkMalicious"
proof -
  have "starts_with ''known_malicious_domain'' (''known_malicious_domain:'' @ d)" by (simp add: starts_with_def)
  note hit = list_ex_hit [of d known_malicious_domains "\<lambda>d. contains_str (lit d) (lower url)",
      where f = "\<lambda>d. ''known_malicious_domain:'' @ d" and P = "starts_with ''known_malicious_domain''", OF assms this]
  show ?thesis unfolding check_url_def Let_def hit if_True by simp
qed

lemma check_url_total: "\<exists>r. check_url lower url = Inr r"
  by (simp add: check_url_def Let_def)

lemma collect_total: "\<exists>rs. collect_results (map (check_url lower) us) = Inr rs"
proof (induction us)
  case (Cons v us)
  with check_url_total [of lower v] show ?case by auto
qed simp

lemma collect_check:
  "u \<in> set us \<Longrightarrow> check_url lower u = Inr r \<Longrightarrow> \<exists>rs. collect_results (map (check_url lower) us) = Inr rs \<and> r \<in> set rs"
proof (induction us)
  case (Cons v us)
  obtain q rs where "check_url lower v = Inr q" "collect_results (map (check_url lower) us) = Inr rs"
    using check_url_total collect_total by metis
  with Cons show ?case by auto
qed simp

section \<open>Properties\<close>

text \<open>
  C29: redaction of an ASCII text is exact: it returns if and only if the matches, in the order of their positions, do not
  overlap; then every match is replaced by its marker and all other characters are kept. Otherwise the program panics.
\<close>

theorem redaction_exact:
  assumes "\<forall>c \<in> set text. c < 0x80"
  shows "\<exists>ms. detect_pii alnum text = Some (Inr ms) \<and> sorted (map pm_start ms)
    \<and> (\<forall>m \<in> set ms. pm_start m < pm_end m \<and> pm_end m \<le> length text)
    \<and> redact_text alnum text =
       (if sorted_wrt (\<lambda>m m'. pm_end m \<le> pm_start m') ms then Some (Inr (weave text 0 ms)) else None)"
proof -
  from detect_ascii [OF assms, of alnum] obtain ms where ms: "detect_pii alnum text = Some (Inr ms)"
    "sorted (map pm_start ms)" "\<forall>m \<in> set ms. spans 0 (length text) (pm_start m, pm_end m)" by blast
  with redact_ascii [OF assms ms(1)] show ?thesis by (auto simp: apart_def spans_def)
qed

theorem redaction_exact_witness:
  "redact_text (\<lambda>c. 97 \<le> c \<and> c \<le> 122) (lit ''to bob@x.io'') = Some (Inr (lit ''to [REDACTED:EMAIL:8]''))"
proof -
  let ?al = "\<lambda>c. 97 \<le> c \<and> c \<le> 122" and ?t = "lit ''to bob@x.io''"
  have at: "at_signs [] ?t = [(lit ''to bob'', lit ''@x.io'')]" by (simp add: lit_def)
  have st: "email_start ?al (lit ''to bob'') = 3"
    by (simp add: email_start_def is_local_char_def lit_def byte_len_def utf8_len_def)
  have en: "takeWhile (\<lambda>c. \<not> is_whitespace c) (lit ''@x.io'') = lit ''@x.io''"
    by (simp add: lit_def is_whitespace_def in_range_def)
  have bl: "byte_len (lit ''to bob'') = 6" "byte_len (lit ''@x.io'') = 5"
    by (simp_all add: lit_def byte_len_def utf8_len_def)
  have sl: "slice ?t 3 11 = Some (lit ''bob@x.io'')"
    by (subst slice_ascii) (simp_all add: lit_def)
  have dot: "46 \<in> set (lit ''bob@x.io'')" by (simp add: lit_def)
  have "dec_nat 8 = ''8''" by (subst dec_nat.simps) (simp add: digit_def char_of_def bit_simps; code_simp)
  then have mk: "marker ''EMAIL'' 3 11 = lit ''[REDACTED:EMAIL:8]''" by (simp add: marker_def)
  have no: "regex_like_phone ?t 0 = []" "find_digit_sequences 13 19 ?t 0 = []"
    by (simp_all add: lit_def is_ascii_digit_def utf8_len_def)
  have d: "detect_pii ?al ?t = Some (Inr [\<lparr>pm_type = Email, pm_start = 3, pm_end = 11, pm_redacted = lit ''[REDACTED:EMAIL:8]''\<rparr>])"
    by (simp add: detect_pii_def at no email_match_def st en bl sl dot mk)
  have "\<forall>c \<in> set ?t. c < 0x80" by (simp add: lit_def)
  from redaction_exact [OF this, of ?al] d have "redact_text ?al ?t
      = Some (Inr (weave ?t 0 [\<lparr>pm_type = Email, pm_start = 3, pm_end = 11, pm_redacted = lit ''[REDACTED:EMAIL:8]''\<rparr>]))"
    by auto
  then show ?thesis by (simp add: lit_def)
qed

text \<open>
  redaction panics on card numbers: the digits of a card number are also matched as a telephone number, and the second of two
  overlapping matches is cut out with its bounds the wrong way round, so a text with a run of 13 to 19 digits aborts the program.
\<close>

theorem redaction_panics_on_cards:
  assumes "\<forall>c \<in> set (a @ ds @ b). c < 0x80"
    and "list_all is_ascii_digit ds" and "13 \<le> length ds" and "length ds \<le> 19"
    and "a = [] \<or> \<not> is_ascii_digit (last a)" and "b = [] \<or> \<not> is_ascii_digit (hd b)"
  shows "redact_text alnum (a @ ds @ b) = None"
proof -
  from detect_ascii [OF assms(1), of alnum] obtain ms where ms: "detect_pii alnum (a @ ds @ b) = Some (Inr ms)" by blast
  from phone_card_overlap [OF assms ms] redact_ascii [OF assms(1) ms] show ?thesis by simp
qed

theorem redaction_panics_on_cards_witness:
  "redact_text (\<lambda>c. False) (lit ''Card: '' @ lit ''4532015112830366'' @ []) = None"
  by (rule redaction_panics_on_cards) (simp_all add: lit_def is_ascii_digit_def)

text \<open>
  no malicious link goes unnoticed: wherever \<open>http://\<close> or \<open>https://\<close> stands in an ASCII text, even inside another
  link, if what follows up to the next white space, quote or angle bracket names a known malicious domain in any case, then checking the
  text reports a malicious link.
\<close>

theorem malicious_link_flagged:
  assumes "\<forall>c \<in> set (x @ p @ y). c < 0x80" and "p = lit ''http://'' \<or> p = lit ''https://''"
    and "lowers_ascii lower" and "d \<in> set known_malicious_domains"
    and "contains_str (lit d) (map lower_ascii (takeWhile (\<lambda>c. \<not> ends_url c) (p @ y)))"
  shows "\<exists>rs r. check_urls_in_text lower (x @ p @ y) = Inr rs \<and> r \<in> set rs \<and> ls_verdict r = LinkMalicious"
proof -
  let ?s = "x @ p @ y" and ?occ = "occurrences (lit ''https://'') (x @ p @ y) 0 @ occurrences (lit ''http://'') (x @ p @ y) 0"
  have hd: "hd p \<notin> set (tl p)" "p \<noteq> []" using assms(2) by (auto simp: lit_def)
  have u: "url_at ?s (length x) = takeWhile (\<lambda>c. \<not> ends_url c) (p @ y)" by (simp add: url_at_def)
  then have ne: "url_at ?s (length x) \<noteq> []" using assms(2) by (auto simp: lit_def ends_url_def is_whitespace_def in_range_def)
  have "(length x, p @ y) \<in> set ?occ" using occurrences_complete [OF hd assms(1), of 0] assms(2) by auto
  moreover have "\<forall>(j, rest) \<in> set ?occ. rest = drop j ?s"
    using occurrences_sound [OF _ assms(1), of _ _ _ 0] by (fastforce simp: lit_def)
  ultimately obtain z where z: "z @ url_at ?s (length x) \<in> set (extract_urls ?s)"
    using extract_covers [OF assms(1), of "[]" "[]" ?occ "length x" "p @ y"] ne
    by (auto simp: extract_urls_def ranges_match_def)
  let ?url = "z @ url_at ?s (length x)"
  have "\<forall>c \<in> set ?url. c < 0x80" using urls_from_text [OF z] assms(1) by blast
  with assms(3) have l: "lower ?url = map lower_ascii ?url" by (simp add: lowers_ascii_def)
  obtain v v' where "map lower_ascii (url_at ?s (length x)) = v @ lit d @ v'"
    using assms(5) unfolding u contains_str_iff by blast
  then have "lower ?url = (map lower_ascii z @ v) @ lit d @ v'" by (simp add: l)
  then have "contains_str (lit d) (lower ?url)" unfolding contains_str_iff by blast
  then obtain r where r: "check_url lower ?url = Inr r" "ls_verdict r = LinkMalicious"
    using check_url_malicious [OF assms(4)] by blast
  obtain rs where "check_urls_in_text lower ?s = Inr rs" "r \<in> set rs"
    using collect_check [OF z r(1)] by (auto simp: check_urls_in_text_def)
  with r(2) show ?thesis by blast
qed

theorem malicious_link_flagged_witness:
  "\<exists>rs r. check_urls_in_text (map lower_ascii) (lit ''see '' @ lit ''http://'' @ lit ''EVIL-phishing.example/x now'') = Inr rs
     \<and> r \<in> set rs \<and> ls_verdict r = LinkMalicious"
proof (rule malicious_link_flagged [where d = "''evil-phishing.example''"])
  have "map lower_ascii (takeWhile (\<lambda>c. \<not> ends_url c) (lit ''http://'' @ lit ''EVIL-phishing.example/x now''))
      = lit ''http://'' @ lit ''evil-phishing.example'' @ lit ''/x''"
    by (simp add: lit_def ends_url_def is_whitespace_def in_range_def lower_ascii_def)
  then show "contains_str (lit ''evil-phishing.example'')
      (map lower_ascii (takeWhile (\<lambda>c. \<not> ends_url c) (lit ''http://'' @ lit ''EVIL-phishing.example/x now'')))"
    unfolding contains_str_iff by blast
qed (simp_all add: lowers_ascii_def lit_def known_malicious_domains_def)

end
