(* ===== verification/FacadeProps.thy ===== *)
theory FacadeProps
  imports Facade CoreProps
begin

text \<open>
  What a client of the bindings sees: a message sent to a seeded conversation heads its timeline however its identifiers
  are spelled; through the Node binding it need not.
\<close>

section \<open>Writes of the facade\<close>

lemma sort_key_least:
  assumes "x \<in> set xs" and "\<And>y. y \<in> set xs \<Longrightarrow> y \<noteq> x \<Longrightarrow> (k x :: int) < k y"
  shows "\<exists>ys. sort_key k xs = x # ys"
proof (cases "sort_key k xs")
  case Nil
  with assms(1) show ?thesis by (metis set_sort empty_iff list.set(1))
next
  case (Cons y ys)
  have "sorted (map k (sort_key k xs))" by simp
  moreover have "x \<in> set (y # ys)" "y \<in> set xs" using assms(1) Cons by (metis set_sort, metis list.set_intros(1) set_sort)
  ultimately have "k y \<le> k x" using Cons by auto
  with assms(2) [OF \<open>y \<in> set xs\<close>] Cons show ?thesis by fastforce
qed

lemma db_exec_calm:
  assumes "calm s" and "f (st_fk s) (st_live s) = Inr t"
  shows "db_exec f s = (Inr (), both s t)" and "calm (both s t)"
  using assms by (auto simp: db_exec_def mapE_def exec_def calm_def settled_def quiet_def next_fault_def tick_def settle_def)

lemma seed_calm:
  assumes "calm s"
  shows "insert_conversation c s = (Inr (), both s (st_live s\<lparr>t_conv := upsert rc_id (conv_to_row c) (t_conv (st_live s))\<rparr>))"
  by (simp add: insert_conversation_def db_exec_calm(1) [OF assms] put_conv_def)

definition text_skeleton :: "uuid \<Rightarrow> int \<Rightarrow> uuid \<Rightarrow> ustr \<Rightarrow> uuid option \<Rightarrow> skel_row" where
  "text_skeleton i created u text r = skel_to_row (outbox_skeleton (create_outbox_entry i created u text r))"

lemma text_skeleton_fields [simp]:
  "rs_id (text_skeleton i created u text r) = i" "rs_conv (text_skeleton i created u text r) = u"
  "rs_created_ms (text_skeleton i created u text r) = created" "rs_deleted_ms (text_skeleton i created u text r) = None"
  by (simp_all add: text_skeleton_def skel_to_row_def outbox_skeleton_def create_outbox_entry_def)

lemma send_text_calm:
  assumes "calm s" and "text \<noteq> []" and "i \<notin> skel_ids s" and "st_fk s \<Longrightarrow> u \<in> rc_id ` set (t_conv (st_live s))"
  shows "send_text E i created now u text r s =
    (Inr i, both s (outbox_tables (ce_lower E) now (create_outbox_entry i created u text r) (st_live s)))"
  using outbox_eval [of s "ce_lower E" now "create_outbox_entry i created u text r"] assms
  by (auto simp: send_text_def Let_def thenA_def bindA_def mapE_def ret_def calm_def skel_ids_def outbox_spec_def
      create_outbox_entry_def)

lemma send_text_no_conversation:
  assumes "calm s" and "text \<noteq> []" and "i \<notin> skel_ids s" and "st_fk s" and "u \<notin> rc_id ` set (t_conv (st_live s))"
  shows "send_text E i created now u text r s = (Inl (CMessage (PStorage FkViolation)), s)"
  using outbox_eval [of s "ce_lower E" now "create_outbox_entry i created u text r"] assms
  by (auto simp: send_text_def Let_def thenA_def bindA_def mapE_def calm_def skel_ids_def outbox_spec_def
      create_outbox_entry_def)

definition shown_entry :: "uuid \<Rightarrow> int \<Rightarrow> uuid \<Rightarrow> ustr \<Rightarrow> uuid option \<Rightarrow> timeline_entry" where
  "shown_entry i created u text r =
     \<lparr>te_id = i, te_conv = u, te_sender = ''self'', te_created_ms = created, te_kind = ''text'', te_text = Some text,
      te_reply_to = r, te_edited_ms = None, te_deleted_ms = None\<rparr>"

lemma timeline_shows:
  assumes "settled s" and "text_skeleton i created u text r \<in> set (t_skel (st_live s))"
    and "\<And>x. x \<in> set (t_skel (st_live s)) \<Longrightarrow> rs_conv x = u \<Longrightarrow> rs_id x \<noteq> i \<Longrightarrow> rs_created_ms x < created"
    and "\<And>x. x \<in> set (t_skel (st_live s)) \<Longrightarrow> rs_id x = i \<Longrightarrow> x = text_skeleton i created u text r"
    and "row_of b_id i (t_body (st_live s)) = Some (plain_body i text)" and "0 < limit"
  shows "\<exists>es. facade_timeline conv u limit None s = (Inr (shown_entry i created u text r # es), s)"
proof -
  let ?x = "text_skeleton i created u text r"
  let ?rows = "filter (\<lambda>r. rs_conv r = u \<and> rs_deleted_ms r = None) (t_skel (st_live s))"
  have "?x \<in> set ?rows" using assms(2) by simp
  moreover have "- rs_created_ms ?x < - rs_created_ms y" if "y \<in> set ?rows" and "y \<noteq> ?x" for y
    using assms(3) [of y] assms(4) [of y] that by auto
  ultimately obtain ys where "sort_key (\<lambda>r. - rs_created_ms r) ?rows = ?x # ys"
    using sort_key_least [of ?x ?rows "\<lambda>r. - rs_created_ms r"] by blast
  then have "take limit (sort_key (\<lambda>r. - rs_created_ms r) ?rows) = ?x # take (limit - 1) ys"
    using assms(6) by (cases limit) simp_all
  moreover have "timeline_entry_of s (timeline_of_row ?x) = shown_entry i created u text r"
    using assms(1,5) by (simp add: timeline_entry_of_def timeline_of_row_def shown_entry_def text_skeleton_def skel_to_row_def
        outbox_skeleton_def create_outbox_entry_def fetch_body_def query_def read_view_settled plain_body_def kind_parse_def)
  ultimately show ?thesis
    using assms(1) by (simp add: facade_timeline_def storage_as_def mapE_def fetch_timeline_def query_def read_view_settled)
qed

text \<open>Bindings whose parser takes two spellings of one identifier, for the witnesses.\<close>

definition spelling_env :: "unit facade_env" where
  "spelling_env = \<lparr>fa_core = (sample_env toy_prims bare_manifest toy_gateway)
       \<lparr>ce_parse_uuid := (\<lambda>x. if x = ''C1'' \<or> x = ''c1'' then Some ''c1'' else None)\<rparr>,
     fa_uuid_error = (\<lambda>_. ''invalid character'')\<rparr>"

lemma spelling_parses [simp]:
  "ce_parse_uuid (fa_core spelling_env) ''C1'' = Some ''c1''" "ce_parse_uuid (fa_core spelling_env) ''c1'' = Some ''c1''"
  by (simp_all add: spelling_env_def)

lemma open_db_fk [simp]: "st_fk (open_db fk) = fk"
  by (simp add: open_db_def fresh_store_def)

section \<open>Properties\<close>

text \<open>
  C25: through the mobile bindings a sent message is seen: after seeding a conversation, sending a new text to it succeeds and
  its timeline then starts with that message and its text, if it is the most recent one, however differently the conversation's UUID is
  spelled in the three calls.
\<close>

theorem sent_text_heads_timeline:
  assumes "settled s" and "quiet s"
    and "ce_parse_uuid (fa_core F) c1 = Some u" and "ce_parse_uuid (fa_core F) c2 = Some u" and "ce_parse_uuid (fa_core F) c3 = Some u"
    and "opt_uuid_arg FfiInvalidInput F ''reply_to'' reply_to = Inr r"
    and "text \<noteq> []" and "i \<notin> rs_id ` set (t_skel (st_live s))"
    and "\<And>x. x \<in> set (t_skel (st_live s)) \<Longrightarrow> rs_conv x = u \<Longrightarrow> rs_created_ms x < created" and "limit \<noteq> Some 0"
  shows "\<exists>s1 s2 es. ffi_seed_conversation F seeded c1 title scope s = (Inr (), s1)
    \<and> ffi_send_text F i created now c2 text reply_to s1 = (Inr i, s2)
    \<and> ffi_get_timeline F c3 limit None s2 =
        (Inr (\<lparr>te_id = i, te_conv = u, te_sender = ''self'', te_created_ms = created, te_kind = ''text'', te_text = Some text,
               te_reply_to = r, te_edited_ms = None, te_deleted_ms = None\<rparr> # es), s2)"
proof -
  have calm: "calm s" using assms(1,2) by (simp add: calm_def)
  let ?row = "conv_to_row (seeded_conversation seeded u title scope)"
  let ?s1 = "both s (st_live s\<lparr>t_conv := upsert rc_id ?row (t_conv (st_live s))\<rparr>)"
  let ?e = "create_outbox_entry i created u text r"
  let ?s2 = "both ?s1 (outbox_tables (ce_lower (fa_core F)) now ?e (st_live ?s1))"
  have calm1: "calm ?s1" using calm by (simp add: calm_def settled_def quiet_def)
  have e: "oe_text ?e = text" "oe_id ?e = i" by (simp_all add: create_outbox_entry_def)
  have u: "u \<in> rc_id ` set (t_conv (st_live ?s1))"
    by (simp add: set_upsert seeded_conversation_def Let_def conversation_legacy_def split: option.split)
  have seed: "ffi_seed_conversation F seeded c1 title scope s = (Inr (), ?s1)"
    using assms(3) by (simp add: ffi_seed_conversation_def storage_as_def mapE_def seed_calm [OF calm] normalized_def)
  have i: "i \<notin> skel_ids ?s1" using assms(8) by (simp add: skel_ids_def)
  have core: "send_text (fa_core F) i created now u text r ?s1 = (Inr i, ?s2)"
    by (rule send_text_calm [OF calm1 assms(7) i u])
  have send: "ffi_send_text F i created now c2 text reply_to ?s1 = (Inr i, ?s2)"
    using assms(4,6) by (simp add: ffi_send_text_def facade_send_text_def with_arg_def uuid_arg_def mapE_def core)
  have sk: "t_skel (st_live ?s2) = upsert rs_id (text_skeleton i created u text r) (t_skel (st_live s))"
    using assms(7) e by (simp add: outbox_tables_rows text_skeleton_def)
  have bd: "row_of b_id i (t_body (st_live ?s2)) = Some (plain_body i text)"
    using assms(7) e by (simp add: outbox_tables_rows row_of_upsert plain_body_def)
  have settled: "settled ?s2" using assms(1) by (simp add: settled_def)
  have old: "x = text_skeleton i created u text r \<or> x \<in> set (t_skel (st_live s))" if "x \<in> set (t_skel (st_live ?s2))" for x
    using that unfolding sk by (auto simp: set_upsert)
  have "\<exists>es. facade_timeline ffi_of_core u (case limit of None \<Rightarrow> 50 | Some n \<Rightarrow> unat n) None ?s2
      = (Inr (shown_entry i created u text r # es), ?s2)"
  proof (rule timeline_shows [OF settled _ _ _ bd])
    show "text_skeleton i created u text r \<in> set (t_skel (st_live ?s2))" unfolding sk by (simp add: set_upsert)
    show "rs_created_ms x < created" if "x \<in> set (t_skel (st_live ?s2))" "rs_conv x = u" "rs_id x \<noteq> i" for x
      using old [OF that(1)] that(2,3) assms(9) [of x] text_skeleton_fields(1) [of i created u "text" r] by metis
    show "x = text_skeleton i created u text r" if "x \<in> set (t_skel (st_live ?s2))" "rs_id x = i" for x
      using old [OF that(1)] that(2) assms(8) by auto
    show "0 < (case limit of None \<Rightarrow> 50 | Some n \<Rightarrow> unat n)"
      using assms(10) by (auto split: option.split simp: unat_gt_0)
  qed
  then obtain es where "facade_timeline ffi_of_core u (case limit of None \<Rightarrow> 50 | Some n \<Rightarrow> unat n) None ?s2
      = (Inr (shown_entry i created u text r # es), ?s2)" ..
  then have "ffi_get_timeline F c3 limit None ?s2 = (Inr (shown_entry i created u text r # es), ?s2)"
    using assms(5) by (simp add: ffi_get_timeline_def normalized_def)
  with seed send show ?thesis unfolding shown_entry_def by blast
qed

theorem sent_text_heads_timeline_witness:
  "\<exists>s1 s2 es. ffi_seed_conversation spelling_env 1 ''C1'' (Some (lit ''Team'')) None (open_db True) = (Inr (), s1)
    \<and> ffi_send_text spelling_env ''m1'' 7 8 ''c1'' (lit ''hello'') None s1 = (Inr ''m1'', s2)
    \<and> ffi_get_timeline spelling_env ''C1'' None None s2 =
        (Inr (\<lparr>te_id = ''m1'', te_conv = ''c1'', te_sender = ''self'', te_created_ms = 7, te_kind = ''text'',
               te_text = Some (lit ''hello''), te_reply_to = None, te_edited_ms = None, te_deleted_ms = None\<rparr> # es), s2)"
  by (rule sent_text_heads_timeline [OF open_facts(1,2) spelling_parses(1,2,1), of None None])
    (simp_all add: opt_uuid_arg_def empty_tables_def lit_def)

text \<open>
  through the Node binding it need not be: seeding takes the identifier as it is spelled, sending its canonical form, so
  that with enforced foreign keys sending a text to a conversation just seeded under another spelling fails.
\<close>

theorem node_seed_unreachable:
  assumes "settled s" and "quiet s" and "st_fk s"
    and "ce_parse_uuid (fa_core F) cid = Some u" and "u \<noteq> cid" and "u \<notin> rc_id ` set (t_conv (st_live s))"
    and "text \<noteq> []" and "i \<notin> rs_id ` set (t_skel (st_live s))"
  shows "\<exists>s1. js_seed_conversation F seeded cid title scope s = (Inr (), s1)
    \<and> js_send_text F i created now cid text None s1
      = (Inl \<lparr>ne_status = GenericFailure, ne_reason = ReasonOf (CMessage (PStorage FkViolation))\<rparr>, s1)"
proof -
  have calm: "calm s" using assms(1,2) by (simp add: calm_def)
  let ?row = "conv_to_row (seeded_conversation seeded cid title scope)"
  let ?s1 = "both s (st_live s\<lparr>t_conv := upsert rc_id ?row (t_conv (st_live s))\<rparr>)"
  have calm1: "calm ?s1" using calm by (simp add: calm_def settled_def quiet_def)
  have "rc_id ?row = cid" by (simp add: seeded_conversation_def Let_def conversation_legacy_def split: option.split)
  then have u: "u \<notin> rc_id ` set (t_conv (st_live ?s1))" using assms(5,6) by (auto simp: set_upsert)
  have "js_seed_conversation F seeded cid title scope s = (Inr (), ?s1)"
    by (simp add: js_seed_conversation_def storage_as_def mapE_def seed_calm [OF calm])
  moreover have core: "send_text (fa_core F) i created now u text None ?s1 = (Inl (CMessage (PStorage FkViolation)), ?s1)"
    using assms(3,8) by (intro send_text_no_conversation [OF calm1 assms(7) _ _ u]) (simp_all add: skel_ids_def)
  have "js_send_text F i created now cid text None ?s1
      = (Inl \<lparr>ne_status = GenericFailure, ne_reason = ReasonOf (CMessage (PStorage FkViolation))\<rparr>, ?s1)"
    using assms(4)
    by (simp add: js_send_text_def facade_send_text_def with_arg_def uuid_arg_def opt_uuid_arg_def mapE_def
        to_napi_error_def core)
  ultimately show ?thesis by blast
qed

theorem node_seed_unreachable_witness:
  "\<exists>s1. js_seed_conversation spelling_env 1 ''C1'' (Some (lit ''Team'')) None (open_db True) = (Inr (), s1)
    \<and> js_send_text spelling_env ''m1'' 7 8 ''C1'' (lit ''hello'') None s1
      = (Inl \<lparr>ne_status = GenericFailure, ne_reason = ReasonOf (CMessage (PStorage FkViolation))\<rparr>, s1)"
  by (rule node_seed_unreachable [OF open_facts(1,2) _ spelling_parses(1)]) (simp_all add: empty_tables_def lit_def)

end
