(* ===== verification/Spec2Isabelle.thy ===== *)
theory Spec2Isabelle
  imports Shards Dedup Device Formats EndToEnd SearchProps Models Durability ChatLog Deletion Knowledge FacadeProps
begin

text \<open>
  Verification of the chat-storage core: the Rust crate \<open>crates/cs-core\<close> that keeps the messages of an end-to-end
  encrypted chat client in a local SQLCipher database, searches them, and moves them to and from a gateway as encrypted
  archive segments, backups and media blobs. All file names below are relative to \<open>crates/cs-core/src\<close>.

  \<^bold>\<open>The parts and how they interact.\<close> A \<open>CoreImpl\<close> (\<open>core_impl.rs\<close>, theory \<open>Core\<close>) owns one database, one transport, one
  wrapping key and one backup coordinator. Messages enter through \<open>ingest_remote_messages\<close> (a page of the gateway, each
  message through the message pipeline) and \<open>send_text\<close> / \<open>send_media\<close>; they are found again through the query engine; they
  leave through the backup engine, and the offload engine picks what may be dropped locally; the restore pipeline
  replaces the whole database by what the backups hold. All keys are derived from the wrapping key.

  \<^bold>\<open>The theories\<close>, in the order of their imports.
  \<^item> \<open>Prelude\<close>: byte strings, \<open>String\<close> as lists of \<open>char\<close> code points (\<open>ustr\<close>) or of ASCII characters (\<open>string\<close>),
    decimal numbers, the locale \<open>keyed_table\<close> (a table with a primary key as a list in rowid order).
  \<^item> \<open>StateMachines\<close>: the five state enums, their column strings and \<open>try_transition\<close>
    (\<open>local_store/state_machines.rs\<close>, \<open>restore/state_machine.rs\<close>); locales \<open>column_codec\<close>, \<open>wire_enum\<close>,
    \<open>linear_lifecycle\<close>, interpreted on every enum.
  \<^item> \<open>Schema\<close>: row types and stored enums (\<open>local_store/schema.rs\<close>, \<open>local_store/mod.rs\<close>).
  \<^item> \<open>Store\<close>: the SQLite connection: committed and working tables, transactions and savepoints, driver faults on demand, and
    the locales \<open>savepoint_body\<close> and \<open>durable_body\<close> that every transactional operation instantiates. The locales
    \<open>action_relation\<close> and \<open>store_relation\<close> say once what it takes for an operation to respect a relation between the stores
    before and after.
  \<^item> \<open>LocalStore\<close>: every method of \<open>LocalStoreDb\<close> (\<open>local_store/db.rs\<close>); \<open>StoreRelation\<close>: the relations that its
    statements respect (locales \<open>message_relation\<close>, \<open>table_relation\<close>, \<open>clearing_relation\<close>, \<open>table_order\<close>) and their
    instances: rows that stay, journal numbers that keep their event, everything committed while no savepoint is open; \<open>StoreInvariant\<close>: the invariant \<open>tables_wf\<close> and the methods
    that keep it.
  \<^item> \<open>Tokenizer\<close>, \<open>Messages\<close>: \<open>search/tokenizer.rs\<close> and the message pipeline \<open>message/processor.rs\<close>; \<open>MessageProps\<close>: its
    functional behaviour on every branch, crash atomicity, index synchrony, and preservation of the invariant;
    \<open>ChatLog\<close>: an abstract chat log, and the refinement of it by the pipeline; \<open>Deletion\<close>: deleted messages stay out of
    the indexes.
  \<^item> \<open>Levenshtein\<close>, \<open>Search\<close>, \<open>ShardCache\<close>: \<open>search/\<close>: the two-row edit distance against the recursive definition and
    against edit scripts, the FTS query sanitizer, full-text, fuzzy and unified search, and the LRU shard cache.
  \<^item> \<open>Cbor\<close>: the strict CBOR facade, heads and the fixed encoders (\<open>cbor.rs\<close>, \<open>util.rs\<close>), locale \<open>stream_codec\<close>.
  \<^item> \<open>KeyBridge\<close>, \<open>Convergent\<close>, \<open>Manifests\<close>: \<open>crypto/\<close>, \<open>formats/\<close>, \<open>restore/manifest_verifier.rs\<close>: key derivation, epoch
    rotation, key wrapping; convergent encryption of chunk streams; manifests, their signatures and the chain check.
  \<^item> \<open>Transport\<close>: \<open>transport/\<close>: the circuit breaker, the retry loop, every HTTP endpoint, the request coalescer and the
    offline queue.
  \<^item> \<open>Archive\<close>, \<open>Backup\<close>, \<open>Restore\<close>, \<open>Offload\<close>: \<open>archive/\<close>, \<open>backup/\<close>, \<open>restore/pipeline.rs\<close>, \<open>offload/\<close>, over an abstract gateway (the
    record \<open>gateway\<close>: one function per method of the trait \<open>ChatStorageTransport\<close>, over a state of its own).
  \<^item> \<open>Core\<close>: \<open>CoreImpl\<close> and the media functions it calls; \<open>CoreProps\<close>: what the composition guarantees;
    \<open>Durability\<close>: runs of the core under faults, crashes and restores.
  \<^item> \<open>Knowledge\<close>: \<open>knowledge/\<close>: detection and redaction of personal data, link checks, threat analysis, classification.
  \<^item> \<open>Facade\<close>: \<open>config.rs\<close> and the bindings \<open>cs-core-uniffi\<close> and \<open>cs-core-napi\<close>; \<open>FacadeProps\<close>: what their clients see.
  \<^item> \<open>Semantic\<close>, \<open>Models\<close>: \<open>search/semantic_search.rs\<close> (embeddings, their similarity, the search), and \<open>models/\<close> without and with the
    feature \<open>ml\<close>.
  \<^item> \<open>Shards\<close>: \<open>formats/search_shard.rs\<close>, \<open>search/shard_builder.rs\<close>, cold sources, prefetching and the coordinator's queue; locale
    \<open>shard_kind\<close>.
  \<^item> \<open>Kdrive\<close>, \<open>Dedup\<close>: the HTTP endpoints as a gateway (\<open>transport/kdrive_bridge.rs\<close>, \<open>auto_transport.rs\<close>) and the deduplication
    bridge (\<open>transport/dedup_bridge.rs\<close>).
  \<^item> \<open>MediaCache\<close>, \<open>Device\<close>: a disk with I/O faults, the cache of media files (\<open>media/cache.rs\<close>), and registration of devices with its
    vault file (\<open>core_impl.rs\<close> and the bindings).
  \<^item> \<open>Formats\<close>: the rest of \<open>crypto/\<close> and \<open>formats/\<close> (AEADs by name, streaming hashes, key encodings, signatures over encoded
    manifests), tenants, stubs of \<open>media/\<close>, jobs, the size of the database; locales \<open>aead\<close> and \<open>sized_key\<close>.
  \<^item> \<open>SearchProps\<close>, \<open>EndToEnd\<close>: components together: the fuzzy search finds what was ingested and results are messages of the
    store; what was archived over HTTP stays readable while epoch keys are rotated, and posted search shards are found.

  \<^bold>\<open>How code and model correspond.\<close> A struct is a \<open>record\<close>, an enum a \<open>datatype\<close>, a method a definition of the same name
  over explicit state. \<open>Result<T, E>\<close> is \<open>E + T\<close>; a panic is \<open>None\<close> of an outer option. A database operation has type
  \<open>(storage_error, 'a) act\<close> and is composed with \<open>bindA\<close>. A table is the list of its rows in rowid order;
  \<open>INSERT OR REPLACE\<close>, \<open>INSERT OR IGNORE\<close>, \<open>ON CONFLICT\<close>, cascades and ordering are written out. \<open>i64\<close> columns are \<open>int\<close>;
  \<open>u64\<close> counters, sizes and generations are \<open>64 word\<close>, with the wrap-around of a release build; \<open>nat\<close> is used where the code counts
  the elements of a list or bytes it holds, and for the numbers of archive epochs, which come from the clock and go up by one for
  a month. A store carries a schedule of driver faults: every statement that writes and every savepoint statement consults it, so a
  theorem over all stores is one over all such faults; \<open>quiet\<close> is the hypothesis that none is left. A query does not fail. A failed
  statement leaves the tables and the savepoints as they were: SQLite's own rollback of a whole transaction on an I/O error or a
  full disk is not represented. A crash keeps only \<open>st_committed\<close>. \<open>settled\<close> says that no savepoint is open and everything is committed,
  as it is after opening the database; only a rollback that fails leaves a savepoint open, until the database is opened again.

  \<^bold>\<open>What the groups of theorems show.\<close> Store and messages: nothing of a failed write is ever committed, the full-text
  index holds exactly the indexed texts, a repeated delivery changes nothing. The pipeline refines the abstract chat log: without
  faults exactly, under faults and crashes
  with exactly the operations that reported success and found no savepoint open, none of them done by halves. A deleted message stays
  out of the indexes. Runs of the core: every run keeps the tables well formed, a message that was acknowledged with no savepoint
  open is lost only by a restore or a clearing, a page delivered again adds nothing, a number of the journal never gets a second
  event; but after a rollback that failed, the message operations report success and commit nothing. Search: what is returned is a message
  of the store that is not deleted and passes the filters, substrings are found, user input cannot become query syntax. Cryptographic formats: round trips, exact acceptance, separation of keys and
  of associated data, authenticity of manifests, a chain head fixes its history. Transport: the retry loop refines the
  protocol it documents, the breaker opens and closes when it should. Engines: segments open again, manifests form
  one chain, streamed batches cover the store, an incremental backup marks what the gateway has accepted and nothing else, an eviction plan is a shortest one, a restore is all or nothing and replaces the
  messages by exactly what the server holds.
  Shards of the search index open as what they are and as nothing else, and are found again under their keys; the media cache keeps its budget; every call of the
  transport returns; a registration keeps the keys of the vault. Further theorems show where
  the code departs from its documentation; each is listed with the line it concerns.

  \<^bold>\<open>Parameters.\<close> Code outside the repository is an argument: the record \<open>prims\<close> of cryptographic primitives (AEADs, HKDF,
  hashes, AES key wrap, signatures), codecs (serde CBOR and JSON, zstd), the FTS5 \<open>MATCH\<close> and its ranking, Unicode lower
  casing, square roots, the clock, random bytes and UUIDs, \<open>HashMap\<close> iteration order, the HTTP host, the size of the database file. What
  a theorem needs of one (a decoder that inverts its encoder, an AEAD that opens what it sealed, a hash without collisions) is a
  named hypothesis, and the witness of the theorem instantiates it with a concrete function.

  \<^bold>\<open>Termination and bounds.\<close> No fuel is used: the streaming backup terminates because one of two offsets passes the end of its
  table, the retry loop by the attempts left, the readers of framed streams by the bytes left. Constants (batch size 200,
  100 pending segments, 50 results, 5 failures, 30 seconds) are those of the code.

  \<^bold>\<open>Not modelled, and why.\<close> Inference of machine-learning models happens in external runtimes: the
  functions of \<open>models/\<close> are modelled as they are without and with the feature \<open>ml\<close>, over a parameter for the runtime.
  The checkpoints of the database file and connection settings have no effect the model could state; tables that no operation reads or writes are left out; the text of SQL is represented by
  the table operations it denotes; a poisoned mutex (a panic in another thread) is not represented; floating-point scores are
  rationals. The disk of the media cache has files but no directories, so a path into a directory that does not exist fails only as
  an I/O fault. Random keys and nonces are drawn by libraries and are arguments.
\<close>

end
